(* ===== verification/JsPrelude.thy ===== *)
theory JsPrelude
  imports Main "HOL-Library.Code_Target_Nat"
begin

text \<open>
  Strings and numbers of the scripting language, as the page scripts use them.

  A JavaScript string is a list of UTF-16 code units. A code unit is a \<open>nat\<close> here: the
  scripts copy and compare code units and never compute with them, so the 16-bit bound plays no
  part. ASCII literals are written \<open>js ''...''\<close>; the Chinese texts of the page are lists of
  code units. The operations below are those of \<open>String.prototype\<close> with the arguments the
  scripts pass: an index that the language reports as \<open>-1\<close> is \<open>None\<close>.

  The theory also holds the collections of simplification rules the components share.
\<close>

named_theorems js_eval \<open>definitions that a concrete evaluation unfolds\<close>

named_theorems js_text \<open>equations about the text operations\<close>

type_synonym cu = nat

type_synonym jstr = "nat list"

definition js :: "string \<Rightarrow> jstr" where
  [js_eval]: "js s = map of_char s"

lemma js_append [js_text]: "js (s @ t) = js s @ js t"
  by (simp add: js_def)

lemma length_js [simp]: "length (js s) = length s"
  by (simp add: js_def)

lemma js_Nil [simp]: "js [] = []"
  by (simp add: js_def)

section \<open>Character classes\<close>

text \<open>\<open>\s\<close> of a regular expression: white space and line terminators.\<close>

definition is_ws :: "cu \<Rightarrow> bool" where
  [js_eval]: "is_ws c \<longleftrightarrow> (9 \<le> c \<and> c \<le> 13) \<or> c = 32 \<or> c = 160 \<or> c = 5760
     \<or> (8192 \<le> c \<and> c \<le> 8202) \<or> c = 8232 \<or> c = 8233 \<or> c = 8239 \<or> c = 8287 \<or> c = 12288 \<or> c = 65279"

definition is_digit :: "cu \<Rightarrow> bool" where
  [js_eval]: "is_digit c \<longleftrightarrow> 48 \<le> c \<and> c \<le> 57"

definition is_upper :: "cu \<Rightarrow> bool" where
  [js_eval]: "is_upper c \<longleftrightarrow> 65 \<le> c \<and> c \<le> 90"

definition is_lower :: "cu \<Rightarrow> bool" where
  [js_eval]: "is_lower c \<longleftrightarrow> 97 \<le> c \<and> c \<le> 122"

text \<open>\<open>\w\<close> of a regular expression.\<close>

definition is_word :: "cu \<Rightarrow> bool" where
  [js_eval]: "is_word c \<longleftrightarrow> is_digit c \<or> is_upper c \<or> is_lower c \<or> c = 95"

text \<open>A line terminator: what the dot of a regular expression does not match.\<close>

definition is_lineterm :: "cu \<Rightarrow> bool" where
  [js_eval]: "is_lineterm c \<longleftrightarrow> c \<in> {10, 13, 8232, 8233}"

text \<open>
  \<open>toLowerCase\<close> and \<open>toUpperCase\<close> on the ASCII letters; the scripts lower-case
  language names, tag names and the user agent and compare them with ASCII literals.
\<close>

definition lower_cu :: "cu \<Rightarrow> cu" where
  [js_eval]: "lower_cu c = (if is_upper c then c + 32 else c)"

definition upper_cu :: "cu \<Rightarrow> cu" where
  [js_eval]: "upper_cu c = (if is_lower c then c - 32 else c)"

definition to_lower :: "jstr \<Rightarrow> jstr" where
  [js_eval]: "to_lower s = map lower_cu s"

definition to_upper :: "jstr \<Rightarrow> jstr" where
  [js_eval]: "to_upper s = map upper_cu s"

lemma lower_cu_idem [simp]: "lower_cu (lower_cu c) = lower_cu c"
  by (auto simp: lower_cu_def is_upper_def)

lemma to_lower_idem [simp]: "to_lower (to_lower s) = to_lower s"
  by (simp add: to_lower_def)

lemma length_to_lower [simp]: "length (to_lower s) = length s"
  by (simp add: to_lower_def)

section \<open>Searching\<close>

fun starts_with :: "jstr \<Rightarrow> jstr \<Rightarrow> bool" where
  "starts_with [] s = True"
| "starts_with (p # ps) [] = False"
| "starts_with (p # ps) (c # s) = (p = c \<and> starts_with ps s)"

lemma starts_with_iff: "starts_with p s \<longleftrightarrow> (\<exists>t. s = p @ t)"
  by (induction p s rule: starts_with.induct) auto

lemma starts_with_append [simp]: "starts_with p (p @ s)"
  by (auto simp: starts_with_iff)

lemma starts_with_take: "starts_with p s \<longleftrightarrow> take (length p) s = p"
  by (induction p s rule: starts_with.induct) auto

lemma starts_with_length: "starts_with p s \<Longrightarrow> length p \<le> length s"
  by (auto simp: starts_with_iff)

text \<open>The position of the first occurrence of \<open>p\<close>, if there is one.\<close>

fun find_sub :: "jstr \<Rightarrow> jstr \<Rightarrow> nat option" where
  "find_sub p [] = (if p = [] then Some 0 else None)"
| "find_sub p (c # s) =
     (if starts_with p (c # s) then Some 0 else map_option Suc (find_sub p s))"

lemma find_sub_Some_starts: "find_sub p s = Some i \<Longrightarrow> starts_with p (drop i s)"
  by (induction p s arbitrary: i rule: find_sub.induct) (auto split: if_splits)

lemma find_sub_minimal: "find_sub p s = Some i \<Longrightarrow> j < i \<Longrightarrow> \<not> starts_with p (drop j s)"
proof (induction p s arbitrary: i j rule: find_sub.induct)
  case (2 p c s)
  then show ?case by (cases j) (auto split: if_splits)
qed (auto split: if_splits)

lemma find_sub_SomeD:
  assumes "find_sub p s = Some i"
  shows "s = take i s @ p @ drop (i + length p) s"
proof -
  have "starts_with p (drop i s)" using assms by (rule find_sub_Some_starts)
  then obtain t where t: "drop i s = p @ t" by (auto simp: starts_with_iff)
  then have "t = drop (length p) (drop i s)" by simp
  then have "t = drop (i + length p) s" by (simp only: drop_drop add.commute)
  with t show ?thesis by (metis append_take_drop_id)
qed

lemma find_sub_bound: "find_sub p s = Some i \<Longrightarrow> i + length p \<le> length s"
proof (induction p s arbitrary: i rule: find_sub.induct)
  case (2 p c s)
  show ?case
  proof (cases "starts_with p (c # s)")
    case True
    with 2 show ?thesis by (auto dest: starts_with_length)
  next
    case False
    with 2 show ?thesis by fastforce
  qed
qed (auto split: if_splits)

lemma find_sub_append: "find_sub p (a @ p @ b) \<noteq> None"
proof (induction a)
  case Nil
  show ?case
  proof (cases "p @ b")
    case (Cons x xs)
    then have "starts_with p (x # xs)" by (metis starts_with_append)
    then show ?thesis using Cons by simp
  qed simp
qed auto

lemma find_sub_None_iff: "find_sub p s = None \<longleftrightarrow> (\<nexists>a b. s = a @ p @ b)"
proof
  assume "find_sub p s = None"
  then show "\<nexists>a b. s = a @ p @ b" using find_sub_append by blast
next
  assume "\<nexists>a b. s = a @ p @ b"
  then show "find_sub p s = None"
    by (metis find_sub_SomeD not_Some_eq)
qed

definition index_of :: "jstr \<Rightarrow> jstr \<Rightarrow> nat option" where
  [js_eval]: "index_of p s = find_sub p s"

text \<open>\<open>s.indexOf(p) >= 0\<close>.\<close>

definition contains :: "jstr \<Rightarrow> jstr \<Rightarrow> bool" where
  [js_eval]: "contains p s \<longleftrightarrow> find_sub p s \<noteq> None"

lemma contains_iff: "contains p s \<longleftrightarrow> (\<exists>a b. s = a @ p @ b)"
  using find_sub_None_iff[of p s] by (auto simp: contains_def)

lemma find_sub_single: "c \<notin> set a \<Longrightarrow> find_sub [c] (a @ s) = map_option ((+) (length a)) (find_sub [c] s)"
  by (induction a; cases "find_sub [c] s") auto

lemma find_sub_single_first: "find_sub [c] s = Some i \<Longrightarrow> c \<notin> set (take i s)"
  by (induction s arbitrary: i) (auto split: if_splits)

definition index_of_from :: "jstr \<Rightarrow> jstr \<Rightarrow> nat \<Rightarrow> nat option" where
  [js_eval]: "index_of_from p s i =
     (let i' = min i (length s) in map_option ((+) i') (find_sub p (drop i' s)))"

definition last_index_of :: "jstr \<Rightarrow> jstr \<Rightarrow> nat option" where
  [js_eval]: "last_index_of p s =
     map_option (\<lambda>i. length s - (i + length p)) (find_sub (rev p) (rev s))"

section \<open>Slicing\<close>

text \<open>\<open>substring\<close> clamps both arguments to the string and swaps them when they are out of order.\<close>

definition substring :: "jstr \<Rightarrow> nat \<Rightarrow> nat \<Rightarrow> jstr" where
  [js_eval]: "substring s i j =
     (let i' = min i (length s); j' = min j (length s); lo = min i' j'; hi = max i' j'
      in take (hi - lo) (drop lo s))"

definition substring_from :: "jstr \<Rightarrow> nat \<Rightarrow> jstr" where
  [js_eval]: "substring_from s i = drop i s"

text \<open>\<open>substr(start, count)\<close>: a negative start counts from the end, a negative count is empty.\<close>

definition substr :: "jstr \<Rightarrow> int \<Rightarrow> int \<Rightarrow> jstr" where
  [js_eval]: "substr s i n =
     (let st = (if i < 0 then max 0 (int (length s) + i) else i)
      in take (nat n) (drop (nat st) s))"

lemma length_substring_le: "length (substring s i j) \<le> length s"
  unfolding substring_def Let_def by (rule order_trans[of _ "length (drop (min (min i (length s)) (min j (length s))) s)"]) simp_all

lemma substring_0: "substring s 0 j = take j s"
  by (simp add: substring_def Let_def min_def)

lemma substr_nat: "substr s (int i) (int n) = take n (drop i s)"
  by (simp add: substr_def)

lemma substr_neg_count: "n \<le> 0 \<Longrightarrow> substr s i n = []"
  by (simp add: substr_def)

text \<open>\<open>$.trim\<close>, and \<open>String.prototype.trim\<close>.\<close>

definition ltrim :: "jstr \<Rightarrow> jstr" where
  [js_eval]: "ltrim s = dropWhile is_ws s"

definition trim :: "jstr \<Rightarrow> jstr" where
  [js_eval]: "trim s = rev (ltrim (rev (ltrim s)))"

lemma trim_Nil [simp]: "trim [] = []"
  by (simp add: trim_def ltrim_def)

lemma dropWhile_id: "t = [] \<or> \<not> P (hd t) \<Longrightarrow> dropWhile P t = t"
  by (cases t) auto

lemma hd_ltrim: "ltrim s = [] \<or> \<not> is_ws (hd (ltrim s))"
  unfolding ltrim_def using hd_dropWhile by blast

lemma hd_trim: "trim s = [] \<or> \<not> is_ws (hd (trim s))"
proof (cases "ltrim s")
  case (Cons a t)
  then have a: "\<not> is_ws a" using hd_ltrim[of s] by simp
  have "dropWhile is_ws (rev t @ [a]) = dropWhile is_ws (rev t) @ [a]"
    using a by (simp add: dropWhile_append)
  then show ?thesis using Cons a by (simp add: trim_def ltrim_def)
next
  case Nil
  then show ?thesis unfolding trim_def by (simp only: rev.simps ltrim_def dropWhile.simps) simp
qed

lemma trim_idem [simp]: "trim (trim s) = trim s"
proof -
  have "ltrim (trim s) = trim s"
    unfolding ltrim_def by (rule dropWhile_id) (rule hd_trim)
  then show ?thesis
    unfolding trim_def ltrim_def by simp
qed

lemma set_trim: "set (trim s) \<subseteq> set s"
  unfolding trim_def ltrim_def by (auto dest!: set_dropWhileD)

lemma length_trim: "length (trim s) \<le> length s"
  unfolding trim_def ltrim_def
  by (metis length_dropWhile_le length_rev order_trans)

section \<open>Splitting and joining\<close>

text \<open>\<open>s.split(c)\<close> for a separator of one code unit.\<close>

fun split_cu :: "cu \<Rightarrow> jstr \<Rightarrow> jstr list" where
  "split_cu c [] = [[]]"
| "split_cu c (x # xs) =
     (if x = c then [] # split_cu c xs
      else (case split_cu c xs of [] \<Rightarrow> [[x]] | y # ys \<Rightarrow> (x # y) # ys))"

fun join :: "jstr \<Rightarrow> jstr list \<Rightarrow> jstr" where
  "join sep [] = []"
| "join sep [x] = x"
| "join sep (x # y # ys) = x @ sep @ join sep (y # ys)"

lemma split_cu_nonempty [simp]: "split_cu c s \<noteq> []"
  by (induction s) (auto split: list.splits)

lemma join_Cons: "ys \<noteq> [] \<Longrightarrow> join sep (x # ys) = x @ sep @ join sep ys"
  by (cases ys) auto

lemma join_split_cu [js_text]: "join [c] (split_cu c s) = s"
proof (induction s)
  case (Cons x xs)
  obtain y ys where yys: "split_cu c xs = y # ys" by (meson list.exhaust split_cu_nonempty)
  show ?case
  proof (cases "x = c")
    case True
    then show ?thesis using Cons yys by simp
  next
    case False
    then show ?thesis using Cons yys by (cases ys) auto
  qed
qed simp

lemma split_cu_no_sep: "c \<notin> set s \<Longrightarrow> split_cu c s = [s]"
  by (induction s) auto

lemma split_cu_append_sep:
  "c \<notin> set a \<Longrightarrow> split_cu c (a @ c # s) = a # split_cu c s"
  by (induction a) auto

lemma split_cu_join [js_text]:
  "xs \<noteq> [] \<Longrightarrow> \<forall>x \<in> set xs. c \<notin> set x \<Longrightarrow> split_cu c (join [c] xs) = xs"
proof (induction "[c]" xs rule: join.induct)
  case (2 x)
  then show ?case by (simp add: split_cu_no_sep)
next
  case (3 x y ys)
  then show ?case by (simp add: split_cu_append_sep)
qed simp

lemma split_cu_pieces: "x \<in> set (split_cu c s) \<Longrightarrow> c \<notin> set x"
proof (induction s arbitrary: x)
  case (Cons a s)
  then show ?case by (cases "split_cu c s") (auto split: if_splits)
qed simp

text \<open>\<open>s.split(sep)\<close> for a longer separator: the pieces between the occurrences, from the left.\<close>

function split_str :: "jstr \<Rightarrow> jstr \<Rightarrow> jstr list" where
  "split_str sep s =
     (if sep = [] then map (\<lambda>c. [c]) s
      else case find_sub sep s of None \<Rightarrow> [s]
      | Some i \<Rightarrow> take i s # split_str sep (drop (i + length sep) s))"
  by pat_completeness auto
termination
proof (relation "measure (\<lambda>(sep, s). length s)", goal_cases)
  case (2 sep s i)
  then show ?case using find_sub_bound[of sep s i] by (cases sep) auto
qed simp

declare split_str.simps [simp del]

lemma join_split_str: "sep \<noteq> [] \<Longrightarrow> join sep (split_str sep s) = s"
proof (induction sep s rule: split_str.induct)
  case (1 sep s)
  show ?case
  proof (cases "find_sub sep s")
    case None
    then show ?thesis using 1 by (subst split_str.simps) simp
  next
    case (Some i)
    have ne: "split_str sep (drop (i + length sep) s) \<noteq> []"
      using 1(2) by (subst split_str.simps) (auto split: option.splits)
    have "join sep (split_str sep s) = take i s @ sep @ drop (i + length sep) s"
      using 1 Some by (subst split_str.simps) (simp add: join_Cons[OF ne])
    then show ?thesis using find_sub_SomeD[OF Some] by simp
  qed
qed

section \<open>Replacement text\<close>

text \<open>
  The replacement argument of \<open>String.prototype.replace\<close> is a template: \<open>$$\<close> is a dollar,
  \<open>$&\<close> the match, \<open>$`\<close> what precedes it, \<open>$'\<close> what follows it, \<open>$n\<close> and \<open>$nn\<close> the
  capture (empty if it did not take part), and any other dollar is a dollar. \<open>caps\<close> is the list of
  the captures; an \<open>n\<close> of which there is no capture leaves the text as it stands.
\<close>

definition digit_val :: "cu \<Rightarrow> nat" where
  [js_eval]: "digit_val c = c - 48"

fun expand_repl :: "jstr \<Rightarrow> jstr \<Rightarrow> jstr \<Rightarrow> jstr option list \<Rightarrow> jstr \<Rightarrow> jstr" where
  "expand_repl m pre post caps [] = []"
| "expand_repl m pre post caps [c] = [c]"
| "expand_repl m pre post caps (c # d # t) =
     (if c \<noteq> 36 then c # expand_repl m pre post caps (d # t)
      else if d = 36 then 36 # expand_repl m pre post caps t
      else if d = 38 then m @ expand_repl m pre post caps t
      else if d = 96 then pre @ expand_repl m pre post caps t
      else if d = 39 then post @ expand_repl m pre post caps t
      else if is_digit d then
        (let one = digit_val d;
             two = (case t of [] \<Rightarrow> 0 | e # _ \<Rightarrow> if is_digit e then 10 * one + digit_val e else 0)
         in if 1 \<le> two \<and> two \<le> length caps
            then (case caps ! (two - 1) of None \<Rightarrow> [] | Some x \<Rightarrow> x) @ expand_repl m pre post caps (tl t)
            else if 1 \<le> one \<and> one \<le> length caps
            then (case caps ! (one - 1) of None \<Rightarrow> [] | Some x \<Rightarrow> x) @ expand_repl m pre post caps t
            else 36 # expand_repl m pre post caps (d # t))
      else 36 # expand_repl m pre post caps (d # t))"

text \<open>A replacement text with no dollar stands for itself.\<close>

lemma expand_repl_plain [js_text]: "36 \<notin> set t \<Longrightarrow> expand_repl m pre post caps t = t"
  by (induction m pre post caps t rule: expand_repl.induct) auto

text \<open>\<open>s.replace(p, r)\<close> with a string \<open>p\<close>: the first occurrence only.\<close>

definition replace_str :: "jstr \<Rightarrow> jstr \<Rightarrow> jstr \<Rightarrow> jstr" where
  [js_eval]: "replace_str s p r =
     (case find_sub p s of None \<Rightarrow> s
      | Some i \<Rightarrow> take i s @ expand_repl p (take i s) (drop (i + length p) s) [] r
                  @ drop (i + length p) s)"

lemma replace_str_absent: "\<not> contains p s \<Longrightarrow> replace_str s p r = s"
  by (auto simp: replace_str_def contains_def)

lemma replace_str_plain:
  assumes "find_sub p s = Some i" "36 \<notin> set r"
  shows "replace_str s p r = take i s @ r @ drop (i + length p) s"
  using assms by (simp add: replace_str_def expand_repl_plain)

lemma length_replace_str_plain:
  assumes "find_sub p s = Some i" "36 \<notin> set r"
  shows "length (replace_str s p r) + length p = length s + length r"
  using assms find_sub_bound[OF assms(1)] by (simp add: replace_str_plain)

section \<open>Numbers\<close>

text \<open>\<open>'' + n\<close> for a non-negative integer, and \<open>parseInt(s, 10)\<close> (\<open>None\<close> is NaN).\<close>

fun num_str :: "nat \<Rightarrow> jstr" where
  "num_str n = (if n < 10 then [48 + n] else num_str (n div 10) @ [48 + n mod 10])"

declare num_str.simps [simp del]

definition int_str :: "int \<Rightarrow> jstr" where
  [js_eval]: "int_str n = (if n < 0 then 45 # num_str (nat (- n)) else num_str (nat n))"

definition digits_val :: "jstr \<Rightarrow> nat" where
  [js_eval]: "digits_val ds = foldl (\<lambda>a d. 10 * a + digit_val d) 0 ds"

definition parse_int :: "jstr \<Rightarrow> int option" where
  [js_eval]: "parse_int s =
     (let t = ltrim s;
          neg = (t \<noteq> [] \<and> hd t = 45);
          u = (if t \<noteq> [] \<and> (hd t = 45 \<or> hd t = 43) then tl t else t);
          ds = takeWhile is_digit u
      in if ds = [] then None
         else Some (if neg then - int (digits_val ds) else int (digits_val ds)))"

lemma num_str_digits: "\<forall>c \<in> set (num_str n). is_digit c"
proof (induction n rule: num_str.induct)
  case (1 n)
  show ?case
    using 1 by (subst num_str.simps) (auto simp: is_digit_def)
qed

lemma num_str_nonempty [simp]: "num_str n \<noteq> []"
  by (subst num_str.simps) simp

lemma digits_val_num_str: "digits_val (num_str n) = n"
proof (induction n rule: num_str.induct)
  case (1 n)
  then show ?case
    by (subst num_str.simps) (auto simp: digits_val_def digit_val_def)
qed

lemma takeWhile_num_str: "takeWhile is_digit (num_str n) = num_str n"
  using num_str_digits[of n] by (simp add: takeWhile_eq_all_conv)

lemma parse_int_num_str [js_text]: "parse_int (num_str n) = Some (int n)"
proof -
  obtain d ds where d: "num_str n = d # ds" by (meson list.exhaust num_str_nonempty)
  then have dig: "is_digit d" using num_str_digits[of n] by simp
  then have "ltrim (num_str n) = num_str n"
    by (auto simp: d ltrim_def is_ws_def is_digit_def)
  moreover have "d \<noteq> 45 \<and> d \<noteq> 43" using dig by (auto simp: is_digit_def)
  moreover have "takeWhile is_digit (d # ds) = d # ds" "digits_val (d # ds) = n"
    using takeWhile_num_str[of n] digits_val_num_str[of n] d by simp_all
  ultimately show ?thesis
    using d by (simp add: parse_int_def Let_def)
qed

lemma num_str_inj: "num_str m = num_str n \<Longrightarrow> m = n"
  by (metis digits_val_num_str)

lemma num_str_no: "c < 48 \<or> 57 < c \<Longrightarrow> c \<notin> set (num_str n)"
  using num_str_digits[of n] by (force simp: is_digit_def)

section \<open>Percent encoding\<close>

definition is_hex :: "cu \<Rightarrow> bool" where
  [js_eval]: "is_hex c \<longleftrightarrow> is_digit c \<or> (65 \<le> c \<and> c \<le> 70) \<or> (97 \<le> c \<and> c \<le> 102)"

definition hex_val :: "cu \<Rightarrow> nat" where
  [js_eval]: "hex_val c = (if is_digit c then c - 48 else if c \<le> 70 then c - 55 else c - 87)"

definition hex_num :: "jstr \<Rightarrow> nat" where
  [js_eval]: "hex_num s = foldl (\<lambda>n c. 16 * n + hex_val c) 0 s"

definition hex_digit :: "nat \<Rightarrow> cu" where
  [js_eval]: "hex_digit n = (if n < 10 then 48 + n else 55 + n)"

definition hex2 :: "nat \<Rightarrow> jstr" where
  [js_eval]: "hex2 n = [hex_digit (n div 16 mod 16), hex_digit (n mod 16)]"

lemma hex_digit_is_hex: "n < 16 \<Longrightarrow> is_hex (hex_digit n)"
  by (auto simp: hex_digit_def is_hex_def is_digit_def)

lemma hex_val_digit: "n < 16 \<Longrightarrow> hex_val (hex_digit n) = n"
  by (auto simp: hex_digit_def hex_val_def is_digit_def)

text \<open>\<open>unescape\<close> and \<open>escape\<close> of the standard library.\<close>

fun unescape :: "jstr \<Rightarrow> jstr" where
  "unescape [] = []"
| "unescape (c # s) =
     (if c = 37 \<and> take 1 s = [117] \<and> 5 \<le> length s \<and> list_all is_hex (take 4 (drop 1 s))
      then hex_num (take 4 (drop 1 s)) # unescape (drop 5 s)
      else if c = 37 \<and> 2 \<le> length s \<and> list_all is_hex (take 2 s)
      then hex_num (take 2 s) # unescape (drop 2 s)
      else c # unescape s)"

definition escape_keeps :: "cu \<Rightarrow> bool" where
  [js_eval]: "escape_keeps c \<longleftrightarrow> is_word c \<or> c = 64 \<or> c = 42 \<or> c = 43 \<or> c = 45 \<or> c = 46 \<or> c = 47"

definition escape_cu :: "cu \<Rightarrow> jstr" where
  [js_eval]: "escape_cu c = (if escape_keeps c then [c] else if c < 256 then 37 # hex2 c
     else 37 # 117 # hex2 (c div 256) @ hex2 c)"

definition escape :: "jstr \<Rightarrow> jstr" where
  [js_eval]: "escape s = concat (map escape_cu s)"

lemma hex_num_hex2: "hex_num (hex2 c) = c mod 256"
proof -
  have "16 * (c div 16 mod 16) + c mod 16 = c mod 256" using mod_mult2_eq[of c 16 16] by simp
  then show ?thesis by (simp add: hex_num_def hex2_def hex_val_digit)
qed

lemma hex_num_hex4:
  assumes "c < 65536"
  shows "hex_num (hex2 (c div 256) @ hex2 c) = c"
proof -
  have "hex_num (s @ hex2 c) = 256 * hex_num s + hex_num (hex2 c)" for s
    by (simp add: hex_num_def hex2_def)
  then show ?thesis using assms by (simp add: hex_num_hex2)
qed

lemma unescape_2: "is_hex a \<Longrightarrow> is_hex b \<Longrightarrow> a \<noteq> 117 \<Longrightarrow> unescape (37 # a # b # s) = hex_num [a, b] # unescape s"
  by (subst unescape.simps) (simp add: numeral_eq_Suc)

lemma unescape_4:
  "is_hex a \<Longrightarrow> is_hex b \<Longrightarrow> is_hex c \<Longrightarrow> is_hex d \<Longrightarrow>
   unescape (37 # 117 # a # b # c # d # s) = hex_num [a, b, c, d] # unescape s"
  by (subst unescape.simps) (simp add: numeral_eq_Suc)

lemma hex2_cases:
  obtains a b where "hex2 c = [a, b]" "is_hex a" "is_hex b" "a \<noteq> 117"
proof -
  have "is_hex (hex_digit (c div 16 mod 16))" "is_hex (hex_digit (c mod 16))" by (simp_all add: hex_digit_is_hex)
  moreover have "\<not> is_hex 117" by (simp add: is_hex_def is_digit_def)
  ultimately show thesis using that by (metis hex2_def)
qed

lemma unescape_escape_cu:
  assumes "c < 65536"
  shows "unescape (escape_cu c @ s) = c # unescape s"
proof -
  have keep: "escape_keeps c \<Longrightarrow> c \<noteq> 37"
    by (auto simp: escape_keeps_def is_word_def is_digit_def is_upper_def is_lower_def)
  obtain a b where ab: "hex2 c = [a, b]" "is_hex a" "is_hex b" "a \<noteq> 117" by (rule hex2_cases)
  obtain d e where de: "hex2 (c div 256) = [d, e]" "is_hex d" "is_hex e" "d \<noteq> 117" by (rule hex2_cases)
  show ?thesis
    using keep ab de hex_num_hex2[of c] hex_num_hex4[OF assms]
    by (auto simp: escape_cu_def unescape_2 unescape_4 simp del: unescape.simps(2)) simp
qed

lemma unescape_escape: "\<forall>c \<in> set s. c < 65536 \<Longrightarrow> unescape (escape s) = s"
  by (induction s) (simp_all add: escape_def unescape_escape_cu)

lemma unescape_plain: "37 \<notin> set s \<Longrightarrow> unescape s = s"
  by (induction s) auto

text \<open>\<open>encodeURIComponent\<close>: the bytes of the UTF-8 encoding; a lone surrogate throws.\<close>

definition uri_keeps :: "cu \<Rightarrow> bool" where
  [js_eval]: "uri_keeps c \<longleftrightarrow> is_word c \<or> c = 45 \<or> c = 46 \<or> c = 33 \<or> c = 126 \<or> (39 \<le> c \<and> c \<le> 42)"

definition utf8 :: "nat \<Rightarrow> nat list" where
  [js_eval]: "utf8 n =
     (if n < 128 then [n]
      else if n < 2048 then [192 + n div 64, 128 + n mod 64]
      else if n < 65536 then [224 + n div 4096, 128 + n div 64 mod 64, 128 + n mod 64]
      else [240 + n div 262144, 128 + n div 4096 mod 64, 128 + n div 64 mod 64, 128 + n mod 64])"

definition percent :: "nat list \<Rightarrow> jstr" where
  [js_eval]: "percent bs = concat (map (\<lambda>b. 37 # hex2 b) bs)"

fun encodeURIComponent :: "jstr \<Rightarrow> jstr option" where
  "encodeURIComponent [] = Some []"
| "encodeURIComponent (c # s) =
     (if uri_keeps c then map_option ((#) c) (encodeURIComponent s)
      else if 56320 \<le> c \<and> c \<le> 57343 then None
      else if 55296 \<le> c \<and> c \<le> 56319 then
        (case s of
           d # s' \<Rightarrow>
             if 56320 \<le> d \<and> d \<le> 57343
             then map_option ((@) (percent (utf8 (65536 + 1024 * (c - 55296) + (d - 56320))))) (encodeURIComponent s')
             else None
         | [] \<Rightarrow> None)
      else map_option ((@) (percent (utf8 c))) (encodeURIComponent s))"

section \<open>Lists\<close>

lemma filter_only: "distinct xs \<Longrightarrow> n \<in> set xs \<Longrightarrow> (\<And>x. x \<in> set xs \<Longrightarrow> P x \<longleftrightarrow> x = n) \<Longrightarrow> filter P xs = [n]"
proof (induction xs)
  case (Cons a xs)
  show ?case
  proof (cases "a = n")
    case True
    then have "filter P xs = []" using Cons.prems by (auto simp: filter_empty_conv)
    then show ?thesis using True Cons.prems(3)[of a] by simp
  next
    case False
    then show ?thesis using Cons by auto
  qed
qed simp

section \<open>Event machines\<close>

text \<open>A component that reacts to events: a step keeps its invariant when the event is one that can happen. When the steps
  also do what an abstract specification says, so does every sequence of them.\<close>

locale event_machine =
  fixes step :: "'e \<Rightarrow> 's \<Rightarrow> 's"
    and can_happen :: "'e \<Rightarrow> bool"
    and inv :: "'s \<Rightarrow> bool"
  assumes step_inv: "can_happen e \<Longrightarrow> inv s \<Longrightarrow> inv (step e s)"
begin

lemma run_inv: "inv s \<Longrightarrow> list_all can_happen es \<Longrightarrow> inv (fold step es s)"
  by (induction es arbitrary: s) (simp_all add: step_inv)

end

locale refined_machine = event_machine step can_happen inv
  for step :: "'e \<Rightarrow> 's \<Rightarrow> 's" and can_happen inv +
  fixes view :: "'s \<Rightarrow> 'a"
    and spec :: "'e \<Rightarrow> 'a \<Rightarrow> 'a"
  assumes step_view: "can_happen e \<Longrightarrow> inv s \<Longrightarrow> view (step e s) = spec e (view s)"
begin

lemma run_view: "inv s \<Longrightarrow> list_all can_happen es \<Longrightarrow> view (fold step es s) = fold spec es (view s)"
  by (induction es arbitrary: s) (simp_all add: step_inv step_view)

end

end
