(* ===== verification/JsRegex.thy ===== *)
theory JsRegex
  imports JsPrelude
begin

text \<open>
  Regular expressions of the scripting language.

  The page scripts do most of their work with regular expressions: the comment mark-up, the syntax
  highlighter and the templates are all rewritten by them. The matcher below is the backtracking
  matcher of the language specification written with lists: \<open>rmatch\<close> returns every way in which
  the expression matches at a position, in the order in which backtracking tries them, so the first
  element is the match the language reports. Quantifiers follow the specification's
  RepeatMatcher: captures inside the quantified atom are forgotten before each round, and a round
  of an exhausted minimum that consumes nothing fails.

  Case folding covers the ASCII letters, which is all that an ASCII pattern can match without the
  \<open>u\<close> flag, up to classes that name no letter.
\<close>

section \<open>Syntax\<close>

datatype citem = Ch cu | Rng cu cu | ClDigit | ClSpace | ClWord | ClNotSpace | ClAny

datatype rx =
  REps
| RChr cu
| RDot
| RCls "citem list"
| RNot "citem list"
| RSeq rx rx
| RAlt rx rx
| RRep bool rx nat "nat option" \<comment> \<open>greedy, body, least and greatest number of rounds\<close>
| RGrp nat rx
| RBref nat
| RBol
| REol
| RWordB
| RLook rx
| RNLook rx

definition rstar :: "rx \<Rightarrow> rx" where [js_eval]: "rstar r = RRep True r 0 None"
definition rstar_lazy :: "rx \<Rightarrow> rx" where [js_eval]: "rstar_lazy r = RRep False r 0 None"
definition rplus :: "rx \<Rightarrow> rx" where [js_eval]: "rplus r = RRep True r 1 None"
definition ropt :: "rx \<Rightarrow> rx" where [js_eval]: "ropt r = RRep True r 0 (Some 1)"

fun rseq :: "rx list \<Rightarrow> rx" where
  "rseq [] = REps"
| "rseq [r] = r"
| "rseq (r # rs) = RSeq r (rseq rs)"

fun ralt :: "rx list \<Rightarrow> rx" where
  "ralt [] = REps"
| "ralt [r] = r"
| "ralt (r # rs) = RAlt r (ralt rs)"

text \<open>The literal text \<open>s\<close>.\<close>

definition rlit :: "jstr \<Rightarrow> rx" where
  [js_eval]: "rlit s = rseq (map RChr s)"

record rflags =
  fi :: bool
  fm :: bool

definition no_flags :: rflags where [js_eval]: "no_flags = \<lparr>fi = False, fm = False\<rparr>"
definition i_flag :: rflags where [js_eval]: "i_flag = \<lparr>fi = True, fm = False\<rparr>"
definition m_flag :: rflags where [js_eval]: "m_flag = \<lparr>fi = False, fm = True\<rparr>"
definition im_flag :: rflags where [js_eval]: "im_flag = \<lparr>fi = True, fm = True\<rparr>"

fun groups :: "rx \<Rightarrow> nat list" where
  "groups (RSeq a b) = groups a @ groups b"
| "groups (RAlt a b) = groups a @ groups b"
| "groups (RRep g r lo hi) = groups r"
| "groups (RGrp n r) = n # groups r"
| "groups (RLook r) = groups r"
| "groups (RNLook r) = groups r"
| "groups _ = []"

section \<open>Matching\<close>

type_synonym caps = "(nat \<times> nat \<times> nat) list"
type_synonym mstate = "nat \<times> caps"

fun item_has :: "citem \<Rightarrow> cu \<Rightarrow> bool" where
  "item_has (Ch a) c = (a = c)"
| "item_has (Rng a b) c = (a \<le> c \<and> c \<le> b)"
| "item_has ClDigit c = is_digit c"
| "item_has ClSpace c = is_ws c"
| "item_has ClWord c = is_word c"
| "item_has ClNotSpace c = (\<not> is_ws c)"
| "item_has ClAny c = True"

definition cls_has :: "rflags \<Rightarrow> citem list \<Rightarrow> cu \<Rightarrow> bool" where
  [js_eval]: "cls_has fl its c \<longleftrightarrow>
     (\<exists>it \<in> set its. item_has it c \<or> (fi fl \<and> (item_has it (lower_cu c) \<or> item_has it (upper_cu c))))"

definition cu_eq :: "rflags \<Rightarrow> cu \<Rightarrow> cu \<Rightarrow> bool" where
  [js_eval]: "cu_eq fl a c \<longleftrightarrow> a = c \<or> (fi fl \<and> upper_cu a = upper_cu c)"

definition word_at :: "jstr \<Rightarrow> nat \<Rightarrow> bool" where
  [js_eval]: "word_at s p \<longleftrightarrow> p < length s \<and> is_word (s ! p)"

text \<open>One code unit that satisfies \<open>P\<close>.\<close>

definition match_cu :: "(cu \<Rightarrow> bool) \<Rightarrow> jstr \<Rightarrow> mstate \<Rightarrow> mstate list" where
  [js_eval]: "match_cu P s x = (if fst x < length s \<and> P (s ! fst x) then [(Suc (fst x), snd x)] else [])"

text \<open>The captures of the groups \<open>gs\<close> are undefined again.\<close>

definition forget :: "nat list \<Rightarrow> mstate \<Rightarrow> mstate" where
  [js_eval]: "forget gs x = (fst x, filter (\<lambda>e. fst e \<notin> set gs) (snd x))"

text \<open>
  RepeatMatcher. The first argument bounds the number of rounds; \<open>rmatch\<close> passes the least number
  of rounds plus the remaining length plus one, which \<open>rep_enough\<close> below shows to be enough.
\<close>

primrec rep :: "nat \<Rightarrow> (mstate \<Rightarrow> mstate list) \<Rightarrow> nat list \<Rightarrow> bool \<Rightarrow> nat \<Rightarrow> nat option \<Rightarrow> mstate \<Rightarrow> mstate list" where
  "rep 0 step gs greedy lo hi x = []"
| "rep (Suc n) step gs greedy lo hi x =
     (if hi = Some 0 then [x]
      else
        let more = concat (map (\<lambda>y. if lo = 0 \<and> fst y = fst x then []
                                     else rep n step gs greedy (lo - 1) (map_option (\<lambda>h. h - 1) hi) y)
                               (step (forget gs x)))
        in if lo > 0 then more else if greedy then more @ [x] else x # more)"

primrec rmatch :: "rflags \<Rightarrow> jstr \<Rightarrow> rx \<Rightarrow> mstate \<Rightarrow> mstate list" where
  "rmatch fl s REps x = [x]"
| "rmatch fl s (RChr a) x = match_cu (cu_eq fl a) s x"
| "rmatch fl s RDot x = match_cu (\<lambda>c. \<not> is_lineterm c) s x"
| "rmatch fl s (RCls its) x = match_cu (cls_has fl its) s x"
| "rmatch fl s (RNot its) x = match_cu (\<lambda>c. \<not> cls_has fl its c) s x"
| "rmatch fl s (RSeq a b) x = concat (map (rmatch fl s b) (rmatch fl s a x))"
| "rmatch fl s (RAlt a b) x = rmatch fl s a x @ rmatch fl s b x"
| "rmatch fl s (RRep g r lo hi) x =
     rep (Suc (lo + (length s - fst x))) (rmatch fl s r) (groups r) g lo hi x"
| "rmatch fl s (RGrp n r) x = map (\<lambda>y. (fst y, (n, fst x, fst y) # snd y)) (rmatch fl s r x)"
| "rmatch fl s (RBref n) x =
     (case map_of (snd x) n of None \<Rightarrow> [x]
      | Some (a, b) \<Rightarrow>
          (let w = take (b - a) (drop a s)
           in if fst x + length w \<le> length s \<and> list_all2 (cu_eq fl) w (take (length w) (drop (fst x) s))
              then [(fst x + length w, snd x)] else []))"
| "rmatch fl s RBol x =
     (if fst x = 0 \<or> (fm fl \<and> fst x \<le> length s \<and> is_lineterm (s ! (fst x - 1))) then [x] else [])"
| "rmatch fl s REol x =
     (if fst x = length s \<or> (fm fl \<and> fst x < length s \<and> is_lineterm (s ! fst x)) then [x] else [])"
| "rmatch fl s RWordB x =
     (if (fst x \<noteq> 0 \<and> word_at s (fst x - 1)) \<noteq> word_at s (fst x) then [x] else [])"
| "rmatch fl s (RLook r) x =
     (case rmatch fl s r x of [] \<Rightarrow> [] | y # _ \<Rightarrow> [(fst x, snd y)])"
| "rmatch fl s (RNLook r) x = (if rmatch fl s r x = [] then [x] else [])"

subsection \<open>Where a match ends\<close>

text \<open>The least number of code units an expression consumes.\<close>

fun min_len :: "rx \<Rightarrow> nat" where
  "min_len (RChr a) = 1"
| "min_len RDot = 1"
| "min_len (RCls its) = 1"
| "min_len (RNot its) = 1"
| "min_len (RSeq a b) = min_len a + min_len b"
| "min_len (RAlt a b) = min (min_len a) (min_len b)"
| "min_len (RRep g r lo hi) = (case hi of None \<Rightarrow> lo | Some h \<Rightarrow> min lo h) * min_len r"
| "min_len (RGrp n r) = min_len r"
| "min_len _ = 0"

lemma match_cu_end:
  "y \<in> set (match_cu P s x) \<Longrightarrow> fst y = Suc (fst x) \<and> fst y \<le> length s"
  unfolding match_cu_def by (cases "fst x < length s \<and> P (s ! fst x)") simp_all

definition rounds :: "nat \<Rightarrow> nat option \<Rightarrow> nat" where
  "rounds lo hi = (case hi of None \<Rightarrow> lo | Some h \<Rightarrow> min lo h)"

lemma rounds_step: "hi \<noteq> Some 0 \<Longrightarrow> rounds lo hi \<le> Suc (rounds (lo - 1) (map_option (\<lambda>h. h - 1) hi))"
  by (auto simp: rounds_def min_def split: option.splits)

lemma rep_end:
  assumes step: "\<And>x y. y \<in> set (step x) \<Longrightarrow> fst x + m \<le> fst y \<and> (fst x \<le> L \<longrightarrow> fst y \<le> L)"
  shows "y \<in> set (rep n step gs g lo hi x) \<Longrightarrow>
     fst x + rounds lo hi * m \<le> fst y \<and> (fst x \<le> L \<longrightarrow> fst y \<le> L)"
proof (induction n arbitrary: lo hi x y)
  case (Suc n)
  let ?hi = "map_option (\<lambda>h. h - 1) hi"
  consider "y = x" "rounds lo hi = 0"
    | z where "hi \<noteq> Some 0" "z \<in> set (step (forget gs x))" "y \<in> set (rep n step gs g (lo - 1) ?hi z)"
    using Suc.prems by (auto simp: Let_def rounds_def split: if_splits option.splits)
  then show ?case
  proof cases
    case 2
    have x: "fst x + m \<le> fst z" "fst x \<le> L \<Longrightarrow> fst z \<le> L"
      using step[OF 2(2)] by (auto simp: forget_def)
    have z: "fst z + rounds (lo - 1) ?hi * m \<le> fst y" "fst z \<le> L \<Longrightarrow> fst y \<le> L"
      using Suc.IH[OF 2(3)] by auto
    have "rounds lo hi * m \<le> Suc (rounds (lo - 1) ?hi) * m"
      by (rule mult_le_mono1) (rule rounds_step[OF 2(1)])
    with x z show ?thesis by simp
  qed simp
qed simp

lemma rmatch_end:
  "y \<in> set (rmatch fl s r x) \<Longrightarrow>
     fst x + min_len r \<le> fst y \<and> (fst x \<le> length s \<longrightarrow> fst y \<le> length s)"
proof (induction r arbitrary: x y)
  case (RSeq a b)
  then obtain z where "z \<in> set (rmatch fl s a x)" "y \<in> set (rmatch fl s b z)" by auto
  then show ?case using RSeq.IH(1)[of z x] RSeq.IH(2)[of y z] by auto
next
  case (RAlt a b)
  then consider "y \<in> set (rmatch fl s a x)" | "y \<in> set (rmatch fl s b x)" by auto
  then show ?case by cases (use RAlt.IH(1)[of y x] RAlt.IH(2)[of y x] in auto)
next
  case (RRep g r lo hi)
  have y: "y \<in> set (rep (Suc (lo + (length s - fst x))) (rmatch fl s r) (groups r) g lo hi x)"
    using RRep.prems by simp
  have "fst x + rounds lo hi * min_len r \<le> fst y \<and> (fst x \<le> length s \<longrightarrow> fst y \<le> length s)"
    using y by (rule rep_end[rotated]) (rule RRep.IH)
  then show ?case by (simp add: rounds_def)
next
  case (RGrp n r)
  then obtain z where "z \<in> set (rmatch fl s r x)" "fst y = fst z" by auto
  then show ?case using RGrp.IH[of z x] by simp
next
  case (RBref n)
  then show ?case by (auto simp: Let_def split: option.splits if_splits prod.splits)
next
  case (RLook r)
  then show ?case by (auto split: list.splits)
qed (auto split: if_splits dest: match_cu_end)

lemmas rmatch_bounds = rmatch_end[THEN conjunct1] rmatch_end[THEN conjunct2, rule_format]

subsection \<open>The bound on the rounds is enough\<close>

lemma rep_more_fuel:
  assumes step: "\<And>x y. y \<in> set (step x) \<Longrightarrow> fst x \<le> fst y \<and> (fst x \<le> L \<longrightarrow> fst y \<le> L)"
  shows "fst x \<le> L \<Longrightarrow> lo + (L - fst x) < n \<Longrightarrow> n \<le> k \<Longrightarrow>
    rep k step gs g lo hi x = rep n step gs g lo hi x"
proof (induction n arbitrary: lo hi x k)
  case (Suc n)
  from Suc.prems obtain k' where k: "k = Suc k'" "n \<le> k'" by (cases k) auto
  let ?hi = "map_option (\<lambda>h. h - 1) hi"
  have "(if lo = 0 \<and> fst y = fst x then [] else rep k' step gs g (lo - 1) ?hi y)
      = (if lo = 0 \<and> fst y = fst x then [] else rep n step gs g (lo - 1) ?hi y)"
    if "y \<in> set (step (forget gs x))" for y
  proof (cases "lo = 0 \<and> fst y = fst x")
    case False
    have y: "fst x \<le> fst y" "fst y \<le> L"
      using step[OF that] Suc.prems(1) by (auto simp: forget_def)
    have "lo - 1 + (L - fst y) < n" using False y Suc.prems(2) by auto
    then have "rep k' step gs g (lo - 1) ?hi y = rep n step gs g (lo - 1) ?hi y"
      by (rule Suc.IH[OF y(2) _ k(2)])
    then show ?thesis by simp
  qed simp
  then have "map (\<lambda>y. if lo = 0 \<and> fst y = fst x then [] else rep k' step gs g (lo - 1) ?hi y) (step (forget gs x))
      = map (\<lambda>y. if lo = 0 \<and> fst y = fst x then [] else rep n step gs g (lo - 1) ?hi y) (step (forget gs x))"
    by (intro map_cong) auto
  then show ?case by (simp only: k rep.simps Let_def)
qed simp

text \<open>
  The quantifier satisfies the recursive equation of the specification, with no bound on the rounds.
\<close>

lemma rmatch_rep_unfold:
  assumes "fst x \<le> length s"
  shows "rmatch fl s (RRep g r lo hi) x =
     (if hi = Some 0 then [x]
      else
        let more = concat (map (\<lambda>y. if lo = 0 \<and> fst y = fst x then []
                      else rmatch fl s (RRep g r (lo - 1) (map_option (\<lambda>h. h - 1) hi)) y)
                    (rmatch fl s r (forget (groups r) x)))
        in if lo > 0 then more else if g then more @ [x] else x # more)"
proof (cases "hi = Some 0")
  case False
  let ?step = "rmatch fl s r"
  let ?hi = "map_option (\<lambda>h. h - 1) hi"
  let ?n = "lo + (length s - fst x)"
  have step: "fst x \<le> fst y \<and> (fst x \<le> length s \<longrightarrow> fst y \<le> length s)"
    if "y \<in> set (?step x)" for x y
    using rmatch_end[OF that] by auto
  have "rep ?n ?step (groups r) g (lo - 1) ?hi y
      = rep (Suc (lo - 1 + (length s - fst y))) ?step (groups r) g (lo - 1) ?hi y"
    if "y \<in> set (?step (forget (groups r) x))" "\<not> (lo = 0 \<and> fst y = fst x)" for y
  proof (rule rep_more_fuel[where L = "length s"])
    have y: "fst x \<le> fst y" "fst y \<le> length s"
      using step[OF that(1)] assms by (auto simp: forget_def)
    show "fst y \<le> length s" by (rule y)
    show "Suc (lo - 1 + (length s - fst y)) \<le> ?n" using y that(2) by auto
  qed (use step in auto)
  then have "map (\<lambda>y. if lo = 0 \<and> fst y = fst x then [] else rep ?n ?step (groups r) g (lo - 1) ?hi y)
        (?step (forget (groups r) x))
      = map (\<lambda>y. if lo = 0 \<and> fst y = fst x then [] else rmatch fl s (RRep g r (lo - 1) ?hi) y)
        (?step (forget (groups r) x))"
    by (intro map_cong) auto
  then show ?thesis by (simp only: rmatch.simps rep.simps Let_def)
qed simp

section \<open>Finding and replacing\<close>

text \<open>A match: where it starts, where it ends, and the captures.\<close>

type_synonym rxmatch = "nat \<times> nat \<times> caps"

fun first_match :: "rflags \<Rightarrow> jstr \<Rightarrow> rx \<Rightarrow> nat list \<Rightarrow> rxmatch option" where
  "first_match fl s r [] = None"
| "first_match fl s r (j # ks) =
     (case rmatch fl s r (j, []) of [] \<Rightarrow> first_match fl s r ks | (e, c) # _ \<Rightarrow> Some (j, e, c))"

text \<open>The leftmost match that starts at or after \<open>i\<close>.\<close>

definition rx_find :: "rflags \<Rightarrow> rx \<Rightarrow> jstr \<Rightarrow> nat \<Rightarrow> rxmatch option" where
  [js_eval]: "rx_find fl r s i = first_match fl s r [i..<Suc (length s)]"

lemma first_match_Some:
  "first_match fl s r ks = Some (j, e, c) \<Longrightarrow> j \<in> set ks \<and> (e, c) \<in> set (rmatch fl s r (j, []))"
  by (induction ks) (auto split: list.splits)

lemma rx_find_bounds:
  assumes "rx_find fl r s i = Some (j, e, c)"
  shows "i \<le> j" "j + min_len r \<le> e" "j \<le> e" "e \<le> length s"
proof -
  have j: "i \<le> j" "j \<le> length s" and m: "(e, c) \<in> set (rmatch fl s r (j, []))"
    using first_match_Some[OF assms[unfolded rx_find_def]] by auto
  then show "i \<le> j" "j + min_len r \<le> e" "j \<le> e" "e \<le> length s"
    using rmatch_end[OF m] by auto
qed

text \<open>The text of the match and of its captures.\<close>

definition slice :: "jstr \<Rightarrow> nat \<Rightarrow> nat \<Rightarrow> jstr" where
  [js_eval]: "slice s a b = take (b - a) (drop a s)"

definition match_text :: "jstr \<Rightarrow> rxmatch \<Rightarrow> jstr" where
  [js_eval]: "match_text s m = slice s (fst m) (fst (snd m))"

definition capture :: "jstr \<Rightarrow> rxmatch \<Rightarrow> nat \<Rightarrow> jstr option" where
  [js_eval]: "capture s m n = map_option (\<lambda>(a, b). slice s a b) (map_of (snd (snd m)) n)"

definition the_capture :: "jstr \<Rightarrow> rxmatch \<Rightarrow> nat \<Rightarrow> jstr" where
  [js_eval]: "the_capture s m n = (case capture s m n of None \<Rightarrow> [] | Some t \<Rightarrow> t)"

definition captures :: "rx \<Rightarrow> jstr \<Rightarrow> rxmatch \<Rightarrow> jstr option list" where
  [js_eval]: "captures r s m = map (capture s m) [1..<Suc (length (groups r))]"

text \<open>\<open>r.test(s)\<close> and \<open>r.exec(s)\<close> of an expression without the \<open>g\<close> flag.\<close>

definition rx_test :: "rflags \<Rightarrow> rx \<Rightarrow> jstr \<Rightarrow> bool" where
  [js_eval]: "rx_test fl r s \<longleftrightarrow> rx_find fl r s 0 \<noteq> None"

text \<open>
  \<open>r.exec(s)\<close> with the \<open>g\<close> flag: the search starts at \<open>lastIndex\<close>, which becomes the end of the
  match, or \<open>0\<close> if there is none.
\<close>

definition rx_exec_g :: "rflags \<Rightarrow> rx \<Rightarrow> jstr \<Rightarrow> nat \<Rightarrow> rxmatch option \<times> nat" where
  [js_eval]: "rx_exec_g fl r s from_ix =
     (if from_ix > length s then (None, 0)
      else case rx_find fl r s from_ix of None \<Rightarrow> (None, 0) | Some m \<Rightarrow> (Some m, fst (snd m)))"

lemma rx_exec_g_bounds:
  assumes "rx_exec_g fl r s from_ix = (Some m, l)"
  shows "l = fst (snd m)" "from_ix \<le> fst m" "fst m + min_len r \<le> l" "l \<le> length s"
  using assms rx_find_bounds[of fl r s from_ix "fst m" "fst (snd m)" "snd (snd m)"]
  by (auto simp: rx_exec_g_def split: if_splits option.splits)

text \<open>All matches, as \<open>replace\<close> with the \<open>g\<close> flag finds them: an empty match moves on by one.\<close>

function all_matches :: "rflags \<Rightarrow> rx \<Rightarrow> jstr \<Rightarrow> nat \<Rightarrow> rxmatch list" where
  "all_matches fl r s i =
     (if i > length s then []
      else case rx_find fl r s i of None \<Rightarrow> []
      | Some (j, e, c) \<Rightarrow> (j, e, c) # all_matches fl r s (if e = j then Suc e else e))"
  by pat_completeness auto
termination
proof (relation "measure (\<lambda>(fl, r, s, i). Suc (length s) - i)", goal_cases)
  case (2 fl r s i m j ec e c)
  then show ?case
    using rx_find_bounds[of fl r s i j e c] by (cases "e = j") auto
qed simp

declare all_matches.simps [simp del]

text \<open>The text of \<open>s\<close> from \<open>i\<close> on with each match replaced.\<close>

fun splice :: "(rxmatch \<Rightarrow> jstr) \<Rightarrow> jstr \<Rightarrow> nat \<Rightarrow> rxmatch list \<Rightarrow> jstr" where
  "splice f s i [] = drop i s"
| "splice f s i (m # ms) = slice s i (fst m) @ f m @ splice f s (fst (snd m)) ms"

definition rx_replace_all_fn :: "rflags \<Rightarrow> rx \<Rightarrow> jstr \<Rightarrow> (rxmatch \<Rightarrow> jstr) \<Rightarrow> jstr" where
  [js_eval]: "rx_replace_all_fn fl r s f = splice f s 0 (all_matches fl r s 0)"

text \<open>The replacement given as a template.\<close>

definition repl_text :: "rx \<Rightarrow> jstr \<Rightarrow> jstr \<Rightarrow> rxmatch \<Rightarrow> jstr" where
  [js_eval]: "repl_text r s t m =
     expand_repl (match_text s m) (take (fst m) s) (drop (fst (snd m)) s) (captures r s m) t"

definition rx_replace_all :: "rflags \<Rightarrow> rx \<Rightarrow> jstr \<Rightarrow> jstr \<Rightarrow> jstr" where
  [js_eval]: "rx_replace_all fl r s t = rx_replace_all_fn fl r s (repl_text r s t)"

definition rx_replace :: "rflags \<Rightarrow> rx \<Rightarrow> jstr \<Rightarrow> jstr \<Rightarrow> jstr" where
  [js_eval]: "rx_replace fl r s t =
     (case rx_find fl r s 0 of None \<Rightarrow> s
      | Some m \<Rightarrow> take (fst m) s @ repl_text r s t m @ drop (fst (snd m)) s)"

text \<open>The matches are in order and do not overlap.\<close>

fun in_order :: "jstr \<Rightarrow> nat \<Rightarrow> rxmatch list \<Rightarrow> bool" where
  "in_order s i [] \<longleftrightarrow> True"
| "in_order s i (m # ms) \<longleftrightarrow> i \<le> fst m \<and> fst m \<le> fst (snd m) \<and> fst (snd m) \<le> length s
     \<and> in_order s (fst (snd m)) ms"

lemma in_order_mono: "in_order s i ms \<Longrightarrow> k \<le> i \<Longrightarrow> in_order s k ms"
  by (cases ms) auto

lemma all_matches_in_order: "in_order s i (all_matches fl r s i)"
proof (induction fl r s i rule: all_matches.induct)
  case (1 fl r s i)
  show ?case
  proof (cases "i > length s \<or> rx_find fl r s i = None")
    case True
    then show ?thesis by (subst all_matches.simps) auto
  next
    case False
    then obtain j e c where m: "rx_find fl r s i = Some (j, e, c)" by (cases "rx_find fl r s i") auto
    note b = rx_find_bounds[OF m]
    have "in_order s (if e = j then Suc e else e) (all_matches fl r s (if e = j then Suc e else e))"
      using 1[of "(j, e, c)" j "(e, c)" e c] False m by auto
    then have "in_order s e (all_matches fl r s (if e = j then Suc e else e))"
      by (rule in_order_mono) simp
    then show ?thesis using False m b by (subst all_matches.simps) auto
  qed
qed

lemma slice_append:
  assumes "a \<le> b" "b \<le> c"
  shows "slice s a b @ slice s b c = slice s a c"
proof -
  have "take (b - a + (c - b)) (drop a s) = take (b - a) (drop a s) @ take (c - b) (drop (b - a) (drop a s))"
    by (rule take_add)
  then show ?thesis using assms by (simp add: slice_def)
qed

lemma slice_drop: "a \<le> b \<Longrightarrow> slice s a b @ drop b s = drop a s"
  unfolding slice_def by (metis append_take_drop_id drop_drop le_add_diff_inverse add.commute)

text \<open>Replacing every match by itself changes nothing.\<close>

lemma splice_match_text: "in_order s i ms \<Longrightarrow> i \<le> length s \<Longrightarrow> splice (match_text s) s i ms = drop i s"
proof (induction ms arbitrary: i)
  case (Cons m ms)
  then show ?case
    by (auto simp: match_text_def slice_drop)
qed simp

subsection \<open>Captures\<close>

lemma map_of_filter_keys: "map_of (filter (\<lambda>e. fst e \<notin> A) xs) k = (if k \<in> A then None else map_of xs k)"
  by (induction xs) auto

lemma rep_captures:
  assumes step: "\<And>x y. y \<in> set (step x) \<Longrightarrow> map_of (snd y) k = map_of (snd x) k" and k: "k \<notin> set gs"
  shows "y \<in> set (rep n step gs g lo hi x) \<Longrightarrow> map_of (snd y) k = map_of (snd x) k"
proof (induction n arbitrary: lo hi x y)
  case (Suc n)
  let ?hi = "map_option (\<lambda>h. h - 1) hi"
  consider "y = x"
    | z where "z \<in> set (step (forget gs x))" "y \<in> set (rep n step gs g (lo - 1) ?hi z)"
    using Suc.prems by (auto simp: Let_def split: if_splits)
  then show ?case
  proof cases
    case 2
    have "map_of (snd z) k = map_of (snd x) k"
      using step[OF 2(1)] k by (simp add: forget_def map_of_filter_keys)
    then show ?thesis using Suc.IH[OF 2(2)] by simp
  qed simp
qed simp

text \<open>An expression changes the captures of its own groups only.\<close>

lemma rmatch_captures:
  "y \<in> set (rmatch fl s r x) \<Longrightarrow> k \<notin> set (groups r) \<Longrightarrow> map_of (snd y) k = map_of (snd x) k"
proof (induction r arbitrary: x y)
  case (RSeq a b)
  then obtain z where "z \<in> set (rmatch fl s a x)" "y \<in> set (rmatch fl s b z)" by auto
  then show ?case using RSeq.IH(1)[of z x] RSeq.IH(2)[of y z] RSeq.prems(2) by auto
next
  case (RAlt a b)
  then consider "y \<in> set (rmatch fl s a x)" | "y \<in> set (rmatch fl s b x)" by auto
  then show ?case
    by cases (use RAlt.IH(1)[of y x] RAlt.IH(2)[of y x] RAlt.prems(2) in auto)
next
  case (RRep g r lo hi)
  have y: "y \<in> set (rep (Suc (lo + (length s - fst x))) (rmatch fl s r) (groups r) g lo hi x)"
    using RRep.prems by simp
  have k: "k \<notin> set (groups r)" using RRep.prems(2) by simp
  show ?case
    by (rule rep_captures[OF _ k y]) (rule RRep.IH[OF _ k])
next
  case (RGrp n r)
  then obtain z where "z \<in> set (rmatch fl s r x)" "snd y = (n, fst x, fst z) # snd z" by auto
  then show ?case using RGrp.IH[of z x] RGrp.prems(2) by auto
next
  case (RBref n)
  then show ?case by (auto simp: Let_def split: option.splits if_splits prod.splits)
next
  case (RLook r)
  then obtain z zs where "rmatch fl s r x = z # zs" "snd y = snd z"
    by (cases "rmatch fl s r x") auto
  then show ?case using RLook.IH[of z x] RLook.prems(2) by auto
qed (auto simp: match_cu_def split: if_splits)

section \<open>Shapes the scripts use\<close>

text \<open>Literal text.\<close>

definition lit_at :: "rflags \<Rightarrow> jstr \<Rightarrow> jstr \<Rightarrow> nat \<Rightarrow> bool" where
  [js_eval]: "lit_at fl w s p \<longleftrightarrow>
     p + length w \<le> length s \<and> list_all2 (cu_eq fl) w (take (length w) (drop p s))"

lemma rseq_Cons: "rs \<noteq> [] \<Longrightarrow> rseq (r # rs) = RSeq r (rseq rs)"
  by (cases rs) auto

lemma rlit_Cons: "w \<noteq> [] \<Longrightarrow> rlit (a # w) = RSeq (RChr a) (rlit w)"
  by (simp add: rlit_def rseq_Cons)

lemma lit_at_Cons: "lit_at fl (a # w) s p \<longleftrightarrow> p < length s \<and> cu_eq fl a (s ! p) \<and> lit_at fl w s (Suc p)"
  by (cases "p < length s") (auto simp: lit_at_def Cons_nth_drop_Suc[symmetric])

lemma rmatch_rlit:
  "rmatch fl s (rlit w) (p, c) =
     (if w = [] \<or> lit_at fl w s p then [(p + length w, c)] else [])"
proof (induction w arbitrary: p)
  case Nil
  then show ?case by (simp add: rlit_def)
next
  case (Cons a w)
  show ?case
  proof (cases "w = []")
    case True
    then show ?thesis by (auto simp: rlit_def match_cu_def lit_at_Cons) (simp_all add: lit_at_def)
  next
    case False
    then show ?thesis using Cons[of "Suc p"] by (auto simp: rlit_Cons match_cu_def lit_at_Cons)
  qed
qed

lemma groups_rlit [simp]: "groups (rlit w) = []"
proof (induction w)
  case (Cons a w)
  then show ?case by (cases w) (auto simp: rlit_def)
qed (simp add: rlit_def)

lemma min_len_rlit [simp]: "min_len (rlit w) = length w"
proof (induction w)
  case (Cons a w)
  then show ?case by (cases w) (auto simp: rlit_def)
qed (simp add: rlit_def)

lemma cu_eq_refl [simp]: "cu_eq fl a a"
  by (simp add: cu_eq_def)

lemma lit_at_append: "lit_at fl w (a @ w @ b) (length a)"
  by (simp add: lit_at_def list_all2_refl)

text \<open>A quantified single code unit: the run of code units that satisfy the test, longest first if greedy.\<close>

definition run :: "(cu \<Rightarrow> bool) \<Rightarrow> jstr \<Rightarrow> nat \<Rightarrow> nat" where
  [js_eval]: "run P s p = length (takeWhile P (drop p s))"

lemma run_step: "p < length s \<Longrightarrow> P (s ! p) \<Longrightarrow> run P s p = Suc (run P s (Suc p))"
  by (simp add: run_def Cons_nth_drop_Suc[symmetric])

lemma run_stop: "\<not> (p < length s \<and> P (s ! p)) \<Longrightarrow> run P s p = 0"
  by (cases "p < length s") (auto simp: run_def Cons_nth_drop_Suc[symmetric])

lemma run_le: "p \<le> length s \<Longrightarrow> p + run P s p \<le> length s"
  unfolding run_def using length_takeWhile_le[of P "drop p s"] by simp

lemma run_all: "p + k < length s \<Longrightarrow> k < run P s p \<Longrightarrow> P (s ! (p + k))"
  unfolding run_def by (metis nth_drop nth_mem set_takeWhileD takeWhile_nth less_imp_le_nat add_leD1 le_trans)

definition single :: "rflags \<Rightarrow> jstr \<Rightarrow> rx \<Rightarrow> (cu \<Rightarrow> bool) \<Rightarrow> bool" where
  "single fl s r P \<longleftrightarrow> groups r = [] \<and> (\<forall>x. rmatch fl s r x = match_cu P s x)"

lemma single_simps [simp]:
  "single fl s (RChr a) (cu_eq fl a)"
  "single fl s RDot (\<lambda>c. \<not> is_lineterm c)"
  "single fl s (RCls its) (cls_has fl its)"
  "single fl s (RNot its) (\<lambda>c. \<not> cls_has fl its c)"
  by (auto simp: single_def)

lemma rmatch_star:
  assumes r: "single fl s r P" and p: "p \<le> length s"
  shows "rmatch fl s (RRep g r 0 None) (p, c) =
     (let es = map (\<lambda>q. (q, c)) [p..<Suc (p + run P s p)] in if g then rev es else es)"
  using p
proof (induction "length s - p" arbitrary: p)
  case 0
  have m: "rmatch fl s r (p, c) = []" using 0 r by (simp add: single_def match_cu_def)
  have "run P s p = 0" using 0 by (intro run_stop) auto
  then show ?case
    using 0 r m by (subst rmatch_rep_unfold) (auto simp: single_def forget_def)
next
  case (Suc n)
  have f: "forget (groups r) (p, c) = (p, c)" using r by (simp add: single_def forget_def)
  show ?case
  proof (cases "p < length s \<and> P (s ! p)")
    case True
    have m: "rmatch fl s r (p, c) = [(Suc p, c)]" using True r by (simp add: single_def match_cu_def)
    have IH: "rmatch fl s (RRep g r 0 None) (Suc p, c) =
       (let es = map (\<lambda>q. (q, c)) [Suc p..<Suc (Suc p + run P s (Suc p))] in if g then rev es else es)"
      using Suc True by auto
    have u: "[p..<Suc (p + run P s p)] = p # [Suc p..<Suc (Suc p + run P s (Suc p))]"
      using True by (simp add: run_step upt_conv_Cons)
    have "rmatch fl s (RRep g r 0 None) (p, c) =
      (let more = rmatch fl s (RRep g r 0 None) (Suc p, c) in if g then more @ [(p, c)] else (p, c) # more)"
      using Suc.prems m f by (subst rmatch_rep_unfold) (auto simp: Let_def)
    then show ?thesis unfolding IH u by (simp add: Let_def)
  next
    case False
    have m: "rmatch fl s r (p, c) = []" using False r by (auto simp: single_def match_cu_def)
    have "run P s p = 0" using False by (rule run_stop)
    then show ?thesis
      using Suc.prems m f by (subst rmatch_rep_unfold) (auto simp: Let_def)
  qed
qed

lemma rmatch_plus:
  assumes r: "single fl s r P" and p: "p < length s" "P (s ! p)"
  shows "rmatch fl s (rplus r) (p, c) =
     map (\<lambda>q. (q, c)) (rev [Suc p..<Suc (Suc p + run P s (Suc p))])"
proof -
  have "rmatch fl s r (forget (groups r) (p, c)) = [(Suc p, c)]"
    using r p by (simp add: single_def forget_def match_cu_def)
  then have "rmatch fl s (RRep True r 1 None) (p, c) = rmatch fl s (RRep True r 0 None) (Suc p, c)"
    using p(1) by (subst rmatch_rep_unfold) (simp_all add: Let_def del: rmatch.simps)
  then show ?thesis
    using p(1) rmatch_star[OF r, of "Suc p" True c] by (simp only: rplus_def) (simp add: Let_def rev_map)
qed

lemma concat_map_one:
  "distinct qs \<Longrightarrow> Q \<in> set qs \<Longrightarrow> (\<And>q. q \<in> set qs \<Longrightarrow> q \<noteq> Q \<Longrightarrow> f q = []) \<Longrightarrow> concat (map f qs) = f Q"
proof (induction qs)
  case (Cons a qs)
  show ?case
  proof (cases "a = Q")
    case True
    then have "\<forall>q \<in> set qs. f q = []" using Cons.prems by auto
    then show ?thesis using True by (induction qs) auto
  next
    case False
    then show ?thesis using Cons by simp
  qed
qed simp

lemma run_append: "\<forall>x \<in> set b. P x \<Longrightarrow> d = [] \<or> \<not> P (hd d) \<Longrightarrow> run P (a @ b @ d) (length a) = length b"
  by (cases d) (simp_all add: run_def takeWhile_append2 takeWhile_eq_all_conv[THEN iffD2])

lemma rmatch_opt:
  assumes "fst x \<le> length s"
  shows "rmatch fl s (ropt r) x = filter (\<lambda>y. fst y \<noteq> fst x) (rmatch fl s r (forget (groups r) x)) @ [x]"
proof -
  have "concat (map (\<lambda>y. if fst y = fst x then [] else [y]) ys) = filter (\<lambda>y. fst y \<noteq> fst x) ys" for ys :: "mstate list"
    by (induction ys) auto
  moreover have "rmatch fl s (RRep True r 0 (Some 0)) y = [y]" for y by (cases "Suc (length s)") auto
  ultimately show ?thesis using assms
    by (simp only: ropt_def) (subst rmatch_rep_unfold, auto simp: Let_def cong: if_cong)
qed

text \<open>A text without the first code unit of a pattern has no match of it.\<close>

lemma first_match_None: "first_match fl s r ks = None \<longleftrightarrow> (\<forall>j \<in> set ks. rmatch fl s r (j, []) = [])"
  by (induction ks) (auto split: list.splits)

lemma rx_find_None: "rx_find fl r s i = None \<longleftrightarrow> (\<forall>j. i \<le> j \<and> j \<le> length s \<longrightarrow> rmatch fl s r (j, []) = [])"
  by (auto simp: rx_find_def first_match_None)

lemma rx_find_absent:
  assumes "\<forall>c \<in> set s. \<not> cu_eq fl a c"
  shows "rx_find fl (RSeq (RChr a) r) s i = None"
  using assms by (auto simp: rx_find_None match_cu_def)

lemma rx_find_lit_absent:
  assumes "\<forall>c \<in> set s. \<not> cu_eq fl a c"
  shows "rx_find fl (RSeq (rlit (a # w)) r) s i = None"
  using assms by (auto simp: rx_find_None rmatch_rlit lit_at_Cons)

lemma all_matches_None: "rx_find fl r s i = None \<Longrightarrow> all_matches fl r s i = []"
  by (subst all_matches.simps) simp

lemma rx_replace_all_absent [js_text]: "rx_find fl r s 0 = None \<Longrightarrow> rx_replace_all fl r s t = s"
  by (simp add: rx_replace_all_def rx_replace_all_fn_def all_matches_None)

lemma rx_replace_all_fn_absent [js_text]: "rx_find fl r s 0 = None \<Longrightarrow> rx_replace_all_fn fl r s f = s"
  by (simp add: rx_replace_all_fn_def all_matches_None)

text \<open>The match at a position where the pattern matches and no earlier start does.\<close>

lemma rx_find_at:
  assumes "i \<le> j" "j \<le> length s" "rmatch fl s r (j, []) = (e, c) # rest"
    "\<And>k. i \<le> k \<Longrightarrow> k < j \<Longrightarrow> rmatch fl s r (k, []) = []"
  shows "rx_find fl r s i = Some (j, e, c)"
proof -
  have "first_match fl s r ([i..<j] @ ks) = first_match fl s r ks" for ks
  proof -
    have "first_match fl s r (xs @ ks) = first_match fl s r ks"
      if "\<forall>k \<in> set xs. rmatch fl s r (k, []) = []" for xs
      using that by (induction xs) auto
    then show ?thesis using assms(4) by auto
  qed
  moreover have "[i..<Suc (length s)] = [i..<j] @ j # [Suc j..<Suc (length s)]"
    using assms(1,2) by (metis le_SucI le_imp_less_Suc upt_add_eq_append upt_conv_Cons le_Suc_ex)
  ultimately show ?thesis using assms(3) by (simp add: rx_find_def)
qed

section \<open>Moving along the text\<close>

text \<open>
  An expression that looks at nothing before the position it starts from matches in a suffix as it
  matches in the whole, with the positions moved. This turns a replacement of all matches into a
  recursion over the text.
\<close>

fun forward_only :: "rx \<Rightarrow> bool" where
  "forward_only RBol = False"
| "forward_only RWordB = False"
| "forward_only (RSeq a b) = (forward_only a \<and> forward_only b)"
| "forward_only (RAlt a b) = (forward_only a \<and> forward_only b)"
| "forward_only (RRep g r lo hi) = forward_only r"
| "forward_only (RGrp n r) = forward_only r"
| "forward_only (RLook r) = forward_only r"
| "forward_only (RNLook r) = forward_only r"
| "forward_only _ = True"

definition move :: "nat \<Rightarrow> mstate \<Rightarrow> mstate" where
  "move n x = (n + fst x, map (\<lambda>(k, a, b). (k, n + a, n + b)) (snd x))"

definition move_match :: "nat \<Rightarrow> rxmatch \<Rightarrow> rxmatch" where
  "move_match n m = (n + fst m, move n (snd m))"

lemma fst_move [simp]: "fst (move n x) = n + fst x"
  by (simp add: move_def)

lemma forget_move: "forget gs (move n x) = move n (forget gs x)"
  by (auto simp: forget_def move_def filter_map o_def case_prod_beta)

lemma map_of_move: "map_of (snd (move n x)) k = map_option (\<lambda>(a, b). (n + a, n + b)) (map_of (snd x) k)"
proof -
  have "map_of (map (\<lambda>(k, a, b). (k, n + a, n + b)) xs) k = map_option (\<lambda>(a, b). (n + a, n + b)) (map_of xs k)" for xs
    by (induction xs) auto
  then show ?thesis by (simp add: move_def)
qed

lemma slice_move: "slice (a @ s) (length a + i) (length a + j) = slice s i j"
  by (simp add: slice_def)

lemma rep_move:
  assumes step: "\<And>x. step' (move n x) = map (move n) (step x)"
  shows "rep k step' gs g lo hi (move n x) = map (move n) (rep k step gs g lo hi x)"
proof (induction k arbitrary: lo hi x)
  case (Suc k)
  show ?case by (simp add: Let_def forget_move step Suc map_concat o_def if_distrib[of "map (move n)"] cong: if_cong)
qed simp

lemma rmatch_move:
  "forward_only r \<Longrightarrow> rmatch fl (a @ s) r (move (length a) x) = map (move (length a)) (rmatch fl s r x)"
proof (induction r arbitrary: x)
  case (RSeq p q)
  then show ?case by (simp add: map_concat o_def)
next
  case (RRep g r lo hi)
  then show ?case by (simp add: rep_move del: rep.simps)
next
  case (RGrp n r)
  then show ?case by (simp add: o_def) (simp add: move_def)
next
  case (RBref n)
  then show ?case
    by (auto simp: map_of_move Let_def slice_move[unfolded slice_def] split: option.splits) (simp_all add: move_def)
next
  case (RLook r)
  then show ?case by (cases "rmatch fl s r x") (auto simp: move_def)
qed (auto simp: match_cu_def nth_append move_def)

lemma first_match_move:
  "forward_only r \<Longrightarrow>
   first_match fl (a @ s) r (map ((+) (length a)) ks) = map_option (move_match (length a)) (first_match fl s r ks)"
proof (induction ks)
  case (Cons k ks)
  have "rmatch fl (a @ s) r (length a + k, []) = map (move (length a)) (rmatch fl s r (k, []))"
    using rmatch_move[OF Cons.prems, of fl a s "(k, [])"] by (simp add: move_def)
  then show ?case using Cons
    by (cases "rmatch fl s r (k, [])") (auto simp: move_match_def move_def)
qed simp

lemma rx_find_move:
  assumes "forward_only r"
  shows "rx_find fl r (a @ s) (length a + i) = map_option (move_match (length a)) (rx_find fl r s i)"
proof -
  have "[length a + i..<Suc (length (a @ s))] = map ((+) (length a)) [i..<Suc (length s)]"
    by (rule nth_equalityI) (auto simp del: upt_Suc)
  then show ?thesis using first_match_move[OF assms] by (simp add: rx_find_def)
qed

lemma all_matches_move:
  assumes "forward_only r"
  shows "all_matches fl r (a @ s) (length a + i) = map (move_match (length a)) (all_matches fl r s i)"
  using assms
proof (induction fl r s i rule: all_matches.induct)
  case (1 fl r s i)
  show ?case
  proof (cases "i > length s")
    case True
    then show ?thesis by (simp add: all_matches.simps[of fl r s i] all_matches.simps[of fl r "a @ s"])
  next
    case False
    note find = rx_find_move[OF 1(2), of fl a s i]
    show ?thesis
    proof (cases "rx_find fl r s i")
      case None
      then show ?thesis using find by (simp add: all_matches.simps[of fl r s i] all_matches.simps[of fl r "a @ s"])
    next
      case (Some m)
      obtain j e c where m: "m = (j, e, c)" by (cases m)
      have "all_matches fl r (a @ s) (length a + (if e = j then Suc e else e)) =
          map (move_match (length a)) (all_matches fl r s (if e = j then Suc e else e))"
        using 1(1)[OF False Some m[symmetric] refl 1(2)] .
      then show ?thesis using Some find False m
        by (subst all_matches.simps, subst (2) all_matches.simps)
          (simp add: move_match_def move_def split: if_splits)
    qed
  qed
qed

lemma splice_move:
  assumes "\<And>m. g (move_match (length a) m) = f m"
  shows "splice g (a @ s) (length a + i) (map (move_match (length a)) ms) = splice f s i ms"
proof (induction ms arbitrary: i)
  case (Cons m ms)
  then show ?case using assms[of m]
    by (simp add: move_match_def slice_move)
qed simp

text \<open>What stands before the first match stays; the first match becomes its replacement.\<close>

lemma replace_first_match:
  assumes "rx_find fl r s 0 = Some (j, e, c)"
  shows "\<exists>rest. rx_replace_all_fn fl r s f = take j s @ f (j, e, c) @ rest"
proof -
  have "all_matches fl r s 0 = (j, e, c) # all_matches fl r s (if e = j then Suc e else e)"
    using assms by (subst all_matches.simps) simp
  then show ?thesis by (simp add: rx_replace_all_fn_def slice_def)
qed

lemma replace_keeps_prefix:
  assumes "\<forall>j < n. rmatch fl s r (j, []) = []" "n \<le> length s"
  shows "take n (rx_replace_all_fn fl r s f) = take n s"
proof (cases "rx_find fl r s 0")
  case None
  then show ?thesis by (simp add: rx_replace_all_fn_absent)
next
  case (Some m)
  obtain j e c where m: "m = (j, e, c)" by (cases m)
  have "(e, c) \<in> set (rmatch fl s r (j, []))"
    using first_match_Some Some m by (auto simp: rx_find_def)
  then have j: "n \<le> j" using assms(1) by (cases "j < n") auto
  have "j \<le> length s" using rx_find_bounds[of fl r s 0 j e c] Some m by simp
  then show ?thesis using replace_first_match[of fl r s j e c f] Some m j by auto
qed

text \<open>A replacement of all matches by one text, read as a recursion.\<close>

lemma rx_find_first: "rmatch fl s r (0, []) = (e, c) # rest \<Longrightarrow> rx_find fl r s 0 = Some (0, e, c)"
  by (rule rx_find_at) auto

lemma rx_find_later:
  assumes "forward_only r" "rmatch fl (x # s) r (0, []) = []"
  shows "rx_find fl r (x # s) 0 = rx_find fl r (x # s) 1"
proof -
  have "[0..<Suc (length (x # s))] = 0 # [1..<Suc (length (x # s))]" by (simp add: upt_conv_Cons del: upt_Suc)
  then show ?thesis using assms(2) by (simp only: rx_find_def first_match.simps list.case)
qed

lemma slice_Cons: "slice (x # s) 0 (Suc j) = x # slice s 0 j"
  by (simp add: slice_def)

lemma replace_const_skip:
  assumes "forward_only r" "rmatch fl (x # s) r (0, []) = []"
  shows "rx_replace_all_fn fl r (x # s) (\<lambda>_. t) = x # rx_replace_all_fn fl r s (\<lambda>_. t)"
proof -
  have eq: "all_matches fl r (x # s) 0 = all_matches fl r (x # s) 1"
    using rx_find_later[OF assms] by (simp add: all_matches.simps[of fl r "x # s"])
  have mv: "all_matches fl r (x # s) 1 = map (move_match 1) (all_matches fl r s 0)"
    using all_matches_move[OF assms(1), of fl "[x]" s 0] by simp
  have sp: "splice (\<lambda>_. t) (x # s) 1 (map (move_match 1) ms) = splice (\<lambda>_. t) s 0 ms" for ms
    using splice_move[of "\<lambda>_. t" "[x]" "\<lambda>_. t" s 0 ms] by simp
  have "splice (\<lambda>_. t) (x # s) 0 (map (move_match 1) ms) =
      x # splice (\<lambda>_. t) (x # s) 1 (map (move_match 1) ms)" for ms
    by (cases ms) (auto simp: move_match_def slice_def)
  then show ?thesis unfolding rx_replace_all_fn_def eq mv by (simp only: sp)
qed

lemma replace_const_hit:
  assumes "forward_only r" "rmatch fl (a @ s) r (0, []) = (length a, c) # rest" "a \<noteq> []"
  shows "rx_replace_all_fn fl r (a @ s) (\<lambda>_. t) = t @ rx_replace_all_fn fl r s (\<lambda>_. t)"
proof -
  have "all_matches fl r (a @ s) 0 = (0, length a, c) # all_matches fl r (a @ s) (length a)"
    using rx_find_first[OF assms(2)] assms(3) by (subst all_matches.simps) simp
  also have "all_matches fl r (a @ s) (length a) = map (move_match (length a)) (all_matches fl r s 0)"
    using all_matches_move[OF assms(1), of fl a s 0] by simp
  finally show ?thesis
    using splice_move[of "\<lambda>_. t" a "\<lambda>_. t" s 0 "all_matches fl r s 0"]
    by (simp add: rx_replace_all_fn_def slice_def)
qed

lemma replace_const_Nil:
  assumes "rmatch fl [] r (0, []) = []"
  shows "rx_replace_all_fn fl r [] (\<lambda>_. t) = []"
proof -
  have "rx_find fl r [] 0 = None" using assms by (simp add: rx_find_None)
  then show ?thesis by (simp add: rx_replace_all_fn_absent)
qed

lemma rx_replace_all_plain: "36 \<notin> set t \<Longrightarrow> rx_replace_all fl r s t = rx_replace_all_fn fl r s (\<lambda>_. t)"
proof -
  assume "36 \<notin> set t"
  then have "repl_text r s t = (\<lambda>_. t)" by (auto simp: repl_text_def expand_repl_plain)
  then show ?thesis by (simp add: rx_replace_all_def)
qed

lemma forward_rlit: "forward_only (rlit w)"
proof (induction w)
  case (Cons a w)
  then show ?case by (cases w) (simp_all add: rlit_def)
qed (simp add: rlit_def)

text \<open>A literal: up to its first code unit nothing changes, and where it stands it becomes the text.\<close>

lemma replace_lit_prefix:
  "\<forall>c \<in> set pre. \<not> cu_eq fl a c \<Longrightarrow>
   rx_replace_all_fn fl (rlit (a # w)) (pre @ s) (\<lambda>_. t) = pre @ rx_replace_all_fn fl (rlit (a # w)) s (\<lambda>_. t)"
proof (induction pre)
  case (Cons x pre)
  have "rmatch fl (x # pre @ s) (rlit (a # w)) (0, []) = []"
    using Cons.prems by (simp add: rmatch_rlit lit_at_Cons)
  then show ?case using replace_const_skip[OF forward_rlit] Cons by simp
qed simp

lemma replace_lit_hit:
  "w \<noteq> [] \<Longrightarrow> rx_replace_all_fn fl (rlit w) (w @ s) (\<lambda>_. t) = t @ rx_replace_all_fn fl (rlit w) s (\<lambda>_. t)"
  using replace_const_hit[OF forward_rlit, of fl w s w "[]" "[]" t] lit_at_append[of fl w "[]" s]
  by (simp add: rmatch_rlit)

text \<open>The commonest case: each code unit that satisfies a test becomes the text.\<close>

lemma replace_each:
  assumes "\<And>s p c. rmatch fl s r (p, c) = (if p < length s \<and> P (s ! p) then [(Suc p, c)] else [])" "forward_only r"
  shows "rx_replace_all_fn fl r s (\<lambda>_. t) = concat (map (\<lambda>x. if P x then t else [x]) s)"
proof (induction s)
  case Nil
  then show ?case using replace_const_Nil[of fl r t] assms(1) by simp
next
  case (Cons x s)
  show ?case
  proof (cases "P x")
    case True
    then show ?thesis using replace_const_hit[OF assms(2), of fl "[x]" s "[]" "[]" t] assms(1) Cons by simp
  next
    case False
    then show ?thesis using replace_const_skip[OF assms(2), of fl x s t] assms(1) Cons by simp
  qed
qed

section \<open>Tags\<close>

text \<open>
  An opening tag with a name: the class of the name has not the code unit that ends it, so the
  greedy repetition takes the whole name and no shorter one is followed by the end.
\<close>

lemma rmatch_open_tag:
  assumes s: "s = w @ u @ d # rest" and u: "u \<noteq> []" "\<forall>x \<in> set u. P x \<and> \<not> cu_eq fl d x" and d: "\<not> P d"
    and R: "single fl s R P"
  shows "rmatch fl s (RSeq (rlit w) (RSeq (RGrp n (rplus R)) (RSeq (RChr d) T))) (0, []) =
    rmatch fl s T (Suc (length w + length u), [(n, length w, length w + length u)])"
proof -
  let ?a = "length w" and ?b = "length w + length u"
  obtain u0 u' where u': "u = u0 # u'" using u(1) by (cases u) auto
  have lit: "lit_at fl w s 0" using lit_at_append[of fl w "[]"] by (simp add: s)
  have at: "s ! (?a + k) = u ! k" if "k < length u" for k using that by (simp add: s nth_append)
  have run: "run P s (Suc ?a) = length u'"
    using run_append[of u' P "d # rest" "w @ [u0]"] u(2) d by (simp add: s u')
  have "P (s ! ?a)" "?a < length s" using at[of 0] u(2) by (simp_all add: s u')
  then have name: "rmatch fl s (rplus R) (?a, []) = map (\<lambda>q. (q, [])) (rev [Suc ?a..<Suc ?b])"
    using rmatch_plus[OF R] by (simp add: run u' del: upt_Suc)
  have no: "rmatch fl s (RSeq (RChr d) T) (q, [(n, ?a, q)]) = []" if "q \<in> set (rev [Suc ?a..<Suc ?b])" "q \<noteq> ?b" for q
  proof -
    have "s ! q = u ! (q - ?a)" "q - ?a < length u" using that at[of "q - ?a"] by auto
    then have "\<not> cu_eq fl d (s ! q)" using u(2) by auto
    then show ?thesis by (simp add: match_cu_def)
  qed
  have "rmatch fl s (RSeq (rlit w) (RSeq (RGrp n (rplus R)) (RSeq (RChr d) T))) (0, []) =
      concat (map (\<lambda>q. rmatch fl s (RSeq (RChr d) T) (q, [(n, ?a, q)])) (rev [Suc ?a..<Suc ?b]))"
    by (simp add: rmatch_rlit lit name o_def del: upt_Suc)
  also have "\<dots> = rmatch fl s (RSeq (RChr d) T) (?b, [(n, ?a, ?b)])"
    using no u' by (intro concat_map_one) auto
  also have "\<dots> = rmatch fl s T (Suc ?b, [(n, ?a, ?b)])"
    by (simp add: match_cu_def s nth_append)
  finally show ?thesis .
qed

text \<open>The text up to the first closing tag, found by a lazy repetition.\<close>

lemma rmatch_lazy_any:
  assumes "p \<le> q" "lit_at fl w s q" "\<And>i. p \<le> i \<Longrightarrow> i < q \<Longrightarrow> \<not> lit_at fl w s i" "w \<noteq> []"
  shows "\<exists>rest. rmatch fl s (RSeq (RGrp n (rstar_lazy (RCls [ClAny]))) (rlit w)) (p, cs) =
    (q + length w, (n, p, q) # cs) # rest"
proof -
  let ?f = "\<lambda>k. rmatch fl s (rlit w) (k, (n, p, k) # cs)"
  have q: "q < length s" using assms(2,4) by (cases w) (auto simp: lit_at_def)
  have "run (cls_has fl [ClAny]) s p = length s - p"
    using run_append[of "drop p s" "cls_has fl [ClAny]" "[]" "take p s"] assms(1) q by (simp add: cls_has_def min_def)
  then have "rmatch fl s (rstar_lazy (RCls [ClAny])) (p, cs) = map (\<lambda>k. (k, cs)) [p..<Suc (length s)]"
    using rmatch_star[of fl s "RCls [ClAny]" "cls_has fl [ClAny]" p False cs] assms(1) q
    by (simp add: rstar_lazy_def del: upt_Suc)
  then have "rmatch fl s (RSeq (RGrp n (rstar_lazy (RCls [ClAny]))) (rlit w)) (p, cs) =
      concat (map ?f [p..<Suc (length s)])"
    by (simp add: o_def del: upt_Suc)
  also have "[p..<Suc (length s)] = [p..<q] @ q # [Suc q..<Suc (length s)]"
    using assms(1) q by (metis le_SucI less_imp_le le_imp_less_Suc upt_add_eq_append upt_conv_Cons le_Suc_ex)
  also have "concat (map ?f \<dots>) = concat (map ?f [p..<q]) @ ?f q @ concat (map ?f [Suc q..<Suc (length s)])"
    by (simp del: upt_Suc)
  also have "concat (map ?f [p..<q]) = []"
    using assms(3,4) by (auto simp: rmatch_rlit)
  finally show ?thesis using assms(2) by (simp add: rmatch_rlit)
qed

lemma lit_at_prefix: "i + length w \<le> length a \<Longrightarrow> lit_at fl w (a @ b) i = lit_at fl w a i"
  by (simp add: lit_at_def)

lemma lit_at_suffix: "lit_at fl w (a @ b) (length a + i) = lit_at fl w b i"
  by (simp add: lit_at_def)

end
