(* ===== verification/Page.thy ===== *)
theory Page
  imports JsPrelude
begin

text \<open>
  The page the scripts act on, as far as they read and write it through the DOM and jQuery.

  An element is found by the selector the script uses for it, so a page is a map from selectors to
  elements and two selectors that differ are two elements; a script that reaches one element by two
  selectors has it modelled under one of them. What leaves the page (requests, dialogs, timers,
  navigation, calls of another script) is appended to the list of effects, in the order in which the
  code issues it. A callback is a definition of its own that takes the page when it fires.

  The locale \<open>keyed_store\<close> is the interface the page, its attributes, the cookie jar of the
  browser and the tables of the scripts share.
\<close>

section \<open>Keyed stores\<close>

locale keyed_store =
  fixes get :: "'k \<Rightarrow> 's \<Rightarrow> 'v"
    and put :: "'k \<Rightarrow> 'v \<Rightarrow> 's \<Rightarrow> 's"
  assumes get_put_same: "get k (put k v s) = v"
    and get_put_other: "k \<noteq> j \<Longrightarrow> get j (put k v s) = get j s"
begin

text \<open>A sequence of assignments.\<close>

definition puts :: "('k \<times> 'v) list \<Rightarrow> 's \<Rightarrow> 's" where
  "puts kvs s = fold (\<lambda>(k, v). put k v) kvs s"

lemma puts_Nil: "puts [] s = s"
  by (simp add: puts_def)

lemma puts_Cons: "puts ((k, v) # kvs) s = puts kvs (put k v s)"
  by (simp add: puts_def)

lemma get_puts_absent: "k \<notin> fst ` set kvs \<Longrightarrow> get k (puts kvs s) = get k s"
  by (induction kvs arbitrary: s) (auto simp: puts_Nil puts_Cons get_put_other)

lemma get_puts_last: "k \<notin> fst ` set kvs \<Longrightarrow> get k (puts (pre @ (k, v) # kvs) s) = v"
proof (induction pre arbitrary: s)
  case Nil
  then show ?case by (simp add: puts_Cons get_puts_absent get_put_same)
next
  case (Cons a pre)
  then show ?case by (cases a) (simp add: puts_Cons)
qed

lemma get_puts: "get k (puts kvs s) = (case map_of (rev kvs) k of None \<Rightarrow> get k s | Some v \<Rightarrow> v)"
proof (induction kvs arbitrary: s)
  case (Cons a kvs)
  obtain j v where a: "a = (j, v)" by (cases a)
  show ?case
    using Cons[of "put j v s"] get_put_same[of k v s] get_put_other[of j k v s]
    by (cases "j = k") (auto simp: a puts_Cons map_add_def split: option.splits)
qed (simp add: puts_Nil)

end

interpretation fun_store: keyed_store "\<lambda>k f. f k" "\<lambda>k v f. f(k := v)"
  by unfold_locales auto

section \<open>Elements and pages\<close>

type_synonym selector = string

record elem =
  e_html :: jstr
  e_val :: jstr
  e_attrs :: "string \<Rightarrow> jstr option"
  e_shown :: bool
  e_classes :: "string list"

definition blank_elem :: elem where
  [js_eval]: "blank_elem = \<lparr>e_html = [], e_val = [], e_attrs = (\<lambda>_. None), e_shown = True, e_classes = []\<rparr>"

datatype effect =
  Alert jstr
| Ask jstr                                   \<comment> \<open>a \<open>confirm\<close> dialog\<close>
| AjaxGet jstr
| AjaxPost jstr "(string \<times> jstr) list"
| Jsonp jstr "(string \<times> jstr) list"
| Navigate jstr
| Reload
| OpenWindow jstr
| Focus selector
| Write jstr                                 \<comment> \<open>\<open>document.write\<close>\<close>
| Load selector jstr                         \<comment> \<open>\<open>$(sel).load(url)\<close>\<close>
| StartTimer string nat                      \<comment> \<open>\<open>setTimeout\<close>, in milliseconds\<close>
| StartInterval string nat
| StopTimer string
| Trigger string jstr                        \<comment> \<open>an event for the other scripts, with its datum\<close>
| Call string "jstr list"                    \<comment> \<open>a function of another script\<close>
| Console jstr

record page =
  els :: "selector \<Rightarrow> elem"
  effects :: "effect list"

definition blank_page :: page where
  [js_eval]: "blank_page = \<lparr>els = (\<lambda>_. blank_elem), effects = []\<rparr>"

text \<open>\<open>$(sel)\<close>.\<close>

definition elem_of :: "selector \<Rightarrow> 'a page_scheme \<Rightarrow> elem" where
  [js_eval]: "elem_of sel p = els p sel"

definition upd_elem :: "selector \<Rightarrow> (elem \<Rightarrow> elem) \<Rightarrow> 'a page_scheme \<Rightarrow> 'a page_scheme" where
  [js_eval]: "upd_elem sel f p = p\<lparr>els := (els p)(sel := f (els p sel))\<rparr>"

definition emit :: "effect \<Rightarrow> 'a page_scheme \<Rightarrow> 'a page_scheme" where
  [js_eval]: "emit e p = p\<lparr>effects := effects p @ [e]\<rparr>"

definition html_of :: "selector \<Rightarrow> 'a page_scheme \<Rightarrow> jstr" where
  [js_eval]: "html_of sel p = e_html (els p sel)"

definition set_html :: "selector \<Rightarrow> jstr \<Rightarrow> 'a page_scheme \<Rightarrow> 'a page_scheme" where
  [js_eval]: "set_html sel h p = upd_elem sel (\<lambda>e. e\<lparr>e_html := h\<rparr>) p"

definition append_html :: "selector \<Rightarrow> jstr \<Rightarrow> 'a page_scheme \<Rightarrow> 'a page_scheme" where
  [js_eval]: "append_html sel h p = set_html sel (html_of sel p @ h) p"

definition val_of :: "selector \<Rightarrow> 'a page_scheme \<Rightarrow> jstr" where
  [js_eval]: "val_of sel p = e_val (els p sel)"

definition set_val :: "selector \<Rightarrow> jstr \<Rightarrow> 'a page_scheme \<Rightarrow> 'a page_scheme" where
  [js_eval]: "set_val sel v p = upd_elem sel (\<lambda>e. e\<lparr>e_val := v\<rparr>) p"

definition attr_of :: "selector \<times> string \<Rightarrow> 'a page_scheme \<Rightarrow> jstr option" where
  [js_eval]: "attr_of k p = e_attrs (els p (fst k)) (snd k)"

definition set_attr :: "selector \<times> string \<Rightarrow> jstr option \<Rightarrow> 'a page_scheme \<Rightarrow> 'a page_scheme" where
  [js_eval]: "set_attr k v p = upd_elem (fst k) (\<lambda>e. e\<lparr>e_attrs := (e_attrs e)(snd k := v)\<rparr>) p"

definition shown :: "selector \<Rightarrow> 'a page_scheme \<Rightarrow> bool" where
  [js_eval]: "shown sel p = e_shown (els p sel)"

definition set_shown :: "selector \<Rightarrow> bool \<Rightarrow> 'a page_scheme \<Rightarrow> 'a page_scheme" where
  [js_eval]: "set_shown sel b p = upd_elem sel (\<lambda>e. e\<lparr>e_shown := b\<rparr>) p"

text \<open>\<open>.attr("disabled", b)\<close>.\<close>

definition set_disabled :: "selector \<Rightarrow> bool \<Rightarrow> 'a page_scheme \<Rightarrow> 'a page_scheme" where
  [js_eval]: "set_disabled sel b p = set_attr (sel, ''disabled'') (if b then Some (js ''disabled'') else None) p"

definition disabled :: "selector \<Rightarrow> 'a page_scheme \<Rightarrow> bool" where
  [js_eval]: "disabled sel p \<longleftrightarrow> attr_of (sel, ''disabled'') p \<noteq> None"

definition classes_of :: "selector \<Rightarrow> 'a page_scheme \<Rightarrow> string list" where
  [js_eval]: "classes_of sel p = e_classes (els p sel)"

definition set_classes :: "selector \<Rightarrow> string list \<Rightarrow> 'a page_scheme \<Rightarrow> 'a page_scheme" where
  [js_eval]: "set_classes sel cs p = upd_elem sel (\<lambda>e. e\<lparr>e_classes := cs\<rparr>) p"

definition has_class :: "selector \<Rightarrow> string \<Rightarrow> 'a page_scheme \<Rightarrow> bool" where
  [js_eval]: "has_class sel c p \<longleftrightarrow> c \<in> set (classes_of sel p)"

definition add_class :: "selector \<Rightarrow> string \<Rightarrow> 'a page_scheme \<Rightarrow> 'a page_scheme" where
  [js_eval]: "add_class sel c p = (if has_class sel c p then p else set_classes sel (classes_of sel p @ [c]) p)"

definition remove_class :: "selector \<Rightarrow> string \<Rightarrow> 'a page_scheme \<Rightarrow> 'a page_scheme" where
  [js_eval]: "remove_class sel c p = set_classes sel (filter (\<lambda>d. d \<noteq> c) (classes_of sel p)) p"

lemmas page_acc_defs = elem_of_def html_of_def val_of_def attr_of_def shown_def classes_of_def
  disabled_def has_class_def

lemmas page_upd_defs = upd_elem_def emit_def set_html_def append_html_def set_val_def set_attr_def
  set_shown_def set_disabled_def set_classes_def add_class_def remove_class_def

lemmas page_defs = page_acc_defs page_upd_defs

text \<open>Each aspect of a page is a keyed store, and writing one aspect leaves the others alone.\<close>

interpretation htmls: keyed_store html_of set_html
  by unfold_locales (auto simp: page_defs)

interpretation vals: keyed_store val_of set_val
  by unfold_locales (auto simp: page_defs)

interpretation attrs: keyed_store attr_of set_attr
  by unfold_locales (auto simp: page_defs)

interpretation shownness: keyed_store shown set_shown
  by unfold_locales (auto simp: page_defs)

interpretation classes: keyed_store classes_of set_classes
  by unfold_locales (auto simp: page_defs)

lemma html_frame [simp]:
  "html_of sel (set_val s v p) = html_of sel p"
  "html_of sel (set_attr k a p) = html_of sel p"
  "html_of sel (set_shown s b p) = html_of sel p"
  "html_of sel (set_disabled s b p) = html_of sel p"
  "html_of sel (set_classes s cs p) = html_of sel p"
  "html_of sel (emit e p) = html_of sel p"
  "html_of sel (set_html s h p) = (if s = sel then h else html_of sel p)"
  by (auto simp: page_defs)

lemma val_frame [simp]:
  "val_of sel (set_html s v p) = val_of sel p"
  "val_of sel (set_attr k a p) = val_of sel p"
  "val_of sel (set_shown s b p) = val_of sel p"
  "val_of sel (set_disabled s b p) = val_of sel p"
  "val_of sel (set_classes s cs p) = val_of sel p"
  "val_of sel (emit e p) = val_of sel p"
  "val_of sel (set_val s h p) = (if s = sel then h else val_of sel p)"
  by (auto simp: page_defs)

lemma shown_frame [simp]:
  "shown sel (set_html s v p) = shown sel p"
  "shown sel (set_attr k a p) = shown sel p"
  "shown sel (set_val s v p) = shown sel p"
  "shown sel (set_disabled s b p) = shown sel p"
  "shown sel (set_classes s cs p) = shown sel p"
  "shown sel (emit e p) = shown sel p"
  "shown sel (set_shown s b p) = (if s = sel then b else shown sel p)"
  by (auto simp: page_defs)

lemma disabled_frame [simp]:
  "disabled sel (set_html s v p) = disabled sel p"
  "disabled sel (set_val s v p) = disabled sel p"
  "disabled sel (set_shown s b p) = disabled sel p"
  "disabled sel (set_classes s cs p) = disabled sel p"
  "disabled sel (emit e p) = disabled sel p"
  "disabled sel (set_disabled s b p) = (if s = sel then b else disabled sel p)"
  by (auto simp: page_defs)

lemma effects_frame [simp]:
  "effects (set_html s v p) = effects p"
  "effects (append_html s v p) = effects p"
  "effects (set_val s v p) = effects p"
  "effects (set_attr k a p) = effects p"
  "effects (set_shown s b p) = effects p"
  "effects (set_disabled s b p) = effects p"
  "effects (set_classes s cs p) = effects p"
  "effects (add_class s c p) = effects p"
  "effects (remove_class s c p) = effects p"
  "effects (emit e p) = effects p @ [e]"
  by (auto simp: page_defs)

lemma class_frame [simp]:
  "classes_of sel (set_html s v p) = classes_of sel p"
  "classes_of sel (set_val s v p) = classes_of sel p"
  "classes_of sel (set_attr k a p) = classes_of sel p"
  "classes_of sel (set_shown s b p) = classes_of sel p"
  "classes_of sel (set_disabled s b p) = classes_of sel p"
  "classes_of sel (emit e p) = classes_of sel p"
  "classes_of sel (set_classes s cs p) = (if s = sel then cs else classes_of sel p)"
  by (auto simp: page_defs)

lemma has_class_add [simp]: "has_class sel c (add_class s d p) \<longleftrightarrow> (s = sel \<and> c = d) \<or> has_class sel c p"
  by (auto simp: add_class_def has_class_def)

lemma has_class_remove [simp]: "has_class sel c (remove_class s d p) \<longleftrightarrow> \<not> (s = sel \<and> c = d) \<and> has_class sel c p"
  by (auto simp: remove_class_def has_class_def)

lemma page_more_frame [simp]:
  "page.more (set_html s v p) = page.more p"
  "page.more (append_html s v p) = page.more p"
  "page.more (set_val s v p) = page.more p"
  "page.more (set_attr k a p) = page.more p"
  "page.more (set_shown s b p) = page.more p"
  "page.more (set_disabled s b p) = page.more p"
  "page.more (set_classes s cs p) = page.more p"
  "page.more (emit e p) = page.more p"
  by (auto simp: page_defs)

end
