(* ===== verification/Json.thy ===== *)
theory Json
  imports JsPrelude
begin

text \<open>
  \<open>JSON\<close> of the standard library, which the cache of the page puts between its values and the
  storage of the browser, and the conversions of such a value to a string and to a number.

  Numbers are integers: the scripts store times in milliseconds and counters. \<open>parse_json\<close> follows
  the grammar of the language with white space between the tokens; \<open>None\<close> is a syntax error (or a
  number with a fraction or an exponent, which the model does not represent). Members of an object
  keep the order of the text and the last one of a name counts. The recursion has a bound, which
  \<open>parse_json\<close> takes from the length of the text; \<open>parse_fuel\<close> shows that no larger one makes a
  difference.
\<close>

datatype json =
  JNull
| JBool bool
| JNum int
| JStr jstr
| JArr "json list"
| JObj "(jstr \<times> json) list"

section \<open>\<open>JSON.stringify\<close>\<close>

definition low_hex :: "nat \<Rightarrow> cu" where
  [js_eval]: "low_hex n = (if n < 10 then 48 + n else 87 + n)"

definition esc_cu :: "cu \<Rightarrow> jstr" where
  [js_eval]: "esc_cu c =
     (if c = 34 \<or> c = 92 then [92, c]
      else if c = 8 then [92, 98] else if c = 9 then [92, 116] else if c = 10 then [92, 110]
      else if c = 12 then [92, 102] else if c = 13 then [92, 114]
      else if c < 32 then [92, 117, 48, 48, low_hex (c div 16), low_hex (c mod 16)]
      else [c])"

definition quoted :: "jstr \<Rightarrow> jstr" where
  [js_eval]: "quoted s = 34 # concat (map esc_cu s) @ [34]"

fun stringify :: "json \<Rightarrow> jstr" where
  "stringify JNull = js ''null''"
| "stringify (JBool b) = (if b then js ''true'' else js ''false'')"
| "stringify (JNum n) = int_str n"
| "stringify (JStr s) = quoted s"
| "stringify (JArr vs) = 91 # join [44] (map stringify vs) @ [93]"
| "stringify (JObj kvs) = 123 # join [44] (map (\<lambda>(k, v). quoted k @ 58 # stringify v) kvs) @ [125]"

section \<open>\<open>JSON.parse\<close>\<close>

definition json_ws :: "cu \<Rightarrow> bool" where
  [js_eval]: "json_ws c \<longleftrightarrow> c = 9 \<or> c = 10 \<or> c = 13 \<or> c = 32"

definition skip :: "jstr \<Rightarrow> jstr" where
  [js_eval]: "skip s = dropWhile json_ws s"

definition unesc :: "cu \<Rightarrow> cu option" where
  [js_eval]: "unesc c =
     (if c = 34 \<or> c = 92 \<or> c = 47 then Some c
      else if c = 98 then Some 8 else if c = 116 then Some 9 else if c = 110 then Some 10
      else if c = 102 then Some 12 else if c = 114 then Some 13 else None)"

text \<open>The rest of a string, after the opening quotation mark.\<close>

fun parse_str :: "jstr \<Rightarrow> (jstr \<times> jstr) option" where
  "parse_str [] = None"
| "parse_str (c # s) =
     (if c = 34 then Some ([], s)
      else if c < 32 then None
      else if c = 92 then
        (case s of
           [] \<Rightarrow> None
         | d # t \<Rightarrow>
             if d = 117
             then if 4 \<le> length t \<and> list_all is_hex (take 4 t)
                  then map_option (apfst ((#) (hex_num (take 4 t)))) (parse_str (drop 4 t)) else None
             else case unesc d of None \<Rightarrow> None | Some x \<Rightarrow> map_option (apfst ((#) x)) (parse_str t))
      else map_option (apfst ((#) c)) (parse_str s))"

text \<open>A number: no leading zero, and not the beginning of a longer literal.\<close>

definition parse_nat :: "jstr \<Rightarrow> (nat \<times> jstr) option" where
  [js_eval]: "parse_nat s =
     (let ds = takeWhile is_digit s; r = dropWhile is_digit s
      in if ds = [] \<or> (hd ds = 48 \<and> tl ds \<noteq> []) \<or> (r \<noteq> [] \<and> hd r \<in> {46, 69, 101}) then None
         else Some (digits_val ds, r))"

definition parse_num :: "jstr \<Rightarrow> (int \<times> jstr) option" where
  [js_eval]: "parse_num s =
     (if take 1 s = [45] then map_option (\<lambda>(n, r). (- int n, r)) (parse_nat (tl s))
      else map_option (\<lambda>(n, r). (int n, r)) (parse_nat s))"

text \<open>What stands for \<open>w\<close>, when the text begins with it.\<close>

definition parse_word :: "jstr \<Rightarrow> json \<Rightarrow> jstr \<Rightarrow> (json \<times> jstr) option" where
  [js_eval]: "parse_word w v s = (if starts_with w s then Some (v, drop (length w) s) else None)"

fun parse_val :: "nat \<Rightarrow> jstr \<Rightarrow> (json \<times> jstr) option"
  and parse_elems :: "nat \<Rightarrow> jstr \<Rightarrow> (json list \<times> jstr) option"
  and parse_members :: "nat \<Rightarrow> jstr \<Rightarrow> ((jstr \<times> json) list \<times> jstr) option" where
  "parse_val 0 s = None"
| "parse_val (Suc n) cs =
     (case cs of [] \<Rightarrow> None | c # s \<Rightarrow>
      if c = 110 then parse_word (js ''null'') JNull (c # s)
      else if c = 116 then parse_word (js ''true'') (JBool True) (c # s)
      else if c = 102 then parse_word (js ''false'') (JBool False) (c # s)
      else if c = 34 then map_option (apfst JStr) (parse_str s)
      else if c = 91 then
        (case skip s of
           [] \<Rightarrow> None
         | d # t \<Rightarrow> if d = 93 then Some (JArr [], t) else map_option (apfst JArr) (parse_elems n (d # t)))
      else if c = 123 then
        (case skip s of
           [] \<Rightarrow> None
         | d # t \<Rightarrow> if d = 125 then Some (JObj [], t) else map_option (apfst JObj) (parse_members n (d # t)))
      else map_option (apfst JNum) (parse_num (c # s)))"
| "parse_elems 0 s = None"
| "parse_elems (Suc n) s =
     (case parse_val n s of
        None \<Rightarrow> None
      | Some (v, r) \<Rightarrow>
          (case skip r of
             [] \<Rightarrow> None
           | d # t \<Rightarrow> if d = 93 then Some ([v], t)
                     else if d = 44 then map_option (apfst ((#) v)) (parse_elems n (skip t)) else None))"
| "parse_members 0 s = None"
| "parse_members (Suc n) cs =
     (case cs of [] \<Rightarrow> None | c # s \<Rightarrow>
      if c \<noteq> 34 then None
      else case parse_str s of
        None \<Rightarrow> None
      | Some (k, r) \<Rightarrow>
          (case skip r of
             [] \<Rightarrow> None
           | d # t \<Rightarrow>
               if d \<noteq> 58 then None
               else case parse_val n (skip t) of
                 None \<Rightarrow> None
               | Some (v, q) \<Rightarrow>
                   (case skip q of
                      [] \<Rightarrow> None
                    | e # u \<Rightarrow> if e = 125 then Some ([(k, v)], u)
                              else if e = 44 then map_option (apfst ((#) (k, v))) (parse_members n (skip u))
                              else None)))"

lemma parse_Cons [simp]:
  "parse_val (Suc n) [] = None"
  "parse_val (Suc n) (c # s) =
     (if c = 110 then parse_word (js ''null'') JNull (c # s)
      else if c = 116 then parse_word (js ''true'') (JBool True) (c # s)
      else if c = 102 then parse_word (js ''false'') (JBool False) (c # s)
      else if c = 34 then map_option (apfst JStr) (parse_str s)
      else if c = 91 then
        (case skip s of
           [] \<Rightarrow> None
         | d # t \<Rightarrow> if d = 93 then Some (JArr [], t) else map_option (apfst JArr) (parse_elems n (d # t)))
      else if c = 123 then
        (case skip s of
           [] \<Rightarrow> None
         | d # t \<Rightarrow> if d = 125 then Some (JObj [], t) else map_option (apfst JObj) (parse_members n (d # t)))
      else map_option (apfst JNum) (parse_num (c # s)))"
  "parse_members (Suc n) [] = None"
  by simp_all

declare parse_val.simps(2) [simp del]

definition parse_json :: "jstr \<Rightarrow> json option" where
  [js_eval]: "parse_json s =
     (case parse_val (2 * length s) (skip s) of
        None \<Rightarrow> None
      | Some (v, r) \<Rightarrow> if skip r = [] then Some v else None)"

section \<open>Conversions\<close>

text \<open>\<open>String(v)\<close>.\<close>

fun js_string :: "json \<Rightarrow> jstr" where
  "js_string JNull = js ''null''"
| "js_string (JBool b) = (if b then js ''true'' else js ''false'')"
| "js_string (JNum n) = int_str n"
| "js_string (JStr s) = s"
| "js_string (JArr vs) = join [44] (map (\<lambda>v. if v = JNull then [] else js_string v) vs)"
| "js_string (JObj kvs) = js ''[object Object]''"

text \<open>A falsy value.\<close>

definition falsy :: "json \<Rightarrow> bool" where
  [js_eval]: "falsy v \<longleftrightarrow> v \<in> {JNull, JBool False, JNum 0, JStr []}"

text \<open>\<open>Number(s)\<close> of a string in decimal; \<open>None\<close> is NaN.\<close>

definition str_num :: "jstr \<Rightarrow> int option" where
  [js_eval]: "str_num s =
     (let t = trim s; u = (if t \<noteq> [] \<and> (hd t = 45 \<or> hd t = 43) then tl t else t)
      in if t = [] then Some 0
         else if u = [] \<or> \<not> list_all is_digit u then None
         else Some (if hd t = 45 then - int (digits_val u) else int (digits_val u)))"

fun num_of :: "json \<Rightarrow> int option" where
  "num_of JNull = Some 0"
| "num_of (JBool b) = Some (if b then 1 else 0)"
| "num_of (JNum n) = Some n"
| "num_of (JStr s) = str_num s"
| "num_of (JArr vs) = str_num (js_string (JArr vs))"
| "num_of (JObj kvs) = None"

text \<open>The property \<open>k\<close> of a value; \<open>None\<close> is undefined.\<close>

fun member :: "jstr \<Rightarrow> json \<Rightarrow> json option" where
  "member k (JObj kvs) = map_of (rev kvs) k"
| "member k _ = None"

fun is_object :: "json \<Rightarrow> bool" where
  "is_object (JObj kvs) = True"
| "is_object (JArr vs) = True"
| "is_object _ = False"

section \<open>What a value is written as can be read back\<close>

lemma skip_Nil [simp]: "skip [] = []"
  by (simp add: skip_def)

lemma skip_stop [simp]: "\<not> json_ws c \<Longrightarrow> skip (c # s) = c # s"
  by (simp add: skip_def)

lemma length_skip: "length (skip s) \<le> length s"
  by (simp add: skip_def length_dropWhile_le)

lemma not_ws [simp]: "\<not> json_ws 34" "\<not> json_ws 44" "\<not> json_ws 58" "\<not> json_ws 91" "\<not> json_ws 93" "\<not> json_ws 123"
    "\<not> json_ws 125"
  by (simp_all add: json_ws_def)

lemma low_hex_control: "c < 32 \<Longrightarrow> list_all is_hex [48, 48, low_hex (c div 16), low_hex (c mod 16)]
    \<and> hex_num [48, 48, low_hex (c div 16), low_hex (c mod 16)] = c"
proof -
  assume "c < 32"
  then have "c div 16 < 2" "c mod 16 < 16" by auto
  moreover have "is_hex (low_hex n)" "hex_val (low_hex n) = n" if "n < 16" for n
    using that by (auto simp: low_hex_def is_hex_def hex_val_def is_digit_def)
  ultimately show ?thesis by (auto simp: hex_num_def is_hex_def is_digit_def hex_val_def)
qed

lemma parse_str_esc: "parse_str (esc_cu c @ t) = map_option (apfst ((#) c)) (parse_str t)"
proof (cases "c < 32 \<and> c \<notin> {8, 9, 10, 12, 13}")
  case True
  then have "esc_cu c = [92, 117, 48, 48, low_hex (c div 16), low_hex (c mod 16)]" by (simp add: esc_cu_def)
  with True low_hex_control[of c] show ?thesis by (simp add: unesc_def)
next
  case False
  then consider "c = 34 \<or> c = 92" | "c \<in> {8, 9, 10, 12, 13}" | "32 \<le> c" "c \<noteq> 34" "c \<noteq> 92" by force
  then show ?thesis by cases (auto simp: esc_cu_def unesc_def)
qed

lemma parse_str_quoted: "parse_str (concat (map esc_cu s) @ 34 # r) = Some (s, r)"
  by (induction s) (simp_all add: parse_str_esc)

lemma hd_num_str: "0 < n \<Longrightarrow> hd (num_str n) \<noteq> 48"
proof (induction n rule: num_str.induct)
  case (1 n)
  show ?case
  proof (cases "n < 10")
    case False
    then have "hd (num_str (n div 10)) \<noteq> 48" by (intro 1(1)) auto
    with False show ?thesis by (subst num_str.simps) (simp add: hd_append)
  qed (use 1(2) in \<open>subst num_str.simps, simp\<close>)
qed

text \<open>What may follow a value inside another one.\<close>

definition stops :: "jstr \<Rightarrow> bool" where
  "stops r \<longleftrightarrow> r = [] \<or> hd r \<in> {44, 93, 125}"

lemma stops_simps [simp]: "stops []" "stops (44 # r)" "stops (93 # r)" "stops (125 # r)"
  by (simp_all add: stops_def)

lemma parse_nat_num_str: "stops r \<Longrightarrow> parse_nat (num_str n @ r) = Some (n, r)"
proof -
  assume r: "stops r"
  then have "takeWhile is_digit r = []" "dropWhile is_digit r = r"
    by (cases r; auto simp: stops_def is_digit_def)+
  then have "takeWhile is_digit (num_str n @ r) = num_str n" "dropWhile is_digit (num_str n @ r) = r"
    using num_str_digits[of n] by (simp_all add: takeWhile_append2 dropWhile_append2)
  moreover have "hd (num_str n) = 48 \<Longrightarrow> tl (num_str n) = []"
    using hd_num_str[of n] by (cases "n = 0") (auto simp: num_str.simps[of 0])
  ultimately show ?thesis using r by (auto simp: parse_nat_def Let_def stops_def digits_val_num_str)
qed

lemma hd_num_str_digit: "\<exists>c s. num_str n = c # s \<and> is_digit c"
  using num_str_digits[of n] by (cases "num_str n") auto

lemma parse_num_int_str: "stops r \<Longrightarrow> parse_num (int_str n @ r) = Some (n, r)"
  using hd_num_str_digit[of "nat n"]
  by (auto simp: parse_num_def int_str_def parse_nat_num_str is_digit_def)

lemma stringify_hd: "\<exists>c s. stringify v = c # s \<and> \<not> json_ws c \<and> c \<noteq> 93 \<and> c \<noteq> 125"
proof (cases v)
  case (JNum n)
  then show ?thesis using hd_num_str_digit[of "nat n"] by (auto simp: int_str_def json_ws_def is_digit_def)
qed (auto simp: js_def json_ws_def quoted_def)

lemma stringify_pos: "0 < length (stringify v)"
  using stringify_hd[of v] by auto

lemma skip_stringify [simp]: "skip (stringify v @ r) = stringify v @ r"
  using stringify_hd[of v] by auto

lemma parse_elems_join:
  assumes "\<And>v n r. v \<in> set vs \<Longrightarrow> length (stringify v) \<le> n \<Longrightarrow> stops r \<Longrightarrow> parse_val n (stringify v @ r) = Some (v, r)"
  shows "vs \<noteq> [] \<Longrightarrow> length (join [44] (map stringify vs)) < n \<Longrightarrow>
     parse_elems n (join [44] (map stringify vs) @ 93 # r) = Some (vs, r)"
  using assms
proof (induction vs arbitrary: n)
  case (Cons v vs)
  obtain m where n: "n = Suc m" using Cons.prems(2) by (cases n) auto
  show ?case
  proof (cases "vs = []")
    case True
    then show ?thesis using Cons.prems by (simp add: n)
  next
    case False
    then have j: "join [44] (map stringify (v # vs)) = stringify v @ 44 # join [44] (map stringify vs)"
      by (simp add: join_Cons)
    obtain w ws where w: "vs = w # ws" using False by (cases vs) auto
    have s: "skip (join [44] (map stringify vs) @ 93 # r) = join [44] (map stringify vs) @ 93 # r"
      by (cases ws) (simp_all add: w join_Cons)
    have "parse_elems m (join [44] (map stringify vs) @ 93 # r) = Some (vs, r)"
      using Cons.prems(3) Cons.prems(2)[unfolded j] stringify_pos[of v] False by (intro Cons.IH) (auto simp: n)
    moreover have "parse_val m (stringify v @ 44 # join [44] (map stringify vs) @ 93 # r)
        = Some (v, 44 # join [44] (map stringify vs) @ 93 # r)"
      using Cons.prems(2)[unfolded j] by (intro Cons.prems) (auto simp: n)
    ultimately show ?thesis by (simp only: n j append_assoc append_Cons) (simp add: s)
  qed
qed simp

lemma quoted_hd: "quoted k = 34 # concat (map esc_cu k) @ [34]"
  by (simp add: quoted_def)

definition write_member :: "jstr \<times> json \<Rightarrow> jstr" where
  [js_eval]: "write_member kv = quoted (fst kv) @ 58 # stringify (snd kv)"

lemma stringify_JObj: "stringify (JObj kvs) = 123 # join [44] (map write_member kvs) @ [125]"
proof -
  have "(\<lambda>(k, v). quoted k @ 58 # stringify v) = write_member" by (auto simp: write_member_def fun_eq_iff)
  then show ?thesis by simp
qed

lemma parse_members_step:
  assumes "parse_val n (stringify v @ q) = Some (v, q)"
  shows "parse_members (Suc n) (write_member (k, v) @ q) =
    (case skip q of [] \<Rightarrow> None
      | e # u \<Rightarrow> if e = 125 then Some ([(k, v)], u)
                else if e = 44 then map_option (apfst ((#) (k, v))) (parse_members n (skip u)) else None)"
  using assms by (simp add: write_member_def quoted_hd parse_str_quoted)

lemma skip_members: "kvs \<noteq> [] \<Longrightarrow> skip (join [44] (map write_member kvs) @ r) = join [44] (map write_member kvs) @ r"
  by (cases kvs rule: remdups_adj.cases) (simp_all add: write_member_def quoted_hd)

lemma parse_members_join:
  assumes "\<And>k v n r. (k, v) \<in> set kvs \<Longrightarrow> length (stringify v) \<le> n \<Longrightarrow> stops r \<Longrightarrow>
     parse_val n (stringify v @ r) = Some (v, r)"
  shows "kvs \<noteq> [] \<Longrightarrow> length (join [44] (map write_member kvs)) < n \<Longrightarrow>
     parse_members n (join [44] (map write_member kvs) @ 125 # r) = Some (kvs, r)"
  using assms
proof (induction kvs arbitrary: n)
  case (Cons kv kvs)
  obtain k v where kv: "kv = (k, v)" by (cases kv)
  obtain m where n: "n = Suc m" using Cons.prems(2) by (cases n) auto
  show ?case
  proof (cases "kvs = []")
    case True
    have "parse_val m (stringify v @ 125 # r) = Some (v, 125 # r)"
      using Cons.prems(2) by (intro Cons.prems) (auto simp: n kv True write_member_def)
    then show ?thesis by (simp add: n kv True parse_members_step del: parse_members.simps)
  next
    case False
    then have j: "join [44] (map write_member (kv # kvs)) = write_member kv @ 44 # join [44] (map write_member kvs)"
      by (simp add: join_Cons)
    have "parse_members m (join [44] (map write_member kvs) @ 125 # r) = Some (kvs, r)"
      using Cons.prems(3) Cons.prems(2)[unfolded j] False by (intro Cons.IH) (auto simp: n)
    moreover have "parse_val m (stringify v @ 44 # join [44] (map write_member kvs) @ 125 # r)
        = Some (v, 44 # join [44] (map write_member kvs) @ 125 # r)"
      using Cons.prems(2)[unfolded j] by (intro Cons.prems) (auto simp: n kv write_member_def)
    ultimately show ?thesis using skip_members[OF False]
      by (simp only: n j append_assoc append_Cons) (simp add: kv parse_members_step del: parse_members.simps)
  qed
qed simp

lemma parse_val_stringify:
  "length (stringify v) \<le> n \<Longrightarrow> stops r \<Longrightarrow> parse_val n (stringify v @ r) = Some (v, r)"
proof (induction v arbitrary: n r)
  case JNull
  then obtain m where "n = Suc m" by (cases n) (auto simp: js_def)
  then show ?case by (simp add: js_def parse_word_def)
next
  case (JBool b)
  then obtain m where "n = Suc m" by (cases n) (auto simp: js_def split: if_splits)
  then show ?case by (simp add: js_def parse_word_def)
next
  case (JNum i)
  then obtain m where n: "n = Suc m" using stringify_pos[of "JNum i"] by (cases n) auto
  obtain c s where c: "int_str i @ r = c # s" "c = 45 \<or> is_digit c"
    using hd_num_str_digit[of "nat i"] that by (cases "i < 0") (auto simp: int_str_def)
  then have "c \<notin> {110, 116, 102, 34, 91, 123}" by (auto simp: is_digit_def)
  then show ?case using parse_num_int_str[OF JNum(2), of i] c(1) by (simp add: n)
next
  case (JStr s)
  then obtain m where n: "n = Suc m" by (cases n) (auto simp: quoted_def)
  then show ?case by (simp add: quoted_hd parse_str_quoted)
next
  case (JArr vs)
  then obtain m where n: "n = Suc m" by (cases n) auto
  show ?case
  proof (cases vs)
    case (Cons w ws)
    have "parse_elems m (join [44] (map stringify vs) @ 93 # r) = Some (vs, r)"
      using JArr by (intro parse_elems_join) (auto simp: n Cons)
    moreover obtain c s where "stringify w = c # s" "\<not> json_ws c" "c \<noteq> 93" using stringify_hd[of w] by auto
    ultimately show ?thesis using Cons by (cases ws) (simp_all add: n)
  qed (simp add: n)
next
  case (JObj kvs)
  then obtain m where n: "n = Suc m" by (cases n) auto
  show ?case
  proof (cases kvs)
    case (Cons w ws)
    have "parse_members m (join [44] (map write_member kvs) @ 125 # r) = Some (kvs, r)"
      using JObj by (intro parse_members_join) (auto simp: n Cons stringify_JObj simp del: stringify.simps)
    moreover obtain t where "join [44] (map write_member kvs) @ 125 # r = 34 # t"
      using Cons that by (cases ws) (simp_all add: write_member_def quoted_hd)
    ultimately show ?thesis by (simp add: n stringify_JObj del: stringify.simps)
  qed (simp add: n)
qed

lemma parse_stringify: "parse_json (stringify v) = Some v"
proof -
  have "parse_val (2 * length (stringify v)) (stringify v) = Some (v, [])"
    using parse_val_stringify[of v "2 * length (stringify v)" "[]"] by simp
  moreover have "skip (stringify v) = stringify v" using skip_stringify[of v "[]"] by simp
  ultimately show ?thesis by (simp add: parse_json_def)
qed

section \<open>The bound on the recursion is enough\<close>

lemma parse_str_shorter: "parse_str s = Some (t, r) \<Longrightarrow> length r < length s"
proof (induction s arbitrary: t r rule: parse_str.induct)
  case (2 c s)
  from 2(4) consider "c = 34" "r = s"
    | d u where "c = 92" "s = d # u" "d = 117" "4 \<le> length u" "list_all is_hex (take 4 u)" "\<exists>t'. parse_str (drop 4 u) = Some (t', r)"
    | d u x where "c = 92" "s = d # u" "d \<noteq> 117" "unesc d = Some x" "\<exists>t'. parse_str u = Some (t', r)"
    | "32 \<le> c" "c \<noteq> 34" "c \<noteq> 92" "\<exists>t'. parse_str s = Some (t', r)"
    by (auto split: if_splits list.splits option.splits)
  then show ?case
  proof cases
    case 2
    with "2.IH"(1) show ?thesis by fastforce
  next
    case 3
    with "2.IH"(2) show ?thesis by fastforce
  next
    case 4
    with "2.IH"(3) show ?thesis by fastforce
  qed simp
qed simp

lemma parse_num_shorter: "parse_num s = Some (n, r) \<Longrightarrow> length r < length s"
proof -
  have *: "parse_nat s = Some (m, r) \<Longrightarrow> length r < length s" for m s
  proof -
    assume "parse_nat s = Some (m, r)"
    then have "takeWhile is_digit s \<noteq> []" "r = dropWhile is_digit s"
      by (auto simp: parse_nat_def Let_def split: if_splits)
    then show ?thesis
      by (metis append_Nil length_append length_greater_0_conv less_add_same_cancel2 takeWhile_dropWhile_id)
  qed
  assume "parse_num s = Some (n, r)"
  then show ?thesis using *[of s] *[of "tl s"] by (cases s) (auto simp: parse_num_def split: if_splits)
qed

lemma parse_word_shorter: "parse_word w v s = Some (x, r) \<Longrightarrow> w \<noteq> [] \<Longrightarrow> length r < length s"
  by (cases w; cases s) (auto simp: parse_word_def split: if_splits)

lemma skip_shorter: "skip s = d # t \<Longrightarrow> length t < length s"
  using length_skip[of s] by simp

lemma parse_val_ConsE:
  assumes "parse_val (Suc n) (c # s) = Some (v, r)"
  obtains (empty_array) t where "c = 91" "skip s = 93 # t" "r = t"
    | (array) d t vs where "c = 91" "skip s = d # t" "d \<noteq> 93" "parse_elems n (d # t) = Some (vs, r)"
    | (empty_object) t where "c = 123" "skip s = 125 # t" "r = t"
    | (object) d t kvs where "c = 123" "skip s = d # t" "d \<noteq> 125" "parse_members n (d # t) = Some (kvs, r)"
    | (literal) "c \<noteq> 91" "c \<noteq> 123" "length r < length (c # s)"
proof -
  consider "c = 91" | "c = 123" | "c \<noteq> 91" "c \<noteq> 123" by blast
  then show thesis
  proof cases
    case 1
    with assms obtain d t where "skip s = d # t" by (cases "skip s") auto
    with assms 1 that(1,2) show ?thesis by (cases "d = 93") auto
  next
    case 2
    with assms obtain d t where "skip s = d # t" by (cases "skip s") auto
    with assms 2 that(3,4) show ?thesis by (cases "d = 125") auto
  next
    case 3
    have w: "js ''null'' \<noteq> []" "js ''true'' \<noteq> []" "js ''false'' \<noteq> []" by (simp_all add: js_def)
    have "length r < length (c # s)"
      using assms 3 by (auto split: if_splits dest!: parse_word_shorter[OF _ w(1)] parse_word_shorter[OF _ w(2)]
          parse_word_shorter[OF _ w(3)] parse_str_shorter parse_num_shorter)
    with 3 that(5) show ?thesis by simp
  qed
qed

lemma parse_shorter:
  "parse_val n s = Some (v, r) \<Longrightarrow> length r < length s"
  "parse_elems n s = Some (vs, r) \<Longrightarrow> length r < length s"
  "parse_members n s = Some (kvs, r) \<Longrightarrow> length r < length s"
proof (induction n s and n s and n s arbitrary: v r and vs r and kvs r
    rule: parse_val_parse_elems_parse_members.induct)
  case (2 n cs)
  from "2.prems" obtain c s where cs: "cs = c # s" by (cases cs) auto
  from "2.prems"[unfolded cs] show ?case
  proof (cases rule: parse_val_ConsE)
    case (array d t vs)
    then have "length r < length (d # t)" using "2.IH"(1)[of c s d t vs r] cs by simp
    then show ?thesis using length_skip[of s] array cs by simp
  next
    case (object d t kvs)
    then have "length r < length (d # t)" using "2.IH"(2)[of c s d t kvs r] cs by simp
    then show ?thesis using length_skip[of s] object cs by simp
  qed (auto simp: cs dest: skip_shorter)
next
  case (4 n s)
  then obtain v' q d t where q: "parse_val n s = Some (v', q)" "skip q = d # t"
      "d = 93 \<and> r = t \<or> d \<noteq> 93 \<and> d = 44 \<and> (\<exists>us. parse_elems n (skip t) = Some (us, r))"
    by (auto split: option.splits list.splits if_splits)
  then have "length q < length s" "length r \<le> length t"
    using "4.IH"(1)[OF q(1)] "4.IH"(2)[OF q(1) refl q(2)] length_skip[of t] by fastforce+
  then show ?case using skip_shorter[OF q(2)] by simp
next
  case (6 n cs)
  then obtain c s where cs: "cs = c # s" by (cases cs) auto
  with 6 obtain k q d t v' u e w where q: "c = 34" "parse_str s = Some (k, q)" "skip q = d # t" "d = 58"
      "parse_val n (skip t) = Some (v', u)" "skip u = e # w"
      "e = 125 \<and> r = w \<or> e \<noteq> 125 \<and> e = 44 \<and> (\<exists>us. parse_members n (skip w) = Some (us, r))"
    by (auto split: option.splits list.splits if_splits)
  then have "length u < length (skip t)" "length r \<le> length w"
    using "6.IH"(1)[OF cs _ q(2) _ q(3)] "6.IH"(2)[OF cs _ q(2) _ q(3) _ q(5) _ q(6)] q length_skip[of w] by fastforce+
  then show ?case using cs parse_str_shorter[OF q(2)] skip_shorter[OF q(3)] skip_shorter[OF q(6)] length_skip[of t] by simp
qed simp_all

text \<open>A bound of twice the length of the text leaves nothing unread for want of rounds.\<close>

lemma parse_fuel:
  "2 * length s \<le> n \<Longrightarrow> parse_val (Suc n) s = parse_val n s"
  "2 * length s < n \<Longrightarrow> parse_elems (Suc n) s = parse_elems n s"
  "2 * length s < n \<Longrightarrow> parse_members (Suc n) s = parse_members n s"
proof (induction n arbitrary: s)
  case (Suc n)
  {
    case 1
    show ?case
    proof (cases s)
      case (Cons c s')
      have "parse_elems (Suc n) (d # t) = parse_elems n (d # t)" "parse_members (Suc n) (d # t) = parse_members n (d # t)"
        if "skip s' = d # t" for d t
        using 1 length_skip[of s'] that by (auto intro!: Suc.IH simp: Cons simp del: parse_elems.simps parse_members.simps)
      then show ?thesis by (simp add: Cons split: list.splits)
    qed simp
  next
    case 2
    have v: "parse_val (Suc n) s = parse_val n s" using 2 by (intro Suc.IH) simp
    have "parse_elems (Suc n) (skip t) = parse_elems n (skip t)"
      if "parse_val n s = Some (v, q)" "skip q = d # t" for v q d t
      using 2 parse_shorter(1)[OF that(1)] skip_shorter[OF that(2)] length_skip[of t] by (intro Suc.IH) simp
    then show ?case
      by (simp only: parse_elems.simps(2)[of "Suc n"] parse_elems.simps(2)[of n] v)
         (auto split: option.splits list.splits simp del: parse_elems.simps)
  next
    case 3
    show ?case
    proof (cases s)
      case (Cons c s')
      have v: "parse_val (Suc n) (skip t) = parse_val n (skip t)"
        if "parse_str s' = Some (k, q)" "skip q = d # t" for k q d t
        using 3 parse_str_shorter[OF that(1)] skip_shorter[OF that(2)] length_skip[of t]
        by (intro Suc.IH) (simp add: Cons)
      have m: "parse_members (Suc n) (skip w) = parse_members n (skip w)"
        if "parse_str s' = Some (k, q)" "skip q = d # t" "parse_val n (skip t) = Some (v, u)" "skip u = e # w"
        for k q d t v u e w
        using 3 parse_str_shorter[OF that(1)] skip_shorter[OF that(2)] length_skip[of t]
          parse_shorter(1)[OF that(3)] skip_shorter[OF that(4)] length_skip[of w]
        by (intro Suc.IH) (simp add: Cons)
      show ?thesis
        using v m by (simp only: Cons parse_members.simps(2)[of "Suc n"] parse_members.simps(2)[of n] list.case)
          (auto split: option.splits list.splits simp del: parse_members.simps parse_val.simps)
    qed simp
  }
qed auto

lemma parse_val_enough: "2 * length s \<le> n \<Longrightarrow> parse_val n s = parse_val (2 * length s) s"
  by (induction n rule: dec_induct) (simp_all add: parse_fuel)

end
