(* ===== verification/StorageCache.thy ===== *)
theory StorageCache
  imports Json "HOL-Library.AList"
begin

text \<open>
  web-storage-cache.js: a cache with deadlines over the storage of the browser.

  The storage is the list of its items, in the order in which \<open>key(i)\<close> lists them, with the room
  it has (\<open>None\<close> when its limit is out of reach) and the exception its browser throws when an item
  does not fit. A time is in milliseconds, and an operation reads the clock once: the argument
  \<open>now\<close>. Keys are strings. A value an operation computes is an option, in which \<open>None\<close> stands
  for an exception that leaves it.

  \<open>deadlines\<close> is what the storage of a cache means: a map from keys to values and the time until
  which they are valid. The operations do to it what \<open>spec\<close> says, and answer what \<open>spec_answer\<close>
  says; what happens when the storage is full is stated apart.
\<close>

section \<open>The storage of the browser\<close>

record dom_error =
  err_code :: int
  err_name :: jstr
  err_number :: int

record storage =
  s_items :: "(jstr \<times> jstr) list"
  s_room :: "nat option"
  s_error :: dom_error

definition items_size :: "(jstr \<times> jstr) list \<Rightarrow> nat" where
  [js_eval]: "items_size kvs = sum_list (map (\<lambda>(k, v). length k + length v) kvs)"

definition getItem :: "jstr \<Rightarrow> storage \<Rightarrow> jstr option" where
  [js_eval]: "getItem k s = map_of (s_items s) k"

definition removeItem :: "jstr \<Rightarrow> storage \<Rightarrow> storage" where
  [js_eval]: "removeItem k s = s\<lparr>s_items := AList.delete k (s_items s)\<rparr>"

text \<open>\<open>None\<close> when the item does not fit: an exception.\<close>

definition setItem :: "jstr \<Rightarrow> jstr \<Rightarrow> storage \<Rightarrow> storage option" where
  [js_eval]: "setItem k v s =
     (let kvs = AList.update k v (s_items s)
      in case s_room s of
           None \<Rightarrow> Some (s\<lparr>s_items := kvs\<rparr>)
         | Some m \<Rightarrow> if items_size kvs \<le> m then Some (s\<lparr>s_items := kvs\<rparr>) else None)"

section \<open>Cache items\<close>

text \<open>\<open>switch (e.code)\<close>, and the number of the exception where it has no code.\<close>

definition isQuotaExceeded :: "dom_error \<Rightarrow> bool" where
  [js_eval]: \<open>isQuotaExceeded a =
     (if err_code a \<noteq> 0
      then err_code a = 22 \<or> (err_code a = 1014 \<and> err_name a = (js ''NS_ERROR_DOM_QUOTA_REACHED''))
      else err_number a = -2147024882)\<close>

text \<open>The option \<open>exp\<close>: missing (or another falsy value), a number of seconds, \<open>Infinity\<close>, a text with the
  time the \<open>Date\<close> constructor reads in it, a date, or another object.\<close>

datatype expiry =
  NoExpiry
| Seconds int
| Infinite
| DateText "int option"
| DateAt "int option"
| NotADate

definition valid_time :: "int \<Rightarrow> int option" where
  [js_eval]: "valid_time t = (if \<bar>t\<bar> \<le> 8640000000000000 then Some t else None)"

definition max_expire_date :: int where
  [js_eval]: "max_expire_date = 253402300799000"

text \<open>\<open>None\<close>: the \<open>expires\<close> parameter cannot be converted, and an exception is thrown.\<close>

definition get_expires_date :: "int \<Rightarrow> expiry \<Rightarrow> int option" where
  [js_eval]: "get_expires_date now x =
     (case x of
        NoExpiry \<Rightarrow> Some max_expire_date
      | Seconds n \<Rightarrow> if n = 0 then Some max_expire_date else valid_time (now + 1000 * n)
      | Infinite \<Rightarrow> Some max_expire_date
      | DateText t \<Rightarrow> t
      | DateAt t \<Rightarrow> t
      | NotADate \<Rightarrow> None)"

text \<open>The object of the constructor: creation, deadline, and the serialised value.\<close>

definition cache_item :: "int \<Rightarrow> int \<Rightarrow> jstr \<Rightarrow> json" where
  [js_eval]: \<open>cache_item c e v = JObj [((js ''c''), JNum c), ((js ''e''), JNum e), ((js ''v''), JStr v)]\<close>

definition serialize :: "json \<Rightarrow> jstr" where
  [js_eval]: "serialize v = stringify v"

text \<open>\<open>a && JSON.parse(a)\<close>.\<close>

definition deserialize :: "json \<Rightarrow> json option" where
  [js_eval]: "deserialize a = (if falsy a then Some a else parse_json (js_string a))"

text \<open>\<open>deserialize(storage.getItem(k))\<close>; a missing item is null.\<close>

definition item_at :: "jstr \<Rightarrow> storage \<Rightarrow> json option" where
  [js_eval]: "item_at k s = deserialize (case getItem k s of None \<Rightarrow> JNull | Some t \<Rightarrow> JStr t)"

text \<open>\<open>a && "c" in a && "e" in a && "v" in a\<close>: the operator throws for a number, a string or a truth value.\<close>

definition is_cache_item :: "json \<Rightarrow> bool option" where
  [js_eval]: \<open>is_cache_item a =
     (if falsy a then Some False
      else if \<not> is_object a then None
      else Some (member (js ''c'') a \<noteq> None \<and> member (js ''e'') a \<noteq> None \<and> member (js ''v'') a \<noteq> None))\<close>

definition in_time :: "int \<Rightarrow> json \<Rightarrow> bool" where
  [js_eval]: \<open>in_time now a =
     (case member (js ''e'') a of None \<Rightarrow> False
      | Some x \<Rightarrow> (case num_of x of None \<Rightarrow> False | Some e \<Rightarrow> now < e))\<close>

section \<open>The operations\<close>

definition cache_delete :: "jstr \<Rightarrow> storage \<Rightarrow> storage" where
  [js_eval]: "cache_delete k s = removeItem k s"

definition cache_get :: "int \<Rightarrow> jstr \<Rightarrow> storage \<Rightarrow> storage \<times> json option" where
  [js_eval]: \<open>cache_get now k s =
     (case item_at k s of
        None \<Rightarrow> (s, Some JNull)
      | Some b \<Rightarrow>
          (case is_cache_item b of
             None \<Rightarrow> (s, None)
           | Some False \<Rightarrow> (s, Some JNull)
           | Some True \<Rightarrow>
               if in_time now b
               then (s, case member (js ''v'') b of None \<Rightarrow> None | Some d \<Rightarrow> deserialize d)
               else (cache_delete k s, Some JNull)))\<close>

text \<open>\<open>null !== f && void 0 !== f.e\<close> and \<open>h >= f.e\<close>, where a text that cannot be read leaves \<open>f\<close> null.\<close>

definition expired :: "int \<Rightarrow> jstr \<Rightarrow> storage \<Rightarrow> bool" where
  [js_eval]: \<open>expired now k s =
     (case item_at k s of
        None \<Rightarrow> False
      | Some f \<Rightarrow>
          (case member (js ''e'') f of None \<Rightarrow> False
           | Some x \<Rightarrow> (case num_of x of None \<Rightarrow> False | Some e \<Rightarrow> e \<le> now)))\<close>

definition deleteAllExpires :: "int \<Rightarrow> storage \<Rightarrow> storage \<times> jstr list" where
  [js_eval]: "deleteAllExpires now s =
     (let b = filter (\<lambda>k. expired now k s) (map fst (s_items s))
      in (fold cache_delete b s, b))"

text \<open>
  \<open>set\<close> of a value that is not undefined, with the options it was given, and the handler of a full
  storage: it gets the serialised value, sweeps the storage and tries once more, without force.
\<close>

function set_item :: "int \<Rightarrow> jstr \<Rightarrow> json \<Rightarrow> expiry \<Rightarrow> bool \<Rightarrow> storage \<Rightarrow> storage \<times> json option"
  and quotaExceedHandler :: "int \<Rightarrow> jstr \<Rightarrow> jstr \<Rightarrow> expiry \<Rightarrow> bool \<Rightarrow> storage \<Rightarrow> storage" where
  "set_item now k c x force s =
     (case get_expires_date now x of
        None \<Rightarrow> (s, None)
      | Some e \<Rightarrow>
          (case setItem k (serialize (cache_item now e (serialize c))) s of
             Some s' \<Rightarrow> (s', Some c)
           | None \<Rightarrow> (if isQuotaExceeded (s_error s) then quotaExceedHandler now k (serialize c) x force s else s,
                     Some c)))"
| "quotaExceedHandler now k c x force s =
     (if force then fst (set_item now k (JStr c) x False (fst (deleteAllExpires now s))) else s)"
  by pat_completeness auto
termination
  by (relation "measure (case_sum (\<lambda>(now, k, c, x, force, s). if force then 3 else 1)
                                  (\<lambda>(now, k, c, x, force, s). if force then 2 else 0))") auto

declare set_item.simps [simp del] quotaExceedHandler.simps [simp del]

text \<open>\<open>set\<close>: the value undefined deletes.\<close>

definition cache_set :: "int \<Rightarrow> jstr \<Rightarrow> json option \<Rightarrow> expiry \<Rightarrow> bool \<Rightarrow> storage \<Rightarrow> storage \<times> json option" where
  [js_eval]: "cache_set now k c x force s =
     (case c of None \<Rightarrow> (cache_delete k s, Some (JStr k)) | Some v \<Rightarrow> set_item now k v x force s)"

definition cache_clear :: "storage \<Rightarrow> storage" where
  [js_eval]: "cache_clear s = s\<lparr>s_items := []\<rparr>"

text \<open>\<open>return this.set(...), !0\<close>.\<close>

definition set_true :: "int \<Rightarrow> jstr \<Rightarrow> json option \<Rightarrow> expiry \<Rightarrow> bool \<Rightarrow> storage \<Rightarrow> storage \<times> json option" where
  [js_eval]: "set_true now k c x force s = apsnd (map_option (\<lambda>_. JBool True)) (cache_set now k c x force s)"

text \<open>An exception inside the \<open>try\<close>, also one of \<open>set\<close>, leads to \<open>set\<close>.\<close>

definition cache_add :: "int \<Rightarrow> jstr \<Rightarrow> json option \<Rightarrow> expiry \<Rightarrow> bool \<Rightarrow> storage \<Rightarrow> storage \<times> json option" where
  [js_eval]: "cache_add now k c x force s =
     (case item_at k s of
        None \<Rightarrow> set_true now k c x force s
      | Some e \<Rightarrow>
          (case is_cache_item e of
             None \<Rightarrow> set_true now k c x force s
           | Some b \<Rightarrow>
               if \<not> b \<or> \<not> in_time now e
               then (case set_true now k c x force s of
                       (s', Some r) \<Rightarrow> (s', Some r)
                     | (s', None) \<Rightarrow> set_true now k c x force s')
               else (s, Some (JBool False))))"

definition cache_replace :: "int \<Rightarrow> jstr \<Rightarrow> json option \<Rightarrow> expiry \<Rightarrow> bool \<Rightarrow> storage \<Rightarrow> storage \<times> json option" where
  [js_eval]: "cache_replace now k c x force s =
     (case item_at k s of
        None \<Rightarrow> (s, Some (JBool False))
      | Some d \<Rightarrow>
          (case is_cache_item d of
             None \<Rightarrow> (s, None)
           | Some False \<Rightarrow> (s, Some (JBool False))
           | Some True \<Rightarrow> if in_time now d then set_true now k c x force s
                         else (cache_delete k s, Some (JBool False))))"

definition cache_touch :: "int \<Rightarrow> jstr \<Rightarrow> expiry \<Rightarrow> storage \<Rightarrow> storage \<times> json option" where
  [js_eval]: "cache_touch now k x s =
     (case item_at k s of
        None \<Rightarrow> (s, Some (JBool False))
      | Some c \<Rightarrow>
          (case is_cache_item c of
             None \<Rightarrow> (s, None)
           | Some False \<Rightarrow> (s, Some (JBool False))
           | Some True \<Rightarrow>
               if in_time now c
               then (case cache_get now k s of
                       (s', None) \<Rightarrow> (s', None)
                     | (s', Some v) \<Rightarrow> set_true now k (Some v) x True s')
               else (cache_delete k s, Some (JBool False))))"

section \<open>The constructor\<close>

text \<open>Whether the browser has the storage and a test item, whose name has a random number, fits in it.\<close>

definition is_supported :: "storage option \<Rightarrow> jstr \<Rightarrow> bool" where
  [js_eval]: \<open>is_supported st random =
     (case st of None \<Rightarrow> False | Some s \<Rightarrow> setItem ((js ''__'') @ random) ((js ''__'') @ random) s \<noteq> None)\<close>

datatype wcache = Unsupported | Over storage

text \<open>The prototype of an unsupported cache is \<open>n\<close>, whose operations do nothing.\<close>

definition new_cache :: "storage option \<Rightarrow> jstr \<Rightarrow> wcache" where
  [js_eval]: \<open>new_cache st random =
     (case st of
        None \<Rightarrow> Unsupported
      | Some s \<Rightarrow>
          (case setItem ((js ''__'') @ random) ((js ''__'') @ random) s of
             None \<Rightarrow> Unsupported
           | Some s' \<Rightarrow> Over (removeItem ((js ''__'') @ random) s')))\<close>

text \<open>A method of the cache: \<open>Some None\<close> is the answer undefined.\<close>

definition call :: "(storage \<Rightarrow> storage \<times> 'r option) \<Rightarrow> wcache \<Rightarrow> wcache \<times> 'r option option" where
  [js_eval]: "call f w =
     (case w of Unsupported \<Rightarrow> (Unsupported, Some None)
      | Over s \<Rightarrow> (Over (fst (f s)), map_option Some (snd (f s))))"

section \<open>What the storage of a cache means\<close>

definition room_left :: "storage \<Rightarrow> bool" where
  "room_left s \<longleftrightarrow> s_room s = None"

text \<open>The items a cache writes.\<close>

definition item_text :: "int \<Rightarrow> int \<Rightarrow> json \<Rightarrow> jstr" where
  [js_eval]: "item_text c e v = serialize (cache_item c e (serialize v))"

definition cache_ok :: "storage \<Rightarrow> bool" where
  "cache_ok s \<longleftrightarrow> distinct (map fst (s_items s)) \<and> (\<forall>(k, t) \<in> set (s_items s). \<exists>c e v. t = item_text c e v)"

definition entry_of :: "jstr \<Rightarrow> (json \<times> int) option" where
  [js_eval]: \<open>entry_of t =
     (case parse_json t of
        None \<Rightarrow> None
      | Some b \<Rightarrow>
          (case (member (js ''e'') b, member (js ''v'') b) of
             (Some (JNum e), Some (JStr u)) \<Rightarrow> map_option (\<lambda>v. (v, e)) (parse_json u)
           | _ \<Rightarrow> None))\<close>

text \<open>The abstraction: every key with its value and its deadline.\<close>

definition deadlines :: "storage \<Rightarrow> jstr \<Rightarrow> (json \<times> int) option" where
  [js_eval]: "deadlines s k = Option.bind (getItem k s) entry_of"

lemma js_keys [simp]: \<open>((js ''c'') = (js ''e'')) = False\<close> \<open>((js ''c'') = (js ''v'')) = False\<close> \<open>((js ''e'') = (js ''v'')) = False\<close> \<open>((js ''e'') = (js ''c'')) = False\<close>
    \<open>((js ''v'') = (js ''c'')) = False\<close> \<open>((js ''v'') = (js ''e'')) = False\<close>
  by (simp_all add: js_def)

lemma members_item [simp]: \<open>member (js ''c'') (cache_item c e u) = Some (JNum c)\<close> \<open>member (js ''e'') (cache_item c e u) = Some (JNum e)\<close>
    \<open>member (js ''v'') (cache_item c e u) = Some (JStr u)\<close>
  by (simp_all add: cache_item_def)

lemma parse_item [simp]: "parse_json (item_text c e v) = Some (cache_item c e (serialize v))"
  by (simp add: item_text_def serialize_def parse_stringify)

lemma entry_of_item [simp]: "entry_of (item_text c e v) = Some (v, e)"
  by (simp add: entry_of_def serialize_def parse_stringify)

lemma serialize_nonempty [simp]: "serialize v \<noteq> []"
  using stringify_pos[of v] by (simp add: serialize_def)

lemma item_text_nonempty [simp]: "item_text c e v \<noteq> []"
  by (simp add: item_text_def)

lemma deserialize_serialize [simp]: "deserialize (JStr (serialize v)) = Some v"
  by (simp add: deserialize_def falsy_def) (simp add: serialize_def parse_stringify)

lemma deserialize_JNull [simp]: "deserialize JNull = Some JNull"
  by (simp add: deserialize_def falsy_def)

lemma item_flags [simp]: "is_cache_item (cache_item c e u) = Some True" "in_time now (cache_item c e u) \<longleftrightarrow> now < e"
    "is_cache_item JNull = Some False"
  by (simp_all add: is_cache_item_def in_time_def falsy_def) (simp add: cache_item_def)

text \<open>An item of a cache is missing or as \<open>set\<close> wrote it.\<close>

lemma ok_cases:
  assumes "cache_ok s"
  obtains (absent) "getItem k s = None" "deadlines s k = None" "item_at k s = Some JNull" "\<not> expired now k s"
  | (present) c e v where "getItem k s = Some (item_text c e v)" "deadlines s k = Some (v, e)"
      "item_at k s = Some (cache_item c e (serialize v))" "expired now k s \<longleftrightarrow> e \<le> now"
proof (cases "getItem k s")
  case None
  then show thesis by (intro absent) (simp_all add: deadlines_def item_at_def expired_def)
next
  case (Some t)
  then have "(k, t) \<in> set (s_items s)" by (simp add: getItem_def map_of_SomeD)
  with assms obtain c e v where t: "t = item_text c e v" by (auto simp: cache_ok_def)
  have "item_at k s = Some (cache_item c e (serialize v))"
    by (simp add: item_at_def Some t) (simp add: deserialize_def falsy_def)
  with Some t show thesis by (intro present) (simp_all add: deadlines_def expired_def)
qed

section \<open>What the operations do to it\<close>

lemma getItem_setItem: "setItem k t s = Some s' \<Longrightarrow> getItem j s' = (if j = k then Some t else getItem j s)"
  by (auto simp: setItem_def getItem_def update_conv' Let_def split: option.splits if_splits)

lemma getItem_removeItem [simp]: "getItem j (removeItem k s) = (if j = k then None else getItem j s)"
  by (simp add: removeItem_def getItem_def delete_conv')

lemma setItem_room: "setItem k t s = Some s' \<Longrightarrow> s_room s' = s_room s \<and> s_error s' = s_error s"
  by (auto simp: setItem_def Let_def split: option.splits if_splits)

lemma removeItem_room [simp]: "s_room (removeItem k s) = s_room s" "s_error (removeItem k s) = s_error s"
  by (simp_all add: removeItem_def)

lemma setItem_fits: "room_left s \<Longrightarrow> \<exists>s'. setItem k t s = Some s'"
  by (auto simp: room_left_def setItem_def Let_def)

lemma set_delete_subset: "set (AList.delete k al) \<subseteq> set al"
  by (auto simp: AList.delete_eq)

lemma cache_ok_removeItem: "cache_ok s \<Longrightarrow> cache_ok (removeItem k s)"
  unfolding cache_ok_def removeItem_def
  by (auto simp: distinct_delete dest!: subsetD[OF set_delete_subset])

lemma set_update_cases: "(a, b) \<in> set (AList.update k v al) \<Longrightarrow> (a, b) = (k, v) \<or> (a, b) \<in> set al"
  by (induction al) (auto split: if_splits)

lemma setItem_items: "setItem k t s = Some s' \<Longrightarrow> s_items s' = AList.update k t (s_items s)"
  by (auto simp: setItem_def Let_def split: option.splits if_splits)

lemma cache_ok_setItem: "cache_ok s \<Longrightarrow> setItem k (item_text c e v) s = Some s' \<Longrightarrow> cache_ok s'"
proof -
  assume ok: "cache_ok s" and s': "setItem k (item_text c e v) s = Some s'"
  have "\<exists>c e v. t = item_text c e v" if "(j, t) \<in> set (s_items s')" for j t
    using ok set_update_cases[OF that[unfolded setItem_items[OF s']]] unfolding cache_ok_def by blast
  then show ?thesis using ok by (auto simp: cache_ok_def setItem_items[OF s'] distinct_update)
qed

lemma deadlines_setItem: "setItem k (item_text c e v) s = Some s' \<Longrightarrow> deadlines s' = (deadlines s)(k \<mapsto> (v, e))"
  by (auto simp: deadlines_def getItem_setItem fun_eq_iff)

lemma deadlines_removeItem [simp]: "deadlines (removeItem k s) = (deadlines s)(k := None)"
  by (auto simp: deadlines_def fun_eq_iff)

lemma fold_delete:
  "getItem j (fold cache_delete ks s) = (if j \<in> set ks then None else getItem j s)"
  "s_room (fold cache_delete ks s) = s_room s"
  "s_error (fold cache_delete ks s) = s_error s"
  "cache_ok s \<Longrightarrow> cache_ok (fold cache_delete ks s)"
  by (induction ks arbitrary: s) (auto simp: cache_delete_def cache_ok_removeItem)

lemma in_keys: "k \<in> fst ` set (s_items s) \<longleftrightarrow> getItem k s \<noteq> None"
  by (simp add: getItem_def dom_map_of_conv_image_fst[symmetric] domIff)

lemma getItem_sweep: "getItem k (fst (deleteAllExpires now s)) = (if expired now k s then None else getItem k s)"
proof -
  have "expired now k s \<Longrightarrow> getItem k s = None \<Longrightarrow> False"
    by (simp add: expired_def item_at_def)
  then show ?thesis by (auto simp: deleteAllExpires_def Let_def fold_delete in_keys)
qed

lemma sweep_frame [simp]: "s_room (fst (deleteAllExpires now s)) = s_room s"
    "s_error (fst (deleteAllExpires now s)) = s_error s"
    "cache_ok s \<Longrightarrow> cache_ok (fst (deleteAllExpires now s))"
  by (simp_all add: deleteAllExpires_def Let_def fold_delete)

section \<open>The specification: a map with deadlines\<close>

type_synonym cmap = "jstr \<Rightarrow> (json \<times> int) option"

datatype cache_op =
  OpSet jstr "json option" expiry bool
| OpGet jstr
| OpDelete jstr
| OpSweep
| OpClear
| OpAdd jstr "json option" expiry bool
| OpReplace jstr "json option" expiry bool
| OpTouch jstr expiry

definition alive :: "int \<Rightarrow> jstr \<Rightarrow> cmap \<Rightarrow> bool" where
  [js_eval]: "alive now k m = (case m k of None \<Rightarrow> False | Some (v, e) \<Rightarrow> now < e)"

definition spec_set :: "int \<Rightarrow> jstr \<Rightarrow> json option \<Rightarrow> expiry \<Rightarrow> cmap \<Rightarrow> cmap" where
  [js_eval]: "spec_set now k c x m =
     (case c of None \<Rightarrow> m(k := None)
      | Some v \<Rightarrow> (case get_expires_date now x of None \<Rightarrow> m | Some e \<Rightarrow> m(k \<mapsto> (v, e))))"

definition sets :: "int \<Rightarrow> json option \<Rightarrow> expiry \<Rightarrow> bool" where
  [js_eval]: "sets now c x \<longleftrightarrow> c = None \<or> get_expires_date now x \<noteq> None"

fun spec :: "int \<times> cache_op \<Rightarrow> cmap \<Rightarrow> cmap" where
  "spec (now, OpSet k c x f) m = spec_set now k c x m"
| "spec (now, OpGet k) m = (if alive now k m then m else m(k := None))"
| "spec (now, OpDelete k) m = m(k := None)"
| "spec (now, OpSweep) m = (\<lambda>k. if alive now k m then m k else None)"
| "spec (now, OpClear) m = (\<lambda>k. None)"
| "spec (now, OpAdd k c x f) m = (if alive now k m then m else spec_set now k c x m)"
| "spec (now, OpReplace k c x f) m = (if alive now k m then spec_set now k c x m else m(k := None))"
| "spec (now, OpTouch k x) m =
     (if alive now k m then spec_set now k (map_option fst (m k)) x m else m(k := None))"

text \<open>The answers; \<open>None\<close> is an exception.\<close>

fun spec_answer :: "int \<times> cache_op \<Rightarrow> cmap \<Rightarrow> json option" where
  "spec_answer (now, OpSet k c x f) m =
     (case c of None \<Rightarrow> Some (JStr k) | Some v \<Rightarrow> if sets now c x then Some v else None)"
| "spec_answer (now, OpGet k) m = (if alive now k m then map_option fst (m k) else Some JNull)"
| "spec_answer (now, OpDelete k) m = Some (JStr k)"
| "spec_answer (now, OpSweep) m = Some JNull"
| "spec_answer (now, OpClear) m = Some JNull"
| "spec_answer (now, OpAdd k c x f) m =
     (if alive now k m then Some (JBool False) else if sets now c x then Some (JBool True) else None)"
| "spec_answer (now, OpReplace k c x f) m =
     (if \<not> alive now k m then Some (JBool False) else if sets now c x then Some (JBool True) else None)"
| "spec_answer (now, OpTouch k x) m =
     (if \<not> alive now k m then Some (JBool False) else if get_expires_date now x \<noteq> None then Some (JBool True) else None)"

text \<open>The code, one operation at a time; the list \<open>deleteAllExpires\<close> answers is left out of the answers.\<close>

fun cache_do :: "int \<times> cache_op \<Rightarrow> storage \<Rightarrow> storage \<times> json option" where
  "cache_do (now, OpSet k c x f) s = cache_set now k c x f s"
| "cache_do (now, OpGet k) s = cache_get now k s"
| "cache_do (now, OpDelete k) s = (cache_delete k s, Some (JStr k))"
| "cache_do (now, OpSweep) s = (fst (deleteAllExpires now s), Some JNull)"
| "cache_do (now, OpClear) s = (cache_clear s, Some JNull)"
| "cache_do (now, OpAdd k c x f) s = cache_add now k c x f s"
| "cache_do (now, OpReplace k c x f) s = cache_replace now k c x f s"
| "cache_do (now, OpTouch k x) s = cache_touch now k x s"

definition cache_step :: "int \<times> cache_op \<Rightarrow> storage \<times> json option list \<Rightarrow> storage \<times> json option list" where
  [js_eval]: "cache_step e s = (fst (cache_do e (fst s)), snd s @ [snd (cache_do e (fst s))])"

definition cache_inv :: "storage \<times> json option list \<Rightarrow> bool" where
  "cache_inv s \<longleftrightarrow> cache_ok (fst s) \<and> room_left (fst s)"

definition spec_step :: "int \<times> cache_op \<Rightarrow> cmap \<times> json option list \<Rightarrow> cmap \<times> json option list" where
  [js_eval]: "spec_step e m = (spec e (fst m), snd m @ [spec_answer e (fst m)])"

lemma set_ok:
  assumes "cache_ok s" "room_left s"
  shows "cache_ok (fst (cache_set now k c x f s)) \<and> room_left (fst (cache_set now k c x f s))
    \<and> deadlines (fst (cache_set now k c x f s)) = spec_set now k c x (deadlines s)
    \<and> snd (cache_set now k c x f s) = spec_answer (now, OpSet k c x f) (deadlines s)"
proof (cases c)
  case None
  then show ?thesis using assms
    by (simp add: cache_set_def cache_delete_def cache_ok_removeItem spec_set_def room_left_def)
next
  case (Some v)
  show ?thesis
  proof (cases "get_expires_date now x")
    case None
    then show ?thesis using assms Some
      by (simp add: cache_set_def set_item.simps[of now k v] spec_set_def sets_def)
  next
    case (Some e)
    obtain s' where s': "setItem k (item_text now e v) s = Some s'" using setItem_fits[OF assms(2)] by blast
    then show ?thesis using assms \<open>c = Some v\<close> Some cache_ok_setItem[OF assms(1) s'] setItem_room[OF s']
      by (simp add: cache_set_def set_item.simps[of now k v] spec_set_def sets_def deadlines_setItem
          item_text_def[symmetric] room_left_def)
  qed
qed

lemma set_true_ok:
  assumes "cache_ok s" "room_left s"
  shows "cache_ok (fst (set_true now k c x f s)) \<and> room_left (fst (set_true now k c x f s))
    \<and> deadlines (fst (set_true now k c x f s)) = spec_set now k c x (deadlines s)
    \<and> snd (set_true now k c x f s) = (if sets now c x then Some (JBool True) else None)"
  using set_ok[OF assms, of now k c x f] by (simp add: set_true_def sets_def split: option.splits)

lemma set_true_throws: "snd (set_true now k c x f s) = None \<Longrightarrow> fst (set_true now k c x f s) = s"
  by (auto simp: set_true_def cache_set_def set_item.simps split: option.splits)

lemma set_true_again:
  "(case set_true now k c x f s of (s', Some r) \<Rightarrow> (s', Some r) | (s', None) \<Rightarrow> set_true now k c x f s')
     = set_true now k c x f s"
  using set_true_throws[of now k c x f s] by (cases "set_true now k c x f s") (auto split: option.splits)

lemma get_ok:
  assumes "cache_ok s"
  shows "fst (cache_get now k s) = (if alive now k (deadlines s) \<or> getItem k s = None then s else removeItem k s)
    \<and> snd (cache_get now k s) = spec_answer (now, OpGet k) (deadlines s)"
proof (cases rule: ok_cases[OF assms, of k now, case_names absent present])
  case absent
  then show ?thesis by (simp add: cache_get_def alive_def)
next
  case (present c e v)
  then show ?thesis by (simp add: cache_get_def alive_def cache_delete_def)
qed

lemma cache_do_ok:
  assumes "cache_ok s" "room_left s"
  shows "cache_ok (fst (cache_do (now, a) s)) \<and> room_left (fst (cache_do (now, a) s))
    \<and> deadlines (fst (cache_do (now, a) s)) = spec (now, a) (deadlines s)
    \<and> snd (cache_do (now, a) s) = spec_answer (now, a) (deadlines s)"
proof (cases a)
  case (OpSet k c x f)
  then show ?thesis using set_ok[OF assms] by simp
next
  case (OpGet k)
  then show ?thesis using get_ok[OF assms(1), of now k] assms
    by (auto simp: cache_ok_removeItem room_left_def deadlines_def fun_eq_iff)
next
  case (OpDelete k)
  then show ?thesis using assms by (simp add: cache_delete_def cache_ok_removeItem room_left_def)
next
  case OpSweep
  have "deadlines (fst (deleteAllExpires now s)) k = (if alive now k (deadlines s) then deadlines s k else None)" for k
    by (cases rule: ok_cases[OF assms(1), of k now, case_names absent present])
       (auto simp: deadlines_def getItem_sweep alive_def)
  then show ?thesis using OpSweep assms by (auto simp: room_left_def)
next
  case OpClear
  then show ?thesis using assms
    by (simp add: cache_clear_def cache_ok_def room_left_def deadlines_def getItem_def fun_eq_iff)
next
  case (OpAdd k c x f)
  show ?thesis
  proof (cases rule: ok_cases[OF assms(1), of k now, case_names absent present])
    case absent
    then show ?thesis using OpAdd set_true_ok[OF assms, of now k c x f]
      by (simp add: cache_add_def set_true_again alive_def)
  next
    case (present c' e v)
    then show ?thesis using OpAdd set_true_ok[OF assms, of now k c x f] assms
      by (simp add: cache_add_def set_true_again alive_def)
  qed
next
  case (OpReplace k c x f)
  show ?thesis
  proof (cases rule: ok_cases[OF assms(1), of k now, case_names absent present])
    case absent
    then show ?thesis using OpReplace assms by (simp add: cache_replace_def alive_def fun_upd_idem)
  next
    case (present c' e v)
    then show ?thesis using OpReplace set_true_ok[OF assms, of now k c x f] assms
      by (simp add: cache_replace_def alive_def cache_delete_def cache_ok_removeItem room_left_def)
  qed
next
  case (OpTouch k x)
  show ?thesis
  proof (cases rule: ok_cases[OF assms(1), of k now, case_names absent present])
    case absent
    then show ?thesis using OpTouch assms by (simp add: cache_touch_def alive_def fun_upd_idem)
  next
    case (present c' e v)
    moreover have "now < e \<Longrightarrow> cache_get now k s = (s, Some v)"
      using get_ok[OF assms(1), of now k] present by (cases "cache_get now k s") (simp add: alive_def)
    ultimately show ?thesis using OpTouch set_true_ok[OF assms, of now k "Some v" x True] assms
      by (simp add: cache_touch_def alive_def cache_delete_def cache_ok_removeItem room_left_def sets_def)
  qed
qed

interpretation cache: refined_machine cache_step "\<lambda>_. True" cache_inv "\<lambda>s. (deadlines (fst s), snd s)" spec_step
proof unfold_locales
  fix e :: "int \<times> cache_op" and s :: "storage \<times> json option list"
  assume "cache_inv s"
  then show "cache_inv (cache_step e s)"
    and "(deadlines (fst (cache_step e s)), snd (cache_step e s)) = spec_step e (deadlines (fst s), snd s)"
    using cache_do_ok[of "fst s" "fst e" "snd e"] by (simp_all add: cache_inv_def cache_step_def spec_step_def)
qed

text \<open>
  C12: as long as the storage has room, any sequence of operations on a cache, at any times,
  gives the answers of a map from keys to values with deadlines, and leaves the storage standing for
  that map: a value is read back until its deadline and never after it, \<open>add\<close> and \<open>replace\<close> act on
  what is absent and what is present, \<open>touch\<close> moves the deadline only, and an operation throws
  exactly when its deadline is no time.
\<close>

theorem cache_is_a_map_with_deadlines:
  assumes "cache_ok s" "room_left s"
  shows "(deadlines (fst (fold cache_step es (s, []))), snd (fold cache_step es (s, [])))
     = fold spec_step es (deadlines s, [])"
  using cache.run_view[of "(s, [])" es] assms by (simp add: cache_inv_def list_all_iff)

definition sample_error :: dom_error where
  [js_eval]: \<open>sample_error = \<lparr>err_code = 22, err_name = (js ''QuotaExceededError''), err_number = 0\<rparr>\<close>

definition empty_storage :: "nat option \<Rightarrow> storage" where
  [js_eval]: "empty_storage m = \<lparr>s_items = [], s_room = m, s_error = sample_error\<rparr>"

theorem cache_is_a_map_with_deadlines_witness:
  "snd (fold cache_step [(5, OpSet (js ''a'') (Some (JNum 7)) (Seconds 1) True), (1004, OpGet (js ''a'')),
      (1005, OpGet (js ''a''))] (empty_storage None, [])) = [Some (JNum 7), Some (JNum 7), Some JNull]"
proof -
  let ?es = "[(5, OpSet (js ''a'') (Some (JNum 7)) (Seconds 1) True), (1004, OpGet (js ''a'')), (1005, OpGet (js ''a''))]"
  have "cache_ok (empty_storage None)" "room_left (empty_storage None)"
    by (simp_all add: cache_ok_def room_left_def empty_storage_def)
  from cache_is_a_map_with_deadlines[OF this, of ?es]
  have "snd (fold cache_step ?es (empty_storage None, [])) = snd (fold spec_step ?es (deadlines (empty_storage None), []))"
    by (metis snd_conv)
  then show ?thesis
    by (simp add: spec_step_def spec_set_def get_expires_date_def valid_time_def sets_def alive_def)
qed

section \<open>A full storage\<close>

text \<open>What an operation leaves of an item under another key: the item, or nothing if it had expired.\<close>

definition spares :: "int \<Rightarrow> jstr \<Rightarrow> storage \<Rightarrow> storage \<Rightarrow> bool" where
  "spares now j s s' \<longleftrightarrow> getItem j s' = getItem j s \<or> expired now j s \<and> getItem j s' = None"

lemma spares_refl [simp]: "spares now j s s"
  by (simp add: spares_def)

lemma spares_sweep [simp]: "spares now j s (fst (deleteAllExpires now s))"
  by (simp add: spares_def getItem_sweep)

lemma spares_delete [simp]: "j \<noteq> k \<Longrightarrow> spares now j s (removeItem k s)"
  by (simp add: spares_def)

lemma spares_setItem: "setItem k t s' = Some s'' \<Longrightarrow> j \<noteq> k \<Longrightarrow> spares now j s s' \<Longrightarrow> spares now j s s''"
  by (simp add: spares_def getItem_setItem)

lemma spares_set_False: "j \<noteq> k \<Longrightarrow> spares now j s s' \<Longrightarrow> spares now j s (fst (set_item now k c x False s'))"
  by (auto simp: set_item.simps[of now k c x False] quotaExceedHandler.simps[of now k _ x False]
      split: option.splits intro: spares_setItem)

lemma spares_set_item: "j \<noteq> k \<Longrightarrow> spares now j s (fst (set_item now k c x f s))"
proof (cases f)
  case True
  assume "j \<noteq> k"
  then have "spares now j s (quotaExceedHandler now k t x True s)" for t
    by (simp add: quotaExceedHandler.simps spares_set_False)
  then show ?thesis using True \<open>j \<noteq> k\<close>
    by (auto simp: set_item.simps[of now k c x True] split: option.splits intro: spares_setItem)
qed (simp add: spares_set_False)

lemma spares_set [simp]: "j \<noteq> k \<Longrightarrow> spares now j s (fst (cache_set now k c x f s))"
    "j \<noteq> k \<Longrightarrow> spares now j s (fst (set_true now k c x f s))"
  by (auto simp: cache_set_def cache_delete_def spares_set_item set_true_def split: option.splits)

lemma spares_get: "j \<noteq> k \<Longrightarrow> spares now j s (fst (cache_get now k s))"
  by (auto simp: cache_get_def cache_delete_def split: option.splits bool.splits)

lemma touch_get: "item_at k s = Some b \<Longrightarrow> is_cache_item b = Some True \<Longrightarrow> in_time now b \<Longrightarrow> fst (cache_get now k s) = s"
  by (simp add: cache_get_def)

text \<open>The key an operation is about.\<close>

fun op_key :: "cache_op \<Rightarrow> jstr option" where
  "op_key (OpSet k c x f) = Some k"
| "op_key (OpGet k) = Some k"
| "op_key (OpDelete k) = Some k"
| "op_key (OpAdd k c x f) = Some k"
| "op_key (OpReplace k c x f) = Some k"
| "op_key (OpTouch k x) = Some k"
| "op_key _ = None"

lemma cache_do_spares:
  assumes "op_key a \<noteq> Some j" "a \<noteq> OpClear"
  shows "spares now j s (fst (cache_do (now, a) s))"
proof (cases a)
  case (OpAdd k c x f)
  then show ?thesis using assms(1)
    by (auto simp: cache_add_def set_true_again split: option.splits)
next
  case (OpReplace k c x f)
  then show ?thesis using assms(1)
    by (auto simp: cache_replace_def cache_delete_def split: option.splits bool.splits)
next
  case (OpTouch k x)
  then have "j \<noteq> k" using assms(1) by auto
  have "spares now j s (fst (case cache_get now k s of (s', None) \<Rightarrow> (s', None)
      | (s', Some v) \<Rightarrow> set_true now k (Some v) x True s'))"
    if "fst (cache_get now k s) = s"
    using that \<open>j \<noteq> k\<close> by (cases "cache_get now k s") (auto split: option.splits)
  then show ?thesis using OpTouch \<open>j \<noteq> k\<close> touch_get[of k s _ now]
    by (auto simp: cache_touch_def cache_delete_def split: option.splits bool.splits)
qed (use assms in \<open>auto simp: cache_delete_def intro: spares_get\<close>)

text \<open>
  C23: no operation but \<open>clear\<close> touches what is stored under another key and has not
  expired, whatever the storage holds and however full it is; the sweep that a full storage brings
  about is no exception.
\<close>

theorem full_storage_keeps_others:
  assumes "op_key a \<noteq> Some j" "a \<noteq> OpClear" "\<not> expired now j s"
  shows "getItem j (fst (cache_do (now, a) s)) = getItem j s"
  using cache_do_spares[OF assms(1,2), of now s] assms(3) by (simp add: spares_def)

text \<open>An item that has expired and leaves no room for another one.\<close>

definition full_storage :: storage where
  [js_eval]: "full_storage = \<lparr>s_items = [(js ''b'', item_text 0 1000 (JStr (js ''0123456789''))), (js ''c'', item_text 0 9000 JNull)],
     s_room = Some 90, s_error = sample_error\<rparr>"

theorem full_storage_keeps_others_witness:
  "getItem (js ''c'') (fst (cache_do (2000, OpSet (js ''a'') (Some (JNum 7)) (Seconds 1) True) full_storage))
     = Some (item_text 0 9000 JNull)"
proof -
  have "\<not> expired 2000 (js ''c'') full_storage" by code_simp
  moreover have "getItem (js ''c'') full_storage = Some (item_text 0 9000 JNull)" by code_simp
  moreover have "op_key (OpSet (js ''a'') (Some (JNum 7)) (Seconds 1) True) \<noteq> Some (js ''c'')" by (simp add: js_def)
  ultimately show ?thesis
    using full_storage_keeps_others[of "OpSet (js ''a'') (Some (JNum 7)) (Seconds 1) True" "js ''c''" 2000 full_storage]
    by simp
qed

lemma set_sweeps:
  assumes e: "get_expires_date now x = Some e"
    and full: "setItem k (item_text now e v) s = None" "isQuotaExceeded (s_error s)"
    and fits: "setItem k (item_text now e (JStr (serialize v))) (fst (deleteAllExpires now s)) = Some s'"
  shows "cache_set now k (Some v) x True s = (s', Some v)"
  using assms by (simp add: cache_set_def set_item.simps[of now k] quotaExceedHandler.simps item_text_def[symmetric])

text \<open>
  When a value does not fit, and there is room after the sweep, \<open>set\<close> answers with the value
  but has stored its serialisation: until the deadline \<open>get\<close> answers with a text.
\<close>

theorem set_of_a_full_storage:
  assumes "get_expires_date now x = Some e" "now < e"
    and "setItem k (item_text now e v) s = None" "isQuotaExceeded (s_error s)"
    and "setItem k (item_text now e (JStr (serialize v))) (fst (deleteAllExpires now s)) = Some s'"
  shows "cache_set now k (Some v) x True s = (s', Some v) \<and> cache_get now k s' = (s', Some (JStr (serialize v)))"
proof
  show "cache_set now k (Some v) x True s = (s', Some v)" by (rule set_sweeps) (rule assms)+
  have "item_at k s' = Some (cache_item now e (serialize (JStr (serialize v))))"
    by (simp add: item_at_def getItem_setItem[OF assms(5)]) (simp add: deserialize_def falsy_def)
  then show "cache_get now k s' = (s', Some (JStr (serialize v)))"
    using assms(2) by (simp add: cache_get_def)
qed

theorem set_of_a_full_storage_witness:
  "snd (cache_get 2000 (js ''a'') (fst (cache_set 2000 (js ''a'') (Some (JNum 7)) (Seconds 1) True full_storage)))
     = Some (JStr (js ''7''))"
proof -
  have e: "get_expires_date 2000 (Seconds 1) = Some 3000" by code_simp
  have n: "setItem (js ''a'') (item_text 2000 3000 (JNum 7)) full_storage = None" by code_simp
  have q: "isQuotaExceeded (s_error full_storage)" by code_simp
  have "setItem (js ''a'') (item_text 2000 3000 (JStr (serialize (JNum 7)))) (fst (deleteAllExpires 2000 full_storage)) \<noteq> None"
    by code_simp
  then obtain s' where s': "setItem (js ''a'') (item_text 2000 3000 (JStr (serialize (JNum 7)))) (fst (deleteAllExpires 2000 full_storage)) = Some s'"
    by blast
  have "serialize (JNum 7) = js ''7''" by code_simp
  with set_of_a_full_storage[OF e _ n q s'] show ?thesis by simp
qed

section \<open>The room of the storage\<close>

lemma items_size_delete: "items_size (AList.delete k kvs) \<le> items_size kvs"
  by (induction kvs) (auto simp: items_size_def)

definition fits_room :: "storage \<Rightarrow> bool" where
  [js_eval]: "fits_room s = (case s_room s of None \<Rightarrow> True | Some m \<Rightarrow> items_size (s_items s) \<le> m)"

lemma fits_removeItem: "fits_room s \<Longrightarrow> fits_room (removeItem k s)"
  using items_size_delete[of k "s_items s"]
  by (auto simp: fits_room_def removeItem_def split: option.splits)

lemma fits_setItem: "setItem k t s = Some s' \<Longrightarrow> fits_room s'"
  by (auto simp: fits_room_def setItem_def Let_def split: option.splits if_splits)

lemma fits_sweep: "fits_room s \<Longrightarrow> fits_room (fst (deleteAllExpires now s))"
proof -
  have "fits_room s \<Longrightarrow> fits_room (fold cache_delete ks s)" for ks
    by (induction ks arbitrary: s) (auto simp: cache_delete_def fits_removeItem)
  then show "fits_room s \<Longrightarrow> ?thesis" by (simp add: deleteAllExpires_def Let_def)
qed

lemma fits_set_False: "fits_room s \<Longrightarrow> fits_room (fst (set_item now k c x False s))"
  by (auto simp: set_item.simps[of now k c x False] quotaExceedHandler.simps[of now k _ x False]
      split: option.splits dest: fits_setItem)

lemma fits_set:
  assumes "fits_room s"
  shows "fits_room (fst (cache_set now k c x f s))" "fits_room (fst (set_true now k c x f s))"
proof -
  have "fits_room (fst (set_item now k v x f s))" for v
    using assms by (cases f) (auto simp: fits_set_False set_item.simps[of now k v x True] quotaExceedHandler.simps fits_sweep
        split: option.splits dest: fits_setItem)
  then show "fits_room (fst (cache_set now k c x f s))" "fits_room (fst (set_true now k c x f s))"
    using assms by (auto simp: cache_set_def set_true_def cache_delete_def fits_removeItem split: option.splits)
qed

lemma fits_clear: "fits_room (cache_clear s)"
  by (simp add: fits_room_def cache_clear_def items_size_def split: option.splits)

lemma cache_do_fits: "fits_room s \<Longrightarrow> fits_room (fst (cache_do (now, a) s))"
proof (cases a)
  case (OpTouch k x)
  assume f: "fits_room s"
  then have g: "fits_room (fst (cache_get now k s))"
    by (auto simp: cache_get_def cache_delete_def fits_removeItem split: option.splits bool.splits)
  have "fits_room (fst (case cache_get now k s of (s', None) \<Rightarrow> (s', None)
      | (s', Some v) \<Rightarrow> set_true now k (Some v) x True s'))"
    using g by (cases "cache_get now k s") (auto simp: fits_set split: option.splits)
  then show ?thesis using OpTouch f
    by (auto simp: cache_touch_def cache_delete_def fits_removeItem split: option.splits bool.splits)
qed (auto simp: cache_get_def cache_add_def cache_replace_def set_true_again cache_delete_def fits_removeItem fits_set fits_sweep
    fits_clear split: option.splits bool.splits)

end
