(* ===== verification/WordLinks.thy ===== *)
theory WordLinks
  imports StorageCache JsRegex Page
begin

text \<open>
  replace.js: the words of the knowledge base in an article become links.

  The words come from the server once a day: the answer is kept in the cache of the page under
  \<open>realData\<close>, and a page that finds it there sends no request. The texts of the paragraphs are
  then rewritten: the first occurrence of each word becomes a link, and no text inside a link is
  touched.

  The text of the article (\<open>text()\<close> of its markup) is computed by the browser and an argument here. A
  word with other syntax characters of a regular expression than the dot is outside the model: the
  code makes an expression of the word as it stands, and \<open>pattern_of\<close> answers \<open>None\<close>, which the code
  sees as an exception for words such as \<open>C++\<close>. The texts \<open>eval\<close> is given are JSON. The list of
  the expressions the code collects beside the words is never read and left out.
\<close>

section \<open>The words\<close>

record word =
  w_word :: "json option"
  w_url :: "json option"
  w_name :: "json option"
  w_logo :: "json option"
  w_subCount :: "json option"
  w_conCount :: "json option"

definition word_of :: "json \<Rightarrow> word" where
  [js_eval]: \<open>word_of v = \<lparr>w_word = member (js ''word'') v, w_url = member (js ''url'') v, w_name = member (js ''name'') v,
     w_logo = member (js ''logo'') v, w_subCount = member (js ''subCount'') v, w_conCount = member (js ''conCount'') v\<rparr>\<close>

text \<open>A member in a text.\<close>

definition val_text :: "json option \<Rightarrow> jstr" where
  [js_eval]: \<open>val_text v = (case v of None \<Rightarrow> (js ''undefined'') | Some x \<Rightarrow> js_string x)\<close>

text \<open>The entries of the data, by index up to the length: the characters of a text have no members, \<open>null\<close> throws.\<close>

fun entries :: "json list \<Rightarrow> word list option" where
  "entries [] = Some []"
| "entries (v # vs) = (if v = JNull then None else map_option ((#) (word_of v)) (entries vs))"

definition words_of :: "json \<Rightarrow> word list option" where
  [js_eval]: "words_of b =
     (case b of
        JNull \<Rightarrow> None
      | JArr vs \<Rightarrow> entries vs
      | JStr s \<Rightarrow> Some (replicate (length s) (word_of (JStr [])))
      | _ \<Rightarrow> Some [])"

text \<open>\<open>new RegExp(o, "i")\<close>.\<close>

definition pattern_of :: "jstr \<Rightarrow> rx list option" where
  [js_eval]: "pattern_of n =
     (if \<exists>c \<in> set n. c \<in> {36, 40, 41, 42, 43, 63, 91, 92, 93, 94, 123, 124, 125} then None
      else Some (map (\<lambda>c. if c = 46 then RDot else RChr c) n))"

definition word_regex :: "jstr \<Rightarrow> rx option" where
  [js_eval]: "word_regex n =
     map_option (\<lambda>rs. if \<exists>c \<in> set n. 19968 \<le> c \<and> c \<le> 40869 then rseq rs else rseq (RWordB # rs @ [RWordB]))
       (pattern_of n)"

text \<open>The words whose expression matches the text; \<open>None\<close> when an expression cannot be made.\<close>

fun find_words :: "jstr \<Rightarrow> word list \<Rightarrow> (word \<times> rx) list option" where
  "find_words k [] = Some []"
| "find_words k (w # ws) =
     (case word_regex (val_text (w_word w)) of
        None \<Rightarrow> None
      | Some p \<Rightarrow> map_option (\<lambda>r. if rx_test i_flag p k then (w, p) # r else r) (find_words k ws))"

text \<open>The first entry of each word.\<close>

fun uniqueObj :: "json option list \<Rightarrow> (word \<times> rx) list \<Rightarrow> (word \<times> rx) list" where
  "uniqueObj seen [] = []"
| "uniqueObj seen (a # as) =
     (if w_word (fst a) \<in> set seen then uniqueObj seen as else a # uniqueObj (w_word (fst a) # seen) as)"

text \<open>What an empty object inherits.\<close>

definition inherited :: "jstr list" where
  [js_eval]: \<open>inherited = [(js ''constructor''), (js ''hasOwnProperty''), (js ''isPrototypeOf''), (js ''propertyIsEnumerable''),
     (js ''toLocaleString''), (js ''toString''), (js ''valueOf''), (js ''__defineGetter__''), (js ''__defineSetter__''), (js ''__lookupGetter__''),
     (js ''__lookupSetter__''), (js ''__proto__'')]\<close>

text \<open>The loop over the values up to the first one that is null or undefined.\<close>

fun unique_from :: "jstr list \<Rightarrow> json option list \<Rightarrow> json list" where
  "unique_from c [] = []"
| "unique_from c (a # as) =
     (case a of
        None \<Rightarrow> []
      | Some e \<Rightarrow>
          if e = JNull then []
          else if js_string e \<in> set c then unique_from c as
          else e # unique_from (js_string e # c) as)"

definition unique :: "json option list \<Rightarrow> json list" where
  [js_eval]: "unique a = unique_from inherited a"

section \<open>Replacing with a state\<close>

text \<open>\<open>s.replace(r, f)\<close> with a callback that changes variables of the function around it.\<close>

fun splice_st :: "('s \<Rightarrow> rxmatch \<Rightarrow> jstr \<times> 's) \<Rightarrow> jstr \<Rightarrow> nat \<Rightarrow> rxmatch list \<Rightarrow> 's \<Rightarrow> jstr \<times> 's" where
  "splice_st f s i [] st = (drop i s, st)"
| "splice_st f s i (m # ms) st =
     (let (t, st1) = f st m; (u, st2) = splice_st f s (fst (snd m)) ms st1
      in (slice s i (fst m) @ t @ u, st2))"

definition replace_st :: "rflags \<Rightarrow> rx \<Rightarrow> jstr \<Rightarrow> ('s \<Rightarrow> rxmatch \<Rightarrow> jstr \<times> 's) \<Rightarrow> 's \<Rightarrow> jstr \<times> 's" where
  [js_eval]: "replace_st fl r s f st = splice_st f s 0 (all_matches fl r s 0) st"

text \<open>A callback that answers with the match and keeps the state changes nothing.\<close>

lemma splice_st_id:
  "in_order s i ms \<Longrightarrow> i \<le> length s \<Longrightarrow> (\<And>m. m \<in> set ms \<Longrightarrow> f st m = (match_text s m, st)) \<Longrightarrow>
   splice_st f s i ms st = (drop i s, st)"
  by (induction ms arbitrary: i) (auto simp: match_text_def slice_drop)

lemma replace_st_id:
  "(\<And>m. m \<in> set (all_matches fl r s 0) \<Longrightarrow> f st m = (match_text s m, st)) \<Longrightarrow> replace_st fl r s f st = (s, st)"
  by (simp add: replace_st_def splice_st_id all_matches_in_order)

section \<open>The links\<close>

text \<open>The words still to be linked, by index: a used one is deleted and leaves a hole.\<close>

type_synonym links = "(word \<times> rx) option list"

definition present :: "links \<Rightarrow> (nat \<times> (word \<times> rx)) list" where
  [js_eval]: "present j = concat (map (\<lambda>(f, k). case k of None \<Rightarrow> [] | Some x \<Rightarrow> [(f, x)]) (zip [0..<length j] j))"

definition placeholder :: "nat \<Rightarrow> jstr" where
  [js_eval]: \<open>placeholder f = (js ''{[('') @ num_str f @ (js '')]}'')\<close>

text \<open>\<open>for (f in j)\<close>: the first occurrence of each word becomes its placeholder.\<close>

fun mark_words :: "(nat \<times> (word \<times> rx)) list \<Rightarrow> jstr \<Rightarrow> jstr \<times> nat list" where
  "mark_words [] d = (d, [])"
| "mark_words ((f, w, g) # j) d =
     (if rx_test i_flag g d then apsnd ((#) f) (mark_words j (rx_replace i_flag g d (placeholder f))) else mark_words j d)"

definition word_link :: "word \<Rightarrow> jstr" where
  [js_eval]: \<open>word_link k = (js ''<a href="'') @ val_text (w_url k) @ (js ''" class='' @ [39] @ js ''replace_word'' @ [39] @ js '' title="'') @ val_text (w_name k)
     @ (js ''" target='' @ [39] @ js ''_blank'' @ [39] @ js '' style='' @ [39] @
    js ''color:#df3434; font-weight:bold;'' @ [39] @ js ''>'') @ val_text (w_word k) @ (js ''</a>'')\<close>

fun place_links :: "nat list \<Rightarrow> jstr \<Rightarrow> links \<Rightarrow> jstr \<times> links" where
  "place_links [] d j = (d, j)"
| "place_links (i # e) d j =
     (case j ! i of
        None \<Rightarrow> place_links e d j
      | Some k \<Rightarrow> place_links e (replace_str d (placeholder i) (word_link (fst k))) (j[i := None]))"

definition re_token :: rx where
  [js_eval]: "re_token = rseq [RGrp 1 (rstar (RGrp 2 (rseq [RChr 60, rplus (RNot [Ch 62]), RChr 62]))),
     RGrp 3 (rstar (RNot [Ch 60]))]"

text \<open>The inner callback: a run of tags and the text after it.\<close>

definition link_token :: "jstr \<Rightarrow> links \<Rightarrow> rxmatch \<Rightarrow> jstr \<times> links" where
  [js_eval]: \<open>link_token s j m =
     (let b = the_capture s m 1; d = the_capture s m 3
      in if d = [] then (b, j)
         else if index_of (js ''<a'') b = Some 0 \<or> length j = 0 then (b @ d, j)
         else let (d1, e) = mark_words (present j) d; (d2, j2) = place_links e d1 j in (b @ d2, j2))\<close>

definition re_para :: rx where
  [js_eval]: \<open>re_para = rseq
     [RGrp 1 (RAlt (rlit (js ''<p>'')) (rseq [rlit (js ''<p''), rplus (RCls [ClSpace]), RGrp 2 (rplus (RNot [Ch 62])), RChr 62])),
      RGrp 3 (rplus (RGrp 4 (RSeq (RNLook (rlit (js ''</p''))) (RCls [ClAny])))), rlit (js ''</p>'')]\<close>

text \<open>The outer callback: a paragraph.\<close>

definition link_para :: "jstr \<Rightarrow> links \<Rightarrow> rxmatch \<Rightarrow> jstr \<times> links" where
  [js_eval]: \<open>link_para s j m =
     (let b = the_capture s m 1; (e, j') = replace_st im_flag re_token (the_capture s m 3) (link_token (the_capture s m 3)) j
      in (b @ e @ (js ''</p>''), j'))\<close>

definition link_html :: "jstr \<Rightarrow> links \<Rightarrow> jstr \<times> links" where
  [js_eval]: "link_html l j = replace_st i_flag re_para l (link_para l) j"

section \<open>The page\<close>

record wpage = page +
  w_local :: "storage option"
  w_supported :: bool

definition related_at :: "json list \<Rightarrow> nat \<Rightarrow> jstr" where
  [js_eval]: \<open>related_at xs d = (if d < length xs then js_string (xs ! d) else (js ''undefined''))\<close>

definition related_html :: "(word \<times> rx) list \<Rightarrow> jstr" where
  [js_eval]: \<open>related_html found =
     (let f = unique (map (w_name \<circ> fst) found); e = unique (map (w_url \<circ> fst) found);
          g = unique (map (w_logo \<circ> fst) found); h = unique (map (w_subCount \<circ> fst) found);
          i = unique (map (w_conCount \<circ> fst) found)
      in concat (map (\<lambda>d. (js ''<dl class="relate_list" ><dt><a target="_blank" href="'') @ related_at e d @ (js ''"><img src="'')
           @ related_at g d @ (js ''" alt="img"/></a></dt><dd><h4><a target="_blank" href="'') @ related_at e d @ (js ''">'')
           @ related_at f d @ (js ''</a></h4><p><label><span>'') @ related_at h d @ (js ''</span><em>'' @ [20851, 27880] @ js ''</em><i>|</i><span>'')
           @ related_at i d @ (js ''</span><em>'' @ [25910, 24405] @ js ''</em></label></p></dd></dl>'')) [0..<length f]))\<close>

definition show_related :: "(word \<times> rx) list \<Rightarrow> wpage \<Rightarrow> wpage" where
  [js_eval]: "show_related found p =
     (if found = [] then set_shown ''#relate'' False p
      else set_html ''.relate_c'' (related_html found) (set_shown ''#relate'' True p))"

text \<open>\<open>None\<close> is an exception, which leaves before the page is changed.\<close>

definition handle :: "jstr \<Rightarrow> json \<Rightarrow> wpage \<Rightarrow> wpage option" where
  [js_eval]: "handle article_text b p =
     (case words_of b of
        None \<Rightarrow> None
      | Some ws \<Rightarrow>
          (case find_words article_text ws of
             None \<Rightarrow> None
           | Some found \<Rightarrow>
               Some (show_related found
                 (set_html ''#article_content''
                   (fst (link_html (html_of ''#article_content'' p) (map Some (uniqueObj [] found)))) p))))"

section \<open>The words in the cache\<close>

definition cache_of :: "wpage \<Rightarrow> wcache" where
  [js_eval]: "cache_of p =
     (case w_local p of None \<Rightarrow> Unsupported | Some s \<Rightarrow> if w_supported p then Over s else Unsupported)"

definition put_cache :: "wcache \<Rightarrow> wpage \<Rightarrow> wpage" where
  [js_eval]: "put_cache w p = (case w of Unsupported \<Rightarrow> p | Over s \<Rightarrow> p\<lparr>w_local := Some s\<rparr>)"

text \<open>\<open>eval\<close> of a value: a text that begins with a brace is a block of statements.\<close>

definition eval_json :: "json \<Rightarrow> json option" where
  [js_eval]: "eval_json v =
     (case v of JStr s \<Rightarrow> if take 1 (skip s) = [123] then None else parse_json s | _ \<Rightarrow> Some v)"

definition words_request :: effect where
  [js_eval]: \<open>words_request = Jsonp (js ''http://internalapi.csdn.net/knowledge/public/public/api/words?x-acl-token=9DeJLGuYSy/6nSmDQen5am'' @
    js ''EWUh0K'') []\<close>

definition words_key :: jstr where
  [js_eval]: \<open>words_key = (js ''realData'')\<close>

text \<open>With the answer whether it ended without an exception.\<close>

definition handler :: "int \<Rightarrow> jstr \<Rightarrow> wpage \<Rightarrow> wpage \<times> bool" where
  [js_eval]: \<open>handler now article_text p =
     (let p1 = put_cache (fst (call (\<lambda>s. apsnd Some (deleteAllExpires now s)) (cache_of p))) p
      in case w_local p1 of
           None \<Rightarrow> (p1, False)
         | Some s \<Rightarrow>
             let data = getItem words_key s
             in if data = None \<or> data = Some [] then (emit words_request p1, True)
                else case parse_json (the data) of
                  None \<Rightarrow> (p1, False)
                | Some b \<Rightarrow>
                    if b = JNull then (p1, False)
                    else case eval_json (case member (js ''v'') b of None \<Rightarrow> b | Some v \<Rightarrow> v) of
                      None \<Rightarrow> (p1, False)
                    | Some d \<Rightarrow>
                        (case handle article_text d p1 of None \<Rightarrow> (p1, False) | Some p2 \<Rightarrow> (p2, True)))\<close>

text \<open>The callback \<open>success\<close>.\<close>

definition words_answer :: "int \<Rightarrow> jstr \<Rightarrow> jstr \<Rightarrow> json \<Rightarrow> wpage \<Rightarrow> wpage" where
  [js_eval]: \<open>words_answer now article_text msg resData p =
     (if msg \<noteq> (js ''ok'') then p
      else case eval_json resData of
        None \<Rightarrow> p
      | Some data \<Rightarrow>
          let p1 = put_cache (fst (call (cache_set now words_key (Some resData) (Seconds 86400) True) (cache_of p))) p
          in case handle article_text data p1 of None \<Rightarrow> p1 | Some p2 \<Rightarrow> p2)\<close>

definition words_failed :: "wpage \<Rightarrow> wpage" where
  [js_eval]: \<open>words_failed p = emit (Console (js ''Send Ajax error ...'')) p\<close>

text \<open>The start: the cache over the storage of the browser, \<open>classStyle\<close>, \<open>handler\<close>, and the text of an exception.\<close>

definition start_words :: "int \<Rightarrow> jstr \<Rightarrow> jstr \<Rightarrow> jstr \<Rightarrow> wpage \<Rightarrow> wpage" where
  [js_eval]: \<open>start_words now random article_text error_message p =
     (let p1 = (case new_cache (w_local p) random of
                  Unsupported \<Rightarrow> p\<lparr>w_supported := False\<rparr>
                | Over s \<Rightarrow> p\<lparr>w_local := Some s, w_supported := True\<rparr>);
          p2 = emit (Call ''.replace_word css'' [(js ''#df3434''), (js ''bold!important'')]) p1
      in case handler now article_text p2 of
           (p3, True) \<Rightarrow> p3
         | (p3, False) \<Rightarrow> emit (Console error_message) p3)\<close>

section \<open>The words are asked for once a day\<close>

lemma eval_serialize: "(\<And>kvs. v \<noteq> JObj kvs) \<Longrightarrow> eval_json (JStr (serialize v)) = Some v"
proof -
  assume v: "\<And>kvs. v \<noteq> JObj kvs"
  obtain c s where c: "stringify v = c # s" "\<not> json_ws c" using stringify_hd[of v] by auto
  then have "c \<noteq> 123"
  proof (cases v)
    case (JNum n)
    then show ?thesis using c hd_num_str_digit[of "nat n"] by (auto simp: int_str_def is_digit_def split: if_splits)
  qed (use v c in \<open>auto simp: js_def quoted_def split: if_splits\<close>)
  then show ?thesis using c parse_stringify[of v] by (simp add: eval_json_def serialize_def)
qed

lemma handle_local:
  "handle t b p = Some q \<Longrightarrow> w_local q = w_local p \<and> w_supported q = w_supported p"
  by (auto simp: handle_def show_related_def page_upd_defs split: option.splits if_splits)

lemma words_stored:
  assumes "w_local p = Some s" "w_supported p" "cache_ok s" "room_left s"
    and "eval_json d \<noteq> None" "\<bar>t0 + 86400000\<bar> \<le> 8640000000000000"
  obtains s' where \<open>w_local (words_answer t0 t (js ''ok'') d p) = Some s'\<close> "cache_ok s'"
    "getItem words_key s' = Some (item_text t0 (t0 + 86400000) d)"
proof -
  let ?e = "t0 + 86400000"
  obtain s' where s': "setItem words_key (item_text t0 ?e d) s = Some s'" using setItem_fits[OF assms(4)] by blast
  then have "cache_set t0 words_key (Some d) (Seconds 86400) True s = (s', Some d)"
    using assms(6) by (simp add: cache_set_def set_item.simps[of t0] get_expires_date_def valid_time_def item_text_def)
  moreover obtain x where "eval_json d = Some x" using assms(5) by blast
  ultimately have \<open>w_local (words_answer t0 t (js ''ok'') d p) = Some s'\<close>
    using assms(1,2) handle_local[of t x "p\<lparr>w_local := Some s'\<rparr>"]
    by (simp add: words_answer_def cache_of_def put_cache_def call_def Let_def split: option.splits)
  with cache_ok_setItem[OF assms(3) s'] getItem_setItem[OF s'] show thesis by (intro that) auto
qed


definition words_page :: wpage where
  [js_eval]: \<open>words_page = page.extend (set_html ''#article_content'' (js ''<p>The linux kernel</p>'') blank_page)
     \<lparr>w_local = Some (empty_storage None), w_supported = True\<rparr>\<close>


section \<open>Articles without the words\<close>

lemma all_matches_sound:
  "m \<in> set (all_matches fl r s i) \<Longrightarrow> (fst (snd m), snd (snd m)) \<in> set (rmatch fl s r (fst m, [])) \<and> fst m \<le> length s"
proof (induction fl r s i rule: all_matches.induct)
  case (1 fl r s i)
  show ?case
  proof (cases "i > length s \<or> rx_find fl r s i = None")
    case True
    then have "all_matches fl r s i = []" by (subst all_matches.simps) auto
    then show ?thesis using "1.prems" by simp
  next
    case False
    then obtain j e c where f: "rx_find fl r s i = Some (j, e, c)" by (cases "rx_find fl r s i") auto
    then have "all_matches fl r s i = (j, e, c) # all_matches fl r s (if e = j then Suc e else e)"
      using False by (subst all_matches.simps) simp
    then consider "m = (j, e, c)" | "m \<in> set (all_matches fl r s (if e = j then Suc e else e))"
      using "1.prems" by (simp only: list.set insert_iff) blast
    then show ?thesis
    proof cases
      case 1
      then show ?thesis using f rx_find_bounds[OF f] first_match_Some[OF f[unfolded rx_find_def]] by auto
    next
      case 2
      then show ?thesis using "1.IH"[of "(j, e, c)" j "(e, c)" e c] f False by auto
    qed
  qed
qed

text \<open>The groups of the two expressions cover their matches.\<close>

lemma token_groups:
  assumes "m \<in> set (all_matches fl re_token s i)"
  shows "the_capture s m 1 @ the_capture s m 3 = match_text s m"
proof -
  obtain p e c where m: "m = (p, e, c)" by (cases m)
  have r: "(e, c) \<in> set (rmatch fl s re_token (p, []))" using all_matches_sound[OF assms] m by simp
  then obtain q c1 c3 where q: "(q, c1) \<in> set (rmatch fl s (rstar (RGrp 2 (rseq [RChr 60, rplus (RNot [Ch 62]), RChr 62]))) (p, []))"
      "(e, c3) \<in> set (rmatch fl s (rstar (RNot [Ch 60])) (q, (1, p, q) # c1))" "c = (3, q, e) # c3"
    by (auto simp: re_token_def)
  have "map_of c3 1 = Some (p, q)"
    using rmatch_captures[OF q(2), of 1] by (simp add: rstar_def)
  moreover have "p \<le> q" "q \<le> e" using rmatch_bounds(1)[OF q(1)] rmatch_bounds(1)[OF q(2)] by simp_all
  ultimately show ?thesis by (simp add: m q(3) the_capture_def capture_def match_text_def slice_append)
qed

lemma para_groups:
  assumes "m \<in> set (all_matches fl re_para s i)"
  obtains w where "the_capture s m 1 @ the_capture s m 3 @ w = match_text s m" \<open>list_all2 (cu_eq fl) (js ''</p>'') w\<close>
proof -
  obtain p e c where m: "m = (p, e, c)" by (cases m)
  have r: "(e, c) \<in> set (rmatch fl s re_para (p, []))" using all_matches_sound[OF assms] m by simp
  define A where \<open>A = RAlt (rlit (js ''<p>'')) (rseq [rlit (js ''<p''), rplus (RCls [ClSpace]), RGrp 2 (rplus (RNot [Ch 62])), RChr 62])\<close>
  define B where \<open>B = rplus (RGrp 4 (RSeq (RNLook (rlit (js ''</p''))) (RCls [ClAny])))\<close>
  have re: \<open>re_para = RSeq (RGrp 1 A) (RSeq (RGrp 3 B) (rlit (js ''</p>'')))\<close>
    by (simp add: re_para_def A_def B_def)
  from r[unfolded re] obtain q c1 t c3 where q: "(q, c1) \<in> set (rmatch fl s A (p, []))"
      "(t, c3) \<in> set (rmatch fl s B (q, (1, p, q) # c1))" \<open>(e, c) \<in> set (rmatch fl s (rlit (js ''</p>'')) (t, (3, q, t) # c3))\<close>
    by auto
  have e: \<open>e = t + length (js ''</p>'')\<close> "c = (3, q, t) # c3" \<open>lit_at fl (js ''</p>'') s t\<close>
    using q(3) by (auto simp: rmatch_rlit js_def split: if_splits)
  have "map_of c3 1 = Some (p, q)"
    using rmatch_captures[OF q(2), of 1] by (simp add: B_def rplus_def)
  moreover have "p \<le> q" "q \<le> t" using rmatch_bounds(1)[OF q(1)] rmatch_bounds(1)[OF q(2)] by simp_all
  ultimately have "the_capture s m 1 @ the_capture s m 3 @ slice s t e = match_text s m"
    using e(1) by (simp add: m e(2) the_capture_def capture_def match_text_def slice_append)
  moreover have \<open>list_all2 (cu_eq fl) (js ''</p>'') (slice s t e)\<close> using e by (simp add: lit_at_def slice_def numeral_eq_Suc)
  ultimately show thesis by (rule that)
qed

lemma close_tag: \<open>list_all2 (cu_eq fl) (js ''</p>'') w \<Longrightarrow> w = (js ''</p>'') \<or> w = (js ''</P>'')\<close>
proof -
  assume w: \<open>list_all2 (cu_eq fl) (js ''</p>'') w\<close>
  then obtain a b c d where "w = [a, b, c, d]" "cu_eq fl 60 a" "cu_eq fl 47 b" "cu_eq fl 112 c" "cu_eq fl 62 d"
    by (auto simp: js_def list_all2_Cons1)
  moreover from this have "a = 60" "b = 47" "c = 112 \<or> c = 80" "d = 62"
    by (auto simp: cu_eq_def upper_cu_def is_lower_def split: if_splits)
  ultimately show ?thesis by (auto simp: js_def)
qed

lemma contains_match_text: "\<not> contains w s \<Longrightarrow> \<not> contains w (match_text s m)"
  by (metis append.assoc append_take_drop_id contains_iff match_text_def slice_def)

lemma link_token_no_words:
  "m \<in> set (all_matches im_flag re_token s 0) \<Longrightarrow> link_token s [] m = (match_text s m, [])"
  using token_groups[of m im_flag s 0] by (auto simp: link_token_def Let_def)

lemma link_para_no_words:
  assumes "m \<in> set (all_matches i_flag re_para s 0)" \<open>\<not> contains (js ''</P>'') s\<close>
  shows "link_para s [] m = (match_text s m, [])"
proof -
  obtain w where w: "the_capture s m 1 @ the_capture s m 3 @ w = match_text s m" \<open>list_all2 (cu_eq i_flag) (js ''</p>'') w\<close>
    by (rule para_groups[OF assms(1)])
  moreover have \<open>w = (js ''</p>'')\<close>
    using close_tag[OF w(2)] contains_match_text[OF assms(2), of m] w(1) by (metis append.right_neutral append_assoc contains_iff)
  moreover have "replace_st im_flag re_token t (link_token t) [] = (t, [])" for t
    by (rule replace_st_id) (rule link_token_no_words)
  ultimately show ?thesis by (simp add: link_para_def Let_def)
qed

lemma link_html_no_words: \<open>\<not> contains (js ''</P>'') l \<Longrightarrow> link_html l [] = (l, [])\<close>
  unfolding link_html_def by (rule replace_st_id) (simp add: link_para_no_words)

lemma find_words_none: "find_words k ws = Some found \<Longrightarrow>
    \<forall>w \<in> set ws. \<forall>p. word_regex (val_text (w_word w)) = Some p \<longrightarrow> \<not> rx_test i_flag p k \<Longrightarrow> found = []"
  by (induction k ws arbitrary: found rule: find_words.induct) (auto split: option.splits if_splits)

text \<open>
  When the text of the article has none of the words, its markup is rewritten to itself
  (unless a paragraph ends with an upper-case tag) and the box of the related knowledge is hidden.
\<close>

theorem article_without_words:
  assumes "words_of d = Some ws" "handle t d p = Some q"
    and "\<forall>w \<in> set ws. \<forall>r. word_regex (val_text (w_word w)) = Some r \<longrightarrow> \<not> rx_test i_flag r t"
    and \<open>\<not> contains (js ''</P>'') (html_of ''#article_content'' p)\<close>
  shows "html_of ''#article_content'' q = html_of ''#article_content'' p \<and> \<not> shown ''#relate'' q"
proof -
  obtain found where f: "find_words t ws = Some found" using assms(1,2) by (auto simp: handle_def split: option.splits)
  then have "found = []" using find_words_none assms(3) by blast
  then show ?thesis using assms(1,2) f link_html_no_words[OF assms(4)]
    by (auto simp: handle_def show_related_def)
qed

definition linux_word :: json where
  [js_eval]: \<open>linux_word = JObj [((js ''word''), JStr (js ''Linux'')), ((js ''url''), JStr (js ''/linux'')), ((js ''name''), JStr (js ''the kernel''))]\<close>

theorem article_without_words_witness:
  \<open>\<exists>q. handle (js ''The hurd'') (JArr [linux_word]) words_page = Some q
    \<and> html_of ''#article_content'' q = (js ''<p>The linux kernel</p>'') \<and> \<not> shown ''#relate'' q\<close>
proof -
  let ?w = "word_of linux_word"
  have w: "words_of (JArr [linux_word]) = Some [?w]" by (simp add: words_of_def linux_word_def)
  have r: \<open>\<not> rx_test i_flag (the (word_regex (val_text (w_word ?w)))) (js ''The hurd'')\<close>
    and n: "word_regex (val_text (w_word ?w)) \<noteq> None" by code_simp+
  then have \<open>handle (js ''The hurd'') (JArr [linux_word]) words_page \<noteq> None\<close>
    by (auto simp: handle_def w)
  then obtain q where q: \<open>handle (js ''The hurd'') (JArr [linux_word]) words_page = Some q\<close> by blast
  have h: \<open>html_of ''#article_content'' words_page = (js ''<p>The linux kernel</p>'')\<close>
    by (simp add: words_page_def page_defs page.defs)
  have c: \<open>\<not> contains (js ''</P>'') (html_of ''#article_content'' words_page)\<close> unfolding h by code_simp
  have "html_of ''#article_content'' q = html_of ''#article_content'' words_page \<and> \<not> shown ''#relate'' q"
    by (rule article_without_words[OF w q _ c]) (use r in auto)
  with q h show ?thesis by auto
qed

lemma link_html_example:
  \<open>fst (link_html (js ''<p>a linux and a Linux</p>'') (map Some (uniqueObj [] (the (find_words (js ''a linux and a Linux'') [word_of linux_word])))))
   = (js ''<p>a <a href="/linux" class='' @ [39] @ js ''replace_word'' @ [39] @
    js '' title="the kernel" target='' @ [39] @ js ''_blank'' @ [39] @ js '' style='' @ [39] @
    js ''color:#df3434; font-weight:bold;'' @ [39] @ js ''>Linux</a> and a Linux</p>'')\<close>
  by code_simp

end
