(* ===== verification/Nicknames.thy ===== *)
theory Nicknames
  imports StorageCache
begin

text \<open>
  cnick.js: the nicknames of the users on a page.

  The elements with user names (they hold text only) are a list in the order of the document; a
  selector is the list of the indices it selects. An element that has been dealt with carries the
  datum \<open>orig_username\<close>. Nicknames come from the memory of the page, then from the storage of the
  browser when they are less than two days old there, and the other names are asked of the server in
  batches of a hundred. The names of inherited properties (\<open>constructor\<close>) as user names are left out
  of account.
\<close>

section \<open>State\<close>

record nelem =
  n_text :: jstr
  n_mark :: "jstr option"     \<comment> \<open>the datum \<open>orig_username\<close>\<close>

record nicks =
  n_elems :: "nelem list"
  n_memory :: "(jstr \<times> jstr) list"
  n_local :: "storage option"

text \<open>\<open>innerHTML\<close> of an element that holds a text.\<close>

definition html_of_text :: "jstr \<Rightarrow> jstr" where
  [js_eval]: \<open>html_of_text t = concat (map (\<lambda>c. if c = 38 then (js ''&amp;'') else if c = 60 then (js ''&lt;'')
     else if c = 62 then (js ''&gt;'') else if c = 160 then (js ''&nbsp;'') else [c]) t)\<close>

definition nick_key :: "jstr \<Rightarrow> jstr" where
  [js_eval]: \<open>nick_key b = (js ''cnick_'') @ b\<close>

text \<open>The stored text \<open>time,nickname\<close>: younger than two days, and not from the future. \<open>None\<close> is undefined.\<close>

definition stored_nick :: "int \<Rightarrow> jstr \<Rightarrow> jstr option" where
  [js_eval]: "stored_nick now a =
     (case split_cu 44 a of
        b # c # _ \<Rightarrow>
          (case parse_int b of
             None \<Rightarrow> None
           | Some t \<Rightarrow> if 0 < now - t \<and> 172800000 > now - t then Some c else None)
      | _ \<Rightarrow> None)"

text \<open>\<open>e(b)\<close>: an empty nickname in the memory is no nickname, the storage is asked.\<close>

definition nick_of :: "int \<Rightarrow> jstr \<Rightarrow> nicks \<Rightarrow> jstr option" where
  [js_eval]: "nick_of now b s =
     (case map_of (n_memory s) b of
        Some (c # cs) \<Rightarrow> Some (c # cs)
      | _ \<Rightarrow> (case n_local s of None \<Rightarrow> None
            | Some l \<Rightarrow> (case getItem (nick_key b) l of None \<Rightarrow> None | Some a \<Rightarrow> stored_nick now a)))"

text \<open>\<open>e(b, c)\<close>; \<open>False\<close> when the assignment throws because the storage is full.\<close>

definition keep_nick :: "int \<Rightarrow> jstr \<Rightarrow> jstr \<Rightarrow> nicks \<Rightarrow> nicks \<times> bool" where
  [js_eval]: \<open>keep_nick now b c s =
     (let s1 = s\<lparr>n_memory := (b, c) # n_memory s\<rparr>
      in case n_local s of
           None \<Rightarrow> (s1, True)
         | Some l \<Rightarrow>
             (case setItem (nick_key b) (int_str now @ (js '','') @ c) l of
                None \<Rightarrow> (s1, False)
              | Some l' \<Rightarrow> (s1\<lparr>n_local := Some l'\<rparr>, True)))\<close>

section \<open>Showing the nicknames\<close>

definition set_nelem :: "nat \<Rightarrow> nelem \<Rightarrow> nicks \<Rightarrow> nicks" where
  [js_eval]: "set_nelem i x s = s\<lparr>n_elems := (n_elems s)[i := x]\<rparr>"

text \<open>\<open>.data("orig_username", m).text(l)\<close>.\<close>

definition show_nick :: "jstr \<Rightarrow> jstr \<Rightarrow> nat \<Rightarrow> nicks \<Rightarrow> nicks" where
  [js_eval]: "show_nick m l i s = set_nelem i \<lparr>n_text = l, n_mark = Some m\<rparr> s"

definition mark_empty :: "nat \<Rightarrow> nicks \<Rightarrow> nicks" where
  [js_eval]: "mark_empty i s = set_nelem i ((n_elems s ! i)\<lparr>n_mark := Some []\<rparr>) s"

text \<open>\<open>k[m].push(g)\<close>.\<close>

type_synonym asked_names = "(jstr \<times> nat list) list"

definition push :: "jstr \<Rightarrow> nat \<Rightarrow> asked_names \<Rightarrow> asked_names" where
  [js_eval]: "push m i k = AList.update m ((case map_of k m of None \<Rightarrow> [] | Some ix \<Rightarrow> ix) @ [i]) k"

text \<open>The loop over the elements: a nickname that is known is shown, other elements wait for their name.\<close>

fun scan_names :: "int \<Rightarrow> nat list \<Rightarrow> nicks \<Rightarrow> asked_names \<Rightarrow> nicks \<times> asked_names" where
  "scan_names now [] s k = (s, k)"
| "scan_names now (i # ix) s k =
     (let m = trim (html_of_text (n_text (n_elems s ! i)))
      in case nick_of now m s of
           Some l \<Rightarrow> scan_names now ix (show_nick m l i s) k
         | None \<Rightarrow> scan_names now ix s (push m i k))"

text \<open>\<open>for (; n.length > 0;) n.splice(0, 100)\<close>.\<close>

function batches :: "jstr list \<Rightarrow> jstr list list" where
  "batches n = (if n = [] then [] else take 100 n # batches (drop 100 n))"
  by pat_completeness auto
termination by (relation "measure length") auto

declare batches.simps [simp del]

text \<open>\<open>cnick(selector, document, force)\<close>: the state, the elements that wait, and the requests with their names.\<close>

definition cnick :: "int \<Rightarrow> nat list \<Rightarrow> bool \<Rightarrow> nicks \<Rightarrow> nicks \<times> asked_names \<times> jstr list" where
  [js_eval]: \<open>cnick now sel force s =
     (let h = filter (\<lambda>i. force \<or> n_mark (n_elems s ! i) = None) sel;
          (s1, k) = scan_names now h (fold mark_empty h s) []
      in (s1, k, map (join (js '','')) (batches (map fst k))))\<close>

text \<open>The callback, for the elements \<open>k\<close> of its call: user names with nicknames; a full storage ends it.\<close>

fun nick_answer :: "int \<Rightarrow> asked_names \<Rightarrow> (jstr \<times> jstr) list \<Rightarrow> nicks \<Rightarrow> nicks" where
  "nick_answer now k [] s = s"
| \<open>nick_answer now k ((m, n) # hs) s =
     (let i = (if n = (js ''null'') then m else n);
          g = (case map_of k m of None \<Rightarrow> [] | Some ix \<Rightarrow> ix);
          s1 = fold (\<lambda>e s. show_nick m (if i = [] then n_text (n_elems s ! e) else i) e s) g s
      in case keep_nick now m i s1 of
           (s2, True) \<Rightarrow> nick_answer now k hs s2
         | (s2, False) \<Rightarrow> s2)\<close>

definition nick_callback :: "int \<Rightarrow> asked_names \<Rightarrow> bool \<Rightarrow> (jstr \<times> jstr) list option \<Rightarrow> nicks \<Rightarrow> nicks" where
  [js_eval]: "nick_callback now k status data s =
     (case data of Some hs \<Rightarrow> if status then nick_answer now k hs s else s | None \<Rightarrow> s)"

section \<open>Every name is shown or asked for\<close>

definition name_at :: "nicks \<Rightarrow> nat \<Rightarrow> jstr" where
  [js_eval]: "name_at s i = trim (html_of_text (n_text (n_elems s ! i)))"

lemma nick_of_elems [simp]: "nick_of now b (set_nelem i x s) = nick_of now b s" "nick_of now b (show_nick m l i s) = nick_of now b s"
    "nick_of now b (mark_empty i s) = nick_of now b s"
  by (simp_all add: nick_of_def set_nelem_def show_nick_def mark_empty_def cong: option.case_cong list.case_cong)

lemma length_elems [simp]: "length (n_elems (show_nick m l i s)) = length (n_elems s)"
    "length (n_elems (mark_empty i s)) = length (n_elems s)"
  by (simp_all add: show_nick_def mark_empty_def set_nelem_def)

lemma nth_show [simp]: "j < length (n_elems s) \<Longrightarrow>
    n_elems (show_nick m l i s) ! j = (if i = j then \<lparr>n_text = l, n_mark = Some m\<rparr> else n_elems s ! j)"
  by (simp add: show_nick_def set_nelem_def)

lemma nth_mark [simp]: "j < length (n_elems s) \<Longrightarrow>
    n_elems (mark_empty i s) ! j = (if i = j then (n_elems s ! j)\<lparr>n_mark := Some []\<rparr> else n_elems s ! j)"
  by (simp add: mark_empty_def set_nelem_def)

lemma marks:
  "length (n_elems (fold mark_empty h s)) = length (n_elems s)"
  "nick_of now b (fold mark_empty h s) = nick_of now b s"
  "j < length (n_elems s) \<Longrightarrow>
     n_elems (fold mark_empty h s) ! j = (if j \<in> set h then (n_elems s ! j)\<lparr>n_mark := Some []\<rparr> else n_elems s ! j)"
  by (induction h arbitrary: s) auto

lemma name_at_cong: "n_text (n_elems s ! i) = n_text (n_elems t ! i) \<Longrightarrow> name_at s i = name_at t i"
  by (simp add: name_at_def)

text \<open>The elements of \<open>h\<close> with the name \<open>m\<close> that wait for it.\<close>

definition waits :: "int \<Rightarrow> nicks \<Rightarrow> nat list \<Rightarrow> jstr \<Rightarrow> nat list" where
  "waits now s h m = filter (\<lambda>i. name_at s i = m \<and> nick_of now m s = None) h"

lemma map_of_push: "map_of (push m i k) n = (if n = m then Some ((case map_of k m of None \<Rightarrow> [] | Some ix \<Rightarrow> ix) @ [i]) else map_of k n)"
  by (simp add: push_def update_conv')

lemma distinct_push: "distinct (map fst k) \<Longrightarrow> distinct (map fst (push m i k))"
  unfolding push_def by (rule distinct_update)

lemma waits_cong:
  "(\<And>i. i \<in> set h \<Longrightarrow> n_text (n_elems s ! i) = n_text (n_elems t ! i)) \<Longrightarrow> (\<And>b. nick_of now b s = nick_of now b t) \<Longrightarrow>
   waits now s h m = waits now t h m"
  unfolding waits_def by (rule filter_cong) (simp_all add: name_at_def)

lemma scan_names_result:
  assumes "distinct h" "\<forall>i \<in> set h. i < length (n_elems s)" "distinct (map fst k)" "scan_names now h s k = (s', k')"
  shows "(\<forall>j < length (n_elems s). n_elems s' ! j =
        (if j \<in> set h then (case nick_of now (name_at s j) s of
            Some l \<Rightarrow> \<lparr>n_text = l, n_mark = Some (name_at s j)\<rparr> | None \<Rightarrow> n_elems s ! j) else n_elems s ! j))
    \<and> length (n_elems s') = length (n_elems s)
    \<and> (\<forall>m. map_of k' m = (if waits now s h m = [] then map_of k m
          else Some ((case map_of k m of None \<Rightarrow> [] | Some ix \<Rightarrow> ix) @ waits now s h m)))
    \<and> distinct (map fst k')"
  using assms
proof (induction h arbitrary: s k)
  case Nil
  then show ?case by (simp add: waits_def)
next
  case (Cons i h)
  let ?m = "name_at s i"
  show ?case
  proof (cases "nick_of now ?m s")
    case None
    have "scan_names now h s (push ?m i k) = (s', k')" using Cons.prems(4) None by (simp add: Let_def name_at_def)
    from Cons.IH[OF _ _ distinct_push[OF Cons.prems(3)] this] Cons.prems(1,2)
    show ?thesis using None
      by (auto simp: map_of_push waits_def split: option.splits)
  next
    case (Some l)
    let ?s = "show_nick ?m l i s"
    have r: "scan_names now h ?s k = (s', k')" using Cons.prems(4) Some by (simp add: Let_def name_at_def)
    have n: "name_at ?s j = name_at s j" if "j \<in> set h" for j
      using that Cons.prems(1,2) by (intro name_at_cong) auto
    have w: "waits now ?s h m = waits now s h m" for m
      using Cons.prems(1,2) by (intro waits_cong) auto
    have "waits now s (i # h) m = waits now s h m" for m using Some by (auto simp: waits_def)
    with Cons.IH[OF _ _ Cons.prems(3) r] Cons.prems(1,2) n w Some show ?thesis
      by (auto split: option.splits)
  qed
qed

lemma batches_facts: "concat (batches n) = n" "\<forall>b \<in> set (batches n). b \<noteq> [] \<and> length b \<le> 100"
proof (induction n rule: batches.induct)
  case (1 n)
  { case 1 then show ?case using "1.IH" by (subst batches.simps) auto }
  { case 2 then show ?case using "1.IH" by (subst batches.simps) auto }
qed

lemma cnick_result:
  assumes "cnick now sel force s = (s', k, reqs)" "distinct sel" "\<forall>i \<in> set sel. i < length (n_elems s)"
    and "h = filter (\<lambda>i. force \<or> n_mark (n_elems s ! i) = None) sel"
  shows "\<forall>j < length (n_elems s). j \<in> set h \<longrightarrow> n_elems s' ! j =
      (case nick_of now (name_at s j) s of
         Some l \<Rightarrow> \<lparr>n_text = l, n_mark = Some (name_at s j)\<rparr> | None \<Rightarrow> (n_elems s ! j)\<lparr>n_mark := Some []\<rparr>)"
    and "length (n_elems s') = length (n_elems s)"
    and "\<forall>m. map_of k m = (if waits now s h m = [] then None else Some (waits now s h m))"
    and "distinct (map fst k)" \<open>reqs = map (join (js '','')) (batches (map fst k))\<close>
proof -
  let ?t = "fold mark_empty h s"
  have r: "scan_names now h ?t [] = (s', k)" \<open>reqs = map (join (js '','')) (batches (map fst k))\<close>
    using assms(1) by (auto simp: cnick_def assms(4) Let_def split: prod.splits)
  have b: "distinct h" "\<forall>i \<in> set h. i < length (n_elems ?t)" using assms(2-4) by (simp_all add: marks(1))
  have n: "name_at ?t j = name_at s j" if "j < length (n_elems s)" for j
    using that by (intro name_at_cong) (simp add: marks(3))
  have w: "waits now ?t h m = waits now s h m" for m
    using b(2) by (intro waits_cong) (simp_all add: marks)
  note f = scan_names_result[OF b _ r(1), simplified w marks(1,2)]
  show "\<forall>j < length (n_elems s). j \<in> set h \<longrightarrow> n_elems s' ! j =
      (case nick_of now (name_at s j) s of
         Some l \<Rightarrow> \<lparr>n_text = l, n_mark = Some (name_at s j)\<rparr> | None \<Rightarrow> (n_elems s ! j)\<lparr>n_mark := Some []\<rparr>)"
  proof (intro allI impI)
    fix j assume j: "j < length (n_elems s)" "j \<in> set h"
    with f have "n_elems s' ! j = (case nick_of now (name_at ?t j) s of
        Some l \<Rightarrow> \<lparr>n_text = l, n_mark = Some (name_at ?t j)\<rparr> | None \<Rightarrow> n_elems ?t ! j)" by simp
    with j n show "n_elems s' ! j = (case nick_of now (name_at s j) s of
        Some l \<Rightarrow> \<lparr>n_text = l, n_mark = Some (name_at s j)\<rparr> | None \<Rightarrow> (n_elems s ! j)\<lparr>n_mark := Some []\<rparr>)"
      by (simp add: marks(3) split: option.splits)
  qed
  show "length (n_elems s') = length (n_elems s)" "distinct (map fst k)" using f by simp_all
  show "\<forall>m. map_of k m = (if waits now s h m = [] then None else Some (waits now s h m))" using f by simp
  show \<open>reqs = map (join (js '','')) (batches (map fst k))\<close> by (rule r(2))
qed

text \<open>
  A call of \<open>cnick\<close> shows the nickname of every element it selects that is known and asks
  for the others: the names are pairwise different, they are sent in batches of at most a hundred
  that together are exactly these names, and the elements of a name wait under it.
\<close>

theorem names_shown_or_asked:
  assumes "cnick now sel force s = (s', k, reqs)" "distinct sel" "\<forall>i \<in> set sel. i < length (n_elems s)"
    and "i \<in> set sel" "force \<or> n_mark (n_elems s ! i) = None"
  shows \<open>case nick_of now (name_at s i) s of
      Some l \<Rightarrow> n_elems s' ! i = \<lparr>n_text = l, n_mark = Some (name_at s i)\<rparr>
    | None \<Rightarrow> (\<exists>bs. reqs = map (join (js '','')) bs \<and> concat bs = map fst k \<and> distinct (concat bs)
          \<and> (\<forall>b \<in> set bs. b \<noteq> [] \<and> length b \<le> 100))
        \<and> (\<exists>ix. map_of k (name_at s i) = Some ix \<and> i \<in> set ix \<and> (\<forall>j \<in> set ix. name_at s j = name_at s i))\<close>
proof -
  let ?h = "filter (\<lambda>i. force \<or> n_mark (n_elems s ! i) = None) sel"
  note c = cnick_result[OF assms(1-3) refl]
  have i: "i \<in> set ?h" "i < length (n_elems s)" using assms(3-5) by auto
  show ?thesis
  proof (cases "nick_of now (name_at s i) s")
    case None
    then have "i \<in> set (waits now s ?h (name_at s i))" using i by (simp add: waits_def)
    then have "map_of k (name_at s i) = Some (waits now s ?h (name_at s i))" using c(3) by (cases "waits now s ?h (name_at s i)") auto
    moreover have \<open>\<exists>bs. reqs = map (join (js '','')) bs \<and> concat bs = map fst k \<and> distinct (concat bs)
          \<and> (\<forall>b \<in> set bs. b \<noteq> [] \<and> length b \<le> 100)\<close>
      using c(4,5) batches_facts[of "map fst k"] by (intro exI[of _ "batches (map fst k)"]) simp
    ultimately show ?thesis using None \<open>i \<in> set (waits now s ?h (name_at s i))\<close> by (auto simp: waits_def)
  next
    case (Some l)
    then show ?thesis using c(1) i by simp
  qed
qed

definition sample_nicks :: nicks where
  [js_eval]: \<open>sample_nicks = \<lparr>n_elems = [\<lparr>n_text = (js '' ann ''), n_mark = None\<rparr>, \<lparr>n_text = (js ''bob''), n_mark = None\<rparr>, \<lparr>n_text = (js ''ann''), n_mark = None\<rparr>],
     n_memory = [((js ''bob''), (js ''Bobby''))], n_local = Some (empty_storage None)\<rparr>\<close>

lemma sample_cnick: \<open>cnick 5 [0, 1, 2] False sample_nicks =
    (\<lparr>n_elems = [\<lparr>n_text = (js '' ann ''), n_mark = Some []\<rparr>, \<lparr>n_text = (js ''Bobby''), n_mark = Some (js ''bob'')\<rparr>, \<lparr>n_text = (js ''ann''), n_mark = Some []\<rparr>],
      n_memory = [((js ''bob''), (js ''Bobby''))], n_local = Some (empty_storage None)\<rparr>, [((js ''ann''), [0, 2])], [(js ''ann'')])\<close>
  by code_simp

theorem names_shown_or_asked_witness:
  \<open>\<exists>ix. map_of [((js ''ann''), [0, 2])] (js ''ann'') = Some ix \<and> 2 \<in> set ix\<close>
proof -
  have n: \<open>name_at sample_nicks 2 = (js ''ann'')\<close> \<open>nick_of 5 (js ''ann'') sample_nicks = None\<close> by code_simp+
  have e: "\<forall>i \<in> set [0, 1, 2]. i < length (n_elems sample_nicks)" "distinct [0, 1, 2 :: nat]"
      "n_mark (n_elems sample_nicks ! 2) = None" by (simp_all add: sample_nicks_def)
  show ?thesis using names_shown_or_asked[OF sample_cnick e(2,1), of 2] e(3) by (simp add: n)
qed

section \<open>What is answered is shown, and kept for two days\<close>

lemma keep_room: "n_local s = None \<or> (\<exists>l. n_local s = Some l \<and> room_left l) \<Longrightarrow>
   \<exists>s'. keep_nick now m i s = (s', True) \<and> n_elems s' = n_elems s
     \<and> (n_local s' = None \<or> (\<exists>l. n_local s' = Some l \<and> room_left l))"
proof (cases "n_local s")
  case (Some l)
  assume "n_local s = None \<or> (\<exists>l. n_local s = Some l \<and> room_left l)"
  with Some have "room_left l" by simp
  then obtain l' where \<open>setItem (nick_key m) (int_str now @ (js '','') @ i) l = Some l'\<close> using setItem_fits by blast
  moreover from this have "room_left l'" using setItem_room \<open>room_left l\<close> by (auto simp: room_left_def)
  ultimately show ?thesis using Some by (simp add: keep_nick_def)
qed (simp add: keep_nick_def)

definition show_group :: "jstr \<Rightarrow> jstr \<Rightarrow> nat list \<Rightarrow> nicks \<Rightarrow> nicks" where
  [js_eval]: "show_group m i g s = fold (\<lambda>e s. show_nick m (if i = [] then n_text (n_elems s ! e) else i) e s) g s"

lemma show_group_facts:
  "length (n_elems (show_group m i g s)) = length (n_elems s)" "n_local (show_group m i g s) = n_local s"
  "j < length (n_elems s) \<Longrightarrow> j \<notin> set g \<Longrightarrow> n_elems (show_group m i g s) ! j = n_elems s ! j"
  "j < length (n_elems s) \<Longrightarrow> j \<in> set g \<Longrightarrow> i \<noteq> [] \<Longrightarrow> n_elems (show_group m i g s) ! j = \<lparr>n_text = i, n_mark = Some m\<rparr>"
proof (induction g arbitrary: s j)
  case (Cons e g)
  have u: "show_group m i (e # g) s = show_group m i g (show_nick m (if i = [] then n_text (n_elems s ! e) else i) e s)"
    for s by (simp add: show_group_def)
  { case 1 then show ?case unfolding u by (simp add: Cons.IH(1)) }
  { case 2 then show ?case unfolding u by (simp add: Cons.IH(2)) (simp add: show_nick_def set_nelem_def) }
  { case 3 then show ?case unfolding u by (simp add: Cons.IH(3)) }
  { case 4 then show ?case unfolding u by (cases "j \<in> set g") (simp_all add: Cons.IH(3,4)) }
qed (simp_all add: show_group_def)

text \<open>No element waits for two names.\<close>

definition separate :: "asked_names \<Rightarrow> bool" where
  "separate k \<longleftrightarrow> (\<forall>m n g h. m \<noteq> n \<longrightarrow> map_of k m = Some g \<longrightarrow> map_of k n = Some h \<longrightarrow> set g \<inter> set h = {})"

lemma separateD: "separate k \<Longrightarrow> m \<noteq> n \<Longrightarrow> map_of k m = Some g \<Longrightarrow> map_of k n = Some h \<Longrightarrow> set g \<inter> set h = {}"
  by (simp add: separate_def)

lemma nick_answer_shows:
  assumes "n_local s = None \<or> (\<exists>l. n_local s = Some l \<and> room_left l)" "distinct (map fst hs)"
    and "separate k" "map_of k m = Some ix" "j \<in> set ix" "j < length (n_elems s)"
  shows \<open>n_elems (nick_answer now k hs s) ! j =
     (case map_of hs m of
        Some n \<Rightarrow> (let i = if n = (js ''null'') then m else n
                  in if i = [] then n_elems (nick_answer now k hs s) ! j else \<lparr>n_text = i, n_mark = Some m\<rparr>)
      | None \<Rightarrow> n_elems s ! j)\<close>
  using assms(1,2,6)
proof (induction hs arbitrary: s)
  case (Cons mn hs)
  obtain m' n where mn: "mn = (m', n)" by (cases mn)
  let ?i = \<open>if n = (js ''null'') then m' else n\<close>
  let ?g = "case map_of k m' of None \<Rightarrow> [] | Some ix \<Rightarrow> ix"
  let ?s1 = "show_group m' ?i ?g s"
  obtain s2 where s2: "keep_nick now m' ?i ?s1 = (s2, True)" "n_elems s2 = n_elems ?s1"
      "n_local s2 = None \<or> (\<exists>l. n_local s2 = Some l \<and> room_left l)"
    using keep_room[of ?s1 now m' ?i] Cons.prems(1) by (auto simp: show_group_facts(2))
  have a: "nick_answer now k (mn # hs) s = nick_answer now k hs s2"
    using s2(1) by (simp add: mn Let_def show_group_def cong: if_cong)
  have IH: \<open>n_elems (nick_answer now k hs s2) ! j =
     (case map_of hs m of
        Some n \<Rightarrow> (let i = if n = (js ''null'') then m else n
                  in if i = [] then n_elems (nick_answer now k hs s2) ! j else \<lparr>n_text = i, n_mark = Some m\<rparr>)
      | None \<Rightarrow> n_elems s2 ! j)\<close>
    using Cons.prems s2 by (intro Cons.IH) (simp_all add: show_group_facts(1))
  show ?case
  proof (cases "m' = m")
    case True
    then have "map_of hs m = None" using Cons.prems(2) mn by (auto simp: map_of_eq_None_iff image_image)
    moreover have "?i \<noteq> [] \<Longrightarrow> n_elems s2 ! j = \<lparr>n_text = ?i, n_mark = Some m\<rparr>"
      using s2(2) Cons.prems(3) assms(4,5) True by (simp add: show_group_facts(4))
    ultimately show ?thesis unfolding a using IH True by (auto simp: mn Let_def)
  next
    case False
    have "j \<notin> set ?g"
    proof (cases "map_of k m'")
      case (Some g)
      then show ?thesis using separateD[OF assms(3) False Some assms(4)] assms(5) by auto
    qed simp
    then have "n_elems s2 ! j = n_elems s ! j" using s2(2) Cons.prems(3) by (simp add: show_group_facts(3))
    then show ?thesis unfolding a using IH False by (cases "map_of hs m") (simp_all add: mn)
  qed
qed simp

text \<open>
  An element whose name was asked for shows the nickname of the answer (the user name when the
  server knows of none) and remembers its name, once the answers to the call have come.
\<close>

theorem names_resolved:
  assumes "cnick now sel force s = (s', k, reqs)" "distinct sel" "\<forall>i \<in> set sel. i < length (n_elems s)"
    and "i \<in> set sel" "force \<or> n_mark (n_elems s ! i) = None" "nick_of now (name_at s i) s = None"
    and "n_local s' = None \<or> (\<exists>l. n_local s' = Some l \<and> room_left l)"
    and "distinct (map fst hs)" "map_of hs (name_at s i) = Some n" "n \<noteq> []"
    and \<open>nick = (if n = (js ''null'') then name_at s i else n)\<close> "nick \<noteq> []"
  shows "n_elems (nick_answer later k hs s') ! i = \<lparr>n_text = nick, n_mark = Some (name_at s i)\<rparr>"
proof -
  let ?h = "filter (\<lambda>i. force \<or> n_mark (n_elems s ! i) = None) sel"
  note c = cnick_result[OF assms(1-3) refl]
  let ?ix = "waits now s ?h (name_at s i)"
  have i: "i \<in> set ?ix" "i < length (n_elems s')" using assms(3-6) c(2) by (auto simp: waits_def)
  then have k: "map_of k (name_at s i) = Some ?ix" using c(3) by (cases ?ix) auto
  have d: "separate k" using c(3) by (auto simp: separate_def waits_def split: if_splits)
  from nick_answer_shows[OF assms(7,8) d k i(1,2), where now = later] assms(9-12) show ?thesis
    by (simp add: Let_def)
qed

theorem names_resolved_witness:
  \<open>map n_text (n_elems (nick_answer 9 [((js ''ann''), [0, 2])] [((js ''ann''), (js ''Annie''))] (fst (cnick 5 [0, 1, 2] False sample_nicks)))) ! 2 = (js ''Annie'')\<close>
proof -
  let ?s' = "fst (cnick 5 [0, 1, 2] False sample_nicks)"
  have n: \<open>name_at sample_nicks 2 = (js ''ann'')\<close> "nick_of 5 (name_at sample_nicks 2) sample_nicks = None" by code_simp+
  have c: \<open>cnick 5 [0, 1, 2] False sample_nicks = (?s', [((js ''ann''), [0, 2])], [(js ''ann'')])\<close> by (simp only: sample_cnick fst_conv)
  have e: "\<forall>i \<in> set [0, 1, 2]. i < length (n_elems sample_nicks)" "distinct [0, 1, 2 :: nat]"
      "n_mark (n_elems sample_nicks ! 2) = None" by (simp_all add: sample_nicks_def)
  have r: "n_local ?s' = None \<or> (\<exists>l. n_local ?s' = Some l \<and> room_left l)"
    unfolding sample_cnick fst_conv by (simp add: room_left_def empty_storage_def)
  have \<open>n_elems (nick_answer 9 [((js ''ann''), [0, 2])] [((js ''ann''), (js ''Annie''))] ?s') ! 2
      = \<lparr>n_text = (js ''Annie''), n_mark = Some (name_at sample_nicks 2)\<rparr>\<close>
    by (rule names_resolved[OF c e(2,1) _ _ n(2) r, where n = \<open>(js ''Annie'')\<close>]) (simp_all add: n(1) e(3) js_def)
  moreover have \<open>length (n_elems (nick_answer 9 [((js ''ann''), [0, 2])] [((js ''ann''), (js ''Annie''))] ?s')) = 3\<close> by code_simp
  ultimately show ?thesis by simp
qed

text \<open>The digits of a time hold no comma.\<close>

lemma stored_nick_text: \<open>0 \<le> t \<Longrightarrow> 44 \<notin> set c \<Longrightarrow>
   stored_nick now (int_str t @ (js '','') @ c) = (if 0 < now - t \<and> now - t < 172800000 then Some c else None)\<close>
proof -
  assume t: "0 \<le> t" and c: "44 \<notin> set c"
  have "44 \<notin> set (num_str (nat t))" by (rule num_str_no) simp
  then have \<open>split_cu 44 (int_str t @ (js '','') @ c) = [num_str (nat t), c]\<close>
    using t c by (simp add: int_str_def js_def split_cu_append_sep split_cu_no_sep)
  then show ?thesis using t by (simp add: stored_nick_def parse_int_num_str)
qed

text \<open>
  A nickname (without a comma) that is kept is what another page reads for this user until two
  days have passed, and nothing afterwards.
\<close>

theorem nick_kept_two_days:
  assumes "keep_nick t b c s = (s', True)" "0 \<le> t" "44 \<notin> set c"
    and "n_local q = n_local s'" "n_local s \<noteq> None" "map_of (n_memory q) b = None"
  shows "nick_of now b q = (if 0 < now - t \<and> now - t < 172800000 then Some c else None)"
proof -
  from assms(5) obtain l where l: "n_local s = Some l" by blast
  with assms(1) obtain l' where l': \<open>setItem (nick_key b) (int_str t @ (js '','') @ c) l = Some l'\<close> "n_local s' = Some l'"
    by (auto simp: keep_nick_def Let_def split: option.splits)
  then have \<open>getItem (nick_key b) l' = Some (int_str t @ (js '','') @ c)\<close> by (simp add: getItem_setItem)
  then show ?thesis using assms(4,6) l'(2) stored_nick_text[OF assms(2,3)] by (simp add: nick_of_def)
qed

theorem nick_kept_two_days_witness:
  \<open>\<exists>s'. keep_nick 5 (js ''ann'') (js ''Annie'') sample_nicks = (s', True)
    \<and> nick_of 172800004 (js ''ann'') (s'\<lparr>n_memory := []\<rparr>) = Some (js ''Annie'')
    \<and> nick_of 172800005 (js ''ann'') (s'\<lparr>n_memory := []\<rparr>) = None\<close>
proof -
  have \<open>\<exists>s'. keep_nick 5 (js ''ann'') (js ''Annie'') sample_nicks = (s', True)\<close>
    using keep_room[of sample_nicks 5 \<open>(js ''ann'')\<close> \<open>(js ''Annie'')\<close>] by (auto simp: sample_nicks_def room_left_def empty_storage_def)
  then obtain s' where s': \<open>keep_nick 5 (js ''ann'') (js ''Annie'') sample_nicks = (s', True)\<close> by blast
  have c: \<open>44 \<notin> set (js ''Annie'')\<close> "n_local sample_nicks \<noteq> None" "n_local (s'\<lparr>n_memory := []\<rparr>) = n_local s'"
      \<open>map_of (n_memory (s'\<lparr>n_memory := []\<rparr>)) (js ''ann'') = None\<close>
    by (simp_all add: js_def sample_nicks_def)
  from nick_kept_two_days[OF s' _ c(1) c(3) c(2) c(4), of 172800004]
    nick_kept_two_days[OF s' _ c(1) c(3) c(2) c(4), of 172800005] s'
  show ?thesis by simp
qed

end
