(* ===== verification/Ubb.thy ===== *)
theory Ubb
  imports JsRegex
begin

text \<open>
  The mark-up of comments (\<open>comment.js\<close>: \<open>replaceUBBToHTML\<close>, \<open>replaceQuote\<close>): code blocks are
  taken out of the text, the other tags are rewritten to HTML, and the code blocks are put back.

  The two loops over a regular expression with the \<open>g\<close> flag keep its \<open>lastIndex\<close> as an argument:
  the code changes the text between two calls of \<open>exec\<close>, so the position it resumes from belongs to
  the text before the change. Both loops are shown to stop.
\<close>

section \<open>Expressions\<close>

text \<open>\<^verbatim>\<open>/\[code=([\w#\.]+)\]([\s\S]*?)\[\/code\]/ig\<close>\<close>

definition re_code :: rx where
  [js_eval]: \<open>re_code = rseq [rlit (js ''[code=''), RGrp 1 (rplus (RCls [ClWord, Ch 35, Ch 46])), RChr 93,
     RGrp 2 (rstar_lazy (RCls [ClAny])), rlit (js ''[/code]'')]\<close>

text \<open>\<^verbatim>\<open>/\[quote=([^\]]+)]([\s\S]*)\[\/quote\]/gi\<close>\<close>

definition re_quote :: rx where
  [js_eval]: \<open>re_quote = rseq [rlit (js ''[quote=''), RGrp 1 (rplus (RNot [Ch 93])), RChr 93,
     RGrp 2 (rstar (RCls [ClAny])), rlit (js ''[/quote]'')]\<close>

text \<open>\<^verbatim>\<open>/\[reply]([\s\S]*?)\[\/reply\][\r\n]{0,2}/gi\<close>\<close>

definition re_reply :: rx where
  [js_eval]: \<open>re_reply = rseq [rlit (js ''[reply]''), RGrp 1 (rstar_lazy (RCls [ClAny])), rlit (js ''[/reply]''),
     RRep True (RCls [Ch 13, Ch 10]) 0 (Some 2)]\<close>

text \<open>\<^verbatim>\<open>/\[url=([^\]]+)]([\s\S]*?)\[\/url\]/gi\<close>\<close>

definition re_url :: rx where
  [js_eval]: \<open>re_url = rseq [rlit (js ''[url=''), RGrp 1 (rplus (RNot [Ch 93])), RChr 93,
     RGrp 2 (rstar_lazy (RCls [ClAny])), rlit (js ''[/url]'')]\<close>

text \<open>\<^verbatim>\<open>/\[img(=([^\]]+))?]([\s\S]*?)\[\/img\]/gi\<close>\<close>

definition re_img :: rx where
  [js_eval]: \<open>re_img = rseq [rlit (js ''[img''), ropt (RGrp 1 (RSeq (RChr 61) (RGrp 2 (rplus (RNot [Ch 93]))))),
     RChr 93, RGrp 3 (rstar_lazy (RCls [ClAny])), rlit (js ''[/img]'')]\<close>

text \<open>\<^verbatim>\<open>/\r?\n/ig\<close>\<close>

definition re_br :: rx where
  [js_eval]: "re_br = RSeq (ropt (RChr 13)) (RChr 10)"

text \<open>\<^verbatim>\<open>/--code--/ig\<close>\<close>

definition marker :: jstr where
  [js_eval]: \<open>marker = (js ''--code--'')\<close>

definition re_marker :: rx where
  [js_eval]: "re_marker = rlit marker"

section \<open>Taking the code blocks out\<close>

lemma match_text_contained:
  assumes "rx_exec_g fl r s i = (Some m, l)"
  shows "contains (match_text s m) s"
proof -
  have "s = take (fst m) s @ match_text s m @ drop (fst (snd m)) s"
    using rx_exec_g_bounds[OF assms] by (simp add: match_text_def slice_drop)
  then show ?thesis unfolding contains_iff by metis
qed

lemma length_match_text:
  assumes "rx_exec_g fl r s i = (Some m, l)"
  shows "length (match_text s m) = fst (snd m) - fst m" "min_len r \<le> length (match_text s m)"
  using rx_exec_g_bounds[OF assms] by (auto simp: match_text_def slice_def)

lemma length_marker [simp]: "length marker = 8"
  by (simp add: marker_def)

lemma marker_nonempty: "marker \<noteq> []"
  by (simp add: marker_def js_def)

lemma marker_split: "45 # tl marker = marker"
  by (simp add: marker_def js_def)

lemma marker_plain: "36 \<notin> set marker"
  by (simp add: marker_def js_def)

lemma min_len_re_code: "min_len re_code = 15"
  by (simp add: re_code_def rplus_def rstar_lazy_def)

lemma replace_by_marker_shorter:
  assumes "contains t s" "8 < length t"
  shows "length (replace_str s t marker) < length s"
proof -
  obtain i where "find_sub t s = Some i" using assms(1) by (auto simp: contains_def)
  from length_replace_str_plain[OF this marker_plain] show ?thesis using assms(2) by simp
qed

text \<open>
  The first loop of \<open>replaceUBBToHTML\<close>: each match is recorded and the first occurrence of its text
  becomes the marker.
\<close>

function collect_code :: "jstr \<Rightarrow> nat \<Rightarrow> jstr list \<Rightarrow> jstr \<times> jstr list" where
  "collect_code content lastIndex codelist =
     (case rx_exec_g i_flag re_code content lastIndex of
        (None, _) \<Rightarrow> (content, codelist)
      | (Some mc, l) \<Rightarrow>
          collect_code (replace_str content (match_text content mc) marker) l
            (codelist @ [match_text content mc]))"
  by pat_completeness auto
termination
proof (relation "measure (\<lambda>(content, l, cs). length content)", goal_cases)
  case (2 content l cs x y mc)
  then have x: "rx_exec_g i_flag re_code content l = (Some mc, y)" by simp
  have "8 < length (match_text content mc)"
    using length_match_text(2)[OF x] by (simp add: min_len_re_code)
  then show ?case using replace_by_marker_shorter[OF match_text_contained[OF x]] by simp
qed simp

declare collect_code.simps [simp del]

section \<open>Quotes\<close>

lemma cu_eq_fixed: "\<not> is_lower a \<Longrightarrow> a < 65 \<or> 90 < a \<Longrightarrow> cu_eq i_flag a c \<longleftrightarrow> c = a"
  by (auto simp: cu_eq_def upper_cu_def is_lower_def split: if_splits)


lemma groups_re_quote: "groups re_quote = [1, 2]"
  by (simp add: re_quote_def rplus_def rstar_def)

text \<open>Both groups of a quote take part, and the quoted text is shorter than the whole: it starts
  after the opening tag.\<close>

lemma re_quote_groups:
  assumes "rx_find i_flag re_quote s i = Some m"
  obtains u b where "capture s m 1 = Some u" "capture s m 2 = Some b" "length b < length s"
proof -
  obtain j e c where m: "m = (j, e, c)" by (cases m)
  let ?tail = \<open>RSeq (RGrp 2 (rstar (RCls [ClAny]))) (rlit (js ''[/quote]''))\<close>
  have r: \<open>re_quote = RSeq (rlit (js ''[quote='')) (RSeq (RGrp 1 (rplus (RNot [Ch 93]))) (RSeq (RChr 93) ?tail))\<close>
    by (simp add: re_quote_def)
  have "(e, c) \<in> set (rmatch i_flag s re_quote (j, []))"
    using first_match_Some assms(1) m by (auto simp: rx_find_def)
  then obtain x1 x2 x3 x4 where
      x1: \<open>x1 \<in> set (rmatch i_flag s (rlit (js ''[quote='')) (j, []))\<close>
    and x2: "x2 \<in> set (rmatch i_flag s (rplus (RNot [Ch 93])) x1)"
    and x3: "x3 \<in> set (rmatch i_flag s (RChr 93) (fst x2, (1, fst x1, fst x2) # snd x2))"
    and x4: "x4 \<in> set (rmatch i_flag s (rstar (RCls [ClAny])) x3)"
    and e: \<open>(e, c) \<in> set (rmatch i_flag s (rlit (js ''[/quote]'')) (fst x4, (2, fst x3, fst x4) # snd x4))\<close>
    unfolding r by auto
  have "map_of c 1 = map_of (snd x4) 1"
    using rmatch_captures[OF e, of 1] by simp
  also have "\<dots> = map_of (snd x3) 1"
    using rmatch_captures[OF x4, of 1] by (simp add: rstar_def)
  also have "\<dots> = Some (fst x1, fst x2)"
    using rmatch_captures[OF x3, of 1] by simp
  finally have c1: "capture s m 1 = Some (slice s (fst x1) (fst x2))"
    using m by (simp add: capture_def)
  have "map_of c 2 = Some (fst x3, fst x4)"
    using rmatch_captures[OF e, of 2] by simp
  then have c2: "capture s m 2 = Some (slice s (fst x3) (fst x4))"
    using m by (simp add: capture_def)
  have "j \<le> length s" using rx_find_bounds[of i_flag re_quote s i j e c] assms(1) m by simp
  then have "7 \<le> fst x3 \<and> fst x3 \<le> length s"
    using rmatch_end[OF x1] rmatch_end[OF x2] rmatch_end[OF x3] by auto
  then have "length (slice s (fst x3) (fst x4)) < length s" by (auto simp: slice_def)
  with c1 c2 show thesis by (rule that)
qed

function replaceQuote :: "jstr \<Rightarrow> jstr" where
  \<open>replaceQuote str =
     (case rx_find i_flag re_quote str 0 of
        Some m \<Rightarrow>
          replace_str str (match_text str m)
            ((js ''<fieldset><legend>'' @ [24341, 29992, 8220]) @ the_capture str m 1 @ ([8221, 30340, 35780, 35770, 65306] @ js ''</legend>'')
             @ replaceQuote (the_capture str m 2) @ (js ''</fieldset>''))
      | None \<Rightarrow> str)\<close>
  by pat_completeness auto
termination
proof (relation "measure length", goal_cases)
  case (2 str m)
  from re_quote_groups[OF 2] show ?case by (metis the_capture_def in_measure option.simps(5))
qed simp

declare replaceQuote.simps [simp del]

text \<open>A quote in front of other text, seen by the expression.\<close>

lemma rmatch_re_quote:
  assumes u: "u \<noteq> []" "93 \<notin> set u" and c: "91 \<notin> set c" "91 \<notin> set post"
    and s: \<open>s = (js ''[quote='') @ u @ 93 # c @ (js ''[/quote]'') @ post\<close>
  shows "rmatch i_flag s re_quote (0, []) =
    [(16 + length u + length c, [(2, 8 + length u, 8 + length u + length c), (1, 7, 7 + length u)])]"
proof -
  let ?p = "8 + length u" and ?q = "8 + length u + length c"
  let ?any = "RCls [ClAny]" and ?close = \<open>rlit (js ''[/quote]'')\<close>
  let ?pre = \<open>(js ''[quote='') @ u @ [93]\<close>
  have s3: \<open>s = ?pre @ c @ (js ''[/quote]'') @ post\<close> and l: "length ?pre = ?p" by (simp_all add: s)
  have cl: \<open>(js ''[/quote]'') = 91 # (js ''/quote]'')\<close> \<open>91 \<notin> set (js ''/quote]'')\<close> by (simp_all add: js_def)
  have len: "length s = ?q + 8 + length post" by (simp add: s)
  have l7: \<open>length (js ''[quote='') = 7\<close> "Suc (7 + length u) = ?p" by simp_all
  have u93: "\<forall>x \<in> set u. x \<noteq> 93" using u(2) by auto
  have 93: "cls_has i_flag [Ch 93] x \<longleftrightarrow> x = 93" for x
    by (auto simp: cls_has_def i_flag_def lower_cu_def upper_cu_def is_lower_def is_upper_def split: if_splits)
  have "rmatch i_flag s re_quote (0, []) =
      rmatch i_flag s (RSeq (RGrp 2 (rstar ?any)) ?close) (?p, [(1, 7, 7 + length u)])"
    using rmatch_open_tag[OF s u(1) _ _ single_simps(4)[of i_flag s "[Ch 93]"], of 1
        "RSeq (RGrp 2 (rstar ?any)) ?close", unfolded l7] u93
    by (simp add: re_quote_def 93 cu_eq_fixed is_lower_def del: rmatch.simps)
  also have "\<dots> = concat (map (\<lambda>k. rmatch i_flag s ?close (k, [(2, ?p, k), (1, 7, 7 + length u)]))
      (rev [?p..<Suc (length s)]))"
  proof -
    have \<open>run (\<lambda>x. cls_has i_flag [ClAny] x) s ?p = length (c @ (js ''[/quote]'') @ post)\<close>
      using run_append[of \<open>c @ (js ''[/quote]'') @ post\<close> "\<lambda>x. cls_has i_flag [ClAny] x" "[]" ?pre, unfolded l]
      unfolding s3 by (simp add: cls_has_def)
    then show ?thesis using rmatch_star[of i_flag s ?any "cls_has i_flag [ClAny]" ?p True]
      by (simp add: rstar_def len rev_map o_def add.assoc del: upt_Suc)
  qed
  also have "\<dots> = rmatch i_flag s ?close (?q, [(2, ?p, ?q), (1, 7, 7 + length u)])"
  proof (rule concat_map_one)
    fix k assume k: "k \<in> set (rev [?p..<Suc (length s)])" "k \<noteq> ?q"
    obtain j where j: "k = ?p + j" using k(1) by (auto simp: le_iff_add)
    have \<open>lit_at i_flag (js ''[/quote]'') s k \<Longrightarrow> j < length (c @ (js ''[/quote]'') @ post) \<and> (c @ (js ''[/quote]'') @ post) ! j = 91\<close>
      unfolding s3 j cl(1) lit_at_Cons by (simp add: nth_append cu_eq_fixed is_lower_def add.assoc)
    moreover have \<open>(c @ (js ''[/quote]'') @ post) ! j \<noteq> 91\<close> if \<open>j < length (c @ (js ''[/quote]'') @ post)\<close> "j \<noteq> length c"
    proof -
      have \<open>(c @ 91 # (js ''/quote]'') @ post) ! j \<in> set c \<union> set (js ''/quote]'') \<union> set post\<close>
        using that by (auto simp: nth_append nth_Cons' split: if_splits)
      then show ?thesis using c cl by auto
    qed
    ultimately show "rmatch i_flag s ?close (k, [(2, ?p, k), (1, 7, 7 + length u)]) = []"
      using k(2) j by (auto simp: rmatch_rlit js_def)
  qed (auto simp: len)
  also have "\<dots> = [(16 + length u + length c, [(2, ?p, ?q), (1, 7, 7 + length u)])]"
    using lit_at_append[of i_flag \<open>(js ''[/quote]'')\<close> "?pre @ c" post] by (simp add: rmatch_rlit s numeral_eq_Suc)
  finally show ?thesis .
qed

text \<open>A quote at the start of a text without other tags becomes a field set with the quoted name and text.\<close>

lemma rx_find_no_bracket:
  assumes "91 \<notin> set s"
  shows "rx_find i_flag (RSeq (rlit (91 # w)) r) s i = None"
  using assms by (intro rx_find_lit_absent) (auto simp: cu_eq_fixed is_lower_def)

lemma re_quote_split: \<open>\<exists>r. re_quote = RSeq (rlit (91 # (js ''quote=''))) r\<close>
  by (simp add: re_quote_def js_def)

lemma replaceQuote_plain: "91 \<notin> set s \<Longrightarrow> replaceQuote s = s"
proof -
  assume "91 \<notin> set s"
  then have "rx_find i_flag re_quote s 0 = None" using rx_find_no_bracket re_quote_split by metis
  then show "replaceQuote s = s" by (subst replaceQuote.simps) simp
qed

lemma replaceQuote_quote:
  assumes u: "u \<noteq> []" "93 \<notin> set u" "36 \<notin> set u" and c: "91 \<notin> set c" "36 \<notin> set c" and post: "91 \<notin> set post"
  shows \<open>replaceQuote ((js ''[quote='') @ u @ 93 # c @ (js ''[/quote]'') @ post) =
    (js ''<fieldset><legend>'' @ [24341, 29992, 8220]) @ u @ ([8221, 30340, 35780, 35770, 65306] @ js ''</legend>'') @ c @ (js ''</fieldset>'') @ post\<close>
proof -
  define s where \<open>s = (js ''[quote='') @ u @ 93 # c @ (js ''[/quote]'') @ post\<close>
  let ?m = "(0, 16 + length u + length c, [(2, 8 + length u, 8 + length u + length c), (1, 7, 7 + length u)])"
  have find: "rx_find i_flag re_quote s 0 = Some ?m"
    using rx_find_first rmatch_re_quote[OF u(1,2) c(1) post s_def] by blast
  have m: \<open>match_text s ?m = (js ''[quote='') @ u @ 93 # c @ (js ''[/quote]'')\<close>
    and m1: "capture s ?m 1 = Some u" and m2: "capture s ?m 2 = Some c"
    by (simp_all add: s_def match_text_def capture_def slice_def js_def numeral_eq_Suc)
  have first: "find_sub (match_text s ?m) s = Some 0"
    using starts_with_append[of "match_text s ?m" post] unfolding m
    by (simp add: s_def js_def)
  have \<open>replaceQuote s = replace_str s (match_text s ?m)
      ((js ''<fieldset><legend>'' @ [24341, 29992, 8220]) @ u @ ([8221, 30340, 35780, 35770, 65306] @ js ''</legend>'') @ replaceQuote c @ (js ''</fieldset>''))\<close>
    by (subst replaceQuote.simps) (simp add: find the_capture_def m1[simplified] m2[simplified] del: append_assoc append.simps)
  also have \<open>\<dots> = ((js ''<fieldset><legend>'' @ [24341, 29992, 8220]) @ u @ ([8221, 30340, 35780, 35770, 65306] @ js ''</legend>'') @ c @ (js ''</fieldset>'')) @ drop (length (match_text s ?m)) s\<close>
    using replace_str_plain[OF first] u(3) c(1,2) by (simp add: replaceQuote_plain) (simp add: js_def)
  also have "drop (length (match_text s ?m)) s = post" unfolding m by (simp add: s_def js_def numeral_eq_Suc)
  finally show ?thesis by (simp only: s_def append_assoc)
qed

section \<open>Putting the code blocks back\<close>

text \<open>
  The second loop: the first occurrence of each marker found becomes the next code block, read as a
  replacement template. Past the end of the list the code block is \<open>undefined\<close>, which
  \<open>replace\<close> turns into text. Every such round removes the four dashes of a marker.
\<close>

lemma count_list_replace_str:
  assumes "contains p s" "36 \<notin> set v" "count_list v x < count_list p x"
  shows "count_list (replace_str s p v) x < count_list s x"
proof -
  obtain i where f: "find_sub p s = Some i" using assms(1) by (auto simp: contains_def)
  have "count_list s x = count_list (take i s) x + count_list p x + count_list (drop (i + length p) s) x"
    by (subst find_sub_SomeD[OF f]) simp
  then show ?thesis using assms(3) by (simp add: replace_str_plain[OF f assms(2)])
qed

lemma cu_eq_dash: "cu_eq i_flag 45 c \<longleftrightarrow> c = 45"
  by (auto simp: cu_eq_def upper_cu_def is_lower_def)

lemma marker_match_dash:
  assumes "rx_exec_g fl re_marker s i = (Some m, l)" "fl = i_flag"
  shows "0 < count_list (match_text s m) 45"
proof -
  obtain j e c where m: "m = (j, e, c)" by (cases m)
  have "(e, c) \<in> set (rmatch i_flag s re_marker (j, []))"
    using first_match_Some assms m by (auto simp: rx_find_def rx_exec_g_def split: if_splits option.splits)
  then have la: "lit_at i_flag marker s j" "e = j + 8"
    by (auto simp: re_marker_def rmatch_rlit marker_nonempty split: if_splits)
  then have "j + 8 \<le> length s" "s ! j = 45"
    using lit_at_Cons[of i_flag 45 "tl marker" s j] by (auto simp: marker_split lit_at_def cu_eq_dash)
  then have "match_text s m ! 0 = 45" "0 < length (match_text s m)" using m la by (auto simp: match_text_def slice_def)
  then have "45 \<in> set (match_text s m)" by (metis nth_mem)
  then show ?thesis by (metis count_list_0_iff neq0_conv)
qed

function restore_code :: "jstr \<Rightarrow> nat \<Rightarrow> jstr list \<Rightarrow> jstr" where
  \<open>restore_code content lastIndex todo =
     (case rx_exec_g i_flag re_marker content lastIndex of
        (None, _) \<Rightarrow> content
      | (Some mc, l) \<Rightarrow>
          (case todo of
             [] \<Rightarrow> restore_code (replace_str content (match_text content mc) (js ''undefined'')) l []
           | c # cs \<Rightarrow> restore_code (replace_str content (match_text content mc) c) l cs))\<close>
  by pat_completeness auto
termination
proof (relation "measures [\<lambda>(content, l, cs). length cs, \<lambda>(content, l, cs). count_list content 45]", goal_cases)
  case (2 content l cs x y mc)
  then have x: "rx_exec_g i_flag re_marker content l = (Some mc, y)" by simp
  have u: "36 \<notin> set (js ''undefined'')" "count_list (js ''undefined'') 45 = 0" by (simp_all add: js_def)
  show ?case
    using count_list_replace_str[OF match_text_contained[OF x] u(1), of 45] marker_match_dash[OF x refl] u(2) 2
    by simp
qed auto

declare restore_code.simps [simp del]

section \<open>The whole translation\<close>

definition render_code :: "jstr \<Rightarrow> rxmatch \<Rightarrow> jstr" where
  [js_eval]: \<open>render_code content m =
     (if trim (the_capture content m 2) = [] then []
      else (js ''<pre name="code2" class="'') @ the_capture content m 1 @ (js ''">'') @ the_capture content m 2 @ (js ''</pre>''))\<close>

definition replaceUBBToHTML :: "jstr \<Rightarrow> jstr" where
  [js_eval]: \<open>replaceUBBToHTML commentContent =
     (let (content0, codelist) = collect_code (trim commentContent) 0 [];
          content1 = replaceQuote content0;
          content2 = rx_replace_all i_flag re_reply content1 ([22238, 22797] @ js ''$1'' @ [65306]);
          content3 = rx_replace_all i_flag re_url content2 (js ''<a href="$1" target="_blank">$2</a>'');
          content4 = rx_replace_all i_flag re_img content3
            (js ''<img src="$3" style="max-width:400px;max-height:200px;" border="0" title="$2" />'');
          content5 = rx_replace_all i_flag re_br content4 (js ''<br />'');
          content6 = (if codelist \<noteq> [] then restore_code content5 0 codelist else content5)
      in rx_replace_all_fn i_flag re_code content6 (render_code content6))\<close>

section \<open>Text without tags\<close>

text \<open>Line ends become \<^verbatim>\<open><br />\<close>.\<close>

fun br_lines :: "jstr \<Rightarrow> jstr" where
  \<open>br_lines (c # d # s) =
     (if c = 13 \<and> d = 10 then (js ''<br />'') @ br_lines s
      else if c = 10 then (js ''<br />'') @ br_lines (d # s) else c # br_lines (d # s))\<close>
| \<open>br_lines [c] = (if c = 10 then (js ''<br />'') else [c])\<close>
| "br_lines [] = []"

lemma forward_re_br: "forward_only re_br"
  by (simp add: re_br_def ropt_def)

lemma rmatch_re_br:
  "rmatch i_flag s re_br (0, []) =
     (if 1 < length s \<and> s ! 0 = 13 \<and> s ! 1 = 10 then [(2, [])]
      else if 0 < length s \<and> s ! 0 = 10 then [(1, [])] else [])"
  by (auto simp: re_br_def rmatch_opt match_cu_def cu_eq_fixed is_lower_def forget_def)

lemma replace_br: \<open>rx_replace_all_fn i_flag re_br s (\<lambda>_. (js ''<br />'')) = br_lines s\<close>
proof (induction s rule: br_lines.induct)
  case (1 c d s)
  show ?case
    using 1 replace_const_hit[OF forward_re_br, of i_flag "[13, 10]" s "[]" "[]"]
      replace_const_hit[OF forward_re_br, of i_flag "[10]" "d # s" "[]" "[]"]
      replace_const_skip[OF forward_re_br, of i_flag c "d # s"]
    by (auto simp: rmatch_re_br)
next
  case (2 c)
  show ?case
    using replace_const_hit[OF forward_re_br, of i_flag "[10]" "[]" "[]" "[]"]
      replace_const_skip[OF forward_re_br, of i_flag c "[]"]
    by (auto simp: rmatch_re_br replace_const_Nil)
next
  case 3
  then show ?case by (simp add: replace_const_Nil rmatch_re_br)
qed

lemma br_lines_set: \<open>set (br_lines s) \<subseteq> set s \<union> set (js ''<br />'')\<close>
  by (induction s rule: br_lines.induct) auto

lemma no_bracket:
  assumes "91 \<notin> set s"
  shows "rx_find i_flag re_code s i = None" "rx_find i_flag re_quote s i = None"
    "rx_find i_flag re_reply s i = None" "rx_find i_flag re_url s i = None" "rx_find i_flag re_img s i = None"
proof -
  have "\<forall>c \<in> set s. \<not> cu_eq i_flag 91 c" using assms by (auto simp: cu_eq_fixed is_lower_def)
  note absent = rx_find_lit_absent[OF this]
  have lit: "js (c # w) = of_char c # js w" for c w by (simp add: js_def)
  show "rx_find i_flag re_code s i = None" "rx_find i_flag re_quote s i = None"
    "rx_find i_flag re_reply s i = None" "rx_find i_flag re_url s i = None" "rx_find i_flag re_img s i = None"
    using absent by (simp_all add: re_code_def re_quote_def re_reply_def re_url_def re_img_def lit)
qed

text \<open>When the code blocks were the only tags, only the line ends and the code blocks are left to do.\<close>

lemma ubb_code_only:
  assumes "collect_code (trim s) 0 [] = (c0, cl)" "91 \<notin> set c0"
  shows "replaceUBBToHTML s =
    (let c = (if cl \<noteq> [] then restore_code (br_lines c0) 0 cl else br_lines c0)
     in rx_replace_all_fn i_flag re_code c (render_code c))"
proof -
  have \<open>rx_replace_all i_flag re_br c0 (js ''<br />'') = br_lines c0\<close>
    by (subst rx_replace_all_plain) (simp_all add: replace_br, simp add: js_def)
  then show ?thesis
    by (simp add: replaceUBBToHTML_def assms replaceQuote.simps[of c0] no_bracket rx_replace_all_absent Let_def)
qed

text \<open>A comment without an opening bracket is left as it is, apart from the spaces around it,
  which go, and the ends of its lines.\<close>

theorem replaceUBBToHTML_plain:
  assumes "91 \<notin> set s"
  shows "replaceUBBToHTML s = br_lines (trim s)"
proof -
  have t: "91 \<notin> set (trim s)" using assms set_trim[of s] by auto
  have "91 \<notin> set (br_lines (trim s))" using t br_lines_set[of "trim s"] by (auto simp: js_def)
  moreover have "collect_code (trim s) 0 [] = (trim s, [])"
    using t by (simp add: collect_code.simps[of "trim s"] rx_exec_g_def no_bracket)
  ultimately show ?thesis
    using ubb_code_only t by (simp add: Let_def rx_replace_all_fn_absent no_bracket)
qed

theorem replaceUBBToHTML_plain_witness:
  \<open>replaceUBBToHTML (js '' a'' @ [13, 10] @ js ''b <i> '') = (js ''a<br />b <i>'')\<close>
  using replaceUBBToHTML_plain[of \<open>(js '' a'' @ [13, 10] @ js ''b <i> '')\<close>]
  by (simp add: js_def trim_def ltrim_def is_ws_def)

section \<open>A code block among text\<close>

text \<open>The block \<open>c\<close> in the language \<open>lang\<close>.\<close>

definition code_tag :: "jstr \<Rightarrow> jstr \<Rightarrow> jstr" where
  [js_eval]: \<open>code_tag lang c = (js ''[code='') @ lang @ 93 # c @ (js ''[/code]'')\<close>

text \<open>What a block may be: a language of the characters the expression takes, and code that neither closes the block
  nor has the marker or a dollar in it.\<close>

definition lang_ok :: "jstr \<Rightarrow> bool" where
  [js_eval]: "lang_ok lang \<longleftrightarrow> lang \<noteq> [] \<and> (\<forall>x \<in> set lang. is_word x \<or> x = 35 \<or> x = 46)"

definition block_ok :: "jstr \<Rightarrow> bool" where
  [js_eval]: \<open>block_ok c \<longleftrightarrow> trim c \<noteq> [] \<and> 36 \<notin> set c \<and>
     (\<forall>i < length c. \<not> lit_at i_flag (js ''[/code]'') (c @ (js ''[/code]'')) i \<and> \<not> lit_at i_flag marker c i)\<close>

lemma js_Cons: "js (c # w) = of_char c # js w"
  by (simp add: js_def)

lemma length_code_tag: "length (code_tag lang c) = 14 + length lang + length c"
  by (simp add: code_tag_def)

lemma code_tag_Cons: "code_tag lang c = 91 # tl (code_tag lang c)"
  by (simp add: code_tag_def js_def)

lemma forward_re_code: "forward_only re_code"
  by (simp add: re_code_def forward_rlit rplus_def rstar_lazy_def)

lemma rmatch_re_code:
  assumes "lang_ok lang" "block_ok c"
  shows "\<exists>rest. rmatch i_flag (code_tag lang c @ post) re_code (0, []) =
    (14 + length lang + length c, [(2, 7 + length lang, 7 + length lang + length c), (1, 6, 6 + length lang)]) # rest"
proof -
  let ?s = "code_tag lang c @ post" and ?p = "7 + length lang" and ?q = "7 + length lang + length c"
  let ?name = "[ClWord, Ch 35, Ch 46]" and ?T = \<open>RSeq (RGrp 2 (rstar_lazy (RCls [ClAny]))) (rlit (js ''[/code]''))\<close>
  have s: \<open>?s = (js ''[code='') @ lang @ 93 # c @ (js ''[/code]'') @ post\<close> by (simp add: code_tag_def)
  have l6: \<open>length (js ''[code='') = 6\<close> "Suc (6 + length lang) = ?p" by simp_all
  have P: "\<forall>x \<in> set lang. cls_has i_flag ?name x \<and> \<not> cu_eq i_flag 93 x"
  proof
    fix x assume "x \<in> set lang"
    then have "is_word x \<or> x = 35 \<or> x = 46" using assms(1) by (simp add: lang_ok_def)
    then have "cls_has i_flag ?name x" "x \<noteq> 93"
      by (auto simp: cls_has_def is_word_def is_digit_def is_upper_def is_lower_def)
    then show "cls_has i_flag ?name x \<and> \<not> cu_eq i_flag 93 x" by (simp add: cu_eq_fixed is_lower_def)
  qed
  have 93: "\<not> cls_has i_flag ?name 93"
    by (simp add: cls_has_def is_word_def is_digit_def is_upper_def is_lower_def lower_cu_def upper_cu_def)
  have name: "rmatch i_flag ?s re_code (0, []) = rmatch i_flag ?s ?T (?p, [(1, 6, 6 + length lang)])"
    using rmatch_open_tag[OF s _ P 93 single_simps(3), of 1 ?T, unfolded l6] assms(1)
    by (simp add: re_code_def lang_ok_def del: rmatch.simps)
  have body: \<open>\<exists>rest. rmatch i_flag ?s ?T (?p, [(1, 6, 6 + length lang)]) =
      (?q + length (js ''[/code]''), (2, ?p, ?q) # [(1, 6, 6 + length lang)]) # rest\<close>
  proof (rule rmatch_lazy_any)
    let ?pre = \<open>(js ''[code='') @ lang @ [93]\<close>
    have s3: \<open>?s = ?pre @ (c @ (js ''[/code]'')) @ post\<close> and lp: "length ?pre = ?p" and lq: "length (?pre @ c) = ?q"
      by (simp_all add: s)
    show \<open>lit_at i_flag (js ''[/code]'') ?s ?q\<close>
      using lit_at_append[of i_flag \<open>(js ''[/code]'')\<close> "?pre @ c" post, unfolded lq] by (simp only: s append_assoc append_Cons append_Nil)
    fix i assume i: "?p \<le> i" "i < ?q"
    then obtain j where j: "i = ?p + j" "j < length c" by (auto simp: le_iff_add)
    have \<open>lit_at i_flag (js ''[/code]'') ?s i = lit_at i_flag (js ''[/code]'') (c @ (js ''[/code]'')) j\<close>
      unfolding s3 j lp[symmetric] lit_at_suffix using j(2) by (intro lit_at_prefix) simp
    then show \<open>\<not> lit_at i_flag (js ''[/code]'') ?s i\<close> using assms(2) j(2) by (simp add: block_ok_def)
  qed (simp_all add: js_def)
  have \<open>?q + length (js ''[/code]'') = 14 + length lang + length c\<close> by simp
  with body show ?thesis unfolding name by (simp only: )
qed

text \<open>The first block of a text, with what the expression captures of it.\<close>

lemma find_re_code:
  assumes "91 \<notin> set pre" "lang_ok lang" "block_ok c"
  obtains m where "rx_find i_flag re_code (pre @ code_tag lang c @ post) 0 = Some m"
    "fst m = length pre" "fst (snd m) = length pre + length (code_tag lang c)"
    "match_text (pre @ code_tag lang c @ post) m = code_tag lang c"
    "the_capture (pre @ code_tag lang c @ post) m 1 = lang" "the_capture (pre @ code_tag lang c @ post) m 2 = c"
proof -
  let ?t = "code_tag lang c @ post"
  let ?m = "(0 :: nat, 14 + length lang + length c, [(2 :: nat, 7 + length lang, 7 + length lang + length c), (1, 6, 6 + length lang)])"
  obtain rest where r: "rmatch i_flag ?t re_code (0, []) = snd ?m # rest" using rmatch_re_code[OF assms(2,3)] by fastforce
  have "rmatch i_flag (pre @ ?t) re_code (length pre, []) = move (length pre) (snd ?m) # map (move (length pre)) rest"
    using rmatch_move[OF forward_re_code, of i_flag pre ?t "(0, [])"] r by (simp add: move_def)
  moreover have "rmatch i_flag (pre @ ?t) re_code (k, []) = []" if "k < length pre" for k
  proof -
    have "(pre @ ?t) ! k \<noteq> 91" using assms(1) that by (metis nth_append nth_mem)
    then show ?thesis using that by (simp add: re_code_def js_Cons rmatch_rlit lit_at_Cons cu_eq_fixed is_lower_def)
  qed
  ultimately have f: "rx_find i_flag re_code (pre @ ?t) 0 = Some (move_match (length pre) ?m)"
    using rx_find_at[of 0 "length pre" "pre @ ?t" i_flag re_code] by (simp add: move_match_def move_def)
  have sl: "slice (pre @ ?t) (length pre + a) (length pre + b) = slice ?t a b" for a b by (rule slice_move)
  have t: "slice ?t 0 (14 + length lang + length c) = code_tag lang c"
    "slice ?t 6 (6 + length lang) = lang" "slice ?t (7 + length lang) (7 + length lang + length c) = c"
    by (simp_all add: slice_def code_tag_def js_def numeral_eq_Suc)
  show thesis
  proof (rule that[OF f])
    show "match_text (pre @ ?t) (move_match (length pre) ?m) = code_tag lang c"
      using t(1) sl[of 0] by (simp add: match_text_def move_match_def move_def)
    show "the_capture (pre @ ?t) (move_match (length pre) ?m) 1 = lang"
      "the_capture (pre @ ?t) (move_match (length pre) ?m) 2 = c"
      using t(2,3) sl by (simp_all add: the_capture_def capture_def move_match_def move_def)
  qed (simp_all add: move_match_def length_code_tag)
qed

text \<open>Taking it out leaves the marker.\<close>

lemma find_code_tag: "91 \<notin> set pre \<Longrightarrow> find_sub (code_tag lang c) (pre @ code_tag lang c @ post) = Some (length pre)"
proof (induction pre)
  case Nil
  then show ?case using starts_with_append[of "code_tag lang c" post]
    by (cases "code_tag lang c @ post") (use code_tag_Cons[of lang c] in auto)
next
  case (Cons x pre)
  have "\<not> starts_with (code_tag lang c) (x # t)" for t
    using Cons.prems by (subst code_tag_Cons) auto
  then show ?case using Cons by simp
qed

lemma marker_no: "91 \<notin> set marker" "10 \<notin> set marker" "13 \<notin> set marker"
  by (simp_all add: marker_def js_def)

lemma collect_one:
  assumes "91 \<notin> set pre" "91 \<notin> set post" "lang_ok lang" "block_ok c"
  shows "collect_code (pre @ code_tag lang c @ post) 0 [] = (pre @ marker @ post, [code_tag lang c])"
proof -
  obtain m where m: "rx_find i_flag re_code (pre @ code_tag lang c @ post) 0 = Some m"
    "match_text (pre @ code_tag lang c @ post) m = code_tag lang c"
    using find_re_code[OF assms(1,3,4)] by metis
  have "replace_str (pre @ code_tag lang c @ post) (code_tag lang c) marker = pre @ marker @ post"
    using replace_str_plain[OF find_code_tag[OF assms(1)] marker_plain] by simp
  moreover have "rx_exec_g i_flag re_code (pre @ marker @ post) l = (None, 0)" for l
    using no_bracket(1)[of "pre @ marker @ post" l] assms(1,2) marker_no(1) by (simp add: rx_exec_g_def)
  ultimately show ?thesis
    using m by (subst collect_code.simps) (simp add: rx_exec_g_def collect_code.simps[of "pre @ marker @ post"])
qed

lemma br_lines_append: "x \<noteq> 10 \<Longrightarrow> br_lines (a @ x # b) = br_lines a @ br_lines (x # b)"
proof (induction a rule: br_lines.induct)
  case (2 c)
  then show ?case by simp
qed auto

lemma br_lines_plain: "10 \<notin> set a \<Longrightarrow> 13 \<notin> set a \<Longrightarrow> br_lines (a @ b) = a @ br_lines b"
proof (induction a)
  case (Cons x a)
  then show ?case by (cases "a @ b") auto
qed simp

text \<open>A marker among text without dashes can only stand in the block.\<close>

lemma marker_inside:
  assumes "45 \<notin> set a" "45 \<notin> set b" "lit_at i_flag marker (a @ c @ b) j"
  shows "\<exists>i < length c. lit_at i_flag marker c i"
proof -
  define t where "t = a @ c @ b"
  have l: "j + 8 \<le> length t" and at: "list_all2 (cu_eq i_flag) marker (take 8 (drop j t))"
    using assms(3) by (simp_all add: lit_at_def t_def)
  have "marker ! 0 = 45" "marker ! 7 = 45" by (simp_all add: marker_def js_def)
  then have dash: "t ! j = 45" "t ! (j + 7) = 45"
    using list_all2_nthD[OF at, of 0] list_all2_nthD[OF at, of 7] l by (simp_all add: cu_eq_dash)
  have other: "t ! k \<noteq> 45" if "k < length a \<or> length a + length c \<le> k" "k < length t" for k
  proof -
    have "t ! k \<in> set a \<union> set b" using that by (auto simp: nth_append t_def)
    then show ?thesis using assms(1,2) by auto
  qed
  have "\<not> j < length a" "\<not> length a + length c \<le> j + 7"
    using other[of j] other[of "j + 7"] dash l by auto
  then have j: "length a \<le> j" "j + 7 < length a + length c" by simp_all
  then obtain i where i: "j = length a + i" by (auto simp: le_iff_add)
  then have "lit_at i_flag marker c i"
    using assms(3) j(2) lit_at_prefix[of i marker c i_flag b] by (simp add: lit_at_suffix)
  moreover have "i < length c" using j i by simp
  ultimately show ?thesis by blast
qed

lemma restore_one:
  assumes "45 \<notin> set a" "45 \<notin> set b" "lang_ok lang" "block_ok c"
  shows "restore_code (a @ marker @ b) 0 [code_tag lang c] = a @ code_tag lang c @ b"
proof -
  have "rmatch i_flag (a @ marker @ b) re_marker (k, []) = []" if "k < length a" for k
  proof -
    have "(a @ marker @ b) ! k \<noteq> 45" using assms(1) that by (metis nth_append nth_mem)
    then show ?thesis
      using that marker_split by (metis re_marker_def rmatch_rlit lit_at_Cons cu_eq_dash list.distinct(1))
  qed
  moreover have "rmatch i_flag (a @ marker @ b) re_marker (length a, []) = [(length a + 8, [])]"
    using lit_at_append[of i_flag marker a b] by (simp add: re_marker_def rmatch_rlit)
  ultimately have f: "rx_find i_flag re_marker (a @ marker @ b) 0 = Some (length a, length a + 8, [])"
    by (intro rx_find_at) auto
  have t: "match_text (a @ marker @ b) (length a, length a + 8, []) = marker"
    by (simp add: match_text_def slice_def)
  have plain: "36 \<notin> set (code_tag lang c)"
    using assms(3,4) by (auto simp: code_tag_def lang_ok_def block_ok_def js_def is_word_def is_digit_def is_upper_def is_lower_def)
  have "find_sub marker (a @ marker @ b) = Some (length a)"
    using assms(1)
  proof (induction a)
    case Nil
    then show ?case using starts_with_append[of marker b] marker_split by (cases "marker @ b") auto
  next
    case (Cons x a)
    have "\<not> starts_with marker (x # t)" for t using Cons.prems by (subst marker_split[symmetric]) auto
    then show ?case using Cons by simp
  qed
  from replace_str_plain[OF this plain] have put:
      "replace_str (a @ marker @ b) marker (code_tag lang c) = a @ code_tag lang c @ b" by simp
  let ?pre = \<open>a @ (js ''[code='') @ lang @ [93]\<close> and ?post = \<open>(js ''[/code]'') @ b\<close>
  have d: "45 \<notin> set ?pre" "45 \<notin> set ?post"
    using assms(1-3) by (auto simp: lang_ok_def js_def is_word_def is_digit_def is_upper_def is_lower_def)
  have "\<not> lit_at i_flag marker (a @ code_tag lang c @ b) k" for k
    using marker_inside[OF d, of c k] assms(4) by (auto simp: block_ok_def code_tag_def)
  then have "rx_find i_flag re_marker (a @ code_tag lang c @ b) l = None" for l
    by (simp add: rx_find_None re_marker_def rmatch_rlit marker_nonempty)
  then have "rx_exec_g i_flag re_marker (a @ code_tag lang c @ b) l = (None, 0)" for l
    by (simp add: rx_exec_g_def)
  then show ?thesis using f t put
    by (subst restore_code.simps) (simp add: rx_exec_g_def restore_code.simps[of "a @ code_tag lang c @ b"])
qed

lemma render_one:
  assumes "91 \<notin> set a" "91 \<notin> set b" "lang_ok lang" "block_ok c"
  shows \<open>rx_replace_all_fn i_flag re_code (a @ code_tag lang c @ b) (render_code (a @ code_tag lang c @ b)) =
    a @ (js ''<pre name="code2" class="'') @ lang @ (js ''">'') @ c @ (js ''</pre>'') @ b\<close>
proof -
  let ?s = "a @ code_tag lang c @ b" and ?e = "length a + length (code_tag lang c)"
  obtain m where m: "rx_find i_flag re_code ?s 0 = Some m" "fst m = length a" "fst (snd m) = ?e"
    "the_capture ?s m 1 = lang" "the_capture ?s m 2 = c"
    using find_re_code[OF assms(1,3,4)] by metis
  have "all_matches i_flag re_code ((a @ code_tag lang c) @ b) (length (a @ code_tag lang c) + 0) = []"
    using all_matches_move[OF forward_re_code, of i_flag "a @ code_tag lang c" b 0] no_bracket(1)[OF assms(2)]
    by (simp add: all_matches_None)
  then have "all_matches i_flag re_code ?s 0 = [m]"
    using m(1-3) length_code_tag[of lang c] by (subst all_matches.simps) (auto split: prod.splits)
  then show ?thesis
    using m assms(4) by (simp add: rx_replace_all_fn_def render_code_def block_ok_def slice_def)
qed

definition rtrim :: "jstr \<Rightarrow> jstr" where
  [js_eval]: "rtrim s = rev (ltrim (rev s))"

lemma trim_around: "trim (a @ code_tag lang c @ b) = ltrim a @ code_tag lang c @ rtrim b"
proof -
  have tag: "code_tag lang c = 91 # tl (code_tag lang c)" "\<not> is_ws 91" "\<not> is_ws 93"
    "rev (code_tag lang c) = 93 # tl (rev (code_tag lang c))"
    by (simp_all add: code_tag_def js_def is_ws_def)
  have "dropWhile is_ws (x @ 91 # y) = dropWhile is_ws x @ 91 # y" for x y
    using tag(2) by (induction x) auto
  then have l: "ltrim (a @ code_tag lang c @ b) = ltrim a @ code_tag lang c @ b"
    unfolding ltrim_def by (subst (1 2) tag(1)) simp
  have "dropWhile is_ws (x @ 93 # y) = dropWhile is_ws x @ 93 # y" for x y
    using tag(3) by (induction x) auto
  then have "ltrim (rev b @ rev (code_tag lang c) @ rev (ltrim a)) = ltrim (rev b) @ rev (code_tag lang c) @ rev (ltrim a)"
    unfolding ltrim_def by (subst (1 2) tag(4)) simp
  then show ?thesis by (simp add: trim_def l rtrim_def)
qed



section \<open>Code blocks\<close>

text \<open>
  A code block is put back by \<open>replace\<close> with a template, so a \<open>$$\<close> in it loses a dollar; a user who
  writes the marker takes the place of the code block; and the second of two code blocks is not
  taken out when the search resumes past its start, so the tags and line ends in it are rewritten.
\<close>

lemma code_dollar:
  \<open>replaceUBBToHTML (js ''[code=sh]$$[/code]'') = (js ''<pre name="code2" class="sh">$</pre>'')\<close>
proof -
  have a: \<open>collect_code (trim (js ''[code=sh]$$[/code]'')) 0 [] = (marker, [(js ''[code=sh]$$[/code]'')])\<close> by code_simp
  have b: \<open>restore_code (br_lines marker) 0 [(js ''[code=sh]$$[/code]'')] = (js ''[code=sh]$[/code]'')\<close> by code_simp
  have c: \<open>rx_replace_all_fn i_flag re_code (js ''[code=sh]$[/code]'') (render_code (js ''[code=sh]$[/code]'')) =
    (js ''<pre name="code2" class="sh">$</pre>'')\<close> by code_simp
  show ?thesis using ubb_code_only[OF a] b c by (simp add: marker_def js_def Let_def)
qed

lemma code_marker_typed:
  \<open>replaceUBBToHTML (js ''--code-- [code=c]x[/code]'') = (js ''<pre name="code2" class="c">x</pre> undefined'')\<close>
proof -
  have a: \<open>collect_code (trim (js ''--code-- [code=c]x[/code]'')) 0 [] =
    (marker @ 32 # marker, [(js ''[code=c]x[/code]'')])\<close> by code_simp
  have b: \<open>restore_code (br_lines (marker @ 32 # marker)) 0 [(js ''[code=c]x[/code]'')] =
    (js ''[code=c]x[/code] undefined'')\<close> by code_simp
  have c: \<open>rx_replace_all_fn i_flag re_code (js ''[code=c]x[/code] undefined'')
      (render_code (js ''[code=c]x[/code] undefined'')) =
    (js ''<pre name="code2" class="c">x</pre> undefined'')\<close> by code_simp
  show ?thesis using ubb_code_only[OF a] b c by (simp add: marker_def js_def Let_def)
qed

lemma code_second_skipped:
  \<open>collect_code (js ''[code=c]int a;[/code][code=c]'' @ [10] @ js ''[/code]'') 0 [] =
     (marker @ (js ''[code=c]'' @ [10] @ js ''[/code]''), [(js ''[code=c]int a;[/code]'')])\<close>
  by code_simp

end
