(* ===== verification/CommentTree.thy ===== *)
theory CommentTree
  imports Ubb "HOL-Library.Multiset"
begin

text \<open>
  The comments of an article as a forest (\<open>comment.js\<close>: \<open>getTopics\<close>, \<open>getReplies\<close>, \<open>getComment\<close>,
  \<open>getItemHtml\<close>). The server sends a flat list; \<open>getReplies\<close> finds the children of a comment by
  scanning it, and recurses.

  The recursion is bounded only by the data, so the model has fuel: \<open>None\<close> is a recursion that goes
  deeper. For a list with distinct ids, none of them 0, one unit more than the length of the list is
  enough, and when the ids grow from a comment to its replies each comment is shown exactly once.
\<close>

section \<open>Data\<close>

record comment =
  CommentId :: int
  ParentId :: int
  UserName :: "jstr option"
  PostTime :: jstr
  Userface :: jstr
  Content :: jstr

text \<open>A comment with its \<open>Replies\<close>.\<close>

datatype ctree = Node comment "ctree list"

fun nodes :: "ctree \<Rightarrow> comment list" where
  "nodes (Node c ts) = c # concat (map nodes ts)"

abbreviation forest_nodes :: "ctree list \<Rightarrow> comment list" where
  "forest_nodes ts \<equiv> concat (map nodes ts)"

fun all_some :: "'a option list \<Rightarrow> 'a list option" where
  "all_some [] = Some []"
| "all_some (None # xs) = None"
| "all_some (Some x # xs) = map_option ((#) x) (all_some xs)"

lemma all_some_None: "all_some xs = None \<longleftrightarrow> None \<in> set xs"
  by (induction xs rule: all_some.induct) auto

lemma all_some_eq: "all_some xs = Some ys \<longleftrightarrow> xs = map Some ys"
  by (induction xs arbitrary: ys rule: all_some.induct) auto

lemma all_some_total: "(\<And>x. x \<in> set xs \<Longrightarrow> \<exists>y. f x = Some y) \<Longrightarrow> \<exists>ys. all_some (map f xs) = Some ys"
  by (induction xs) (auto, fastforce)

section \<open>Building the forest\<close>

fun getReplies :: "nat \<Rightarrow> comment \<Rightarrow> comment list \<Rightarrow> ctree list option" where
  "getReplies 0 item lst = None"
| "getReplies (Suc n) item lst =
     all_some (map (\<lambda>r. map_option (Node r) (getReplies n r lst))
                 (filter (\<lambda>r. ParentId r = CommentId item) lst))"

definition getTopics :: "nat \<Rightarrow> comment list \<Rightarrow> ctree list option" where
  [js_eval]: "getTopics n lst =
     all_some (map (\<lambda>t. map_option (Node t) (getReplies n t lst)) (filter (\<lambda>t. ParentId t = 0) lst))"

fun getComment :: "int \<Rightarrow> comment list \<Rightarrow> comment option" where
  "getComment commentId [] = None"
| "getComment commentId (c # cs) = (if CommentId c = commentId then Some c else getComment commentId cs)"

lemma getComment_Some: "getComment i lst = Some c \<Longrightarrow> c \<in> set lst \<and> CommentId c = i"
  by (induction lst) (auto split: if_splits)

lemma getComment_None: "getComment i lst = None \<longleftrightarrow> (\<forall>c \<in> set lst. CommentId c \<noteq> i)"
  by (induction lst) auto

section \<open>Termination\<close>

text \<open>The comments on the recursion stack, innermost first: each is a reply to the next, the last is a topic.\<close>

fun reply_chain :: "comment list \<Rightarrow> comment list \<Rightarrow> bool" where
  "reply_chain lst [] = False"
| "reply_chain lst [c] = (c \<in> set lst \<and> ParentId c = 0)"
| "reply_chain lst (c # d # cs) = (c \<in> set lst \<and> ParentId c = CommentId d \<and> reply_chain lst (d # cs))"

definition ids_ok :: "comment list \<Rightarrow> bool" where
  "ids_ok lst \<longleftrightarrow> distinct (map CommentId lst) \<and> 0 \<notin> CommentId ` set lst"

lemma reply_chain_subset: "reply_chain lst cs \<Longrightarrow> set cs \<subseteq> set lst"
  by (induction lst cs rule: reply_chain.induct) auto

lemma same_id: "distinct (map CommentId lst) \<Longrightarrow> a \<in> set lst \<Longrightarrow> b \<in> set lst \<Longrightarrow> CommentId a = CommentId b \<Longrightarrow> a = b"
  by (metis distinct_map inj_onD)

text \<open>The chain above a comment depends on the comment alone.\<close>

lemma reply_chain_unique:
  assumes "ids_ok lst"
  shows "reply_chain lst (c # cs) \<Longrightarrow> reply_chain lst (c # ds) \<Longrightarrow> cs = ds"
proof (induction cs arbitrary: c ds)
  case Nil
  then show ?case using assms by (cases ds) (auto simp: ids_ok_def dest!: reply_chain_subset)
next
  case (Cons d cs)
  then obtain e es where ds: "ds = e # es"
    using assms by (cases ds) (auto simp: ids_ok_def dest!: reply_chain_subset)
  have "d \<in> set lst" "e \<in> set lst" using Cons.prems ds by (auto dest: reply_chain_subset)
  then have "d = e" using same_id[of lst d e] Cons.prems ds assms by (simp add: ids_ok_def)
  then show ?case using Cons ds by auto
qed

lemma reply_chain_suffix: "reply_chain lst (xs @ c # cs) \<Longrightarrow> reply_chain lst (c # cs)"
proof (induction xs)
  case (Cons x xs)
  then show ?case by (cases xs) auto
qed simp

lemma reply_chain_distinct:
  assumes "ids_ok lst"
  shows "reply_chain lst cs \<Longrightarrow> distinct cs"
proof (induction cs)
  case (Cons c cs)
  have "c \<notin> set cs"
  proof
    assume "c \<in> set cs"
    then obtain xs ys where cs: "cs = xs @ c # ys" by (meson split_list)
    have "reply_chain lst (c # ys)" using reply_chain_suffix[of lst "c # xs" c ys] Cons.prems cs by simp
    then have "cs = ys" using reply_chain_unique[OF assms Cons.prems] by simp
    then show False using cs by simp
  qed
  moreover have "cs = [] \<or> reply_chain lst cs" using Cons.prems by (cases cs) auto
  ultimately show ?case using Cons.IH by auto
qed simp

lemma reply_chain_length:
  assumes "ids_ok lst" "reply_chain lst cs"
  shows "length cs \<le> length lst"
proof -
  have "length cs = card (set cs)" using reply_chain_distinct[OF assms] by (simp add: distinct_card)
  also have "\<dots> \<le> card (set lst)" using reply_chain_subset[OF assms(2)] by (simp add: card_mono)
  also have "\<dots> \<le> length lst" by (rule card_length)
  finally show ?thesis .
qed

lemma getReplies_returns:
  assumes "ids_ok lst"
  shows "reply_chain lst (c # cs) \<Longrightarrow> length lst \<le> n + length cs \<Longrightarrow> \<exists>ts. getReplies n c lst = Some ts"
proof (induction n arbitrary: c cs)
  case 0
  then show ?case using reply_chain_length[OF assms 0(1)] by simp
next
  case (Suc n)
  have "\<exists>ts. getReplies n r lst = Some ts" if "r \<in> set lst" "ParentId r = CommentId c" for r
    using Suc.IH[of r "c # cs"] Suc.prems that by simp
  then show ?case unfolding getReplies.simps by (intro all_some_total) fastforce
qed

text \<open>C2: for a list of comments with distinct ids, none of them 0, the recursion of \<open>getReplies\<close> ends, even
  if parents are missing or form cycles: \<open>getTopics\<close> returns.\<close>

theorem getTopics_returns:
  assumes "ids_ok lst"
  shows "\<exists>ts. getTopics (length lst) lst = Some ts"
proof -
  have "\<exists>ts. getReplies (length lst) t lst = Some ts" if "t \<in> set lst" "ParentId t = 0" for t
    using getReplies_returns[OF assms, of t "[]"] that by simp
  then show ?thesis unfolding getTopics_def by (intro all_some_total) fastforce
qed

theorem getTopics_returns_witness:
  "ids_ok [\<lparr>CommentId = 7, ParentId = 0, UserName = None, PostTime = [], Userface = [], Content = []\<rparr>,
     \<lparr>CommentId = 8, ParentId = 7, UserName = None, PostTime = [], Userface = [], Content = []\<rparr>,
     \<lparr>CommentId = 9, ParentId = 9, UserName = None, PostTime = [], Userface = [], Content = []\<rparr>] \<and>
   (\<exists>ts. getTopics 3 [\<lparr>CommentId = 7, ParentId = 0, UserName = None, PostTime = [], Userface = [], Content = []\<rparr>,
     \<lparr>CommentId = 8, ParentId = 7, UserName = None, PostTime = [], Userface = [], Content = []\<rparr>,
     \<lparr>CommentId = 9, ParentId = 9, UserName = None, PostTime = [], Userface = [], Content = []\<rparr>] = Some ts)"
  (is "ids_ok ?l \<and> _")
proof -
  have "ids_ok ?l" by (simp add: ids_ok_def)
  then show ?thesis using getTopics_returns[of ?l] by (simp add: numeral_3_eq_3 del: getReplies.simps)
qed

text \<open>More fuel changes nothing.\<close>

lemma getReplies_mono: "getReplies n c lst = Some ts \<Longrightarrow> n \<le> m \<Longrightarrow> getReplies m c lst = Some ts"
proof (induction n arbitrary: c ts m)
  case (Suc n)
  obtain k where m: "m = Suc k" "n \<le> k" using Suc.prems(2) by (cases m) auto
  let ?cs = "filter (\<lambda>r. ParentId r = CommentId c) lst"
  have "map (\<lambda>r. map_option (Node r) (getReplies n r lst)) ?cs = map Some ts"
    using Suc.prems(1) by (simp add: all_some_eq)
  moreover have "map (\<lambda>r. map_option (Node r) (getReplies k r lst)) cs = map Some us"
    if "map (\<lambda>r. map_option (Node r) (getReplies n r lst)) cs = map Some us" for cs us
    using that
  proof (induction cs arbitrary: us)
    case (Cons x cs)
    then show ?case using Suc.IH[of x _ k] m(2) by (cases us) auto
  qed simp
  ultimately show ?case by (simp add: m(1) all_some_eq)
qed simp

section \<open>Descendants\<close>

text \<open>Descendants, read upwards from the reply.\<close>

inductive desc :: "comment list \<Rightarrow> comment \<Rightarrow> comment \<Rightarrow> bool" for lst a where
  desc_child: "c \<in> set lst \<Longrightarrow> ParentId c = CommentId a \<Longrightarrow> desc lst a c"
| desc_step: "desc lst a p \<Longrightarrow> c \<in> set lst \<Longrightarrow> ParentId c = CommentId p \<Longrightarrow> desc lst a c"

definition ids_grow :: "comment list \<Rightarrow> bool" where
  "ids_grow lst \<longleftrightarrow> distinct (map CommentId lst) \<and> (\<forall>c \<in> set lst. 0 \<le> ParentId c \<and> ParentId c < CommentId c)"

lemma ids_grow_ok: "ids_grow lst \<Longrightarrow> ids_ok lst"
  by (force simp: ids_grow_def ids_ok_def)

lemma desc_in: "desc lst a c \<Longrightarrow> c \<in> set lst"
  by (induction rule: desc.induct)

lemma desc_grows: "desc lst a c \<Longrightarrow> ids_grow lst \<Longrightarrow> CommentId a < CommentId c"
  by (induction rule: desc.induct) (force simp: ids_grow_def)+

lemma desc_above: "desc lst b c \<Longrightarrow> b \<in> set lst \<Longrightarrow> ParentId b = CommentId a \<Longrightarrow> desc lst a c"
  by (induction rule: desc.induct) (auto intro: desc.intros)

lemma desc_split: "desc lst a c \<longleftrightarrow> (\<exists>b \<in> set lst. ParentId b = CommentId a \<and> (c = b \<or> desc lst b c))"
proof
  show "desc lst a c \<Longrightarrow> \<exists>b \<in> set lst. ParentId b = CommentId a \<and> (c = b \<or> desc lst b c)"
    by (induction rule: desc.induct) (auto intro: desc.intros)
qed (auto intro: desc.intros desc_above)

lemma set_getReplies:
  "getReplies n a lst = Some ts \<Longrightarrow> c \<in> set (forest_nodes ts) \<longleftrightarrow> desc lst a c"
proof (induction n arbitrary: a ts)
  case (Suc n)
  let ?cs = "filter (\<lambda>r. ParentId r = CommentId a) lst"
  have "map (\<lambda>r. map_option (Node r) (getReplies n r lst)) ?cs = map Some ts"
    using Suc.prems by (simp add: all_some_eq)
  moreover have "c \<in> set (forest_nodes us) \<longleftrightarrow> (\<exists>r \<in> set cs. c = r \<or> desc lst r c)"
    if "map (\<lambda>r. map_option (Node r) (getReplies n r lst)) cs = map Some us" for cs us
    using that
  proof (induction cs arbitrary: us)
    case (Cons x cs)
    then show ?case using Suc.IH[of x] by (cases us) auto
  qed simp
  ultimately show ?case by (auto simp: desc_split[of lst a c])
qed simp

section \<open>The fuel is exact\<close>

lemma getReplies_child:
  assumes "getReplies n a lst = Some ts" "r \<in> set lst" "ParentId r = CommentId a"
  obtains m us where "n = Suc m" "getReplies m r lst = Some us"
proof -
  obtain m where n: "n = Suc m" using assms(1) by (cases n) auto
  have "map (\<lambda>r. map_option (Node r) (getReplies m r lst)) (filter (\<lambda>r. ParentId r = CommentId a) lst) = map Some ts"
    using assms(1) n by (simp only: getReplies.simps all_some_eq)
  moreover have "map_option (Node r) (getReplies m r lst) \<in>
      set (map (\<lambda>r. map_option (Node r) (getReplies m r lst)) (filter (\<lambda>r. ParentId r = CommentId a) lst))"
    using assms(2,3) by simp
  ultimately have "map_option (Node r) (getReplies m r lst) \<in> set (map Some ts)" by (simp only:)
  then obtain us where "getReplies m r lst = Some us" by auto
  then show thesis using that n by blast
qed

lemma getReplies_desc: "desc lst a c \<Longrightarrow> getReplies n a lst = Some ts \<Longrightarrow> \<exists>m < n. \<exists>us. getReplies m c lst = Some us"
proof (induction rule: desc.induct)
  case (desc_child c)
  from getReplies_child[OF desc_child(3,1,2)] show ?case by blast
next
  case (desc_step p c)
  then obtain m us where m: "m < n" "getReplies m p lst = Some us" by blast
  from getReplies_child[OF m(2) desc_step.hyps(2,3)] m(1) show ?case by (metis Suc_lessD)
qed

lemma getReplies_cycle:
  assumes "desc lst c c"
  shows "getReplies n c lst = None"
proof (induction n rule: less_induct)
  case (less n)
  show ?case
  proof (rule ccontr)
    assume "getReplies n c lst \<noteq> None"
    then obtain ts where "getReplies n c lst = Some ts" by blast
    from getReplies_desc[OF assms this] less show False by fastforce
  qed
qed

abbreviation child_in :: "comment list \<Rightarrow> comment \<Rightarrow> comment \<Rightarrow> bool" where
  "child_in lst a b \<equiv> b \<in> set lst \<and> ParentId b = CommentId a"

lemma getReplies_None_path:
  "getReplies n c lst = None \<Longrightarrow> \<exists>xs. length xs = n \<and> successively (child_in lst) (c # xs) \<and> set xs \<subseteq> set lst"
proof (induction n arbitrary: c)
  case (Suc n)
  then obtain r where "r \<in> set lst" "ParentId r = CommentId c" "getReplies n r lst = None"
    by (auto simp: all_some_None)
  moreover from Suc.IH[OF this(3)] obtain xs where
    "length xs = n" "successively (child_in lst) (r # xs)" "set xs \<subseteq> set lst" by blast
  ultimately show ?case by (intro exI[of _ "r # xs"]) simp
qed simp

lemma path_desc: "successively (child_in lst) (c # xs) \<Longrightarrow> x \<in> set xs \<Longrightarrow> desc lst c x"
proof (induction xs arbitrary: c)
  case (Cons y ys)
  then show ?case by (cases "x = y") (auto intro: desc_child desc_above)
qed simp

text \<open>
  A recursion deeper than the list has a comment twice on its stack, so it never ends: with
  fuel \<open>length lst\<close> the model returns exactly when the code does.
\<close>

lemma deep_is_endless:
  assumes "t \<in> set lst" "getReplies (length lst) t lst = None"
  shows "getReplies n t lst = None"
proof -
  obtain xs where xs: "length xs = length lst" "successively (child_in lst) (t # xs)" "set xs \<subseteq> set lst"
    using getReplies_None_path[OF assms(2)] by blast
  have "\<not> distinct (t # xs)"
  proof
    assume "distinct (t # xs)"
    then have "length (t # xs) = card (set (t # xs))" by (simp only: distinct_card)
    also have "\<dots> \<le> card (set lst)" using assms(1) xs(3) by (intro card_mono) auto
    finally show False using card_length[of lst] xs(1) by simp
  qed
  then obtain as x bs cs where d: "t # xs = as @ [x] @ bs @ [x] @ cs" using not_distinct_decomp by blast
  have "successively (child_in lst) (x # bs @ [x] @ cs)" using xs(2) unfolding d by (simp add: successively_append_iff)
  then have "desc lst x x" by (rule path_desc) simp
  then have x: "\<And>m. getReplies m x lst = None" by (rule getReplies_cycle)
  show ?thesis
  proof (cases "x = t")
    case False
    then have "x \<in> set xs" using d by (cases as) auto
    then have "desc lst t x" using path_desc[OF xs(2)] by blast
    then show ?thesis using getReplies_desc[of lst t x n] x by (cases "getReplies n t lst") fastforce+
  qed (use x in blast)
qed

text \<open>Fuel \<open>length lst\<close> is exact for every list, also one with repeated ids or cycles: if the model gives
  up, the recursion of the code has no end.\<close>

theorem getTopics_fuel: "getTopics (length lst) lst = None \<longleftrightarrow> (\<forall>n. getTopics n lst = None)"
proof
  assume "getTopics (length lst) lst = None"
  then obtain t where t: "t \<in> set lst" "ParentId t = 0" "getReplies (length lst) t lst = None"
    by (auto simp: getTopics_def all_some_None)
  show "\<forall>n. getTopics n lst = None"
    using deep_is_endless[OF t(1,3)] t(1,2) by (force simp: getTopics_def all_some_None)
qed simp

section \<open>Each comment once\<close>

lemma desc_not_sibling:
  assumes "desc lst a b" "ids_grow lst" "a \<in> set lst"
  shows "ParentId a \<noteq> ParentId b"
  using assms(1)
proof cases
  case desc_child
  then show ?thesis using assms by (auto simp: ids_grow_def)
next
  case (desc_step p)
  then show ?thesis using desc_grows[OF desc_step(1) assms(2)] assms(2,3) by (auto simp: ids_grow_def)
qed

lemma ids_grow_same_id: "ids_grow lst \<Longrightarrow> a \<in> set lst \<Longrightarrow> b \<in> set lst \<Longrightarrow> CommentId a = CommentId b \<Longrightarrow> a = b"
  unfolding ids_grow_def using same_id[of lst a b] by blast

text \<open>Two siblings have no comment below them in common.\<close>

lemma desc_siblings:
  assumes grow: "ids_grow lst" and ab: "a \<in> set lst" "b \<in> set lst" "ParentId a = ParentId b"
  shows "desc lst a c \<Longrightarrow> desc lst b c \<Longrightarrow> a = b"
proof (induction rule: desc.induct)
  case (desc_child c)
  from desc_child(3) show ?case
  proof cases
    case desc_child
    then show ?thesis using \<open>ParentId c = CommentId a\<close> ids_grow_same_id[OF grow ab(1,2)] by simp
  next
    case (desc_step p)
    then have "desc lst b a"
      using \<open>ParentId c = CommentId a\<close> ids_grow_same_id[OF grow ab(1) desc_in, of b p] by auto
    then show ?thesis using desc_not_sibling[OF _ grow ab(2)] ab(3) by metis
  qed
next
  case (desc_step p c)
  from desc_step(5) show ?case
  proof cases
    case desc_child
    then have "p = b" using desc_step ids_grow_same_id[OF grow desc_in ab(2), of a p] by simp
    then show ?thesis using desc_step(1) desc_not_sibling[OF _ grow ab(1)] ab(3) by metis
  next
    case (desc_step q)
    then have "q = p"
      using \<open>desc lst a p\<close> \<open>ParentId c = CommentId p\<close> ids_grow_same_id[OF grow desc_in desc_in, of b q a p] by simp
    then show ?thesis using desc_step \<open>desc lst b p \<Longrightarrow> a = b\<close> by simp
  qed
qed

lemma forest_distinct:
  assumes grow: "ids_grow lst"
    and sub: "\<forall>r us. getReplies n r lst = Some us \<longrightarrow> distinct (forest_nodes us)"
  shows "map (\<lambda>r. map_option (Node r) (getReplies n r lst)) cs = map Some ts \<Longrightarrow> distinct cs \<Longrightarrow>
    set cs \<subseteq> set lst \<Longrightarrow> (\<And>a b. a \<in> set cs \<Longrightarrow> b \<in> set cs \<Longrightarrow> ParentId a = ParentId b) \<Longrightarrow>
    distinct (forest_nodes ts) \<and> (\<forall>c. c \<in> set (forest_nodes ts) \<longleftrightarrow> (\<exists>r \<in> set cs. c = r \<or> desc lst r c))"
proof (induction cs arbitrary: ts)
  case (Cons x cs)
  obtain us vs where ts: "ts = Node x us # vs" and us: "getReplies n x lst = Some us"
    and vs: "map (\<lambda>r. map_option (Node r) (getReplies n r lst)) cs = map Some vs"
    using Cons.prems(1) by (cases ts) auto
  have IH: "distinct (forest_nodes vs)"
    "\<And>c. c \<in> set (forest_nodes vs) \<longleftrightarrow> (\<exists>r \<in> set cs. c = r \<or> desc lst r c)"
    using Cons.IH[OF vs _ _ Cons.prems(4)] Cons.prems(2,3) by auto
  have under: "c \<in> set (forest_nodes us) \<longleftrightarrow> desc lst x c" for c by (rule set_getReplies[OF us])
  have "x \<notin> set (forest_nodes us)" using under desc_grows[OF _ grow, of x x] by auto
  moreover have "c \<notin> set (forest_nodes vs)" if "c = x \<or> desc lst x c" for c
  proof
    assume "c \<in> set (forest_nodes vs)"
    then obtain r where r: "r \<in> set cs" "c = r \<or> desc lst r c" using IH(2) by auto
    then have sib: "ParentId x = ParentId r" "x \<in> set lst" "r \<in> set lst" "x \<noteq> r"
      using Cons.prems(2,3) Cons.prems(4)[of x r] by auto
    show False
      using that r(2) desc_siblings[OF grow sib(2,3,1)] desc_not_sibling[OF _ grow sib(2), of r]
        desc_not_sibling[OF _ grow sib(3), of x] sib by metis
  qed
  moreover have "distinct (forest_nodes us)" using sub us by blast
  moreover have "set (forest_nodes us) \<inter> set (forest_nodes vs) = {}" using calculation(2) under by blast
  ultimately have "distinct (forest_nodes ts)" using IH(1) ts by (simp del: set_concat)
  moreover have "c \<in> set (forest_nodes ts) \<longleftrightarrow> (\<exists>r \<in> set (x # cs). c = r \<or> desc lst r c)" for c
    using IH(2)[of c] under[of c] ts by (simp del: set_concat)
  ultimately show ?case by blast
qed simp

lemma distinct_getReplies:
  assumes grow: "ids_grow lst"
  shows "getReplies n a lst = Some ts \<Longrightarrow> distinct (forest_nodes ts)"
proof (induction n arbitrary: a ts)
  case (Suc n)
  have "distinct (filter (\<lambda>r. ParentId r = CommentId a) lst)"
    using grow by (simp add: ids_grow_def distinct_map)
  moreover have "map (\<lambda>r. map_option (Node r) (getReplies n r lst))
      (filter (\<lambda>r. ParentId r = CommentId a) lst) = map Some ts"
    using Suc.prems by (simp add: all_some_eq)
  ultimately show ?case
    using forest_distinct[OF grow, of n "filter (\<lambda>r. ParentId r = CommentId a) lst" ts] Suc.IH
    by (smt (verit, ccfv_threshold) filter_is_subset mem_Collect_eq set_filter)
qed simp

definition parents_present :: "comment list \<Rightarrow> bool" where
  "parents_present lst \<longleftrightarrow> (\<forall>c \<in> set lst. ParentId c = 0 \<or> (\<exists>p \<in> set lst. CommentId p = ParentId c))"

lemma below_topic:
  assumes "ids_grow lst" "parents_present lst" "c \<in> set lst"
  shows "\<exists>t \<in> set lst. ParentId t = 0 \<and> (c = t \<or> desc lst t c)"
  using assms(3)
proof (induction "nat (CommentId c)" arbitrary: c rule: less_induct)
  case less
  show ?case
  proof (cases "ParentId c = 0")
    case False
    then obtain p where p: "p \<in> set lst" "CommentId p = ParentId c"
      using assms(2) less.prems by (auto simp: parents_present_def)
    have "nat (CommentId p) < nat (CommentId c)" using assms(1) less.prems p by (force simp: ids_grow_def)
    from less.hyps[OF this p(1)] show ?thesis 
      using p(2) less.prems by (metis desc_child desc_step)
  qed (use less in auto)
qed


definition sample_comments :: "comment list" where
  [js_eval]: "sample_comments =
    [\<lparr>CommentId = 3, ParentId = 0, UserName = None, PostTime = [], Userface = [], Content = []\<rparr>,
     \<lparr>CommentId = 4, ParentId = 3, UserName = None, PostTime = [], Userface = [], Content = []\<rparr>,
     \<lparr>CommentId = 7, ParentId = 0, UserName = None, PostTime = [], Userface = [], Content = []\<rparr>,
     \<lparr>CommentId = 9, ParentId = 4, UserName = None, PostTime = [], Userface = [], Content = []\<rparr>]"


text \<open>A comment that is its own ancestor is never a topic, but one with id 0 makes the code recurse for ever.\<close>

lemma id_zero_diverges:
  assumes "CommentId c = 0" "ParentId c = 0"
  shows "getTopics n [c] = None"
proof -
  have "getReplies n c [c] = None" using assms by (induction n) auto
  then show ?thesis using assms by (simp add: getTopics_def)
qed

section \<open>The page of a comment\<close>

text \<open>What the page knows: the owner of the blog and the visitor.\<close>

record blog_env =
  username :: jstr
  currentUserName :: jstr
  fileName :: jstr
  blog_address :: jstr
  static_host :: jstr
  islock :: bool
  href :: jstr

text \<open>\<open>null\<close> in a concatenation.\<close>

definition js_opt :: "jstr option \<Rightarrow> jstr" where
  [js_eval]: "js_opt v = (case v of None \<Rightarrow> js ''null'' | Some s \<Rightarrow> s)"

text \<open>\<^verbatim>\<open>/\{id\}/g\<close> and \<^verbatim>\<open>/\{username\}/g\<close>\<close>

definition re_id :: rx where
  [js_eval]: \<open>re_id = rlit (js ''{id}'')\<close>

definition re_username :: rx where
  [js_eval]: \<open>re_username = rlit (js ''{username}'')\<close>

definition item_class :: "comment \<Rightarrow> jstr" where
  [js_eval]: "item_class c = (if ParentId c > 0 then js ''reply'' else js ''topic'')"

definition item_template :: "blog_env \<Rightarrow> comment \<Rightarrow> int \<Rightarrow> int option \<Rightarrow> nat \<Rightarrow> jstr" where
  [js_eval]: \<open>item_template env c index floor deep =
     (js ''<dl class="comment_item comment_'') @ item_class c @ (js ''" id="comment_item_{id}"'')
     @ (if deep > 3 then (js '' style="margin-left:0;"'') else []) @ (js ''><dt class="comment_head" floor='')
     @ int_str (case floor of None \<Rightarrow> index | Some f \<Rightarrow> if f = 0 then index else f) @ (js ''>'')
     @ (if ParentId c > 0 then js ''Re:'' else int_str index @ ([27004])) @ (js '' <span class="user">'')
     @ (case UserName c of
          None \<Rightarrow> (js ''['' @ [28216, 23458] @ js '']'')
        | Some u \<Rightarrow> if u = [] then (js ''['' @ [28216, 23458] @ js '']'')
                   else (js ''<a class="username" href="/'') @ u @ (js ''" target="_blank">'') @ u @ (js ''</a>''))
     @ (js '' <span class='' @ [39] @ js ''ptime'' @ [39] @ js ''>'') @ PostTime c @ ([21457, 34920] @ js ''</span> '')
     @ (js '' <a href="#reply" class="cmt_btn reply" title="'' @ [22238, 22797] @ js ''">['' @
    [22238, 22797] @
    js '']</a> <span class="comment_manage" style="display:none;" commentid={id} username={username}> <a '' @
    js ''href="#quote" class="cmt_btn quote" title="'' @ [24341, 29992] @ js ''">['' @ [24341, 29992] @
    js '']</a> <a href="#report" class="cmt_btn report" title="'' @ [20030, 25253] @ js ''">['' @
    [20030, 25253] @ js '']</a>'')
     @ (if username env = currentUserName env \<or> UserName c = Some (currentUserName env)
        then (js '' <a href="#delete" class="cmt_btn delete" title="'' @ [21024, 38500] @ js ''">['' @
    [21024, 38500] @ js '']</a>'') else [])
     @ (js ''</span></dt>'')
     @ (js ''<dd class="comment_userface"><a href="/'') @ js_opt (UserName c) @ (js ''" target="_blank"><img src="'')
     @ Userface c @ (js ''" width="40" height="40" /></a></dd>'')
     @ (js ''<dd class="comment_body">'') @ replaceUBBToHTML (Content c) @ (js ''</dd>'')\<close>

definition item_head :: "blog_env \<Rightarrow> comment \<Rightarrow> int \<Rightarrow> int option \<Rightarrow> nat \<Rightarrow> jstr" where
  [js_eval]: "item_head env c index floor deep =
     rx_replace_all no_flags re_username
       (rx_replace_all no_flags re_id (item_template env c index floor deep) (int_str (CommentId c)))
       (js_opt (UserName c))"

fun getItemHtml :: "blog_env \<Rightarrow> ctree \<Rightarrow> int \<Rightarrow> int option \<Rightarrow> nat \<Rightarrow> jstr"
  and replies_html :: "blog_env \<Rightarrow> ctree list \<Rightarrow> int \<Rightarrow> int \<Rightarrow> nat \<Rightarrow> jstr" where
  \<open>getItemHtml env (Node c ts) index floor deep =
     item_head env c index floor deep @ replies_html env ts 0 index deep @ (js ''</dl>'')\<close>
| "replies_html env [] j index deep = []"
| "replies_html env (t # ts) j index deep =
     getItemHtml env t (j + 1) (Some index) (Suc deep) @ replies_html env ts (j + 1) index deep"

text \<open>The element id of a comment, by which the scripts find it.\<close>

definition item_open :: "comment \<Rightarrow> jstr" where
  [js_eval]: \<open>item_open c = (js ''<dl class="comment_item comment_'') @ item_class c @ (js ''" id="comment_item_'')
     @ int_str (CommentId c) @ (js ''"'')\<close>

lemma no_brace_int_str: "123 \<notin> set (int_str i)" "36 \<notin> set (int_str i)"
  by (auto simp: int_str_def num_str_no)

lemma cu_eq_no_flags: "cu_eq no_flags a c \<longleftrightarrow> a = c"
  by (simp add: cu_eq_def no_flags_def)

lemma no_brace_item_open: "123 \<notin> set (item_open c)"
  by (auto simp: item_open_def item_class_def no_brace_int_str) (simp_all add: js_def)

lemma item_head_opens: "starts_with (item_open c) (item_head env c index floor deep)"
proof -
  let ?pre = \<open>(js ''<dl class="comment_item comment_'') @ item_class c @ (js ''" id="comment_item_'')\<close>
  have split: \<open>(js ''" id="comment_item_{id}"'') = (js ''" id="comment_item_'') @ (js ''{id}'') @ (js ''"'')\<close>
    by (simp add: js_def)
  obtain rest where tmpl: \<open>item_template env c index floor deep = ?pre @ (js ''{id}'') @ (js ''"'') @ rest\<close>
    by (simp add: item_template_def split)
  have lit: \<open>(js ''{id}'') = 123 # (js ''id}'')\<close> by (simp add: js_def)
  have pre: "123 \<notin> set ?pre" using no_brace_item_open[of c] by (auto simp: item_open_def)
  have q: \<open>123 \<notin> set (js ''"'')\<close> by (simp add: js_def)
  let ?rep = \<open>\<lambda>s. rx_replace_all_fn no_flags (rlit (js ''{id}'')) s (\<lambda>_. int_str (CommentId c))\<close>
  have skip: "123 \<notin> set p \<Longrightarrow> ?rep (p @ s) = p @ ?rep s" for p s
    unfolding lit by (rule replace_lit_prefix) (auto simp: cu_eq_no_flags)
  have \<open>rx_replace_all no_flags re_id (item_template env c index floor deep) (int_str (CommentId c)) =
      ?rep (?pre @ (js ''{id}'') @ (js ''"'') @ rest)\<close>
    by (simp add: tmpl re_id_def rx_replace_all_plain no_brace_int_str)
  also have \<open>\<dots> = ?pre @ int_str (CommentId c) @ (js ''"'') @ ?rep rest\<close>
    using skip[OF pre] skip[OF q] replace_lit_hit[of \<open>(js ''{id}'')\<close> no_flags] lit by simp
  finally have mid: "\<exists>r. rx_replace_all no_flags re_id (item_template env c index floor deep) (int_str (CommentId c)) =
      item_open c @ r" by (auto simp: item_open_def)
  then obtain r where r: "rx_replace_all no_flags re_id (item_template env c index floor deep)
      (int_str (CommentId c)) = item_open c @ r" ..
  let ?s = "item_open c @ r"
  have "\<forall>j < length (item_open c). rmatch no_flags ?s re_username (j, []) = []"
  proof (intro allI impI)
    fix j assume "j < length (item_open c)"
    then have "?s ! j \<noteq> 123" using no_brace_item_open[of c] by (metis nth_append nth_mem)
    then show "rmatch no_flags ?s re_username (j, []) = []"
      by (simp add: re_username_def js_def rmatch_rlit lit_at_Cons cu_eq_no_flags)
  qed
  from replace_keeps_prefix[OF this] show ?thesis
    by (simp only: item_head_def r) (simp add: rx_replace_all_def starts_with_take)
qed

text \<open>The HTML of a comment with its replies gives every comment of the tree its element id, by
  which \<open>deleteComment\<close> and the scroll after a reply find it.\<close>

theorem items_have_ids:
  assumes "c \<in> set (nodes t)"
  shows "contains (item_open c) (getItemHtml env t index floor deep)"
proof -
  have head: "contains (item_open c) (item_head env c i f d @ s)" for c i f d s
    using item_head_opens[of c env i f d] by (force simp: contains_iff starts_with_iff)
  have mid: "contains p b \<Longrightarrow> contains p (a @ b @ c)" for p a b c
    unfolding contains_iff by (metis append.assoc)
  have "(\<forall>c \<in> set (nodes t). \<forall>i f d. contains (item_open c) (getItemHtml env t i f d))"
    for t
  proof (induction t)
    case (Node c ts)
    have "\<forall>c \<in> set (forest_nodes us). \<forall>j i d. contains (item_open c) (replies_html env us j i d)"
      if "set us \<subseteq> set ts" for us
      using that
    proof (induction us)
      case (Cons u us)
      then have u: "\<forall>c \<in> set (nodes u). \<forall>i f d. contains (item_open c) (getItemHtml env u i f d)"
        using Node by simp
      show ?case
        using u Cons mid[of _ "getItemHtml env u _ _ _" "[]"] mid[of _ _ _ "[]"] by fastforce
    qed simp
    then show ?case using head mid by fastforce
  qed
  then show ?thesis using assms by blast
qed

definition sample_env :: blog_env where
  [js_eval]: "sample_env = \<lparr>username = js ''owner'', currentUserName = js ''ann'', fileName = js ''6606957'',
     blog_address = js ''http://blog.csdn.net/owner'', static_host = js ''http://static.blog.csdn.net'',
     islock = False, href = js ''http://blog.csdn.net/owner/article/details/6606957''\<rparr>"

theorem items_have_ids_witness:
  "contains (item_open (sample_comments ! 3))
     (getItemHtml sample_env (Node (sample_comments ! 0) [Node (sample_comments ! 1) [Node (sample_comments ! 3) []]])
        2 None 0)"
  by (rule items_have_ids) simp

end
