(* ===== verification/Comments.thy ===== *)
theory Comments
  imports CommentTree Page
begin

text \<open>
  The comment part of the page (\<open>comment.js\<close>): the form, the list and its pages, the buttons of a
  comment, the mark-up buttons and the submission.

  The state is the page with the global variables of the script. A request is an effect; its callback
  is an operation of its own. The answer of the server, the random number of a URL, the clock and the
  answer of the visitor to a dialog are arguments.
\<close>

section \<open>State\<close>

record cpage = page +
  clist :: "comment list"
  commentscount :: int
  c_doing :: bool

record comments_answer =
  rlist :: "comment list"
  rtotal :: int
  rPageIndex :: int
  rPageCount :: int

text \<open>The selectors \<open>editorId\<close> and \<open>listId\<close>.\<close>

abbreviation editorId :: selector where "editorId \<equiv> ''#comment_content''"
abbreviation listId :: selector where "listId \<equiv> ''#comment_list''"
abbreviation submitId :: selector where "submitId \<equiv> ''button[type=submit]''"

section \<open>Hints\<close>

definition commentTip :: "jstr \<Rightarrow> 'a page_scheme \<Rightarrow> 'a page_scheme" where
  [js_eval]: "commentTip message p =
     emit (StartTimer ''_c_t'' 10000) (emit (StopTimer ''_c_t'')
       (set_shown ''#tip_comment'' True (set_html ''#tip_comment'' message p)))"

definition commentTip_timeout :: "'a page_scheme \<Rightarrow> 'a page_scheme" where
  [js_eval]: "commentTip_timeout p = set_shown ''#tip_comment'' False p"

definition editor_tick :: "'a page_scheme \<Rightarrow> 'a page_scheme" where
  [js_eval]: \<open>editor_tick p =
     commentTip (([36824, 33021, 36755, 20837]) @ int_str (1000 - int (length (val_of editorId p))) @ ([20010, 23383, 31526])) p\<close>

definition editor_focus :: "'a page_scheme \<Rightarrow> 'a page_scheme" where
  [js_eval]: "editor_focus p = emit (StartInterval ''editor_inter'' 200) p"

definition editor_blur :: "'a page_scheme \<Rightarrow> 'a page_scheme" where
  [js_eval]: "editor_blur p = emit (StopTimer ''editor_inter'') p"

section \<open>Cookies\<close>

text \<open>The search is for the name as a piece of the whole cookie string.\<close>

definition getcookie :: "jstr \<Rightarrow> jstr \<Rightarrow> jstr" where
  [js_eval]: "getcookie cookie name =
     (case index_of name cookie of
        None \<Rightarrow> []
      | Some cookie_start \<Rightarrow>
          let cookie_end = (case index_of_from (js '';'') cookie cookie_start of
                              Some k \<Rightarrow> if k > cookie_start then k else length cookie
                            | None \<Rightarrow> length cookie)
          in unescape (substring cookie (cookie_start + length name + 1) cookie_end))"

section \<open>The form\<close>

definition form_html :: "blog_env \<Rightarrow> jstr" where
  [js_eval]: \<open>form_html env =
     (js ''<a name="commentbox"></a><a name="reply"></a><a name="quote"></a><form action="/'') @ username env
     @ (js ''/comment/submit?id='') @ fileName env @ (js ''" method="post" onsubmit="return subform(this);"><div class="commentform"><div class="panel_head'' @
    js ''">'' @ [21457, 34920, 35780, 35770] @ js ''</div><ul><li class="left">'' @ [29992] @
    js '' '' @ [25143] @ js '' '' @ [21517, 65306] @ js ''</li><li class="right">'')
     @ currentUserName env
     @ (js ''</li></ul><ul><li class="left">'' @ [35780, 35770, 20869, 23481, 65306] @
    js ''</li><li class="right" style="position:relative;"><div id="ubbtools"><a href="#insertcode" code='' @
    js ''"code"><img src="'')
     @ static_host env
     @ (js ''/images/ubb/code.gif" border="0" alt="'' @ [25554, 20837, 20195, 30721] @ js ''" title="'' @
    [25554, 20837, 20195, 30721] @
    js ''"/></a></div><div id="lang_list" style="position: absolute; top: 28px; left: 0px; display: none;'' @
    js ''"></div><textarea class="comment_content" name="comment_content" id="comment_content" style="wid'' @
    js ''th: 400px; height: 200px;"></textarea></li></ul><ul><input type="hidden" id="comment_replyId" na'' @
    js ''me="comment_replyId" /><input type="hidden" id="comment_userId" name="comment_userId" value="521'' @
    js ''203" /><input type="hidden" id="commentId" name="commentId" value="" /><input type="submit" clas'' @
    js ''s="comment_btn" value="'' @ [25552, 20132] @
    js ''" />&nbsp;&nbsp;<span id="tip_comment" style="color: Red; display: none;"></span></ul></div></fo'' @
    js ''rm>'')\<close>

text \<open>The visitor may write when the page or the cookie names him.\<close>

definition may_comment :: "blog_env \<Rightarrow> jstr \<Rightarrow> bool" where
  [js_eval]: \<open>may_comment env cookie \<longleftrightarrow> \<not> islock env \<and>
     (currentUserName env \<noteq> [] \<or> to_lower (getcookie cookie (js ''UserName'')) \<noteq> [])\<close>

text \<open>\<open>None\<close> is the exception of \<open>encodeURIComponent\<close>.\<close>

definition load_comment_form :: "blog_env \<Rightarrow> jstr \<Rightarrow> cpage \<Rightarrow> cpage option" where
  [js_eval]: \<open>load_comment_form env cookie p =
     map_option (emit (Call ''ubb_event'' []))
      (if islock env then Some (set_html ''#comment_form'' (js ''<div class='' @ [39] @ js ''notice'' @ [39] @ js ''>'' @
    [35813, 25991, 31456, 24050, 34987, 31105, 27490, 35780, 35770, 65281] @ js ''</div>'') p)
       else if may_comment env cookie then Some (set_html ''#comment_form'' (form_html env) p)
       else map_option (\<lambda>curl. set_html ''#comment_form''
              ((js ''<div class="guest_link">'' @ [24744, 36824, 27809, 26377, 30331, 24405] @ js '','' @ [35831] @
    js ''<a href="javascript:void(0);" onclick="javascript:loginbox();">['' @ [30331, 24405] @
    js '']</a>'' @ [25110] @ js ''<a href="http://passport.csdn.net/account/register?from='')
               @ curl @ (js ''">['' @ [27880, 20876] @ js '']</a></div>'')) p)
              (encodeURIComponent (href env)))\<close>

section \<open>The list\<close>

definition noComments :: "cpage \<Rightarrow> cpage" where
  [js_eval]: \<open>noComments p =
     set_html listId (js ''<br />&nbsp;&nbsp;'' @ [26242, 26080, 35780, 35770] @
    js ''<br /><br /><div class="clear"></div>'') p\<close>

text \<open>\<open>url[i]\<close> in a concatenation.\<close>

definition at_or_undefined :: "jstr list \<Rightarrow> nat \<Rightarrow> jstr" where
  [js_eval]: "at_or_undefined xs i = (if i < length xs then xs ! i else js ''undefined'')"

text \<open>\<open>parseInt(pageIndex) || 1\<close>\<close>

definition page_number :: "jstr \<Rightarrow> int" where
  [js_eval]: "page_number s = (case parse_int s of None \<Rightarrow> 1 | Some n \<Rightarrow> if n = 0 then 1 else n)"

definition comments_url :: "blog_env \<Rightarrow> int \<Rightarrow> jstr option \<Rightarrow> jstr" where
  [js_eval]: \<open>comments_url env pageIndex sub =
     (let url = split_cu 47 (href env)
      in (js ''http://'') @ at_or_undefined url 2 @ (js ''/'') @ at_or_undefined url 3 @ (js ''/comment/list/'') @ fileName env
         @ (js ''?page='') @ int_str (if pageIndex = 0 then 1 else pageIndex)
         @ (case sub of None \<Rightarrow> [] | Some random \<Rightarrow> (js ''&_'') @ random))\<close>

text \<open>\<open>sub\<close> is the random number when the list is loaded after a submission (\<open>isSub\<close>).\<close>

definition loadList :: "blog_env \<Rightarrow> jstr \<Rightarrow> jstr option \<Rightarrow> cpage \<Rightarrow> cpage" where
  [js_eval]: \<open>loadList env pageIndex sub p =
     (if commentscount p = 0 then noComments p
      else emit (AjaxGet (comments_url env (page_number pageIndex) sub))
             (set_html ''#comments_bar'' ([27491, 22312, 21152, 36733, 35780, 35770] @ js ''...'') p))\<close>

fun list_html :: "blog_env \<Rightarrow> int \<Rightarrow> ctree list \<Rightarrow> int \<Rightarrow> jstr" where
  "list_html env n_total [] i = []"
| "list_html env n_total (t # ts) i = getItemHtml env t (n_total - i) None 0 @ list_html env n_total ts (i + 1)"

text \<open>When the forest cannot be built the call ends with the list changed and the page as it was.\<close>

definition list_loaded :: "blog_env \<Rightarrow> int \<Rightarrow> bool \<Rightarrow> comments_answer option \<Rightarrow> cpage \<Rightarrow> cpage" where
  [js_eval]: \<open>list_loaded env pageIndex isSub json p =
     (case json of
        None \<Rightarrow> noComments p
      | Some data \<Rightarrow>
          let lst = (if isSub then rlist data else clist p @ rlist data);
              p1 = p\<lparr>clist := lst\<rparr>
          in case getTopics (length lst) lst of
               None \<Rightarrow> p1
             | Some topics \<Rightarrow>
                 let n_total = (if rtotal data > 0 then rtotal data else int (length topics));
                     p2 = set_html listId (list_html env n_total topics 0 @ (js ''<div class="clear"></div>'')) p1;
                     p3 = emit (Call ''CNick.showNickname'' [(js ''#comment_list a.username'')])
                            (emit (Call ''dp.SyntaxHighlighter.HighlightAll'' [js ''code2'']) p2);
                     p4 = (if rPageIndex data \<ge> rPageCount data then set_shown ''#comment_bar'' False p3
                           else set_html ''#comment_bar''
                             ((js ''<div id="load_comments" page="'') @ int_str (pageIndex + 1) @ (js ''">'' @ [26597, 30475, 26356, 22810, 35780, 35770] @ js ''</div>'')) p3)
                 in emit (Call ''setBtnEvent'' []) p4)\<close>

section \<open>The buttons of a comment\<close>

definition setEditorFocus :: "'a page_scheme \<Rightarrow> 'a page_scheme" where
  [js_eval]: "setEditorFocus p =
     (let v = val_of editorId p in set_val editorId v (emit (Focus editorId) (set_val editorId [] p)))"

text \<open>\<open>None\<close>: the comment is not in the list and \<open>comment.Content\<close> throws.\<close>

definition quoteComment :: "int \<Rightarrow> comment list \<Rightarrow> 'a page_scheme \<Rightarrow> 'a page_scheme option" where
  [js_eval]: \<open>quoteComment commentId lst p =
     (case getComment commentId lst of
        None \<Rightarrow> None
      | Some c \<Rightarrow>
          let content = (if length (Content c) > 50 then substring (Content c) 0 50 @ (js ''...'') else Content c)
          in Some (set_val editorId
               ((js ''[quote='') @ (case UserName c of None \<Rightarrow> ([28216, 23458]) | Some u \<Rightarrow> u) @ (js '']'') @ content @ (js ''[/quote]'' @ [13, 10])) p))\<close>

definition replyComment :: "int \<Rightarrow> comment list \<Rightarrow> 'a page_scheme \<Rightarrow> 'a page_scheme option" where
  [js_eval]: \<open>replyComment commentId lst p =
     (case getComment commentId lst of
        None \<Rightarrow> None
      | Some c \<Rightarrow> Some (set_val ''#comment_replyId'' (int_str commentId)
             (set_val editorId ((js ''[reply]'') @ js_opt (UserName c) @ (js ''[/reply]'' @ [13, 10])) p)))\<close>

definition reportComment :: "int \<Rightarrow> 'a page_scheme \<Rightarrow> 'a page_scheme" where
  [js_eval]: "reportComment commentId p = emit (Call ''report'' [int_str commentId, js ''3'']) p"

definition item_sel :: "int \<Rightarrow> selector" where
  [js_eval]: "item_sel i = ''#comment_item_'' @ map char_of (int_str i)"

definition deleteComment :: "blog_env \<Rightarrow> int \<Rightarrow> bool \<Rightarrow> 'a page_scheme \<Rightarrow> 'a page_scheme" where
  [js_eval]: \<open>deleteComment env commentId confirmed p =
     (let p1 = emit (Ask ([20320, 30830, 23450, 35201, 21024, 38500, 36825, 31687, 35780, 35770, 21527, 65311])) p
      in if \<not> confirmed then p1
         else emit (AjaxGet (blog_address env @ (js ''/comment/delete?commentid='') @ int_str commentId
                       @ (js ''&filename='') @ fileName env)) p1)\<close>

definition comment_deleted :: "int \<Rightarrow> int \<Rightarrow> 'a page_scheme \<Rightarrow> 'a page_scheme" where
  [js_eval]: \<open>comment_deleted commentId answer_result p =
     (if answer_result = 1 then set_shown (item_sel commentId) False p
      else emit (Alert ([20320, 27809, 26377, 21024, 38500, 35813, 35780, 35770, 30340, 26435, 38480, 65281])) p)\<close>

text \<open>The part of the link after the last \<open>#\<close>, itself included.\<close>

definition link_action :: "jstr \<Rightarrow> jstr" where
  [js_eval]: "link_action link = substring_from link (case last_index_of (js ''#'') link of None \<Rightarrow> 0 | Some k \<Rightarrow> k)"

text \<open>The handler returns the page and whether the browser may follow the link.\<close>

definition comment_click ::
  "blog_env \<Rightarrow> jstr \<Rightarrow> int \<Rightarrow> bool \<Rightarrow> cpage \<Rightarrow> (cpage \<times> bool) option" where
  [js_eval]: "comment_click env link commentId confirmed p =
     (let action = link_action link in
      if action = js ''#reply'' then
        (if currentUserName env \<noteq> []
         then map_option (\<lambda>q. (setEditorFocus q, True)) (replyComment commentId (clist p) p) else Some (p, True))
      else if action = js ''#quote'' then
        (if currentUserName env \<noteq> []
         then map_option (\<lambda>q. (setEditorFocus q, True)) (quoteComment commentId (clist p) p) else Some (p, True))
      else if action = js ''#report'' then Some (reportComment commentId p, False)
      else if action = js ''#delete'' then Some (deleteComment env commentId confirmed p, False)
      else Some (p, True))"

definition comment_mouseover :: "int \<Rightarrow> 'a page_scheme \<Rightarrow> 'a page_scheme" where
  [js_eval]: "comment_mouseover commentId p = set_shown (item_sel commentId @ '' .comment_manage'') True p"

definition comment_mouseout :: "int \<Rightarrow> 'a page_scheme \<Rightarrow> 'a page_scheme" where
  [js_eval]: "comment_mouseout commentId p = set_shown (item_sel commentId @ '' .comment_manage'') False p"

definition load_more :: "blog_env \<Rightarrow> jstr \<Rightarrow> cpage \<Rightarrow> cpage" where
  [js_eval]: "load_more env page_attr p = loadList env page_attr None p"

section \<open>The mark-up buttons\<close>

definition ubb_click :: "jstr \<Rightarrow> jstr \<Rightarrow> 'a page_scheme \<Rightarrow> 'a page_scheme" where
  [js_eval]: \<open>ubb_click code selectedValue p =
     (let p1 = emit (Focus editorId) p
      in if code = js ''code'' then set_shown ''#lang_list'' True p1
         else set_val editorId ((js ''['') @ code @ (js '']'') @ selectedValue @ (js ''[/'') @ code @ (js '']'')) p1)\<close>

definition lang_click :: "jstr \<Rightarrow> jstr \<Rightarrow> 'a page_scheme \<Rightarrow> 'a page_scheme" where
  [js_eval]: \<open>lang_click link selectedValue p =
     (let lang = (case split_cu 35 link of _ # x # _ \<Rightarrow> trim x | _ \<Rightarrow> [])
      in set_shown ''#lang_list'' False
           (set_val editorId ((js ''[code='') @ lang @ (js '']'' @ [10]) @ selectedValue @ ([10] @ js ''[/code]'')) p))\<close>

definition editor_click :: "'a page_scheme \<Rightarrow> 'a page_scheme" where
  [js_eval]: "editor_click p = set_shown ''#lang_list'' False p"

section \<open>Submission\<close>

definition comment_post :: "jstr \<Rightarrow> cpage \<Rightarrow> effect" where
  [js_eval]: "comment_post url p = AjaxPost url
     [(''commentid'', val_of ''#commentId'' p), (''content'', trim (val_of editorId p)),
      (''replyId'', val_of ''#comment_replyId'' p), (''boleattohome'', val_of ''#boleattohome'' p)]"

text \<open>The form is never submitted by the browser: the handler returns \<open>false\<close> on every branch.\<close>

definition subform :: "jstr \<Rightarrow> cpage \<Rightarrow> cpage" where
  [js_eval]: \<open>subform url p =
     (if c_doing p then p
      else if trim (val_of editorId p) = [] then commentTip ([35780, 35770, 20869, 23481, 27809, 26377, 22635, 20889] @ js ''!'') p
      else if length (trim (val_of editorId p)) > 1000 then commentTip ([35780, 35770, 20869, 23481, 22826, 38271, 20102, 65292, 19981, 33021, 36229, 36807] @
    js ''1000'' @ [20010, 23383, 31526, 65281]) p
      else emit (comment_post url p)
             ((set_disabled submitId True (set_disabled editorId True (commentTip ([27491, 22312, 21457, 34920, 35780, 35770] @ js ''...'') p)))
                \<lparr>c_doing := True\<rparr>))\<close>

definition subform_success :: "blog_env \<Rightarrow> jstr \<Rightarrow> bool \<Rightarrow> jstr \<Rightarrow> jstr \<Rightarrow> cpage \<Rightarrow> cpage" where
  [js_eval]: \<open>subform_success env content accepted random elapsed p =
     (let p1 = commentTip content (p\<lparr>c_doing := False\<rparr>)
      in if \<not> accepted then p1
         else
           let rcommentid = val_of ''#comment_replyId'' p1;
               p2 = set_val ''#comment_verifycode'' [] (set_val ''#comment_replyId'' [] (set_val editorId [] p1));
               p3 = loadList env (js ''1'') (Some random) (p2\<lparr>commentscount := commentscount p2 + 1\<rparr>);
               p4 = set_disabled submitId False (set_disabled editorId False p3);
               p5 = commentTip (([21457, 34920, 25104, 21151, 65281, 35780, 35770, 32791, 26102] @ js '':'') @ elapsed @ ([27627, 31186])) p4
           in if rcommentid \<noteq> [] then emit (Call ''scroll'' [(js ''#comment_item_'') @ rcommentid]) p5 else p5)\<close>

section \<open>The start\<close>

definition init_comment :: "blog_env \<Rightarrow> jstr \<Rightarrow> cpage \<Rightarrow> cpage option" where
  [js_eval]: \<open>init_comment env cookie p =
     (case load_comment_form env cookie p of
        None \<Rightarrow> None
      | Some p1 \<Rightarrow>
          let p2 = (if may_comment env cookie
                    then append_html ''#lang_list'' (js ''<a class="long_name" href="#html">HTML/XML</a><a class="long_name" href="#objc">objective-c</a><'' @
    js ''a class="zhong_name" href="#delphi">Delphi</a><a  class="zhong_name" href="#ruby">Ruby</a><a hre'' @
    js ''f="#php">PHP</a><a class="duan_name" href="#csharp">C#</a><a style=" border-right: none;"  class'' @
    js ''="duan_name" href="#cpp">C++</a><a style=" border-bottom:none;"class="long_name" href="#javascri'' @
    js ''pt">JavaScript</a><a style=" border-bottom:none;" class="long_name" href="#vb">Visual Basic</a><'' @
    js ''a style=" border-bottom:none;" class="zhong_name" href="#python">Python</a><a style=" border-bot'' @
    js ''tom:none;" class="zhong_name" href="#java">Java</a><a style="border-bottom:none;" class="duan_na'' @
    js ''me" href="#css">CSS</a><a style="border-bottom:none;" class="duan_name" href="#sql">SQL</a><a st'' @
    js ''yle="border:none;"  class="duan_name" href="#plain">'' @ [20854, 23427] @ js ''</a>'') p1 else p1)
          in Some (loadList env (js ''1'') None p2))\<close>

section \<open>A quote is shown as a quote\<close>

definition quoted_name :: "comment \<Rightarrow> jstr" where
  [js_eval]: \<open>quoted_name c = (case UserName c of None \<Rightarrow> ([28216, 23458]) | Some u \<Rightarrow> u)\<close>

definition quoted_text :: "comment \<Rightarrow> jstr" where
  [js_eval]: \<open>quoted_text c = (if length (Content c) > 50 then take 50 (Content c) @ (js ''...'') else Content c)\<close>

lemma quoteComment_val:
  assumes "getComment i lst = Some c" "quoteComment i lst p = Some q"
  shows \<open>val_of editorId q = (js ''[quote='') @ quoted_name c @ 93 # quoted_text c @ (js ''[/quote]'') @ [13, 10]\<close>
  using assms by (auto simp: quoteComment_def quoted_name_def quoted_text_def Let_def substring_0 js_def)



section \<open>One submission at a time\<close>

definition is_post :: "effect \<Rightarrow> bool" where
  [js_eval]: "is_post e = (case e of AjaxPost u d \<Rightarrow> True | _ \<Rightarrow> False)"

definition posts :: "'a page_scheme \<Rightarrow> nat" where
  [js_eval]: "posts p = length (filter is_post (effects p))"

lemma posts_emit [simp]: "posts (emit e p) = posts p + (if is_post e then 1 else 0)"
  by (simp add: posts_def)

lemma posts_effects: "effects p = effects q \<Longrightarrow> posts p = posts q"
  by (simp add: posts_def)

lemma posts_frame [simp]:
  "posts (set_html s h p) = posts p" "posts (set_val s h p) = posts p" "posts (set_shown s b p) = posts p"
  "posts (set_disabled s b p) = posts p" "posts (c_doing_update f q) = posts q"
  "posts (clist_update g q) = posts q" "posts (commentscount_update k q) = posts q"
  by (rule posts_effects, simp)+

lemma doing_frame [simp]:
  "c_doing (set_html s h p) = c_doing p" "c_doing (set_val s h p) = c_doing p"
  "c_doing (set_shown s b p) = c_doing p" "c_doing (set_disabled s b p) = c_doing p" "c_doing (emit e p) = c_doing p"
  by (simp_all add: page_upd_defs)

lemma disabled_cpage [simp]:
  "disabled s (c_doing_update f q) = disabled s q" "disabled s (clist_update g q) = disabled s q"
  "disabled s (commentscount_update k q) = disabled s q"
  by (simp_all add: disabled_def attr_of_def)

lemma commentTip_frame [simp]:
  "posts (commentTip m p) = posts p" "c_doing (commentTip m q) = c_doing q"
  "disabled s (commentTip m p) = disabled s p" "val_of s (commentTip m p) = val_of s p"
  by (simp_all add: commentTip_def is_post_def)

lemma loadList_frame [simp]:
  "posts (loadList env i s p) = posts p" "c_doing (loadList env i s p) = c_doing p"
  "disabled sel (loadList env i s p) = disabled sel p"
  by (simp_all add: loadList_def noComments_def is_post_def)

lemma list_loaded_frame [simp]:
  "posts (list_loaded env i b d p) = posts p" "c_doing (list_loaded env i b d p) = c_doing p"
  "disabled sel (list_loaded env i b d p) = disabled sel p"
  by (auto simp: list_loaded_def noComments_def is_post_def Let_def split: option.splits)

text \<open>
  The page with the number of submissions in flight. The visitor types while the editor is enabled and
  submits; the server answers, or the request fails, which the code does not handle; lists arrive and
  the hint times out.
\<close>

inductive sub_step :: "blog_env \<Rightarrow> jstr \<Rightarrow> cpage \<times> nat \<Rightarrow> cpage \<times> nat \<Rightarrow> bool" for env url where
  sub_type: "\<not> disabled editorId p \<Longrightarrow> sub_step env url (p, n) (set_val editorId v p, n)"
| sub_submit: "sub_step env url (p, n) (subform url p, n + (posts (subform url p) - posts p))"
| sub_answer: "n > 0 \<Longrightarrow> sub_step env url (p, n) (subform_success env content ok random elapsed p, n - 1)"
| sub_fail: "n > 0 \<Longrightarrow> sub_step env url (p, n) (p, n - 1)"
| sub_list: "sub_step env url (p, n) (list_loaded env i b d p, n)"
| sub_tip: "sub_step env url (p, n) (commentTip_timeout p, n)"

inductive_cases sub_stepE: "sub_step env url s t"

definition sub_inv :: "cpage \<times> nat \<Rightarrow> bool" where
  "sub_inv s \<longleftrightarrow> snd s \<le> 1 \<and> (snd s = 1 \<longrightarrow> c_doing (fst s)) \<and> (c_doing (fst s) \<longrightarrow> disabled editorId (fst s))"

lemma subform_cases:
  "subform url p = p \<and> c_doing p \<or>
   (\<exists>m. subform url p = commentTip m p) \<or>
   (\<not> c_doing p \<and> posts (subform url p) = Suc (posts p) \<and> c_doing (subform url p) \<and> disabled editorId (subform url p))"
  by (auto simp: subform_def comment_post_def is_post_def)

lemma sub_inv_step: "sub_step env url s t \<Longrightarrow> sub_inv s \<Longrightarrow> sub_inv t"
proof (induction rule: sub_step.induct)
  case (sub_submit p n)
  then show ?case using subform_cases[of url p] by (auto simp: sub_inv_def)
next
  case (sub_answer n content ok random elapsed p)
  then show ?case by (auto simp: sub_inv_def subform_success_def Let_def)
qed (auto simp: sub_inv_def commentTip_timeout_def)

lemma sub_inv_reachable: "(sub_step env url)\<^sup>*\<^sup>* s t \<Longrightarrow> sub_inv s \<Longrightarrow> sub_inv t"
  by (induction rule: rtranclp_induct) (auto intro: sub_inv_step)

text \<open>C4: from a page on which nothing is being submitted, whatever the visitor and the server do, at most one
  submission is in flight, and while it is the flag is set and the editor is disabled.\<close>

theorem one_submission:
  assumes "(sub_step env url)\<^sup>*\<^sup>* (p0, 0) (p, n)" "\<not> c_doing p0"
  shows "n \<le> 1 \<and> (n = 1 \<longrightarrow> c_doing p \<and> disabled editorId p)"
  using sub_inv_reachable[OF assms(1)] assms(2) by (auto simp: sub_inv_def)

definition sample_page :: cpage where
  [js_eval]: "sample_page = page.extend (set_val editorId (js ''hi'') blank_page)
     \<lparr>clist = [], commentscount = 2, c_doing = False\<rparr>"

lemma sample_submitted:
  "posts (subform (js ''/s'') sample_page) - posts sample_page = 1"
  by (simp add: subform_def sample_page_def page_defs blank_page_def blank_elem_def page.defs posts_def is_post_def
      comment_post_def commentTip_def js_def trim_def ltrim_def is_ws_def)

theorem one_submission_witness:
  "c_doing (subform (js ''/s'') sample_page) \<and> disabled editorId (subform (js ''/s'') sample_page)"
proof -
  have "sub_step sample_env (js ''/s'') (sample_page, 0) (subform (js ''/s'') sample_page, 1)"
    using sub_submit[of sample_env "js ''/s''" sample_page 0] by (simp add: sample_submitted)
  then have "(sub_step sample_env (js ''/s''))\<^sup>*\<^sup>* (sample_page, 0) (subform (js ''/s'') sample_page, 1)"
    by (rule r_into_rtranclp)
  moreover have "\<not> c_doing sample_page" by (simp add: sample_page_def page.defs)
  ultimately show ?thesis using one_submission by blast
qed

text \<open>A submission that fails is never answered, so the flag stays set and no comment can be sent any more.\<close>

lemma lost_submission_blocks:
  assumes "(sub_step env url)\<^sup>*\<^sup>* (p, 0) (q, n)" "c_doing p"
  shows "n = 0 \<and> c_doing q \<and> posts q = posts p"
proof -
  have "(sub_step env url)\<^sup>*\<^sup>* s t \<Longrightarrow> snd s = 0 \<Longrightarrow> c_doing (fst s) \<Longrightarrow>
      snd t = 0 \<and> c_doing (fst t) \<and> posts (fst t) = posts (fst s)" for s t
  proof (induction rule: rtranclp_induct)
    case (step t u)
    from step(2) step(3)[OF step(4,5)] show ?case
      by (elim sub_stepE) (auto simp: subform_def commentTip_timeout_def)
  qed auto
  from this[OF assms(1)] assms(2) show ?thesis by simp
qed

text \<open>A submission the server rejects leaves the editor disabled: the visitor cannot correct the comment.\<close>

lemma rejected_stays_disabled:
  "disabled editorId (subform_success env content False random elapsed p) = disabled editorId p"
  by (simp add: subform_success_def Let_def)

section \<open>Reading a cookie\<close>

text \<open>When the first occurrence of the name in the cookie string is the name of a cookie, the value of
  this cookie is returned, unescaped; it ends at the next semicolon or at the end of the string.\<close>

theorem getcookie_reads:
  assumes "find_sub name (pre @ name @ 61 # v @ post) = Some (length pre)" "59 \<notin> set name" "59 \<notin> set v"
    "post = [] \<or> hd post = 59" "name \<noteq> []"
  shows "getcookie (pre @ name @ 61 # v @ post) name = unescape v"
proof -
  let ?c = "pre @ name @ 61 # v @ post" and ?k = "length pre + length name + 1 + length v"
  have find: "find_sub [59] ((name @ 61 # v) @ post) = (if post = [] then None else Some (length name + 1 + length v))"
    using assms(2-4) by (subst find_sub_single) (cases post, auto)+
  have from_name: "index_of_from [59] ?c (length pre) = (if post = [] then None else Some ?k)"
    using find by (simp add: index_of_from_def)
  have "substring ?c (length pre + length name + 1) ?k = v"
    by (simp add: substring_def)
  moreover have "post = [] \<Longrightarrow> length ?c = ?k" by simp
  ultimately show ?thesis using from_name
    using assms(1) by (cases "post = []") (simp_all add: getcookie_def index_of_def js_def Let_def add.assoc)
qed

theorem getcookie_reads_witness:
  \<open>getcookie (js ''a=1; UserName=%41nn; b=2'') (js ''UserName'') = (js ''Ann'')\<close>
proof -
  have \<open>find_sub (js ''UserName'') ((js ''a=1; '') @ (js ''UserName'') @ 61 # (js ''%41nn'') @ (js ''; b=2'')) = Some (length (js ''a=1; ''))\<close>
    by code_simp
  moreover have \<open>59 \<notin> set (js ''UserName'')\<close> \<open>59 \<notin> set (js ''%41nn'')\<close> \<open>hd (js ''; b=2'') = 59\<close> \<open>(js ''UserName'') \<noteq> []\<close>
    by (simp_all add: js_def)
  ultimately have \<open>getcookie ((js ''a=1; '') @ (js ''UserName'') @ 61 # (js ''%41nn'') @ (js ''; b=2'')) (js ''UserName'') = unescape (js ''%41nn'')\<close>
    using getcookie_reads by blast
  moreover have \<open>unescape (js ''%41nn'') = (js ''Ann'')\<close> by code_simp
  moreover have \<open>(js ''a=1; UserName=%41nn; b=2'') = (js ''a=1; '') @ (js ''UserName'') @ 61 # (js ''%41nn'') @ (js ''; b=2'')\<close>
    by (simp add: js_def)
  ultimately show ?thesis by simp
qed

text \<open>A name that stands inside another one is found first.\<close>

lemma getcookie_wrong:
  \<open>getcookie (js ''LastUserName=bob; UserName=ann'') (js ''UserName'') = (js ''bob'')\<close>
  by code_simp

end
