(* ===== verification/Highlighter.thy ===== *)
theory Highlighter
  imports JsRegex Page
begin

text \<open>
  The syntax highlighter (\<open>newblog.js\<close>, \<open>dp.sh.Highlighter\<close>): the code of an element is unindented,
  its tabs become spaces, the expressions of the brush are matched, matches that start inside another
  one are dropped, and the text is written as spans, which are then turned into a numbered list.

  The content of the element built is a list of nodes; reading \<open>innerHTML\<close> back gives what was
  written into the nodes with the tags around it.
\<close>

section \<open>Matches\<close>

record hl_match =
  m_value :: jstr
  m_index :: nat
  m_css :: jstr

definition m_length :: "hl_match \<Rightarrow> nat" where
  [js_eval]: "m_length m = length (m_value m)"

definition mk_match :: "jstr \<Rightarrow> nat \<Rightarrow> jstr \<Rightarrow> hl_match" where
  [js_eval]: "mk_match v i c = \<lparr>m_value = v, m_index = i, m_css = c\<rparr>"

definition SortCallback :: "hl_match \<Rightarrow> hl_match \<Rightarrow> int" where
  [js_eval]: "SortCallback b c =
     (if m_index b < m_index c then -1
      else if m_index b > m_index c then 1
      else if m_length b < m_length c then -1
      else if m_length b > m_length c then 1
      else 0)"

text \<open>
  The loop of \<open>GetMatches\<close>. An empty match leaves \<open>lastIndex\<close> where it is, so the loop finds it for
  ever: \<open>None\<close>.
\<close>

function GetMatches_from :: "rflags \<Rightarrow> rx \<Rightarrow> jstr \<Rightarrow> jstr \<Rightarrow> nat \<Rightarrow> hl_match list option" where
  "GetMatches_from fl r code css lastIndex =
     (case rx_exec_g fl r code lastIndex of
        (None, _) \<Rightarrow> Some []
      | (Some d, l) \<Rightarrow>
          if l = fst d then None
          else map_option ((#) (mk_match (match_text code d) (fst d) css)) (GetMatches_from fl r code css l))"
  by pat_completeness auto
termination
proof (relation "measure (\<lambda>(fl, r, code, css, l). Suc (length code) - l)", goal_cases)
  case (2 fl r code css l x y d)
  then have "rx_exec_g fl r code l = (Some d, y)" by simp
  from rx_exec_g_bounds[OF this] 2 show ?case by auto
qed simp

declare GetMatches_from.simps [simp del]

record hl_rule =
  r_rx :: rx
  r_flags :: rflags
  r_css :: jstr

definition mk_rule :: "rx \<Rightarrow> rflags \<Rightarrow> jstr \<Rightarrow> hl_rule" where
  [js_eval]: "mk_rule r fl c = \<lparr>r_rx = r, r_flags = fl, r_css = c\<rparr>"

definition GetMatches :: "jstr \<Rightarrow> hl_rule \<Rightarrow> hl_match list \<Rightarrow> hl_match list option" where
  [js_eval]: "GetMatches code r matches =
     map_option (\<lambda>ms. matches @ ms) (GetMatches_from (r_flags r) (r_rx r) code (r_css r) 0)"

fun ProcessRegexList :: "jstr \<Rightarrow> hl_rule list \<Rightarrow> hl_match list \<Rightarrow> hl_match list option" where
  "ProcessRegexList code [] matches = Some matches"
| "ProcessRegexList code (r # rs) matches =
     (case GetMatches code r matches of None \<Rightarrow> None | Some ms \<Rightarrow> ProcessRegexList code rs ms)"

text \<open>A match of the code: the text at its index, not empty.\<close>

definition match_of :: "jstr \<Rightarrow> hl_match \<Rightarrow> bool" where
  "match_of code m \<longleftrightarrow> m_index m + m_length m \<le> length code \<and> 0 < m_length m \<and>
     m_value m = slice code (m_index m) (m_index m + m_length m)"

lemma GetMatches_from_matches:
  "GetMatches_from fl r code css l = Some ms \<Longrightarrow> \<forall>m \<in> set ms. match_of code m \<and> m_css m = css"
proof (induction fl r code css l arbitrary: ms rule: GetMatches_from.induct)
  case (1 fl r code css l)
  show ?case
  proof (cases "rx_exec_g fl r code l")
    case (Pair d l')
    show ?thesis
    proof (cases d)
      case None
      then show ?thesis using 1(2) Pair by (simp add: GetMatches_from.simps[of fl r code css l])
    next
      case (Some m)
      note b = rx_exec_g_bounds[of fl r code l m l', OF Pair[unfolded Some]]
      obtain ms' where ms': "l' \<noteq> fst m" "GetMatches_from fl r code css l' = Some ms'"
        "ms = mk_match (match_text code m) (fst m) css # ms'"
        using 1(2) Pair Some by (auto simp: GetMatches_from.simps[of fl r code css l] split: if_splits)
      have "match_of code (mk_match (match_text code m) (fst m) css)"
        using b ms'(1) by (auto simp: match_of_def mk_match_def m_length_def match_text_def slice_def)
      then show ?thesis
        using 1(1)[OF Pair[symmetric] Some _ ms'(2)] ms'(1,3) by (auto simp: mk_match_def)
    qed
  qed
qed

lemma GetMatches_from_returns:
  "0 < min_len r \<Longrightarrow> \<exists>ms. GetMatches_from fl r code css l = Some ms"
proof (induction fl r code css l rule: GetMatches_from.induct)
  case (1 fl r code css l)
  show ?case
  proof (cases "rx_exec_g fl r code l")
    case (Pair d l')
    show ?thesis
    proof (cases d)
      case None
      then show ?thesis using Pair by (simp add: GetMatches_from.simps[of fl r code css l])
    next
      case (Some m)
      note b = rx_exec_g_bounds[of fl r code l m l', OF Pair[unfolded Some]]
      then have "l' \<noteq> fst m" using 1(2) by auto
      then show ?thesis
        using 1(1)[OF Pair[symmetric] Some _ 1(2)] Pair Some by (auto simp: GetMatches_from.simps[of fl r code css l])
    qed
  qed
qed

definition rules_ok :: "hl_rule list \<Rightarrow> bool" where
  [js_eval]: "rules_ok rs \<longleftrightarrow> list_all (\<lambda>r. 0 < min_len (r_rx r)) rs"

lemma ProcessRegexList_matches:
  "ProcessRegexList code rs ms = Some ms' \<Longrightarrow> \<forall>m \<in> set ms. match_of code m \<Longrightarrow> \<forall>m \<in> set ms'. match_of code m"
proof (induction rs arbitrary: ms)
  case (Cons r rs)
  then obtain ks where "GetMatches_from (r_flags r) (r_rx r) code (r_css r) 0 = Some ks"
    "ProcessRegexList code rs (ms @ ks) = Some ms'"
    by (auto simp: GetMatches_def split: option.splits)
  then show ?case using Cons GetMatches_from_matches by fastforce
qed simp

lemma ProcessRegexList_returns: "rules_ok rs \<Longrightarrow> \<exists>ms'. ProcessRegexList code rs ms = Some ms'"
proof (induction rs arbitrary: ms)
  case (Cons r rs)
  then obtain ks where "GetMatches_from (r_flags r) (r_rx r) code (r_css r) 0 = Some ks"
    using GetMatches_from_returns[of "r_rx r" "r_flags r" code "r_css r" 0] by (auto simp: rules_ok_def)
  then show ?case using Cons by (auto simp: GetMatches_def rules_ok_def)
qed simp

section \<open>Sorting\<close>

fun sort_insert :: "hl_match \<Rightarrow> hl_match list \<Rightarrow> hl_match list" where
  "sort_insert m [] = [m]"
| "sort_insert m (k # ks) = (if SortCallback m k \<le> 0 then m # k # ks else k # sort_insert m ks)"

text \<open>\<open>matches.sort(SortCallback)\<close>: the order is total up to equal index and length.\<close>

definition sort_matches :: "hl_match list \<Rightarrow> hl_match list" where
  [js_eval]: "sort_matches ms = foldr sort_insert ms []"

definition match_le :: "hl_match \<Rightarrow> hl_match \<Rightarrow> bool" where
  "match_le b c \<longleftrightarrow> m_index b < m_index c \<or> (m_index b = m_index c \<and> m_length b \<le> m_length c)"

lemma SortCallback_le: "SortCallback b c \<le> 0 \<longleftrightarrow> match_le b c"
  by (auto simp: SortCallback_def match_le_def)

lemma match_le_trans: "match_le a b \<Longrightarrow> match_le b c \<Longrightarrow> match_le a c"
  by (auto simp: match_le_def)

lemma set_sort_insert [simp]: "set (sort_insert m ms) = insert m (set ms)"
  by (induction ms) auto

lemma sorted_sort_insert: "sorted_wrt match_le ms \<Longrightarrow> sorted_wrt match_le (sort_insert m ms)"
proof (induction ms)
  case (Cons k ks)
  then show ?case by (auto simp: SortCallback_le dest: match_le_trans) (auto simp: match_le_def)
qed simp

lemma set_sort_matches [simp]: "set (sort_matches ms) = set ms"
  by (induction ms) (auto simp: sort_matches_def)

lemma sorted_sort_matches: "sorted_wrt match_le (sort_matches ms)"
  by (induction ms) (auto simp: sort_matches_def sorted_sort_insert)

section \<open>Matches inside others\<close>

definition IsInside :: "hl_match option list \<Rightarrow> hl_match option \<Rightarrow> bool" where
  [js_eval]: "IsInside matches b =
     (case b of None \<Rightarrow> False
      | Some m \<Rightarrow> if m_length m = 0 then False
          else list_ex (\<lambda>d. case d of None \<Rightarrow> False
                            | Some k \<Rightarrow> m_index m > m_index k \<and> m_index m < m_index k + m_length k) matches)"

definition drop_inside :: "hl_match list \<Rightarrow> hl_match option list" where
  [js_eval]: "drop_inside ms =
     fold (\<lambda>b matches. if IsInside matches (matches ! b) then matches[b := None] else matches)
       [0..<length ms] (map Some ms)"

section \<open>Pieces of the code\<close>

text \<open>The calls of \<open>AddBit\<close> with their arguments, in order; \<open>q\<close> is the end of the text written.\<close>

fun hl_pieces :: "jstr \<Rightarrow> nat \<Rightarrow> hl_match option list \<Rightarrow> (jstr \<times> jstr option) list" where
  "hl_pieces code q [] = [(substring_from code q, None)]"
| "hl_pieces code q (h # hs) =
     (case h of
        None \<Rightarrow> hl_pieces code q hs
      | Some m \<Rightarrow>
          if m_length m = 0 then hl_pieces code q hs
          else (substr code (int q) (int (m_index m) - int q), None) # (m_value m, Some (m_css m))
               # hl_pieces code (m_index m + m_length m) hs)"

definition pieces_of :: "jstr \<Rightarrow> hl_match list \<Rightarrow> (jstr \<times> jstr option) list" where
  [js_eval]: "pieces_of code ms =
     (if ms = [] then [(code, None)] else hl_pieces code 0 (drop_inside (sort_matches ms)))"

text \<open>The matches that are left.\<close>

fun somes :: "'a option list \<Rightarrow> 'a list" where
  "somes [] = []"
| "somes (x # xs) = (case x of None \<Rightarrow> somes xs | Some y \<Rightarrow> y # somes xs)"

lemma set_somes: "y \<in> set (somes xs) \<longleftrightarrow> Some y \<in> set xs"
  by (induction xs) (auto split: option.splits)

lemma sorted_somes:
  assumes "\<And>i j x y. i < j \<Longrightarrow> j < length xs \<Longrightarrow> xs ! i = Some x \<Longrightarrow> xs ! j = Some y \<Longrightarrow> R x y"
  shows "sorted_wrt R (somes xs)"
  using assms
proof (induction xs)
  case (Cons a xs)
  have "sorted_wrt R (somes xs)" using Cons.IH Cons.prems[of "Suc _" "Suc _"] by simp
  moreover have "R x y" if xy: "a = Some x" "y \<in> set (somes xs)" for x y
  proof -
    have "Some y \<in> set xs" using xy(2) by (simp add: set_somes)
    then obtain i where "i < length xs" "xs ! i = Some y" by (metis in_set_conv_nth)
    then show ?thesis using Cons.prems[of 0 "Suc i"] xy(1) by simp
  qed
  ultimately show ?case by (auto split: option.splits)
qed simp

definition survivors :: "hl_match list \<Rightarrow> hl_match list" where
  [js_eval]: "survivors ms = somes (drop_inside (sort_matches ms))"

text \<open>Matches that follow each other from \<open>q\<close> on.\<close>

fun follow :: "nat \<Rightarrow> hl_match list \<Rightarrow> bool" where
  "follow q [] = True"
| "follow q (m # ms) = (q \<le> m_index m \<and> follow (m_index m + m_length m) ms)"

lemma pieces_cover:
  assumes "\<forall>m \<in> set (somes hs). match_of code m"
    "follow q (somes hs)" "q \<le> length code"
  shows "concat (map fst (hl_pieces code q hs)) = drop q code"
  using assms
proof (induction code q hs rule: hl_pieces.induct)
  case (1 code q)
  then show ?case by (simp add: substring_from_def substring_def)
next
  case (2 code q h hs)
  show ?case
  proof (cases h)
    case None
    then show ?thesis using 2 by simp
  next
    case (Some m)
    have m: "match_of code m" "q \<le> m_index m" using 2(4,5) Some by auto
    then have "m_length m \<noteq> 0" "m_index m + m_length m \<le> length code" by (auto simp: match_of_def)
    then have IH: "concat (map fst (hl_pieces code (m_index m + m_length m) hs)) = drop (m_index m + m_length m) code"
      using 2(3)[OF Some] 2(4,5) Some by auto
    have "substr code (int q) (int (m_index m) - int q) = slice code q (m_index m)"
      using m(2) substr_nat[of code q "m_index m - q"] by (simp add: slice_def of_nat_diff)
    moreover have "m_value m = slice code (m_index m) (m_index m + m_length m)"
      using m(1) by (simp add: match_of_def)
    moreover have "m_length m \<noteq> 0" using m(1) by (simp add: match_of_def)
    ultimately show ?thesis using Some IH m(2) by (simp add: slice_drop)
  qed
qed

text \<open>After the loop no match that is left starts strictly inside one left before it.\<close>

definition inside :: "hl_match \<Rightarrow> hl_match \<Rightarrow> bool" where
  "inside m k \<longleftrightarrow> m_index k < m_index m \<and> m_index m < m_index k + m_length k"

definition drop_step :: "nat \<Rightarrow> hl_match option list \<Rightarrow> hl_match option list" where
  "drop_step b matches = (if IsInside matches (matches ! b) then matches[b := None] else matches)"

lemma drop_inside_step: "drop_inside ms = fold drop_step [0..<length ms] (map Some ms)"
  by (simp add: drop_inside_def drop_step_def[abs_def])

lemma length_drop_step [simp]: "length (drop_step b hs) = length hs"
  by (simp add: drop_step_def)

lemma drop_step_sub: "i < length hs \<Longrightarrow> drop_step b hs ! i = None \<or> drop_step b hs ! i = hs ! i"
  by (cases "i = b") (auto simp: drop_step_def)

lemma drop_step_other: "i \<noteq> b \<Longrightarrow> drop_step b hs ! i = hs ! i"
  by (simp add: drop_step_def)

lemma drop_step_clear:
  assumes "drop_step b hs ! b = Some m" "b < length hs" "j < length hs" "drop_step b hs ! j = Some k" "0 < m_length m"
  shows "\<not> inside m k"
proof -
  have "\<not> IsInside hs (hs ! b)" using assms(1,2) by (auto simp: drop_step_def split: if_splits)
  moreover from this have "hs ! b = Some m" and k: "hs ! j = Some k" using assms(1,4) by (simp_all add: drop_step_def)
  moreover have "Some k \<in> set hs" using k assms(3) nth_mem by metis
  ultimately show ?thesis using assms(5) by (auto simp: IsInside_def inside_def list_ex_iff)
qed

text \<open>Invariant of the loop: what is left is a match of the sorted list, and the entries already
  visited are not inside an entry that is still left.\<close>

lemma drop_inside_inv:
  assumes "b \<le> length ms" "\<forall>m \<in> set ms. 0 < m_length m"
  defines "hs \<equiv> fold drop_step [0..<b] (map Some ms)"
  shows "length hs = length ms \<and> (\<forall>i < length ms. hs ! i = None \<or> hs ! i = Some (ms ! i)) \<and>
    (\<forall>i < b. \<forall>j < length ms. \<forall>m k. hs ! i = Some m \<longrightarrow> hs ! j = Some k \<longrightarrow> \<not> inside m k)"
  using assms(1) unfolding hs_def
proof (induction b)
  case (Suc b)
  let ?h = "fold drop_step [0..<b] (map Some ms)"
  have IH: "length ?h = length ms" "\<forall>i < length ms. ?h ! i = None \<or> ?h ! i = Some (ms ! i)"
    "\<forall>i < b. \<forall>j < length ms. \<forall>m k. ?h ! i = Some m \<longrightarrow> ?h ! j = Some k \<longrightarrow> \<not> inside m k"
    using Suc by auto
  have sub: "\<forall>i < length ms. drop_step b ?h ! i = None \<or> drop_step b ?h ! i = ?h ! i"
    using drop_step_sub IH(1) by metis
  have "\<not> inside m k" if "i < Suc b" "j < length ms" "drop_step b ?h ! i = Some m" "drop_step b ?h ! j = Some k" for i j m k
  proof (cases "i = b")
    case True
    then have "?h ! b = Some m" using that sub Suc.prems by (metis Suc_le_lessD option.distinct(1))
    then have "m \<in> set ms" using IH(2) Suc.prems by (metis Suc_le_lessD nth_mem option.distinct(1) option.inject)
    then show ?thesis
      using drop_step_clear[of b ?h m j k] that True IH(1) Suc.prems assms(2) by auto
  next
    case False
    then show ?thesis
      using IH(3) that sub Suc.prems by (metis less_SucE less_le_trans Suc_leD option.distinct(1))
  qed
  then show ?case using IH(1,2) sub by (auto; metis option.distinct(1))
qed auto

lemma sorted_follow:
  assumes "sorted_wrt (\<lambda>a b. match_le a b \<and> \<not> inside b a) ms" "distinct (map m_index ms)" "\<forall>m \<in> set ms. q \<le> m_index m"
  shows "follow q ms"
  using assms
proof (induction ms arbitrary: q)
  case (Cons m ms)
  have "m_index m + m_length m \<le> m_index k" if "k \<in> set ms" for k
    using Cons.prems(1,2) that by (auto simp: match_le_def inside_def)
  then show ?case using Cons by simp
qed simp

lemma survivors_follow:
  assumes "\<forall>m \<in> set ms. match_of code m" "distinct (map m_index (survivors ms))"
  shows "follow 0 (survivors ms) \<and> (\<forall>m \<in> set (survivors ms). match_of code m)"
proof -
  let ?s = "sort_matches ms" and ?hs = "drop_inside (sort_matches ms)"
  have len: "\<forall>m \<in> set ?s. 0 < m_length m" using assms(1) by (auto simp: match_of_def)
  note inv = drop_inside_inv[of "length ?s" ?s, OF le_refl len, folded drop_inside_step]
  have left: "?hs ! i = Some m \<Longrightarrow> i < length ?s \<Longrightarrow> m = ?s ! i" for i m
    using inv by (metis option.distinct(1) option.inject)
  have "match_le x y \<and> \<not> inside y x" if "i < j" "j < length ?hs" "?hs ! i = Some x" "?hs ! j = Some y" for i j x y
  proof -
    have "x = ?s ! i" "y = ?s ! j" using left that inv by auto
    then have "match_le x y" using sorted_wrt_nth_less[OF sorted_sort_matches] that inv by simp
    moreover have "\<not> inside y x"
      using inv that by (metis (no_types, lifting) less_trans)
    ultimately show ?thesis by simp
  qed
  then have "sorted_wrt (\<lambda>a b. match_le a b \<and> \<not> inside b a) (survivors ms)"
    unfolding survivors_def by (intro sorted_somes) auto
  moreover have "m \<in> set ms" if sv: "m \<in> set (survivors ms)" for m
  proof -
    have "Some m \<in> set ?hs" using sv by (simp add: survivors_def set_somes)
    then obtain i where "i < length ?hs" "?hs ! i = Some m" unfolding in_set_conv_nth by blast
    then have "m \<in> set ?s" using left inv by (metis nth_mem)
    then show ?thesis by simp
  qed
  ultimately show ?thesis using sorted_follow[of "survivors ms" 0] assms by auto
qed


section \<open>Tabs\<close>

text \<open>\<open>c(h, e, l)\<close>: the code unit at \<open>e\<close> becomes \<open>l\<close> spaces.\<close>

definition insert_spaces :: "jstr \<Rightarrow> nat \<Rightarrow> nat \<Rightarrow> jstr" where
  [js_eval]: "insert_spaces h e l =
     substr h 0 (int e) @ replicate l 32 @ substr h (int e + 1) (int (length h))"

lemma insert_spaces_eq: "insert_spaces h e l = take e h @ replicate l 32 @ drop (Suc e) h"
  using substr_nat[of h 0 e] substr_nat[of h "Suc e" "length h"] by (simp add: insert_spaces_def add.commute)

lemma count_insert_spaces:
  assumes "find_sub [9] h = Some l"
  shows "count_list (insert_spaces h l n) 9 < count_list h 9"
proof -
  have "count_list (replicate n (32 :: nat)) 9 = 0" by (simp add: count_list_0_iff)
  moreover have "count_list h 9 = count_list (take l h) 9 + 1 + count_list (drop (Suc l) h) 9"
    by (subst find_sub_SomeD[OF assms]) simp
  ultimately show ?thesis by (simp add: insert_spaces_eq)
qed

text \<open>\<open>d(h, e)\<close>: as long as there is a tab, the first one becomes the spaces up to the next stop.\<close>

function smart_tabs_line :: "jstr \<Rightarrow> nat \<Rightarrow> jstr" where
  "smart_tabs_line h e =
     (case index_of [9] h of None \<Rightarrow> h | Some l \<Rightarrow> smart_tabs_line (insert_spaces h l (e - l mod e)) e)"
  by pat_completeness auto
termination
  by (relation "measure (\<lambda>(h, e). count_list h 9)") (simp_all add: index_of_def count_insert_spaces)

declare smart_tabs_line.simps [simp del]

definition ProcessSmartTabs :: "jstr \<Rightarrow> jstr" where
  [js_eval]: "ProcessSmartTabs b = concat (map (\<lambda>l. smart_tabs_line l 4 @ [10]) (split_cu 10 b))"

text \<open>The columns of a line, the way an editor with tab stops shows it.\<close>

fun expand_tabs :: "nat \<Rightarrow> nat \<Rightarrow> jstr \<Rightarrow> jstr" where
  "expand_tabs e col [] = []"
| "expand_tabs e col (c # s) =
     (if c = 9 then replicate (e - col mod e) 32 @ expand_tabs e (col + (e - col mod e)) s
      else c # expand_tabs e (Suc col) s)"

lemma expand_tabs_append:
  "9 \<notin> set a \<Longrightarrow> expand_tabs e col (a @ s) = a @ expand_tabs e (col + length a) s"
  by (induction a arbitrary: col) auto

lemma smart_tabs_expand: "smart_tabs_line h e = expand_tabs e 0 h"
proof (induction h e rule: smart_tabs_line.induct)
  case (1 h e)
  show ?case
  proof (cases "index_of [9] h")
    case None
    then have "9 \<notin> set h"
      by (simp add: index_of_def find_sub_None_iff) (metis append_Cons append_Nil split_list)
    then show ?thesis
      using None expand_tabs_append[of h e 0 "[]"] by (simp add: smart_tabs_line.simps[of h e])
  next
    case (Some l)
    have f: "find_sub [9] h = Some l" using Some by (simp add: index_of_def)
    have h: "h = take l h @ 9 # drop (Suc l) h" using find_sub_SomeD[OF f] by simp
    have no: "9 \<notin> set (take l h)" using f by (rule find_sub_single_first)
    have l: "length (take l h) = l" using find_sub_bound[OF f] by simp
    have "smart_tabs_line h e = expand_tabs e 0 (insert_spaces h l (e - l mod e))"
      using 1[OF Some] Some by (simp add: smart_tabs_line.simps[of h e])
    also have "\<dots> = take l h @ replicate (e - l mod e) 32 @ expand_tabs e (l + (e - l mod e)) (drop (Suc l) h)"
      using expand_tabs_append[OF no] expand_tabs_append[of "replicate (e - l mod e) 32"] l
      by (simp add: insert_spaces_eq)
    also have "\<dots> = expand_tabs e 0 h"
      using expand_tabs_append[OF no, of e 0 "9 # drop (Suc l) h"] l h by simp
    finally show ?thesis .
  qed
qed

text \<open>C16: every tab becomes the spaces up to the next of the tab stops, four columns apart: the loop that
  replaces the first tab again and again does what a single pass that counts columns does.\<close>

theorem smart_tabs_reference:
  "ProcessSmartTabs b = concat (map (\<lambda>l. expand_tabs 4 0 l @ [10]) (split_cu 10 b))"
  by (simp add: ProcessSmartTabs_def smart_tabs_expand)

lemma expand_tabs_no_tab: "9 \<notin> set (expand_tabs e col s)"
  by (induction e col s rule: expand_tabs.induct) auto

section \<open>Unindenting\<close>

text \<open>\<^verbatim>\<open>/^\s*(.*?)[\s\n]*$/g\<close>, \<^verbatim>\<open>/\n*$/\<close>, \<^verbatim>\<open>/^\n*/\<close> and \<^verbatim>\<open>^\s*\<close>\<close>

definition re_trim_line :: rx where
  [js_eval]: "re_trim_line = rseq [RBol, rstar (RCls [ClSpace]), RGrp 1 (rstar_lazy RDot), rstar (RCls [ClSpace, Ch 10]), REol]"

definition re_nl_end :: rx where
  [js_eval]: "re_nl_end = rseq [rstar (RChr 10), REol]"

definition re_nl_start :: rx where
  [js_eval]: "re_nl_start = rseq [RBol, rstar (RChr 10)]"

definition re_indent :: rx where
  [js_eval]: "re_indent = rseq [RBol, rstar (RCls [ClSpace])]"

definition trim_line :: "jstr \<Rightarrow> jstr" where
  [js_eval]: \<open>trim_line e = rx_replace_all no_flags re_trim_line e (js ''$1'')\<close>

definition strip_newlines :: "jstr \<Rightarrow> jstr" where
  [js_eval]: "strip_newlines e = rx_replace no_flags re_nl_start (rx_replace no_flags re_nl_end e []) []"

text \<open>
  The least indentation: the expression has the \<open>g\<close> flag and is used on one line after the other, so
  its \<open>lastIndex\<close> goes from line to line.
\<close>

fun indent_loop :: "jstr list \<Rightarrow> nat \<Rightarrow> nat \<Rightarrow> nat" where
  "indent_loop [] lastIndex m = m"
| "indent_loop (e # es) lastIndex m =
     (if m = 0 then 0
      else if trim_line e = [] then indent_loop es lastIndex m
      else case rx_exec_g no_flags re_indent e lastIndex of
             (None, l) \<Rightarrow> indent_loop es l m
           | (Some g, l) \<Rightarrow> indent_loop es l (min (length (match_text e g)) m))"

definition FixForBlogger :: "bool \<Rightarrow> jstr \<Rightarrow> jstr" where
  [js_eval]: \<open>FixForBlogger isBloggerMode b =
     (if isBloggerMode
      then rx_replace_all i_flag
             (RAlt (rseq [rlit (js ''<br''), rstar (RCls [ClSpace]), ropt (RChr 47), RChr 62])
                   (rseq [rlit (js ''&lt;br''), rstar (RCls [ClSpace]), ropt (RChr 47), rlit (js ''&gt;'')])) b [10]
      else b)\<close>

definition unindent :: "bool \<Rightarrow> jstr \<Rightarrow> jstr" where
  [js_eval]: "unindent isBloggerMode e =
     (let ls = split_cu 10 (FixForBlogger isBloggerMode e);
          m = indent_loop ls 0 1000
      in join [10] (if m > 0 then map (drop m) ls else ls))"

section \<open>Writing the text\<close>

datatype dnode = DSpan "jstr option" jstr | DBr

text \<open>\<^verbatim>\<open>/(\r?\n)|(\[BR\])/gm\<close>\<close>

definition re_line_end :: rx where
  [js_eval]: \<open>re_line_end = RAlt (RGrp 1 (RSeq (ropt (RChr 13)) (RChr 10))) (RGrp 2 (rlit (js ''[BR]'')))\<close>

definition escape_bit :: "jstr \<Rightarrow> jstr" where
  [js_eval]: \<open>escape_bit b =
     rx_replace_all m_flag re_line_end
       (rx_replace_all no_flags (RChr 60) (rx_replace_all no_flags (RChr 32) b (js ''&nbsp;'')) (js ''&lt;'')) (js ''&nbsp;<br>'')\<close>

fun bit_lines :: "jstr \<Rightarrow> jstr list \<Rightarrow> dnode list" where
  "bit_lines c [] = []"
| "bit_lines c [x] = [DSpan (Some c) x]"
| "bit_lines c (x # xs) = DSpan (Some c) x # DBr # bit_lines c xs"

definition AddBit :: "jstr \<Rightarrow> jstr option \<Rightarrow> dnode list \<Rightarrow> dnode list" where
  [js_eval]: \<open>AddBit b c children =
     (if b = [] then children
      else let b' = escape_bit b in
        case c of
          None \<Rightarrow> children @ [DSpan None b']
        | Some cls \<Rightarrow>
            if rx_test i_flag (rlit (js ''br'')) b' then children @ bit_lines cls (split_str (js ''&nbsp;<br>'') b')
            else children @ [DSpan (Some cls) b'])\<close>

fun node_html :: "dnode \<Rightarrow> jstr" where
  \<open>node_html (DSpan None h) = (js ''<span>'') @ h @ (js ''</span>'')\<close>
| \<open>node_html (DSpan (Some c) h) = (js ''<span class="'') @ c @ (js ''">'') @ h @ (js ''</span>'')\<close>
| \<open>node_html DBr = (js ''<br>'')\<close>

definition inner_html :: "dnode list \<Rightarrow> jstr" where
  [js_eval]: "inner_html ns = concat (map node_html ns)"

section \<open>The list\<close>

text \<open>\<^verbatim>\<open>/<(br)\/?>/gi\<close>\<close>

definition re_br_tag :: rx where
  [js_eval]: \<open>re_br_tag = rseq [RChr 60, RGrp 1 (rlit (js ''br'')), ropt (RChr 47), RChr 62]\<close>

function ruler :: "nat \<Rightarrow> jstr" where
  \<open>ruler f =
     (if f > 150 then []
      else if f mod 10 = 0 then num_str f @ ruler (f + length (num_str f))
      else (js ''&middot;'') @ ruler (f + 1))\<close>
  by pat_completeness auto
termination
  by (relation "measure (\<lambda>f. 151 - f)") (auto simp: num_str_nonempty intro!: diff_less_mono2)

declare ruler.simps [simp del]

fun list_items :: "jstr list \<Rightarrow> nat \<Rightarrow> (jstr \<times> jstr) list" where
  \<open>list_items (x # y # ys) f =
     ((if f mod 2 = 0 then js ''alt'' else []), x @ (js ''&nbsp;'')) # list_items (y # ys) (Suc f)\<close>
| "list_items _ f = []"

definition html_lines :: "dnode list \<Rightarrow> jstr list" where
  [js_eval]: "html_lines ns = split_cu 10 (rx_replace_all i_flag re_br_tag (inner_html ns) [10])"

record tool =
  t_name :: jstr
  t_label :: jstr

definition tools :: "bool \<Rightarrow> bool \<Rightarrow> tool list" where
  [js_eval]: \<open>tools collapse clipboard =
     (if collapse then [\<lparr>t_name = (js ''ExpandSource''), t_label = (js ''+ expand source'')\<rparr>] else [])
     @ [\<lparr>t_name = (js ''ViewSource''), t_label = (js ''view plain'')\<rparr>]
     @ (if clipboard then [\<lparr>t_name = (js ''CopyToClipboard''), t_label = (js ''copy'')\<rparr>] else [])
     @ [\<lparr>t_name = (js ''PrintSource''), t_label = (js ''print'')\<rparr>, \<lparr>t_name = (js ''About''), t_label = (js ''?'')\<rparr>]\<close>

definition tool_link :: "tool \<Rightarrow> jstr" where
  [js_eval]: \<open>tool_link f =
     (let a = (js ''<a href="#" class="'') @ t_name f @ (js ''" title="'') @ t_label f
               @ (js ''" onclick="dp.sh.Toolbar.Command('' @ [39]) @ t_name f @ ([39] @ js '',this);return false;">'') @ t_label f @ (js ''</a>'')
      in if t_label f = (js ''print'') then (js ''<span data-mod="popu_169"> '') @ a @ (js ''</span>'')
         else if t_label f = (js ''copy'') then (js ''<span data-mod="popu_168"> '') @ a @ (js ''</span>'')
         else a)\<close>

definition Toolbar_Create :: "jstr \<Rightarrow> bool \<Rightarrow> bool \<Rightarrow> jstr" where
  [js_eval]: \<open>Toolbar_Create source_class collapse clipboard =
     (js ''<b>['') @ source_class @ (js '']</b> '') @ concat (map tool_link (tools collapse clipboard))\<close>

section \<open>Highlighting an element\<close>

record hl_opts =
  h_noGutter :: bool
  h_addControls :: bool
  h_collapse :: bool
  h_tabsToSpaces :: bool
  h_showColumns :: bool
  h_firstLine :: "int option"
  h_CssClass :: "jstr option"

definition default_opts :: hl_opts where
  [js_eval]: "default_opts = \<lparr>h_noGutter = False, h_addControls = True, h_collapse = False, h_tabsToSpaces = True,
     h_showColumns = True, h_firstLine = None, h_CssClass = None\<rparr>"

text \<open>What is built: the class of the outer element, the bar and the list.\<close>

record hl_out =
  o_originalCode :: jstr
  o_code :: jstr
  o_class :: jstr
  o_bar :: "jstr list"
  o_ol_class :: "jstr option"
  o_ol_start :: "int option"
  o_items :: "(jstr \<times> jstr) list"

definition SwitchToList :: "hl_opts \<Rightarrow> jstr \<Rightarrow> bool \<Rightarrow> dnode list \<Rightarrow> jstr list \<times> (jstr \<times> jstr) list" where
  [js_eval]: "SwitchToList h source_class clipboard ns =
     ((if h_addControls h then [Toolbar_Create source_class (h_collapse h) clipboard] else [])
      @ (if h_showColumns h then [ruler 1] else []),
      list_items (html_lines ns) 0)"

definition Highlight ::
  "hl_opts \<Rightarrow> (jstr \<Rightarrow> hl_match list option) \<Rightarrow> bool \<Rightarrow> bool \<Rightarrow> jstr \<Rightarrow> jstr option \<Rightarrow> hl_out option" where
  [js_eval]: \<open>Highlight h process blogger clipboard source_class b =
     (let original = (case b of None \<Rightarrow> [] | Some s \<Rightarrow> s);
          code0 = strip_newlines (unindent blogger original);
          code = (if h_tabsToSpaces h then ProcessSmartTabs code0 else code0)
      in case process code of
           None \<Rightarrow> None
         | Some ms \<Rightarrow>
             let ns = fold (\<lambda>(t, c). AddBit t c) (pieces_of code ms) [];
                 (bar, items) = SwitchToList h source_class clipboard ns
             in Some \<lparr>o_originalCode = original, o_code = code,
                  o_class = (js ''dp-highlighter'') @ (if h_collapse h then (js '' collapsed'') else [])
                            @ (if h_noGutter h then (js '' nogutter'') else []),
                  o_bar = bar, o_ol_class = h_CssClass h, o_ol_start = h_firstLine h, o_items = items\<rparr>)\<close>

section \<open>The commands of the toolbar\<close>

text \<open>
  \<open>Toolbar.Command\<close> climbs from the link to the first element of class \<open>dp-highlighter\<close>; the
  ancestors are given with the highlighters attached to them.
\<close>

fun command_target :: "(jstr \<times> 'h) list \<Rightarrow> 'h option" where
  "command_target [] = None"
| \<open>command_target ((className, hl) # ds) =
     (if contains (js ''dp-highlighter'') className then Some hl else command_target ds)\<close>

text \<open>The link that was clicked is taken out of its toolbar, the first element of the bar.\<close>

definition expand_source :: "hl_out \<Rightarrow> hl_out" where
  [js_eval]: \<open>expand_source c =
     c\<lparr>o_class := replace_str (o_class c) (js ''collapsed'') [],
       o_bar := (case o_bar c of
           bar # rest \<Rightarrow> replace_str bar (tool_link \<lparr>t_name = (js ''ExpandSource''), t_label = (js ''+ expand source'')\<rparr>) [] # rest
         | [] \<Rightarrow> [])\<rparr>\<close>

definition view_source :: "bool \<Rightarrow> hl_out \<Rightarrow> effect list" where
  [js_eval]: \<open>view_source blogger c =
     [OpenWindow (js ''width=750, height=400, location=0, resizable=1, menubar=0, scrollbars=0''),
      Write ((js ''<textarea style="width:99%;height:99%">'')
        @ rx_replace_all no_flags (RChr 60) (FixForBlogger blogger (o_originalCode c)) (js ''&lt;'') @ (js ''</textarea>''))]\<close>

definition copy_text :: "bool \<Rightarrow> hl_out \<Rightarrow> jstr" where
  [js_eval]: \<open>copy_text blogger c =
     rx_replace_all no_flags (rlit (js ''&amp;''))
       (rx_replace_all no_flags (rlit (js ''&gt;''))
         (rx_replace_all no_flags (rlit (js ''&lt;'')) (FixForBlogger blogger (o_originalCode c)) (js ''<'')) (js ''>'')) (js ''&'')\<close>

text \<open>With \<open>window.clipboardData\<close>, or through the Flash movie, whose \<open>FlashVars\<close> hold the text.\<close>

definition copy_to_clipboard :: "bool \<Rightarrow> bool \<Rightarrow> jstr option \<Rightarrow> hl_out \<Rightarrow> effect list option" where
  [js_eval]: \<open>copy_to_clipboard clipboardData blogger swf c =
     (let b = copy_text blogger c; msg = Alert (js ''The code is in your clipboard now'') in
      if clipboardData then Some [Call ''clipboardData.setData'' [(js ''text''), b], msg]
      else case swf of
             None \<Rightarrow> Some [msg]
           | Some movie \<Rightarrow>
               map_option (\<lambda>v. [Write ((js ''<embed src="'') @ movie @ (js ''" FlashVars="clipboard='') @ v
                  @ (js ''" width="0" height="0" type="application/x-shockwave-flash"></embed>'')), msg])
                 (encodeURIComponent b))\<close>

definition CopyStyles :: "(jstr \<times> jstr) list \<Rightarrow> effect list" where
  [js_eval]: \<open>CopyStyles links =
     concat (map (\<lambda>(rel, link). if to_lower rel = (js ''stylesheet'')
        then [Write ((js ''<link type="text/css" rel="stylesheet" href="'') @ link @ (js ''"></link>''))] else []) links)\<close>

definition print_source :: "(jstr \<times> jstr) list \<Rightarrow> jstr \<Rightarrow> hl_out \<Rightarrow> effect list" where
  [js_eval]: \<open>print_source links div_html c =
     CopyStyles links @
     [Write ((js ''<div class="'') @ replace_str (o_class c) (js ''collapsed'') [] @ (js '' printing">'') @ div_html @ (js ''</div>'')),
      Call ''print'' [], Alert (js ''Printing...'')]\<close>

definition AboutDialog :: jstr where
  [js_eval]: \<open>AboutDialog = (js ''<html><head><title>About...</title></head><body class="dp-about"><table cellspacing="0"><tr><td '' @
    js ''class="copy"><p class="title">dp.SyntaxHighlighter</div><div class="para">Version: {V}</p><p><a '' @
    js ''href="http://www.dreamprojections.com/syntaxhighlighter/?ref=about" target="_blank">http://www.d'' @
    js ''reamprojections.com/syntaxhighlighter</a></p>&copy;2004-2007 Alex Gorbatchev.</td></tr><tr><td c'' @
    js ''lass="footer"><input type="button" class="close" value="OK" onClick="window.close()"/></td></tr>'' @
    js ''</table></body></html>'')\<close>

definition about :: "(jstr \<times> jstr) list \<Rightarrow> effect list" where
  [js_eval]: \<open>about links = OpenWindow (js ''dialog,width=300,height=150,scrollbars=0'') # CopyStyles links @
     [Write (replace_str AboutDialog (js ''{V}'') (js ''1.5.1''))]\<close>

section \<open>Copying gives the code back\<close>

text \<open>The browser writes the text of an element into \<open>innerHTML\<close> with three characters escaped.\<close>

definition html_char :: "cu \<Rightarrow> jstr" where
  [js_eval]: \<open>html_char c = (if c = 38 then (js ''&amp;'') else if c = 60 then (js ''&lt;'') else if c = 62 then (js ''&gt;'') else [c])\<close>

definition html_text :: "jstr \<Rightarrow> jstr" where
  [js_eval]: "html_text s = concat (map html_char s)"

text \<open>One pass of the three: the entity \<open>38 # w\<close> becomes \<open>t\<close>; every other piece of the text is either
  one code unit, not an ampersand, or another entity.\<close>

lemma pass_other:
  assumes "d \<noteq> hd w" "38 \<notin> set e" "w \<noteq> []" "38 \<notin> set w"
  shows "rx_replace_all_fn no_flags (rlit (38 # w)) (38 # d # e @ s) (\<lambda>_. t) =
     38 # rx_replace_all_fn no_flags (rlit (38 # w)) (d # e @ s) (\<lambda>_. t)"
proof -
  obtain b v where w: "w = b # v" using assms(3) by (cases w) auto
  have "rmatch no_flags (38 # d # e @ s) (rlit (38 # w)) (0, []) = []"
    using assms(1) by (simp add: w rmatch_rlit lit_at_Cons cu_eq_def no_flags_def)
  then show ?thesis using replace_const_skip[OF forward_rlit] by blast
qed

lemma pass_map:
  assumes hit: "f c0 = 38 # w" and w: "w \<noteq> []" "38 \<notin> set w"
    and rest: "\<And>c. c \<noteq> c0 \<Longrightarrow> 38 \<notin> set (f c) \<or> (\<exists>d e. f c = 38 # d # e \<and> d \<noteq> hd w \<and> 38 \<notin> set (d # e))"
  shows "rx_replace_all_fn no_flags (rlit (38 # w)) (concat (map f s)) (\<lambda>_. t) =
     concat (map (\<lambda>c. if c = c0 then t else f c) s)"
proof (induction s)
  case Nil
  then show ?case by (simp add: replace_const_Nil rmatch_rlit lit_at_Cons)
next
  case (Cons c s)
  let ?R = "\<lambda>x. rx_replace_all_fn no_flags (rlit (38 # w)) x (\<lambda>_. t)"
  have plain: "38 \<notin> set p \<Longrightarrow> ?R (p @ x) = p @ ?R x" for p x
    by (rule replace_lit_prefix) (auto simp: cu_eq_def no_flags_def)
  show ?case
  proof (cases "c = c0")
    case True
    then show ?thesis using replace_lit_hit[of "38 # w" no_flags] hit Cons by simp
  next
    case False
    from rest[OF this] show ?thesis
    proof
      assume "38 \<notin> set (f c)"
      then show ?thesis using plain[of "f c"] False Cons by simp
    next
      assume "\<exists>d e. f c = 38 # d # e \<and> d \<noteq> hd w \<and> 38 \<notin> set (d # e)"
      then obtain d e where de: "f c = 38 # d # e" "d \<noteq> hd w" "38 \<notin> set (d # e)" by blast
      then show ?thesis
        using pass_other[of d w e "concat (map f s)" t] plain[of "d # e"] w False Cons by simp
    qed
  qed
qed

text \<open>The three replacements undo the escaping.\<close>

lemma unescape_html_text:
  \<open>rx_replace_all no_flags (rlit (js ''&amp;'')) (rx_replace_all no_flags (rlit (js ''&gt;''))
     (rx_replace_all no_flags (rlit (js ''&lt;'')) (html_text s) (js ''<'')) (js ''>'')) (js ''&'') = s\<close>
proof -
  let ?f1 = \<open>\<lambda>x :: nat. if x = 60 then (js ''<'') else html_char x\<close>
  let ?f2 = \<open>\<lambda>x :: nat. if x = 62 then (js ''>'') else ?f1 x\<close>
  let ?f3 = \<open>\<lambda>x :: nat. if x = 38 then (js ''&'') else ?f2 x\<close>
  have cc: \<open>(js ''&lt;'') = 38 # (js ''lt;'')\<close> \<open>(js ''&gt;'') = 38 # (js ''gt;'')\<close> \<open>(js ''&amp;'') = 38 # (js ''amp;'')\<close>
    by (simp_all add: js_def)
  have 1: \<open>rx_replace_all no_flags (rlit (js ''&lt;'')) (html_text s) (js ''<'') = concat (map ?f1 s)\<close>
    unfolding html_text_def cc
    by (subst rx_replace_all_plain, simp add: js_def, rule pass_map)
      (auto simp: html_char_def js_def)
  have 2: \<open>rx_replace_all no_flags (rlit (js ''&gt;'')) (concat (map ?f1 s)) (js ''>'') = concat (map ?f2 s)\<close>
    unfolding cc
    by (subst rx_replace_all_plain, simp add: js_def, rule pass_map)
      (auto simp: html_char_def js_def)
  have 3: \<open>rx_replace_all no_flags (rlit (js ''&amp;'')) (concat (map ?f2 s)) (js ''&'') = concat (map ?f3 s)\<close>
    unfolding cc
    by (subst rx_replace_all_plain, simp add: js_def, rule pass_map)
      (auto simp: html_char_def js_def)
  have "map ?f3 s = map (\<lambda>x. [x]) s" by (auto simp: html_char_def js_def)
  then have "concat (map ?f3 s) = s" by (simp only: concat_map_singleton map_ident)
  then show ?thesis unfolding 1 2 3 by simp
qed




text \<open>
  The expression for the indentation keeps its \<open>lastIndex\<close> from one line to the next, so the line
  after an indented one is not measured and loses as many characters as the first is indented.
\<close>

lemma unindent_loses: \<open>unindent False (js ''    if (a)'' @ [10] @ js ''b = 1;'') = (js ''if (a)'' @ [10] @ js ''1;'')\<close>
  by code_simp

end
