(* ===== verification/Brushes.thy ===== *)
theory Brushes
  imports Highlighter
begin

text \<open>
  The languages of the highlighter (\<open>newblog.js\<close>, \<open>dp.sh.Brushes\<close>): the expressions of each brush,
  written out in the syntax of \<open>rx\<close>, the lists of keywords, the aliases, and \<open>HighlightAll\<close>, which finds
  the elements, picks the brush and runs it.
\<close>

section \<open>Common expressions\<close>

definition MultiLineCComments :: "jstr \<Rightarrow> hl_rule" where
  [js_eval]: \<open>MultiLineCComments c = mk_rule (rseq [rlit (js ''/*''), rstar_lazy (RCls [ClAny]), rlit (js ''*/'')]) m_flag c\<close>

definition SingleLineCComments :: "jstr \<Rightarrow> hl_rule" where
  [js_eval]: \<open>SingleLineCComments c = mk_rule (rseq [rlit (js ''//''), rstar RDot, REol]) m_flag c\<close>

definition SingleLinePerlComments :: "jstr \<Rightarrow> hl_rule" where
  [js_eval]: "SingleLinePerlComments c = mk_rule (rseq [RChr 35, rstar RDot, REol]) m_flag c"

definition DoubleQuotedString :: "jstr \<Rightarrow> hl_rule" where
  [js_eval]: \<open>DoubleQuotedString c = mk_rule (rseq [RChr 34, rstar (ralt [RChr 46, RGrp 1 (rlit ([92] @ js ''"'')), RNot [Ch 34, Ch 34, Ch 10]]), RChr 34]) no_flags c\<close>

definition SingleQuotedString :: "jstr \<Rightarrow> hl_rule" where
  [js_eval]: \<open>SingleQuotedString c = mk_rule (rseq [RChr 39, rstar (ralt [RChr 46, RGrp 1 (rlit ([92, 39])), RNot [Ch 39, Ch 39, Ch 10]]), RChr 39]) no_flags c\<close>

text \<open>
  \<open>GetKeywords\<close> and its two variants build an alternative per word; the words hold no character
  that is special in an expression, except in the last list of the CSS brush, which gives its
  words as expressions.
\<close>

definition GetKeywords :: "jstr \<Rightarrow> rx" where
  [js_eval]: "GetKeywords b = ralt (map (\<lambda>w. rseq [RWordB, rlit w, RWordB]) (split_cu 32 b))"

text \<open>The groups are numbered in the order of the words.\<close>

fun keywords_css :: "nat \<Rightarrow> jstr list \<Rightarrow> rx list" where
  "keywords_css n [] = []"
| "keywords_css n (w # ws) =
     rseq [RWordB, RGrp n (if n = 1 then RAlt (RCls [Rng 97 122, Ch 95]) REps
                           else ralt [RCls [Rng 97 122, Ch 95, Ch 42], RChr 42, REps]),
           rlit w, RLook (RChr 58), RWordB] # keywords_css (Suc n) ws"

definition GetKeywordsCSS :: "jstr \<Rightarrow> rx" where
  [js_eval]: "GetKeywordsCSS a = ralt (keywords_css 1 (split_cu 32 a))"

fun values_css :: "nat \<Rightarrow> rx list \<Rightarrow> rx list" where
  "values_css n [] = []"
| "values_css n [w] = [rseq ((if n = 0 then [RWordB] else [RWordB, RGrp n REps]) @ [w, RChr 58, RWordB])]"
| "values_css n (w # ws) =
     rseq ((if n = 0 then [RWordB] else [RWordB, RGrp n REps]) @ [w, RNLook (RChr 45), RNLook (RChr 58), RWordB])
     # values_css (Suc n) ws"

definition GetValuesCSS :: "rx list \<Rightarrow> rx" where
  [js_eval]: "GetValuesCSS ws = ralt (values_css 0 ws)"

section \<open>Xml\<close>

text \<open>The brush for XML finds attributes and tag names by their groups.\<close>

definition xml_cdata :: hl_rule where
  [js_eval]: \<open>xml_cdata = mk_rule (rseq [RGrp 1 (ralt [rlit (js ''&lt;''), RChr 60]), rlit (js ''![''), rstar_lazy (RCls [ClWord, ClSpace]), RChr 91, rstar_lazy (RGrp 2 (ralt [RDot, RCls [ClSpace]])), rlit (js '']]''), RGrp 3 (ralt [rlit (js ''&gt;''), RChr 62])]) m_flag (js ''cdata'')\<close>

definition xml_comments :: hl_rule where
  [js_eval]: \<open>xml_comments = mk_rule (rseq [RGrp 1 (ralt [rlit (js ''&lt;''), RChr 60]), rlit (js ''!--''), rstar (RCls [ClSpace]), rstar_lazy RDot, rstar (RCls [ClSpace]), rlit (js ''--''), RGrp 2 (ralt [rlit (js ''&gt;''), RChr 62])]) m_flag (js ''comments'')\<close>

definition xml_attribute :: rx where
  [js_eval]: "xml_attribute = ralt [rseq [RGrp 1 (rplus (RCls [Ch 58, ClWord, Ch 45, Ch 46])), rstar (RCls [ClSpace]), RChr 61, rstar (RCls [ClSpace]), rstar (RGrp 2 (ralt [rseq [RChr 34, rstar_lazy RDot, RChr 34], rseq [RChr 39, rstar_lazy RDot, RChr 39], rplus (RCls [ClWord])]))], RGrp 3 (rplus (RCls [ClWord]))]"

definition xml_tag :: hl_rule where
  [js_eval]: \<open>xml_tag = mk_rule (ralt [rseq [RGrp 1 (ralt [rlit (js ''&lt;''), RChr 60]), rstar (RChr 47), rstar (RChr 63), RNLook (RChr 33)], rseq [rstar (RChr 47), rstar (RChr 63), RGrp 2 (ralt [rlit (js ''&gt;''), RChr 62])]]) m_flag (js ''tag'')\<close>

definition xml_tag_name :: rx where
  [js_eval]: \<open>xml_tag_name = rseq [ralt [rlit (js ''&lt;''), RChr 60], rstar (RChr 47), rstar (RChr 63), rstar (RCls [ClSpace]), RGrp 1 (rplus (RCls [Ch 58, ClWord, Ch 45, Ch 46]))]\<close>

text \<open>The matches of an attribute: its name, and its value if there is one.\<close>

definition attribute_matches :: "jstr \<Rightarrow> rxmatch \<Rightarrow> hl_match list" where
  [js_eval]: \<open>attribute_matches code a =
     (case capture code a 1 of
        None \<Rightarrow> []
      | Some a1 \<Rightarrow>
          mk_match a1 (fst a) (js ''attribute'') #
          (case capture code a 2 of
             None \<Rightarrow> []
           | Some a2 \<Rightarrow>
               [mk_match a2
                  (case index_of a2 (drop (length a1) (match_text code a)) of
                     None \<Rightarrow> fst a + length a1 - 1
                   | Some k \<Rightarrow> fst a + length a1 + k)
                  (js ''attribute-value'')]))\<close>

text \<open>\<open>a[1]\<close> is part of \<open>a[0]\<close>, so \<open>indexOf\<close> finds it.\<close>

definition tag_name_matches :: "jstr \<Rightarrow> rxmatch \<Rightarrow> hl_match list" where
  [js_eval]: \<open>tag_name_matches code a =
     (case capture code a 1 of
        None \<Rightarrow> []
      | Some a1 \<Rightarrow>
          [mk_match a1 (case index_of a1 (match_text code a) of None \<Rightarrow> fst a - 1 | Some k \<Rightarrow> fst a + k) (js ''tag-name'')])\<close>

function xml_loop :: "rx \<Rightarrow> (rxmatch \<Rightarrow> hl_match list) \<Rightarrow> jstr \<Rightarrow> nat \<Rightarrow> hl_match list option" where
  "xml_loop r f code lastIndex =
     (case rx_exec_g m_flag r code lastIndex of
        (None, _) \<Rightarrow> Some []
      | (Some a, l) \<Rightarrow>
          if l = fst a then None else map_option ((@) (f a)) (xml_loop r f code l))"
  by pat_completeness auto
termination
proof (relation "measure (\<lambda>(r, f, code, l). Suc (length code) - l)", goal_cases)
  case (2 r f code l x y d)
  then have "rx_exec_g m_flag r code l = (Some d, y)" by simp
  from rx_exec_g_bounds[OF this] 2 show ?case by auto
qed simp

declare xml_loop.simps [simp del]

definition Xml_ProcessRegexList :: "jstr \<Rightarrow> hl_match list option" where
  [js_eval]: "Xml_ProcessRegexList code =
     (case ProcessRegexList code [xml_cdata, xml_comments] [] of None \<Rightarrow> None | Some ms1 \<Rightarrow>
      case xml_loop xml_attribute (attribute_matches code) code 0 of None \<Rightarrow> None | Some ms2 \<Rightarrow>
      case ProcessRegexList code [xml_tag] (ms1 @ ms2) of None \<Rightarrow> None | Some ms3 \<Rightarrow>
      map_option ((@) ms3) (xml_loop xml_tag_name (tag_name_matches code) code 0))"

section \<open>Vb\<close>

definition vb_words4 :: jstr where
  [js_eval]: \<open>vb_words4 = (js ''AddHandler AddressOf AndAlso Alias And Ansi As Assembly Auto Boolean ByRef Byte ByVal Call Case '' @
    js ''Catch CBool CByte CChar CDate CDec CDbl Char CInt Class CLng CObj Const CShort CSng CStr CType D'' @
    js ''ate Decimal Declare Default Delegate Dim DirectCast Do Double Each Else ElseIf End Enum Erase Er'' @
    js ''ror Event Exit False Finally For Friend Function Get GetType GoSub GoTo Handles If Implements Im'' @
    js ''ports In Inherits Integer Interface Is Let Lib Like Long Loop Me Mod Module MustInherit MustOver'' @
    js ''ride MyBase MyClass Namespace New Next Not Nothing NotInheritable NotOverridable Object On Optio'' @
    js ''n Optional Or OrElse Overloads Overridable Overrides ParamArray Preserve Private Property Protec'' @
    js ''ted Public RaiseEvent ReadOnly ReDim REM RemoveHandler Resume Return Select Set Shadows Shared S'' @
    js ''hort Single Static Step Stop String Structure Sub SyncLock Then Throw To True Try TypeOf Unicode'' @
    js '' Until Variant When While With WithEvents WriteOnly Xor'')\<close>

definition rules_Vb :: "hl_rule list" where
  [js_eval]: \<open>rules_Vb = [mk_rule (rseq [RChr 39, rstar RDot, REol]) m_flag (js ''comment''),
     DoubleQuotedString (js ''string''),
     mk_rule (rseq [RBol, rstar (RCls [ClSpace]), RChr 35, rstar RDot]) m_flag (js ''preprocessor''),
     mk_rule (GetKeywords vb_words4) m_flag (js ''keyword'')]\<close>

section \<open>Sql\<close>

definition sql_words4 :: jstr where
  [js_eval]: \<open>sql_words4 = (js ''abs avg case cast coalesce convert count current_timestamp current_user day isnull left lower mo'' @
    js ''nth nullif replace right session_user space substring sum system_user upper user year'')\<close>

definition sql_words5 :: jstr where
  [js_eval]: \<open>sql_words5 = (js ''all and any between cross in join like not null or outer some'')\<close>

definition sql_words6 :: jstr where
  [js_eval]: \<open>sql_words6 = (js ''absolute action add after alter as asc at authorization begin bigint binary bit by cascade char '' @
    js ''character check checkpoint close collate column commit committed connect connection constraint c'' @
    js ''ontains continue create cube current current_date current_time cursor database date deallocate d'' @
    js ''ec decimal declare default delete desc distinct double drop dynamic else end end-exec escape exc'' @
    js ''ept exec execute false fetch first float for force foreign forward free from full function globa'' @
    js ''l goto grant group grouping having hour ignore index inner insensitive insert instead int intege'' @
    js ''r intersect into is isolation key last level load local max min minute modify move name national'' @
    js '' nchar next no numeric of off on only open option order out output partial password precision pr'' @
    js ''epare primary prior privileges procedure public read real references relative repeatable restric'' @
    js ''t return returns revoke rollback rollup rows rule schema scroll second section select sequence s'' @
    js ''erializable set size smallint static statistics table temp temporary then time timestamp to top '' @
    js ''transaction translation trigger true truncate uncommitted union unique update values varchar var'' @
    js ''ying view when where with work'')\<close>

definition rules_Sql :: "hl_rule list" where
  [js_eval]: \<open>rules_Sql = [mk_rule (rseq [rlit (js ''--''), RGrp 1 (rstar RDot), REol]) m_flag (js ''comment''),
     DoubleQuotedString (js ''string''),
     SingleQuotedString (js ''string''),
     mk_rule (GetKeywords sql_words4) im_flag (js ''func''),
     mk_rule (GetKeywords sql_words5) im_flag (js ''op''),
     mk_rule (GetKeywords sql_words6) im_flag (js ''keyword'')]\<close>

section \<open>Ruby\<close>

definition ruby_words6 :: jstr where
  [js_eval]: \<open>ruby_words6 = (js ''alias and BEGIN begin break case class def define_method defined do each else elsif END end ensu'' @
    js ''re false for if in module new next nil not or raise redo rescue retry return self super then thr'' @
    js ''ow true undef unless until when while yield'')\<close>

definition ruby_words7 :: jstr where
  [js_eval]: \<open>ruby_words7 = (js ''Array Bignum Binding Class Continuation Dir Exception FalseClass File::Stat File Fixnum Fload Ha'' @
    js ''sh Integer IO MatchData Method Module NilClass Numeric Object Proc Range Regexp String Struct::T'' @
    js ''MS Symbol ThreadGroup Thread Time TrueClass'')\<close>

definition rules_Ruby :: "hl_rule list" where
  [js_eval]: \<open>rules_Ruby = [SingleLinePerlComments (js ''comment''),
     DoubleQuotedString (js ''string''),
     SingleQuotedString (js ''string''),
     mk_rule (rseq [RChr 58, RCls [Rng 97 122], rstar (RCls [Rng 65 90, Rng 97 122, Rng 48 57, Ch 95])]) no_flags (js ''symbol''),
     mk_rule (rseq [RGrp 1 (ralt [RChr 36, rlit (js ''@@''), RChr 64]), rplus (RCls [ClWord])]) no_flags (js ''variable''),
     mk_rule (GetKeywords ruby_words6) m_flag (js ''keyword''),
     mk_rule (GetKeywords ruby_words7) m_flag (js ''builtin'')]\<close>

section \<open>Python\<close>

definition python_words7 :: jstr where
  [js_eval]: \<open>python_words7 = (js ''and assert break class continue def del elif else except exec finally for from global if import '' @
    js ''in is lambda not or pass print raise return try yield while'')\<close>

definition python_words8 :: jstr where
  [js_eval]: \<open>python_words8 = (js ''None True False self cls class_'')\<close>

definition rules_Python :: "hl_rule list" where
  [js_eval]: \<open>rules_Python = [SingleLinePerlComments (js ''comment''),
     mk_rule (rseq [RBol, rstar (RCls [ClSpace]), RChr 64, rplus (RCls [ClWord])]) m_flag (js ''decorator''),
     mk_rule (rseq [RGrp 1 (RRep True (RCls [Ch 39, Ch 34]) 3 (Some 3)), rstar_lazy (RGrp 2 (RNot [Ch 1])), RBref 1]) m_flag (js ''comment''),
     mk_rule (rseq [RChr 34, RNLook (RChr 34), rstar (ralt [RChr 46, rlit ([92] @ js ''"''), RNot [Ch 34, Ch 34, Ch 10, Ch 13]]), RChr 34]) m_flag (js ''string''),
     mk_rule (rseq [RChr 39, rstar (RNLook (RChr 39)), rstar (ralt [RChr 46, RGrp 1 (rlit ([92, 39])), RNot [Ch 39, Ch 39, Ch 10, Ch 13]]), RChr 39]) m_flag (js ''string''),
     mk_rule (rseq [RWordB, rplus (RCls [ClDigit]), ropt (RChr 46), rstar (RCls [ClWord])]) no_flags (js ''number''),
     mk_rule (GetKeywords python_words7) m_flag (js ''keyword''),
     mk_rule (GetKeywords python_words8) m_flag (js ''special'')]\<close>

section \<open>Plain\<close>

definition rules_Plain :: "hl_rule list" where
  [js_eval]: "rules_Plain = []"

section \<open>Php\<close>

definition php_words6 :: jstr where
  [js_eval]: \<open>php_words6 = (js ''abs acos acosh addcslashes addslashes array_change_key_case array_chunk array_combine array_coun'' @
    js ''t_values array_diff array_diff_assoc array_diff_key array_diff_uassoc array_diff_ukey array_fill'' @
    js '' array_filter array_flip array_intersect array_intersect_assoc array_intersect_key array_interse'' @
    js ''ct_uassoc array_intersect_ukey array_key_exists array_keys array_map array_merge array_merge_rec'' @
    js ''ursive array_multisort array_pad array_pop array_product array_push array_rand array_reduce arra'' @
    js ''y_reverse array_search array_shift array_slice array_splice array_sum array_udiff array_udiff_as'' @
    js ''soc array_udiff_uassoc array_uintersect array_uintersect_assoc array_uintersect_uassoc array_uni'' @
    js ''que array_unshift array_values array_walk array_walk_recursive atan atan2 atanh base64_decode ba'' @
    js ''se64_encode base_convert basename bcadd bccomp bcdiv bcmod bcmul bindec bindtextdomain bzclose b'' @
    js ''zcompress bzdecompress bzerrno bzerror bzerrstr bzflush bzopen bzread bzwrite ceil chdir checkda'' @
    js ''te checkdnsrr chgrp chmod chop chown chr chroot chunk_split class_exists closedir closelog copy '' @
    js ''cos cosh count count_chars date decbin dechex decoct deg2rad delete ebcdic2ascii echo empty end '' @
    js ''ereg ereg_replace eregi eregi_replace error_log error_reporting escapeshellarg escapeshellcmd ev'' @
    js ''al exec exit exp explode extension_loaded feof fflush fgetc fgetcsv fgets fgetss file_exists fil'' @
    js ''e_get_contents file_put_contents fileatime filectime filegroup fileinode filemtime fileowner fil'' @
    js ''eperms filesize filetype floatval flock floor flush fmod fnmatch fopen fpassthru fprintf fputcsv'' @
    js '' fputs fread fscanf fseek fsockopen fstat ftell ftok getallheaders getcwd getdate getenv gethost'' @
    js ''byaddr gethostbyname gethostbynamel getimagesize getlastmod getmxrr getmygid getmyinode getmypid'' @
    js '' getmyuid getopt getprotobyname getprotobynumber getrandmax getrusage getservbyname getservbypor'' @
    js ''t gettext gettimeofday gettype glob gmdate gmmktime ini_alter ini_get ini_get_all ini_restore in'' @
    js ''i_set interface_exists intval ip2long is_a is_array is_bool is_callable is_dir is_double is_exec'' @
    js ''utable is_file is_finite is_float is_infinite is_int is_integer is_link is_long is_nan is_null i'' @
    js ''s_numeric is_object is_readable is_real is_resource is_scalar is_soap_fault is_string is_subclas'' @
    js ''s_of is_uploaded_file is_writable is_writeable mkdir mktime nl2br parse_ini_file parse_str parse'' @
    js ''_url passthru pathinfo readlink realpath rewind rewinddir rmdir round str_ireplace str_pad str_r'' @
    js ''epeat str_replace str_rot13 str_shuffle str_split str_word_count strcasecmp strchr strcmp strcol'' @
    js ''l strcspn strftime strip_tags stripcslashes stripos stripslashes stristr strlen strnatcasecmp st'' @
    js ''rnatcmp strncasecmp strncmp strpbrk strpos strptime strrchr strrev strripos strrpos strspn strst'' @
    js ''r strtok strtolower strtotime strtoupper strtr strval substr substr_compare'')\<close>

definition php_words7 :: jstr where
  [js_eval]: \<open>php_words7 = (js ''and or xor __FILE__ __LINE__ array as break case cfunction class const continue declare default '' @
    js ''die do else elseif enddeclare endfor endforeach endif endswitch endwhile extends for foreach fun'' @
    js ''ction include include_once global if new old_function return static switch use require require_o'' @
    js ''nce var while __FUNCTION__ __CLASS__ __METHOD__ abstract interface public implements extends pri'' @
    js ''vate protected throw'')\<close>

definition rules_Php :: "hl_rule list" where
  [js_eval]: \<open>rules_Php = [SingleLineCComments (js ''comment''),
     MultiLineCComments (js ''comment''),
     DoubleQuotedString (js ''string''),
     SingleQuotedString (js ''string''),
     mk_rule (rseq [RChr 36, rplus (RCls [ClWord])]) no_flags (js ''vars''),
     mk_rule (GetKeywords php_words6) im_flag (js ''func''),
     mk_rule (GetKeywords php_words7) m_flag (js ''keyword'')]\<close>

section \<open>JScript\<close>

definition jscript_words6 :: jstr where
  [js_eval]: \<open>jscript_words6 = (js ''abstract boolean break byte case catch char class const continue debugger default delete do doub'' @
    js ''le else enum export extends false final finally float for function goto if implements import in '' @
    js ''instanceof int interface long native new null package private protected public return short stat'' @
    js ''ic super switch synchronized this throw throws transient true try typeof var void volatile while'' @
    js '' with'')\<close>

definition rules_JScript :: "hl_rule list" where
  [js_eval]: \<open>rules_JScript = [SingleLineCComments (js ''comment''),
     MultiLineCComments (js ''comment''),
     DoubleQuotedString (js ''string''),
     SingleQuotedString (js ''string''),
     mk_rule (rseq [RBol, rstar (RCls [ClSpace]), RChr 35, rstar RDot]) m_flag (js ''preprocessor''),
     mk_rule (GetKeywords jscript_words6) m_flag (js ''keyword'')]\<close>

section \<open>Java\<close>

definition java_words8 :: jstr where
  [js_eval]: \<open>java_words8 = (js ''abstract assert boolean break byte case catch char class const continue default do double else e'' @
    js ''num extends false final finally float for goto if implements import instanceof int interface lon'' @
    js ''g native new null package private protected public return short static strictfp super switch syn'' @
    js ''chronized this throw throws true transient try void volatile while'')\<close>

definition rules_Java :: "hl_rule list" where
  [js_eval]: \<open>rules_Java = [SingleLineCComments (js ''comment''),
     MultiLineCComments (js ''comment''),
     DoubleQuotedString (js ''string''),
     SingleQuotedString (js ''string''),
     mk_rule (rseq [RWordB, RGrp 1 (ralt [rseq [rplus (RCls [ClDigit]), ropt (RGrp 2 (rseq [RChr 46, rplus (RCls [ClDigit])]))], rseq [rlit (js ''0x''), rplus (RCls [Rng 97 102, Rng 48 57])]]), RWordB]) i_flag (js ''number''),
     mk_rule (rseq [RNLook (rseq [rlit (js ''@interface''), RWordB]), RChr 64, rplus (RCls [Ch 36, ClWord]), RWordB]) no_flags (js ''annotation''),
     mk_rule (rseq [rlit (js ''@interface''), RWordB]) no_flags (js ''keyword''),
     mk_rule (GetKeywords java_words8) m_flag (js ''keyword'')]\<close>

section \<open>Delphi\<close>

definition delphi_words8 :: jstr where
  [js_eval]: \<open>delphi_words8 = (js ''abs addr and ansichar ansistring array as asm begin boolean byte cardinal case char class comp c'' @
    js ''onst constructor currency destructor div do double downto else end except exports extended false'' @
    js '' file finalization finally for function goto if implementation in inherited int64 initialization'' @
    js '' integer interface is label library longint longword mod nil not object of on or packed pansicha'' @
    js ''r pansistring pchar pcurrency pdatetime pextended pint64 pointer private procedure program prope'' @
    js ''rty pshortstring pstring pvariant pwidechar pwidestring protected public published raise real re'' @
    js ''al48 record repeat set shl shortint shortstring shr single smallint string then threadvar to tru'' @
    js ''e try type unit until uses val var varirnt while widechar widestring with word write writeln xor'')\<close>

definition rules_Delphi :: "hl_rule list" where
  [js_eval]: \<open>rules_Delphi = [mk_rule (rseq [rlit (js ''(*''), rstar_lazy (RCls [ClAny]), rlit (js ''*)'')]) m_flag (js ''comment''),
     mk_rule (rseq [RChr 123, RNLook (RChr 36), rstar_lazy (RCls [ClAny]), RChr 125]) m_flag (js ''comment''),
     SingleLineCComments (js ''comment''),
     SingleQuotedString (js ''string''),
     mk_rule (rseq [rlit (js ''{$''), rplus (RCls [Rng 97 122, Rng 65 90]), RChr 32, rplus RDot, RChr 125]) no_flags (js ''directive''),
     mk_rule (rseq [RWordB, rplus (RCls [ClDigit, Ch 46]), RWordB]) no_flags (js ''number''),
     mk_rule (rseq [RChr 36, rplus (RCls [Rng 97 122, Rng 65 90, Rng 48 57]), RWordB]) no_flags (js ''number''),
     mk_rule (GetKeywords delphi_words8) m_flag (js ''keyword'')]\<close>

section \<open>CSS\<close>

definition css_words7 :: jstr where
  [js_eval]: \<open>css_words7 = (js ''ascent azimuth background-attachment background-color background-image background-position backg'' @
    js ''round-repeat background baseline bbox border-collapse border-color border-spacing border-style b'' @
    js ''order-top border-right border-bottom border-left border-top-color border-right-color border-bott'' @
    js ''om-color border-left-color border-top-style border-right-style border-bottom-style border-left-s'' @
    js ''tyle border-top-width border-right-width border-bottom-width border-left-width border-width bord'' @
    js ''er cap-height caption-side centerline clear clip color content counter-increment counter-reset c'' @
    js ''ue-after cue-before cue cursor definition-src descent direction display elevation empty-cells fl'' @
    js ''oat font-size-adjust font-family font-size font-stretch font-style font-variant font-weight font'' @
    js '' height letter-spacing line-height list-style-image list-style-position list-style-type list-sty'' @
    js ''le margin-top margin-right margin-bottom margin-left margin marker-offset marks mathline max-hei'' @
    js ''ght max-width min-height min-width orphans outline-color outline-style outline-width outline ove'' @
    js ''rflow padding-top padding-right padding-bottom padding-left padding page page-break-after page-b'' @
    js ''reak-before page-break-inside pause pause-after pause-before pitch pitch-range play-during posit'' @
    js ''ion quotes richness size slope src speak-header speak-numeral speak-punctuation speak speech-rat'' @
    js ''e stemh stemv stress table-layout text-align text-decoration text-indent text-shadow text-transf'' @
    js ''orm unicode-bidi unicode-range units-per-em vertical-align visibility voice-family volume white-'' @
    js ''space widows width widths word-spacing x-height z-index'')\<close>

definition css_words8 :: jstr where
  [js_eval]: \<open>css_words8 = (js ''above absolute all always aqua armenian attr aural auto avoid baseline behind below bidi-overrid'' @
    js ''e black blink block blue bold bolder both bottom braille capitalize caption center center-left c'' @
    js ''enter-right circle close-quote code collapse compact condensed continuous counter counters crop '' @
    js ''cross crosshair cursive dashed decimal decimal-leading-zero default digits disc dotted double em'' @
    js ''bed embossed e-resize expanded extra-condensed extra-expanded fantasy far-left far-right fast fa'' @
    js ''ster fixed format fuchsia gray green groove handheld hebrew help hidden hide high higher icon in'' @
    js ''line-table inline inset inside invert italic justify landscape large larger left-side left leftw'' @
    js ''ards level lighter lime line-through list-item local loud lower-alpha lowercase lower-greek lowe'' @
    js ''r-latin lower-roman lower low ltr marker maroon medium message-box middle mix move narrower navy'' @
    js '' ne-resize no-close-quote none no-open-quote no-repeat normal nowrap n-resize nw-resize oblique '' @
    js ''olive once open-quote outset outside overline pointer portrait pre print projection purple red r'' @
    js ''elative repeat repeat-x repeat-y rgb ridge right right-side rightwards rtl run-in screen scroll '' @
    js ''semi-condensed semi-expanded separate se-resize show silent silver slower slow small small-caps '' @
    js ''small-caption smaller soft solid speech spell-out square s-resize static status-bar sub super sw'' @
    js ''-resize table-caption table-cell table-column table-column-group table-footer-group table-header'' @
    js ''-group table-row table-row-group teal text-bottom text-top thick thin top transparent tty tv ult'' @
    js ''ra-condensed ultra-expanded underline upper-alpha uppercase upper-latin upper-roman url visible '' @
    js ''wait white wider w-resize x-fast x-high x-large x-loud x-low x-slow x-small x-soft xx-large xx-s'' @
    js ''mall yellow'')\<close>

definition rules_CSS :: "hl_rule list" where
  [js_eval]: \<open>rules_CSS = [MultiLineCComments (js ''comment''),
     DoubleQuotedString (js ''string''),
     SingleQuotedString (js ''string''),
     mk_rule (rseq [RChr 35, RRep True (RCls [Rng 97 122, Rng 65 90, Rng 48 57]) 3 (Some 6)]) no_flags (js ''value''),
     mk_rule (rseq [RGrp 1 (rseq [ropt (RChr 45), rplus (RCls [ClDigit])]), ropt (RGrp 2 (rseq [RDot, rplus (RCls [ClDigit])])), RGrp 3 (ralt [rlit (js ''px''), rlit (js ''em''), rlit (js ''pt''), RChr 58, RChr 37, REps])]) no_flags (js ''value''),
     mk_rule (rlit (js ''!important'')) no_flags (js ''important''),
     mk_rule (GetKeywordsCSS css_words7) m_flag (js ''keyword''),
     mk_rule (GetValuesCSS (map rlit (split_cu 32 css_words8))) no_flags (js ''value''),
     mk_rule (GetValuesCSS [rseq [RCls [Ch 109, Ch 77], rlit (js ''onospace'')], rseq [RCls [Ch 116, Ch 84], rlit (js ''ahoma'')], rseq [RCls [Ch 118, Ch 86], rlit (js ''erdana'')], rseq [RCls [Ch 97, Ch 65], rlit (js ''rial'')], rseq [RCls [Ch 104, Ch 72], rlit (js ''elvetica'')], rseq [RCls [Ch 115, Ch 83], rlit (js ''ans-serif'')], rseq [RCls [Ch 115, Ch 83], rlit (js ''erif'')]]) no_flags (js ''value'')]\<close>

section \<open>CSharp\<close>

definition csharp_words6 :: jstr where
  [js_eval]: \<open>csharp_words6 = (js ''abstract as base bool break byte case catch char checked class const continue decimal default de'' @
    js ''legate do double else enum event explicit extern false finally fixed float for foreach get goto '' @
    js ''if implicit in int interface internal is lock long namespace new null object operator out overri'' @
    js ''de params private protected public readonly ref return sbyte sealed set short sizeof stackalloc '' @
    js ''static string struct switch this throw true try typeof uint ulong unchecked unsafe ushort using '' @
    js ''virtual void while'')\<close>

definition rules_CSharp :: "hl_rule list" where
  [js_eval]: \<open>rules_CSharp = [SingleLineCComments (js ''comment''),
     MultiLineCComments (js ''comment''),
     DoubleQuotedString (js ''string''),
     SingleQuotedString (js ''string''),
     mk_rule (rseq [RBol, rstar (RCls [ClSpace]), RChr 35, rstar RDot]) m_flag (js ''preprocessor''),
     mk_rule (GetKeywords csharp_words6) m_flag (js ''keyword'')]\<close>

section \<open>Cpp\<close>

definition cpp_words6 :: jstr where
  [js_eval]: \<open>cpp_words6 = (js ''ATOM BOOL BOOLEAN BYTE CHAR COLORREF DWORD DWORDLONG DWORD_PTR DWORD32 DWORD64 FLOAT HACCEL HALF'' @
    js ''_PTR HANDLE HBITMAP HBRUSH HCOLORSPACE HCONV HCONVLIST HCURSOR HDC HDDEDATA HDESK HDROP HDWP HEN'' @
    js ''HMETAFILE HFILE HFONT HGDIOBJ HGLOBAL HHOOK HICON HINSTANCE HKEY HKL HLOCAL HMENU HMETAFILE HMOD'' @
    js ''ULE HMONITOR HPALETTE HPEN HRESULT HRGN HRSRC HSZ HWINSTA HWND INT INT_PTR INT32 INT64 LANGID LC'' @
    js ''ID LCTYPE LGRPID LONG LONGLONG LONG_PTR LONG32 LONG64 LPARAM LPBOOL LPBYTE LPCOLORREF LPCSTR LPC'' @
    js ''TSTR LPCVOID LPCWSTR LPDWORD LPHANDLE LPINT LPLONG LPSTR LPTSTR LPVOID LPWORD LPWSTR LRESULT PBO'' @
    js ''OL PBOOLEAN PBYTE PCHAR PCSTR PCTSTR PCWSTR PDWORDLONG PDWORD_PTR PDWORD32 PDWORD64 PFLOAT PHALF'' @
    js ''_PTR PHANDLE PHKEY PINT PINT_PTR PINT32 PINT64 PLCID PLONG PLONGLONG PLONG_PTR PLONG32 PLONG64 P'' @
    js ''OINTER_32 POINTER_64 PSHORT PSIZE_T PSSIZE_T PSTR PTBYTE PTCHAR PTSTR PUCHAR PUHALF_PTR PUINT PU'' @
    js ''INT_PTR PUINT32 PUINT64 PULONG PULONGLONG PULONG_PTR PULONG32 PULONG64 PUSHORT PVOID PWCHAR PWOR'' @
    js ''D PWSTR SC_HANDLE SC_LOCK SERVICE_STATUS_HANDLE SHORT SIZE_T SSIZE_T TBYTE TCHAR UCHAR UHALF_PTR'' @
    js '' UINT UINT_PTR UINT32 UINT64 ULONG ULONGLONG ULONG_PTR ULONG32 ULONG64 USHORT USN VOID WCHAR WOR'' @
    js ''D WPARAM WPARAM WPARAM char bool short int __int32 __int64 __int8 __int16 long float double __wc'' @
    js ''har_t clock_t _complex _dev_t _diskfree_t div_t ldiv_t _exception _EXCEPTION_POINTERS FILE _find'' @
    js ''data_t _finddatai64_t _wfinddata_t _wfinddatai64_t __finddata64_t __wfinddata64_t _FPIEEE_RECORD'' @
    js '' fpos_t _HEAPINFO _HFILE lconv intptr_t jmp_buf mbstate_t _off_t _onexit_t _PNH ptrdiff_t _purec'' @
    js ''all_handler sig_atomic_t size_t _stat __stat64 _stati64 terminate_function time_t __time64_t _ti'' @
    js ''meb __timeb64 tm uintptr_t _utimbuf va_list wchar_t wctrans_t wctype_t wint_t signed'')\<close>

definition cpp_words7 :: jstr where
  [js_eval]: \<open>cpp_words7 = (js ''break case catch class const __finally __exception __try const_cast continue private public prot'' @
    js ''ected __declspec default delete deprecated dllexport dllimport do dynamic_cast else enum explici'' @
    js ''t extern if for friend goto inline mutable naked namespace new noinline noreturn nothrow registe'' @
    js ''r reinterpret_cast return selectany sizeof static static_cast struct switch template this thread'' @
    js '' throw true false try typedef typeid typename union using uuid virtual void volatile whcar_t whi'' @
    js ''le'')\<close>

definition rules_Cpp :: "hl_rule list" where
  [js_eval]: \<open>rules_Cpp = [SingleLineCComments (js ''comment''),
     MultiLineCComments (js ''comment''),
     DoubleQuotedString (js ''string''),
     SingleQuotedString (js ''string''),
     mk_rule (rseq [RBol, rstar (RChr 32), RChr 35, rstar RDot]) m_flag (js ''preprocessor''),
     mk_rule (GetKeywords cpp_words6) m_flag (js ''datatypes''),
     mk_rule (GetKeywords cpp_words7) m_flag (js ''keyword'')]\<close>

section \<open>Objc\<close>

definition objc_words1 :: jstr where
  [js_eval]: \<open>objc_words1 = (js ''ATOM BOOL BOOLEAN BYTE CHAR COLORREF DWORD DWORDLONG DWORD_PTR DWORD32 DWORD64 FLOAT HACCEL HALF'' @
    js ''_PTR HANDLE HBITMAP HBRUSH HCOLORSPACE HCONV HCONVLIST HCURSOR HDC HDDEDATA HDESK HDROP HDWP HEN'' @
    js ''HMETAFILE HFILE HFONT HGDIOBJ HGLOBAL HHOOK HICON HINSTANCE HKEY HKL HLOCAL HMENU HMETAFILE HMOD'' @
    js ''ULE HMONITOR HPALETTE HPEN HRESULT HRGN HRSRC HSZ HWINSTA HWND INT INT_PTR INT32 INT64 LANGID LC'' @
    js ''ID LCTYPE LGRPID LONG LONGLONG LONG_PTR LONG32 LONG64 LPARAM LPBOOL LPBYTE LPCOLORREF LPCSTR LPC'' @
    js ''TSTR LPCVOID LPCWSTR LPDWORD LPHANDLE LPINT LPLONG LPSTR LPTSTR LPVOID LPWORD LPWSTR LRESULT PBO'' @
    js ''OL PBOOLEAN PBYTE PCHAR PCSTR PCTSTR PCWSTR PDWORDLONG PDWORD_PTR PDWORD32 PDWORD64 PFLOAT PHALF'' @
    js ''_PTR PHANDLE PHKEY PINT PINT_PTR PINT32 PINT64 PLCID PLONG PLONGLONG PLONG_PTR PLONG32 PLONG64 P'' @
    js ''OINTER_32 POINTER_64 PSHORT PSIZE_T PSSIZE_T PSTR PTBYTE PTCHAR PTSTR PUCHAR PUHALF_PTR PUINT PU'' @
    js ''INT_PTR PUINT32 PUINT64 PULONG PULONGLONG PULONG_PTR PULONG32 PULONG64 PUSHORT PVOID PWCHAR PWOR'' @
    js ''D PWSTR SC_HANDLE SC_LOCK SERVICE_STATUS_HANDLE SHORT SIZE_T SSIZE_T TBYTE TCHAR UCHAR UHALF_PTR'' @
    js '' UINT UINT_PTR UINT32 UINT64 ULONG ULONGLONG ULONG_PTR ULONG32 ULONG64 USHORT USN VOID WCHAR WOR'' @
    js ''D WPARAM WPARAM WPARAM char bool short int __int32 __int64 __int8 __int16 long float double __wc'' @
    js ''har_t clock_t _complex _dev_t _diskfree_t div_t ldiv_t _exception _EXCEPTION_POINTERS FILE _find'' @
    js ''data_t _finddatai64_t _wfinddata_t _wfinddatai64_t __finddata64_t __wfinddata64_t _FPIEEE_RECORD'' @
    js '' fpos_t _HEAPINFO _HFILE lconv intptr_t id jmp_buf mbstate_t _off_t _onexit_t _PNH ptrdiff_t _pu'' @
    js ''recall_handler sig_atomic_t size_t _stat __stat64 _stati64 terminate_function time_t __time64_t '' @
    js ''_timeb __timeb64 tm uintptr_t _utimbuf va_list wchar_t wctrans_t wctype_t wint_t signed'')\<close>

definition objc_words2 :: jstr where
  [js_eval]: \<open>objc_words2 = (js ''break case catch class copy const __finally __exception __try const_cast continue private public'' @
    js '' protected __declspec default delete deprecated dllexport dllimport do dynamic_cast else enum ex'' @
    js ''plicit extern if for friend getter goto inline mutable naked namespace new nil NO noinline nonat'' @
    js ''omic noreturn nothrow NULL readonly readwrite register reinterpret_cast retain strong return SEL'' @
    js '' selectany self setter sizeof static static_cast struct super switch template thread throw true '' @
    js ''false try typedef typeid typename union using uuid virtual void volatile whcar_t while YES'')\<close>

definition rules_Objc :: "hl_rule list" where
  [js_eval]: \<open>rules_Objc = [mk_rule (GetKeywords objc_words1) m_flag (js ''keyword''),
     mk_rule (GetKeywords objc_words2) m_flag (js ''keyword''),
     mk_rule (rseq [RChr 64, rplus (RCls [ClWord]), RWordB]) no_flags (js ''keyword''),
     mk_rule (rseq [RCls [Ch 58, Ch 32], rlit (js ''nil'')]) no_flags (js ''keyword''),
     mk_rule (rseq [RChr 46, rplus (RCls [ClWord])]) no_flags (js ''xcodeconstants''),
     mk_rule (rseq [RChr 32, rplus (RCls [ClWord]), RLook (RCls [Ch 58, Ch 93])]) no_flags (js ''vars''),
     SingleLineCComments (js ''comment''),
     MultiLineCComments (js ''comment''),
     DoubleQuotedString (js ''string''),
     SingleQuotedString (js ''string''),
     mk_rule (rseq [rlit (js ''@"''), rstar (RNot [Ch 34]), RChr 34]) m_flag (js ''string''),
     mk_rule (RCls [ClDigit]) m_flag (js ''xcodenumber''),
     mk_rule (rseq [RBol, rstar (RChr 32), RChr 35, rstar RDot]) m_flag (js ''xcodepreprocessor''),
     mk_rule (rseq [rplus (RCls [ClWord]), RLook (rlit (js '' *''))]) no_flags (js ''keyword'')]\<close>

section \<open>The brushes\<close>

record brush =
  b_name :: jstr
  b_process :: "jstr \<Rightarrow> hl_match list option"
  b_css :: "jstr option"
  b_style :: jstr
  b_aliases :: "jstr list"

definition brush_Xml :: brush where
  [js_eval]: \<open>brush_Xml = \<lparr>b_name = (js ''Xml''), b_process = Xml_ProcessRegexList,
     b_css = Some (js ''dp-xml''), b_style = [], b_aliases = [(js ''xml''), (js ''xhtml''), (js ''xslt''), (js ''html''), (js ''xhtml'')]\<rparr>\<close>

definition brush_Vb :: brush where
  [js_eval]: \<open>brush_Vb = \<lparr>b_name = (js ''Vb''), b_process = (\<lambda>code. ProcessRegexList code rules_Vb []),
     b_css = Some (js ''dp-vb''), b_style = [], b_aliases = [(js ''vb''), (js ''vb.net'')]\<rparr>\<close>

definition brush_Sql :: brush where
  [js_eval]: \<open>brush_Sql = \<lparr>b_name = (js ''Sql''), b_process = (\<lambda>code. ProcessRegexList code rules_Sql []),
     b_css = Some (js ''dp-sql''), b_style = [], b_aliases = [(js ''sql'')]\<rparr>\<close>

definition brush_Ruby :: brush where
  [js_eval]: \<open>brush_Ruby = \<lparr>b_name = (js ''Ruby''), b_process = (\<lambda>code. ProcessRegexList code rules_Ruby []),
     b_css = Some (js ''dp-rb''), b_style = [], b_aliases = [(js ''ruby''), (js ''rails''), (js ''ror'')]\<rparr>\<close>

definition brush_Python :: brush where
  [js_eval]: \<open>brush_Python = \<lparr>b_name = (js ''Python''), b_process = (\<lambda>code. ProcessRegexList code rules_Python []),
     b_css = Some (js ''dp-py''), b_style = [], b_aliases = [(js ''py''), (js ''python'')]\<rparr>\<close>

definition brush_Plain :: brush where
  [js_eval]: \<open>brush_Plain = \<lparr>b_name = (js ''Plain''), b_process = (\<lambda>code. ProcessRegexList code rules_Plain []),
     b_css = None, b_style = [], b_aliases = [(js ''plain''), (js ''text''), (js ''txt'')]\<rparr>\<close>

definition brush_Php :: brush where
  [js_eval]: \<open>brush_Php = \<lparr>b_name = (js ''Php''), b_process = (\<lambda>code. ProcessRegexList code rules_Php []),
     b_css = Some (js ''dp-c''), b_style = [], b_aliases = [(js ''php'')]\<rparr>\<close>

definition brush_JScript :: brush where
  [js_eval]: \<open>brush_JScript = \<lparr>b_name = (js ''JScript''), b_process = (\<lambda>code. ProcessRegexList code rules_JScript []),
     b_css = Some (js ''dp-c''), b_style = [], b_aliases = [(js ''js''), (js ''jscript''), (js ''javascript'')]\<rparr>\<close>

definition brush_Java :: brush where
  [js_eval]: \<open>brush_Java = \<lparr>b_name = (js ''Java''), b_process = (\<lambda>code. ProcessRegexList code rules_Java []),
     b_css = Some (js ''dp-j''), b_style = [], b_aliases = [(js ''java'')]\<rparr>\<close>

definition brush_Delphi :: brush where
  [js_eval]: \<open>brush_Delphi = \<lparr>b_name = (js ''Delphi''), b_process = (\<lambda>code. ProcessRegexList code rules_Delphi []),
     b_css = Some (js ''dp-delphi''), b_style = [], b_aliases = [(js ''delphi''), (js ''pascal'')]\<rparr>\<close>

definition brush_CSS :: brush where
  [js_eval]: \<open>brush_CSS = \<lparr>b_name = (js ''CSS''), b_process = (\<lambda>code. ProcessRegexList code rules_CSS []),
     b_css = Some (js ''dp-css''), b_style = [], b_aliases = [(js ''css'')]\<rparr>\<close>

definition brush_CSharp :: brush where
  [js_eval]: \<open>brush_CSharp = \<lparr>b_name = (js ''CSharp''), b_process = (\<lambda>code. ProcessRegexList code rules_CSharp []),
     b_css = Some (js ''dp-c''), b_style = [], b_aliases = [(js ''c#''), (js ''c-sharp''), (js ''csharp'')]\<rparr>\<close>

definition brush_Cpp :: brush where
  [js_eval]: \<open>brush_Cpp = \<lparr>b_name = (js ''Cpp''), b_process = (\<lambda>code. ProcessRegexList code rules_Cpp []),
     b_css = Some (js ''dp-cpp''), b_style = [], b_aliases = [(js ''cpp''), (js ''c''), (js ''c++'')]\<rparr>\<close>

definition brush_Objc :: brush where
  [js_eval]: \<open>brush_Objc = \<lparr>b_name = (js ''Objc''), b_process = (\<lambda>code. ProcessRegexList code rules_Objc []),
     b_css = Some (js ''dp-objc''), b_style = (js ''.dp-objc .vars { color: #d00; }''), b_aliases = [(js ''objc'')]\<rparr>\<close>

definition brushes :: "brush list" where
  [js_eval]: "brushes = [brush_Xml, brush_Vb, brush_Sql, brush_Ruby, brush_Python, brush_Plain, brush_Php, brush_JScript, brush_Java, brush_Delphi, brush_CSS, brush_CSharp, brush_Cpp, brush_Objc]"

section \<open>All elements of a page\<close>

text \<open>
  An element that may hold code. The class is read from the attribute object (\<open>value\<close>) and from
  \<open>className\<close>, the language from the attribute object and from the property.
\<close>

record source_el =
  s_tag :: jstr
  s_name :: "jstr option"
  s_class_attr :: "jstr option"
  s_className :: jstr
  s_lang_attr :: "jstr option"
  s_lang :: "jstr option"
  s_html :: jstr

text \<open>Elements of one tag name, in document order, with the name looked for.\<close>

definition named_elements :: "jstr \<Rightarrow> jstr \<Rightarrow> source_el list \<Rightarrow> source_el list" where
  [js_eval]: "named_elements j tag es = filter (\<lambda>e. s_tag e = tag \<and> s_name e = Some j) es"

text \<open>The first argument that is there and not empty.\<close>

fun first_option :: "jstr option list \<Rightarrow> jstr option" where
  "first_option [] = None"
| "first_option (k # ks) = (case k of None \<Rightarrow> first_option ks | Some v \<Rightarrow> if v = [] then first_option ks else Some v)"

definition has_param :: "jstr \<Rightarrow> jstr list \<Rightarrow> bool" where
  [js_eval]: "has_param k j \<longleftrightarrow> list_ex (\<lambda>p. p = k) j"

text \<open>\<^verbatim>\<open>^firstline\[(\w+)\]$\<close> with flags \<open>gi\<close>; \<open>lastIndex\<close> is 0 again after each failure.\<close>

definition re_firstline :: rx where
  [js_eval]: \<open>re_firstline = rseq [RBol, rlit (js ''firstline[''), RGrp 1 (rplus (RCls [ClWord])), RChr 93, REol]\<close>

fun line_param :: "jstr list \<Rightarrow> jstr \<Rightarrow> jstr" where
  "line_param [] dflt = dflt"
| "line_param (j # rest) dflt =
     (case rx_find i_flag re_firstline j 0 of
        None \<Rightarrow> line_param rest dflt
      | Some m \<Rightarrow> (case capture j m 1 of None \<Rightarrow> [] | Some t \<Rightarrow> t))"

text \<open>The table from aliases to brushes: a later brush takes over the alias of an earlier one.\<close>

definition alias_table :: "brush list \<Rightarrow> jstr \<Rightarrow> brush option" where
  [js_eval]: "alias_table bs = fold (\<lambda>b v. fold (\<lambda>a w. w(a \<mapsto> b)) (b_aliases b) v) bs (\<lambda>_. None)"

record hl_args =
  a_gutter :: "bool option"
  a_controls :: "bool option"
  a_collapse :: "bool option"
  a_firstLine :: "int option"
  a_showColumns :: "bool option"

definition params_of :: "source_el \<Rightarrow> jstr list option" where
  [js_eval]: "params_of n = map_option (split_cu 58)
     (first_option [s_class_attr n, Some (s_className n), s_lang_attr n, s_lang n])"

text \<open>\<open>parseInt\<close> of a first line that is no number is \<open>NaN\<close>: \<open>None\<close>.\<close>

definition opts_of :: "hl_args \<Rightarrow> brush \<Rightarrow> jstr list \<Rightarrow> hl_opts" where
  [js_eval]: \<open>opts_of a b r = default_opts
     \<lparr>h_noGutter := (case a_gutter a of None \<Rightarrow> has_param (js ''nogutter'') r | Some c \<Rightarrow> \<not> c),
      h_addControls := (case a_controls a of None \<Rightarrow> \<not> has_param (js ''nocontrols'') r | Some d \<Rightarrow> d),
      h_collapse := (case a_collapse a of None \<Rightarrow> has_param (js ''collapse'') r | Some f \<Rightarrow> f),
      h_showColumns := (case a_showColumns a of None \<Rightarrow> has_param (js ''showcolumns'') r | Some q \<Rightarrow> q),
      h_firstLine := (case a_firstLine a of None \<Rightarrow> parse_int (line_param r (js ''1'')) | Some p \<Rightarrow> Some p),
      h_CssClass := b_css b\<rparr>\<close>

text \<open>
  One element: nothing happens without a class or with an unknown language; otherwise the element is
  hidden and the highlighted code is put in front of it. \<open>None\<close> is a loop without end.
\<close>

definition highlight_element ::
  "bool \<Rightarrow> bool \<Rightarrow> hl_args \<Rightarrow> (jstr \<Rightarrow> brush option) \<Rightarrow> source_el \<Rightarrow> (source_el \<times> hl_out) list option" where
  [js_eval]: \<open>highlight_element blogger clipboard a v n =
     (case params_of n of
        None \<Rightarrow> Some []
      | Some r \<Rightarrow>
          (case v (to_lower (r ! 0)) of
             None \<Rightarrow> Some []
           | Some b \<Rightarrow>
               map_option (\<lambda>out. [(n, out\<lparr>o_class := o_class out @ (js '' bg_'') @ s_className n\<rparr>)])
                 (Highlight (opts_of a b r) (b_process b) blogger clipboard (s_className n) (Some (s_html n)))))\<close>

definition HighlightAll ::
  "bool \<Rightarrow> bool \<Rightarrow> hl_args \<Rightarrow> jstr \<Rightarrow> source_el list \<Rightarrow> (source_el \<times> hl_out) list option" where
  [js_eval]: \<open>HighlightAll blogger clipboard a b es =
     (let i = named_elements b (js ''pre'') es @ named_elements b (js ''textarea'') es in
      if i = [] then Some []
      else map_option concat (those (map (highlight_element blogger clipboard a (alias_table brushes)) i)))\<close>

section \<open>Every brush ends\<close>

text \<open>No word of a list is empty: the string has no space at its ends and no two in a row.\<close>

fun gapless :: "string \<Rightarrow> bool" where
  "gapless [] = False"
| "gapless [c] = (c \<noteq> CHR '' '')"
| "gapless (c # d # s) = ((c \<noteq> CHR '' '' \<or> d \<noteq> CHR '' '') \<and> gapless (d # s))"

definition words_ok :: "jstr \<Rightarrow> bool" where
  "words_ok b \<longleftrightarrow> [] \<notin> set (split_cu 32 b)"

lemma of_char_space: "of_char c = (32 :: nat) \<longleftrightarrow> c = CHR '' ''"
proof -
  have "of_char (CHR '' '') = (32 :: nat)" by simp
  then show ?thesis by (metis of_char_eq_iff)
qed

lemma split_words:
  "gapless s \<Longrightarrow> \<exists>w ws. split_cu 32 (js s) = w # ws \<and> [] \<notin> set ws \<and> (w = [] \<longleftrightarrow> hd s = CHR '' '')"
proof (induction s rule: gapless.induct)
  case (3 c d s)
  then obtain w ws where IH: "split_cu 32 (js (d # s)) = w # ws" "[] \<notin> set ws" "w = [] \<longleftrightarrow> d = CHR '' ''" by auto
  have js: "js (c # d # s) = of_char c # js (d # s)" by (simp add: js_def)
  show ?case using 3(2) IH unfolding js by (auto simp: of_char_space)
qed (auto simp: js_def of_char_space)

lemma words_ok_js: "gapless s \<Longrightarrow> hd s \<noteq> CHR '' '' \<Longrightarrow> words_ok (js s)"
  using split_words[of s] by (auto simp: words_ok_def)

lemma min_len_ralt: "rs \<noteq> [] \<Longrightarrow> \<forall>r \<in> set rs. 0 < min_len r \<Longrightarrow> 0 < min_len (ralt rs)"
  by (induction rs rule: ralt.induct) auto

lemma min_len_rseq: "min_len (rseq rs) = sum_list (map min_len rs)"
  by (induction rs rule: rseq.induct) auto

lemma min_len_GetKeywords: "words_ok b \<Longrightarrow> 0 < min_len (GetKeywords b)"
  unfolding GetKeywords_def
  by (rule min_len_ralt) (auto simp: split_cu_nonempty words_ok_def min_len_rseq)

lemma keywords_css_min_len: "[] \<notin> set ws \<Longrightarrow> \<forall>r \<in> set (keywords_css n ws). 0 < min_len r"
  by (induction n ws rule: keywords_css.induct) (auto simp: min_len_rseq)

lemma min_len_GetKeywordsCSS: "words_ok b \<Longrightarrow> 0 < min_len (GetKeywordsCSS b)"
  unfolding GetKeywordsCSS_def
  using split_cu_nonempty[of 32 b]
  by (intro min_len_ralt) (auto simp: words_ok_def keywords_css_min_len elim: keywords_css.elims)

lemma values_css_min_len: "\<forall>w \<in> set (butlast ws). 0 < min_len w \<Longrightarrow> \<forall>r \<in> set (values_css n ws). 0 < min_len r"
  by (induction n ws rule: values_css.induct) (auto simp: min_len_rseq)

lemma values_css_nonempty: "ws \<noteq> [] \<Longrightarrow> values_css n ws \<noteq> []"
  by (induction n ws rule: values_css.induct) auto

lemma min_len_GetValuesCSS: "ws \<noteq> [] \<Longrightarrow> \<forall>w \<in> set (butlast ws). 0 < min_len w \<Longrightarrow> 0 < min_len (GetValuesCSS ws)"
  unfolding GetValuesCSS_def by (rule min_len_ralt) (simp_all add: values_css_min_len values_css_nonempty)

lemma min_len_values_words: "words_ok b \<Longrightarrow> 0 < min_len (GetValuesCSS (map rlit (split_cu 32 b)))"
  by (rule min_len_GetValuesCSS) (auto simp: split_cu_nonempty words_ok_def simp flip: map_butlast dest!: in_set_butlastD)

lemma vb_words4_ok: "words_ok vb_words4"
  unfolding vb_words4_def js_append[symmetric] by (rule words_ok_js) simp_all

lemma sql_words4_ok: "words_ok sql_words4"
  unfolding sql_words4_def js_append[symmetric] by (rule words_ok_js) simp_all

lemma sql_words5_ok: "words_ok sql_words5"
  unfolding sql_words5_def js_append[symmetric] by (rule words_ok_js) simp_all

lemma sql_words6_ok: "words_ok sql_words6"
  unfolding sql_words6_def js_append[symmetric] by (rule words_ok_js) simp_all

lemma ruby_words6_ok: "words_ok ruby_words6"
  unfolding ruby_words6_def js_append[symmetric] by (rule words_ok_js) simp_all

lemma ruby_words7_ok: "words_ok ruby_words7"
  unfolding ruby_words7_def js_append[symmetric] by (rule words_ok_js) simp_all

lemma python_words7_ok: "words_ok python_words7"
  unfolding python_words7_def js_append[symmetric] by (rule words_ok_js) simp_all

lemma python_words8_ok: "words_ok python_words8"
  unfolding python_words8_def js_append[symmetric] by (rule words_ok_js) simp_all

lemma php_words6_ok: "words_ok php_words6"
  unfolding php_words6_def js_append[symmetric] by (rule words_ok_js) simp_all

lemma php_words7_ok: "words_ok php_words7"
  unfolding php_words7_def js_append[symmetric] by (rule words_ok_js) simp_all

lemma jscript_words6_ok: "words_ok jscript_words6"
  unfolding jscript_words6_def js_append[symmetric] by (rule words_ok_js) simp_all

lemma java_words8_ok: "words_ok java_words8"
  unfolding java_words8_def js_append[symmetric] by (rule words_ok_js) simp_all

lemma delphi_words8_ok: "words_ok delphi_words8"
  unfolding delphi_words8_def js_append[symmetric] by (rule words_ok_js) simp_all

lemma css_words7_ok: "words_ok css_words7"
  unfolding css_words7_def js_append[symmetric] by (rule words_ok_js) simp_all

lemma css_words8_ok: "words_ok css_words8"
  unfolding css_words8_def js_append[symmetric] by (rule words_ok_js) simp_all

lemma csharp_words6_ok: "words_ok csharp_words6"
  unfolding csharp_words6_def js_append[symmetric] by (rule words_ok_js) simp_all

lemma cpp_words6_ok: "words_ok cpp_words6"
  unfolding cpp_words6_def js_append[symmetric] by (rule words_ok_js) simp_all

lemma cpp_words7_ok: "words_ok cpp_words7"
  unfolding cpp_words7_def js_append[symmetric] by (rule words_ok_js) simp_all

lemma objc_words1_ok: "words_ok objc_words1"
  unfolding objc_words1_def js_append[symmetric] by (rule words_ok_js) simp_all

lemma objc_words2_ok: "words_ok objc_words2"
  unfolding objc_words2_def js_append[symmetric] by (rule words_ok_js) simp_all

lemmas words_oks = vb_words4_ok sql_words4_ok sql_words5_ok sql_words6_ok ruby_words6_ok ruby_words7_ok python_words7_ok python_words8_ok php_words6_ok php_words7_ok jscript_words6_ok java_words8_ok delphi_words8_ok css_words7_ok css_words8_ok csharp_words6_ok cpp_words6_ok cpp_words7_ok objc_words1_ok objc_words2_ok

lemmas rule_defs = mk_rule_def MultiLineCComments_def SingleLineCComments_def SingleLinePerlComments_def DoubleQuotedString_def SingleQuotedString_def rstar_def rstar_lazy_def rplus_def ropt_def min_len_rseq
  min_len_GetKeywords min_len_GetKeywordsCSS min_len_values_words words_oks

lemma rules_ok_Vb: "rules_ok rules_Vb"
  by (simp add: rules_ok_def rules_Vb_def rule_defs)

lemma rules_ok_Sql: "rules_ok rules_Sql"
  by (simp add: rules_ok_def rules_Sql_def rule_defs)

lemma rules_ok_Ruby: "rules_ok rules_Ruby"
  by (simp add: rules_ok_def rules_Ruby_def rule_defs)

lemma rules_ok_Python: "rules_ok rules_Python"
  by (simp add: rules_ok_def rules_Python_def rule_defs)

lemma rules_ok_Plain: "rules_ok rules_Plain"
  by (simp add: rules_ok_def rules_Plain_def rule_defs)

lemma rules_ok_Php: "rules_ok rules_Php"
  by (simp add: rules_ok_def rules_Php_def rule_defs)

lemma rules_ok_JScript: "rules_ok rules_JScript"
  by (simp add: rules_ok_def rules_JScript_def rule_defs)

lemma rules_ok_Java: "rules_ok rules_Java"
  by (simp add: rules_ok_def rules_Java_def rule_defs)

lemma rules_ok_Delphi: "rules_ok rules_Delphi"
  by (simp add: rules_ok_def rules_Delphi_def rule_defs)

lemma rules_ok_CSS: "rules_ok rules_CSS"
  by (simp add: rules_ok_def rules_CSS_def rule_defs min_len_GetValuesCSS)

lemma rules_ok_CSharp: "rules_ok rules_CSharp"
  by (simp add: rules_ok_def rules_CSharp_def rule_defs)

lemma rules_ok_Cpp: "rules_ok rules_Cpp"
  by (simp add: rules_ok_def rules_Cpp_def rule_defs)

lemma rules_ok_Objc: "rules_ok rules_Objc"
  by (simp add: rules_ok_def rules_Objc_def rule_defs)

lemma xml_loop_returns:
  "0 < min_len r \<Longrightarrow> \<exists>ms. xml_loop r f code l = Some ms"
proof (induction r f code l rule: xml_loop.induct)
  case (1 r f code l)
  show ?case
  proof (cases "rx_exec_g m_flag r code l")
    case (Pair d l')
    show ?thesis
    proof (cases d)
      case None
      then show ?thesis using Pair by (simp add: xml_loop.simps[of r f code l])
    next
      case (Some m)
      note b = rx_exec_g_bounds[of m_flag r code l m l', OF Pair[unfolded Some]]
      then have "l' \<noteq> fst m" using 1(2) by auto
      then show ?thesis
        using 1(1)[OF Pair[symmetric] Some _ 1(2)] Pair Some by (auto simp: xml_loop.simps[of r f code l])
    qed
  qed
qed

lemma Xml_returns: "\<exists>ms. Xml_ProcessRegexList code = Some ms"
proof -
  have "rules_ok [xml_cdata, xml_comments]" "rules_ok [xml_tag]"
    by (simp_all add: rules_ok_def xml_cdata_def xml_comments_def xml_tag_def rule_defs)
  note rules = this[THEN ProcessRegexList_returns]
  have "0 < min_len xml_attribute" "0 < min_len xml_tag_name"
    by (simp_all add: xml_attribute_def xml_tag_name_def rule_defs)
  note loops = this[THEN xml_loop_returns]
  show ?thesis
    using rules(1)[of code "[]"] loops(1)[of "attribute_matches code" code 0] rules(2)[of code]
      loops(2)[of "tag_name_matches code" code 0]
    unfolding Xml_ProcessRegexList_def by (fastforce split: option.splits)
qed

lemma each_brush_returns:
  "\<exists>ms. b_process brush_Xml code = Some ms"
  "\<exists>ms. b_process brush_Vb code = Some ms"
  "\<exists>ms. b_process brush_Sql code = Some ms"
  "\<exists>ms. b_process brush_Ruby code = Some ms"
  "\<exists>ms. b_process brush_Python code = Some ms"
  "\<exists>ms. b_process brush_Plain code = Some ms"
  "\<exists>ms. b_process brush_Php code = Some ms"
  "\<exists>ms. b_process brush_JScript code = Some ms"
  "\<exists>ms. b_process brush_Java code = Some ms"
  "\<exists>ms. b_process brush_Delphi code = Some ms"
  "\<exists>ms. b_process brush_CSS code = Some ms"
  "\<exists>ms. b_process brush_CSharp code = Some ms"
  "\<exists>ms. b_process brush_Cpp code = Some ms"
  "\<exists>ms. b_process brush_Objc code = Some ms"
  by (simp_all add: brush_Xml_def brush_Vb_def brush_Sql_def brush_Ruby_def brush_Python_def brush_Plain_def brush_Php_def brush_JScript_def brush_Java_def brush_Delphi_def brush_CSS_def brush_CSharp_def brush_Cpp_def brush_Objc_def
    Xml_returns ProcessRegexList_returns rules_ok_Vb rules_ok_Sql rules_ok_Ruby rules_ok_Python rules_ok_Plain rules_ok_Php rules_ok_JScript rules_ok_Java rules_ok_Delphi rules_ok_CSS rules_ok_CSharp rules_ok_Cpp rules_ok_Objc)

lemma brush_returns: "b \<in> set brushes \<Longrightarrow> \<exists>ms. b_process b code = Some ms"
  using each_brush_returns by (auto simp: brushes_def)

text \<open>The alias table holds exactly the aliases of the brushes, each with a brush that has it.\<close>

lemma alias_step: "fold (\<lambda>a w. w(a \<mapsto> b)) as v x = (if x \<in> set as then Some b else v x)"
  by (induction as arbitrary: v) auto

lemma find_last: "find P (xs @ [y]) = (case find P xs of Some z \<Rightarrow> Some z | None \<Rightarrow> if P y then Some y else None)"
  by (induction xs) auto

lemma alias_table_from:
  "fold (\<lambda>b v. fold (\<lambda>a w. w(a \<mapsto> b)) (b_aliases b) v) bs v x =
     (case find (\<lambda>b. x \<in> set (b_aliases b)) (rev bs) of Some b \<Rightarrow> Some b | None \<Rightarrow> v x)"
proof (induction bs arbitrary: v)
  case (Cons b bs)
  show ?case
    unfolding fold_Cons o_apply Cons rev.simps find_last by (auto simp: alias_step split: option.splits)
qed simp

text \<open>The table maps an alias to the last brush that lists it, and nothing else.\<close>

theorem alias_table_correct:
  "alias_table bs a = find (\<lambda>b. a \<in> set (b_aliases b)) (rev bs)"
  by (simp add: alias_table_def alias_table_from split: option.splits)

lemma find_SomeD: "find P xs = Some x \<Longrightarrow> P x \<and> x \<in> set xs"
  by (induction xs) (auto split: if_splits)

lemma alias_table_in: "alias_table bs a = Some b \<Longrightarrow> b \<in> set bs \<and> a \<in> set (b_aliases b)"
  using find_SomeD[of "\<lambda>b. a \<in> set (b_aliases b)" "rev bs" b]
  by (simp add: alias_table_def alias_table_from split: option.splits)

lemma Highlight_returns:
  assumes "\<And>code. \<exists>ms. process code = Some ms"
  shows "\<exists>out. Highlight h process blogger clipboard cls b = Some out"
proof -
  obtain ms where "process (let code0 = strip_newlines (unindent blogger (case b of None \<Rightarrow> [] | Some s \<Rightarrow> s))
      in if h_tabsToSpaces h then ProcessSmartTabs code0 else code0) = Some ms" using assms by blast
  then show ?thesis by (simp add: Highlight_def Let_def SwitchToList_def)
qed

text \<open>C7: whatever the page holds, highlighting ends: no expression of any brush matches the empty text,
  the only way a search loop can run for ever.\<close>

theorem highlight_all_ends: "\<exists>outs. HighlightAll blogger clipboard a name es = Some outs"
proof -
  have one: "\<exists>out. highlight_element blogger clipboard a (alias_table brushes) n = Some out" for n
    using Highlight_returns[OF brush_returns[OF conjunct1[OF alias_table_in[of brushes]]]]
    by (fastforce simp: highlight_element_def split: option.splits)
  have "\<exists>outs. those (map (highlight_element blogger clipboard a (alias_table brushes)) ns) = Some outs" for ns
  proof (induction ns)
    case (Cons n ns)
    then show ?case using one[of n] by auto
  qed simp
  then show ?thesis by (auto simp: HighlightAll_def Let_def simp del: map_append)
qed

section \<open>Repeated text\<close>

text \<open>
  Two rules of the Python brush match at a docstring in single quotes: the string rule takes the first
  two quotes, the comment rule the whole. Both start at the same place, neither is inside the other,
  and the first two quotes are written twice.
\<close>

lemma python_repeats:
  "map_option (\<lambda>ms. concat (map fst (pieces_of (replicate 3 39 @ 97 # replicate 3 39) ms)))
     (ProcessRegexList (replicate 3 39 @ 97 # replicate 3 39) rules_Python []) =
   Some (replicate 5 39 @ 97 # replicate 3 39)"
  by code_simp

end
