(* ===== verification/Cookies.thy ===== *)
theory Cookies
  imports JsRegex Page
begin

text \<open>
  Cookies (\<open>newblog.js\<close>: \<open>jQuery.cookie\<close>, \<open>getUN\<close>). The cookie jar of the browser is a list of pairs;
  \<open>document.cookie\<close> shows it as one string, which the scripts take apart. The jar is a store in the
  sense of the locale \<open>store_on\<close>: what is written under a name is read back under it and no other name
  changes, for the names and values a cookie can have.
\<close>

section \<open>Decoding\<close>

text \<open>\<open>decodeURIComponent\<close>: bytes in percent notation, read as UTF-8; \<open>None\<close> is a \<open>URIError\<close>.\<close>

definition percent_byte :: "jstr \<Rightarrow> nat option" where
  [js_eval]: "percent_byte s =
     (case s of c # a # b # _ \<Rightarrow> if c = 37 \<and> is_hex a \<and> is_hex b then Some (hex_num [a, b]) else None | _ \<Rightarrow> None)"

definition continuation :: "jstr \<Rightarrow> nat option" where
  [js_eval]: "continuation s =
     (case percent_byte s of None \<Rightarrow> None | Some b \<Rightarrow> if 128 \<le> b \<and> b < 192 then Some (b - 128) else None)"

text \<open>The continuation bytes of a character that has \<open>n\<close> of them, added to its first bits.\<close>

fun utf8_rest :: "nat \<Rightarrow> nat \<Rightarrow> jstr \<Rightarrow> nat option" where
  "utf8_rest 0 v s = Some v"
| "utf8_rest (Suc n) v s =
     (case continuation s of None \<Rightarrow> None | Some b \<Rightarrow> utf8_rest n (64 * v + b) (drop 3 s))"

text \<open>The character that starts the text and the number of bytes it takes.\<close>

definition utf8_char :: "jstr \<Rightarrow> (nat \<times> nat) option" where
  [js_eval]: "utf8_char s =
     (case percent_byte s of
        None \<Rightarrow> None
      | Some b \<Rightarrow>
          if b < 128 then Some (b, 1)
          else if 192 \<le> b \<and> b < 224 then
            (case utf8_rest 1 (b - 192) (drop 3 s) of Some v \<Rightarrow> if 128 \<le> v then Some (v, 2) else None | None \<Rightarrow> None)
          else if 224 \<le> b \<and> b < 240 then
            (case utf8_rest 2 (b - 224) (drop 3 s) of
               Some v \<Rightarrow> if 2048 \<le> v \<and> \<not> (55296 \<le> v \<and> v \<le> 57343) then Some (v, 3) else None | None \<Rightarrow> None)
          else if 240 \<le> b \<and> b < 248 then
            (case utf8_rest 3 (b - 240) (drop 3 s) of
               Some v \<Rightarrow> if 65536 \<le> v \<and> v \<le> 1114111 then Some (v, 4) else None | None \<Rightarrow> None)
          else None)"

definition units_of :: "nat \<Rightarrow> jstr" where
  [js_eval]: "units_of v = (if v < 65536 then [v] else [55296 + (v - 65536) div 1024, 56320 + (v - 65536) mod 1024])"

lemma utf8_char_bytes: "utf8_char s = Some (v, n) \<Longrightarrow> 1 \<le> n"
  by (auto simp: utf8_char_def split: option.splits if_splits)

function decodeURIComponent :: "jstr \<Rightarrow> jstr option" where
  "decodeURIComponent s =
     (case s of
        [] \<Rightarrow> Some []
      | c # cs \<Rightarrow>
          if c \<noteq> 37 then map_option ((#) c) (decodeURIComponent cs)
          else case utf8_char s of
                 None \<Rightarrow> None
               | Some (v, n) \<Rightarrow> map_option ((@) (units_of v)) (decodeURIComponent (drop (3 * n) s)))"
  by pat_completeness auto
termination
proof (relation "measure length", goal_cases)
  case (3 s c cs x v n)
  then show ?case using utf8_char_bytes[of s v n] by auto
qed simp_all

declare decodeURIComponent.simps [simp del]

text \<open>Reading back the bytes of one character.\<close>

lemma percent_byte_hex2: "b < 256 \<Longrightarrow> percent_byte (37 # hex2 b @ s) = Some b"
proof -
  assume "b < 256"
  moreover obtain x y where "hex2 b = [x, y]" "is_hex x" "is_hex y" by (rule hex2_cases)
  ultimately show ?thesis using hex_num_hex2[of b] by (simp add: percent_byte_def)
qed

lemma length_hex2 [simp]: "length (hex2 b) = 2"
  by (simp add: hex2_def)

lemma drop_hex2: "drop 3 (37 # hex2 b @ s) = s"
  by (simp add: hex2_def numeral_3_eq_3)

lemma percent_Cons: "percent (b # bs) = 37 # hex2 b @ percent bs"
  by (simp add: percent_def)

lemma percent_Nil: "percent [] = []"
  by (simp add: percent_def)

lemma continuation_hex2: "b < 64 \<Longrightarrow> continuation (37 # hex2 (128 + b) @ s) = Some b"
  by (simp add: continuation_def percent_byte_hex2)

lemma utf8_rest_percent:
  "\<forall>b \<in> set bs. b < 64 \<Longrightarrow>
   utf8_rest (length bs) v (percent (map ((+) 128) bs) @ s) = Some (foldl (\<lambda>v b. 64 * v + b) v bs)"
  by (induction bs arbitrary: v) (simp_all add: percent_Cons continuation_hex2 drop_hex2)

lemma utf8_char_utf8:
  assumes "v \<le> 1114111" "\<not> (55296 \<le> v \<and> v \<le> 57343)"
  shows "utf8_char (percent (utf8 v) @ s) = Some (v, length (utf8 v))"
proof -
  consider "v < 128" | "128 \<le> v" "v < 2048" | "2048 \<le> v" "v < 65536" | "65536 \<le> v" by linarith
  then show ?thesis
  proof cases
    case 1
    then show ?thesis by (simp add: utf8_def utf8_char_def percent_Cons percent_byte_hex2)
  next
    case 2
    have "64 * (v div 64) + v mod 64 = v" "v div 64 < 32" using 2 by auto
    then show ?thesis using 2 utf8_rest_percent[of "[v mod 64]" "v div 64" s]
      by (simp add: utf8_def utf8_char_def percent_Cons percent_Nil percent_byte_hex2 drop_hex2)
  next
    case 3
    have "64 * (64 * (v div 4096) + v div 64 mod 64) + v mod 64 = v"
      using mod_mult2_eq[of v 64 64] mult_div_mod_eq[of 4096 v] by simp
    moreover have "v div 4096 < 16" using 3 by auto
    ultimately show ?thesis using 3 assms utf8_rest_percent[of "[v div 64 mod 64, v mod 64]" "v div 4096" s]
      by (simp add: utf8_def utf8_char_def percent_Cons percent_Nil percent_byte_hex2 drop_hex2 numeral_2_eq_2)
  next
    case 4
    have "64 * (64 * (64 * (v div 262144) + v div 4096 mod 64) + v div 64 mod 64) + v mod 64 = v"
      using mod_mult2_eq[of v 64 64] mod_mult2_eq[of v 4096 64] mult_div_mod_eq[of 262144 v] by simp
    moreover have "v div 262144 < 8" using assms(1) by auto
    ultimately show ?thesis
      using 4 assms utf8_rest_percent[of "[v div 4096 mod 64, v div 64 mod 64, v mod 64]" "v div 262144" s]
      by (simp add: utf8_def utf8_char_def percent_Cons percent_Nil percent_byte_hex2 drop_hex2 numeral_3_eq_3)
  qed
qed

lemma utf8_nonempty: "utf8 v \<noteq> []"
  by (simp add: utf8_def)

lemma length_percent: "length (percent bs) = 3 * length bs"
  by (induction bs) (simp_all add: percent_def)

lemma decode_percent:
  assumes "v \<le> 1114111" "\<not> (55296 \<le> v \<and> v \<le> 57343)"
  shows "decodeURIComponent (percent (utf8 v) @ s) = map_option ((@) (units_of v)) (decodeURIComponent s)"
proof -
  obtain cs where p: "percent (utf8 v) @ s = 37 # cs"
    using utf8_nonempty[of v] by (cases "utf8 v") (auto simp: percent_Cons)
  have d: "drop (3 * length (utf8 v)) (37 # cs) = s"
    using p length_percent[of "utf8 v"] by (metis append_eq_conv_conj)
  have "decodeURIComponent (37 # cs) = map_option ((@) (units_of v)) (decodeURIComponent (drop (3 * length (utf8 v)) (37 # cs)))"
    using utf8_char_utf8[OF assms, of s] unfolding p by (subst decodeURIComponent.simps) simp
  then show ?thesis unfolding p d .
qed

text \<open>Decoding undoes encoding.\<close>

lemma uri_keeps_not_percent: "uri_keeps c \<Longrightarrow> c \<noteq> 37"
  by (auto simp: uri_keeps_def is_word_def is_digit_def is_upper_def is_lower_def)

lemma decode_encode:
  "encodeURIComponent s = Some t \<Longrightarrow> \<forall>c \<in> set s. c < 65536 \<Longrightarrow> decodeURIComponent t = Some s"
proof (induction s arbitrary: t rule: encodeURIComponent.induct)
  case 1
  then show ?case by (simp add: decodeURIComponent.simps)
next
  case (2 c s)
  note prems = "2.prems" and IH = "2.IH"
  consider "uri_keeps c" | "\<not> uri_keeps c" "\<not> (55296 \<le> c \<and> c \<le> 57343)" | "\<not> uri_keeps c" "55296 \<le> c" "c \<le> 56319"
    using prems(1) by (cases "uri_keeps c") (auto split: if_splits)
  then show ?case
  proof cases
    case 1
    then obtain u where "encodeURIComponent s = Some u" "t = c # u" using prems(1) by auto
    then show ?thesis using IH(1)[OF 1] prems(2) uri_keeps_not_percent[OF 1]
      by (simp add: decodeURIComponent.simps[of "c # u"])
  next
    case 2
    then obtain u where u: "encodeURIComponent s = Some u" "t = percent (utf8 c) @ u"
      using prems(1) by (auto split: if_splits)
    moreover have "c \<le> 1114111" "units_of c = [c]" using prems(2) by (auto simp: units_of_def)
    ultimately show ?thesis using decode_percent[of c u] IH(3) 2 prems(2) by auto
  next
    case 3
    then obtain d s' u where s: "s = d # s'" "56320 \<le> d" "d \<le> 57343"
      and u: "encodeURIComponent s' = Some u" "t = percent (utf8 (65536 + 1024 * (c - 55296) + (d - 56320))) @ u"
      using prems(1) by (auto split: list.splits if_splits)
    let ?v = "65536 + 1024 * (c - 55296) + (d - 56320)"
    obtain k where k: "d = 56320 + k" using s(2) by (auto simp: le_iff_add)
    have "units_of ?v = [c, d]" using 3 s unfolding k by (simp add: units_of_def)
    moreover have "?v \<le> 1114111" "\<not> (55296 \<le> ?v \<and> ?v \<le> 57343)" using 3 s by auto
    ultimately show ?thesis using decode_percent[of ?v u] IH(2)[OF 3(1) _ _ s(1)] u 3 s prems(2) by auto
  qed
qed

section \<open>Writing and reading a cookie\<close>

text \<open>A store whose keys and values are restricted, on the states the provider keeps.\<close>

locale store_on =
  fixes get :: "'k \<Rightarrow> 's \<Rightarrow> 'v"
    and put :: "'k \<Rightarrow> 'v \<Rightarrow> 's \<Rightarrow> 's"
    and ok_key :: "'k \<Rightarrow> bool"
    and ok_val :: "'v \<Rightarrow> bool"
    and inv :: "'s \<Rightarrow> bool"
  assumes put_inv: "ok_key k \<Longrightarrow> ok_val v \<Longrightarrow> inv s \<Longrightarrow> inv (put k v s)"
    and get_put: "ok_key k \<Longrightarrow> ok_val v \<Longrightarrow> inv s \<Longrightarrow> get k (put k v s) = v"
    and get_put_other: "ok_key k \<Longrightarrow> ok_val v \<Longrightarrow> inv s \<Longrightarrow> ok_key j \<Longrightarrow> k \<noteq> j \<Longrightarrow> get j (put k v s) = get j s"
begin

lemma put_twice: "ok_key k \<Longrightarrow> ok_val v \<Longrightarrow> ok_val w \<Longrightarrow> inv s \<Longrightarrow> get k (put k w (put k v s)) = w"
  by (simp add: put_inv get_put)

text \<open>What is written survives any number of writes under other keys.\<close>

lemma get_puts:
  "ok_key k \<Longrightarrow> inv s \<Longrightarrow> \<forall>(j, v) \<in> set kvs. ok_key j \<and> ok_val v \<and> j \<noteq> k \<Longrightarrow>
   get k (fold (\<lambda>(j, v). put j v) kvs s) = get k s"
  by (induction kvs arbitrary: s) (auto simp: put_inv get_put_other)

end

text \<open>An unrestricted store is one.\<close>

sublocale keyed_store \<subseteq> unrestricted: store_on get put "\<lambda>_. True" "\<lambda>_. True" "\<lambda>_. True"
  by unfold_locales (auto simp: get_put_same get_put_other)

datatype js_error = URIError | TypeError

type_synonym jar = "(jstr \<times> jstr) list"

text \<open>\<open>document.cookie\<close>, and the pair that an assignment to it adds or replaces.\<close>

definition document_cookie :: "jar \<Rightarrow> jstr" where
  [js_eval]: \<open>document_cookie j = join (js ''; '') (map (\<lambda>(n, v). n @ 61 # v) j)\<close>

fun jar_set :: "jstr \<Rightarrow> jstr \<Rightarrow> jar \<Rightarrow> jar" where
  "jar_set n v [] = [(n, v)]"
| "jar_set n v ((m, w) # j) = (if m = n then (n, v) # j else (m, w) # jar_set n v j)"

record cookie_options =
  co_expires :: "jstr option"
  co_path :: "jstr option"
  co_domain :: "jstr option"
  co_secure :: bool

text \<open>The string assigned to \<open>document.cookie\<close>; an expiry in days is given as the date it leads to, and
  deleting gives a date in the past.\<close>

definition cookie_text :: "jstr \<Rightarrow> jstr option \<Rightarrow> cookie_options \<Rightarrow> jstr \<Rightarrow> jstr option" where
  [js_eval]: \<open>cookie_text name val opt yesterday =
     map_option (\<lambda>v.
         name @ (js ''='') @ v
         @ (case (if val = None then Some yesterday else co_expires opt) of None \<Rightarrow> [] | Some d \<Rightarrow> (js ''; expires='') @ d)
         @ (case co_path opt of None \<Rightarrow> [] | Some p \<Rightarrow> if p = [] then [] else (js ''; path='') @ p)
         @ (case co_domain opt of None \<Rightarrow> [] | Some d \<Rightarrow> if d = [] then [] else (js ''; domain='') @ d)
         @ (if co_secure opt then (js ''; secure'') else []))
       (encodeURIComponent (case val of None \<Rightarrow> [] | Some v \<Rightarrow> v))\<close>

fun cookie_scan :: "jstr \<Rightarrow> jstr list \<Rightarrow> js_error + jstr option" where
  "cookie_scan name [] = Inr None"
| \<open>cookie_scan name (c # cs) =
     (let cookie = trim c in
      if substring cookie 0 (length name + 1) = name @ (js ''='')
      then (case decodeURIComponent (substring_from cookie (length name + 1)) of
              None \<Rightarrow> Inl URIError | Some v \<Rightarrow> Inr (Some v))
      else cookie_scan name cs)\<close>

definition cookie_get :: "jstr \<Rightarrow> jstr \<Rightarrow> js_error + jstr option" where
  [js_eval]: "cookie_get cookie name =
     (if cookie \<noteq> [] then cookie_scan name (split_cu 59 cookie) else Inr None)"

text \<open>A jar a browser can hold: distinct names, no separator and no space around a name or value.\<close>

definition cookie_name :: "jstr \<Rightarrow> bool" where
  "cookie_name n \<longleftrightarrow> n \<noteq> [] \<and> 59 \<notin> set n \<and> 61 \<notin> set n \<and> \<not> is_ws (hd n)"

definition cookie_value :: "jstr \<Rightarrow> bool" where
  "cookie_value v \<longleftrightarrow> 59 \<notin> set v \<and> (v = [] \<or> \<not> is_ws (last v))"

definition jar_ok :: "jar \<Rightarrow> bool" where
  "jar_ok j \<longleftrightarrow> distinct (map fst j) \<and> (\<forall>(n, v) \<in> set j. cookie_name n \<and> cookie_value v)"

lemma set_jar_set: "set (jar_set n v j) \<subseteq> insert (n, v) (set j)"
  by (induction n v j rule: jar_set.induct) auto

lemma fst_jar_set: "fst ` set (jar_set n v j) = insert n (fst ` set j)"
  by (induction n v j rule: jar_set.induct) auto

lemma distinct_jar_set: "distinct (map fst j) \<Longrightarrow> distinct (map fst (jar_set n v j))"
  by (induction n v j rule: jar_set.induct) (auto simp: fst_jar_set)

lemma jar_ok_set: "jar_ok j \<Longrightarrow> cookie_name n \<Longrightarrow> cookie_value v \<Longrightarrow> jar_ok (jar_set n v j)"
  using set_jar_set[of n v j] distinct_jar_set[of j n v] unfolding jar_ok_def by blast

lemma map_of_jar_set: "map_of (jar_set n v j) m = (if m = n then Some v else map_of j m)"
  by (induction n v j rule: jar_set.induct) auto

lemma trim_pair:
  assumes "cookie_name n" "cookie_value v"
  shows "trim (n @ 61 # v) = n @ 61 # v" "trim (32 # n @ 61 # v) = n @ 61 # v"
proof -
  obtain a m where n: "n = a # m" "\<not> is_ws a" using assms(1) by (cases n) (auto simp: cookie_name_def)
  have l: "\<not> is_ws (last (n @ 61 # v))" using assms(2) by (auto simp: cookie_value_def is_ws_def)
  have sp: "is_ws 32" by (simp add: is_ws_def)
  have "dropWhile is_ws (rev (n @ 61 # v)) = rev (n @ 61 # v)"
    using l by (intro dropWhile_id) (auto simp: hd_append hd_rev)
  then show "trim (n @ 61 # v) = n @ 61 # v" "trim (32 # n @ 61 # v) = n @ 61 # v"
    using n sp by (simp_all add: trim_def ltrim_def)
qed

lemma name_prefix:
  assumes "61 \<notin> set n" "61 \<notin> set m"
  shows "take (Suc (length n)) (m @ 61 # v) = n @ [61] \<longleftrightarrow> m = n"
proof
  assume "take (Suc (length n)) (m @ 61 # v) = n @ [61]"
  then obtain w where "m @ 61 # v = n @ 61 # w"
    by (metis append_Cons append_Nil append_assoc append_take_drop_id)
  then have "takeWhile (\<lambda>x. x \<noteq> 61) (m @ 61 # v) = takeWhile (\<lambda>x. x \<noteq> 61) (n @ 61 # w)" by simp
  then show "m = n" using assms by (subst (asm) (1 2) takeWhile_append2) auto
qed simp

lemma cookie_scan_jar:
  assumes "jar_ok j" "cookie_name n"
    "list_all2 (\<lambda>c (m, v). c = m @ 61 # v \<or> c = 32 # m @ 61 # v) cs j"
  shows "cookie_scan n cs =
    (case map_of j n of None \<Rightarrow> Inr None
     | Some v \<Rightarrow> (case decodeURIComponent v of None \<Rightarrow> Inl URIError | Some u \<Rightarrow> Inr (Some u)))"
  using assms(3,1)
proof (induction rule: list_all2_induct)
  case (Cons c cs p j)
  obtain m v where p: "p = (m, v)" by (cases p)
  have ok: "cookie_name m" "cookie_value v" "jar_ok j" using Cons.prems p by (auto simp: jar_ok_def)
  have t: "trim c = m @ 61 # v" using Cons.hyps(1) p trim_pair[OF ok(1,2)] by auto
  have "take (Suc (length n)) (m @ 61 # v) = n @ [61] \<longleftrightarrow> m = n"
    using ok(1) assms(2) by (intro name_prefix) (auto simp: cookie_name_def)
  then show ?case
    using Cons.IH[OF ok(3)] p t by (auto simp: Let_def substring_0 substring_from_def js_def)
qed simp

lemma split_document_cookie:
  assumes "jar_ok (p # ps)"
  shows "split_cu 59 (document_cookie (p # ps)) =
    (fst p @ 61 # snd p) # map (\<lambda>(n, v). 32 # n @ 61 # v) ps"
  using assms
proof (induction ps arbitrary: p)
  case Nil
  then show ?case
    by (cases p) (auto simp: document_cookie_def jar_ok_def cookie_name_def cookie_value_def intro!: split_cu_no_sep)
next
  case (Cons q ps)
  have "jar_ok (q # ps)" using Cons.prems by (auto simp: jar_ok_def)
  from Cons.IH[OF this] have IH: "split_cu 59 (document_cookie (q # ps)) =
    (fst q @ 61 # snd q) # map (\<lambda>(n, v). 32 # n @ 61 # v) ps" .
  have "document_cookie (p # q # ps) = (fst p @ 61 # snd p) @ 59 # 32 # document_cookie (q # ps)"
    by (cases p) (simp add: document_cookie_def js_def)
  moreover have "59 \<notin> set (fst p @ 61 # snd p)"
    using Cons.prems by (cases p) (auto simp: jar_ok_def cookie_name_def cookie_value_def)
  ultimately show ?case using IH split_cu_append_sep[of 59 "fst p @ 61 # snd p"] by (cases q) simp
qed

text \<open>C10: reading a cookie through the string gives what the jar holds under the name, decoded, for every jar.\<close>

theorem cookie_reads_jar:
  assumes "jar_ok j" "cookie_name n"
  shows "cookie_get (document_cookie j) n =
    (case map_of j n of None \<Rightarrow> Inr None
     | Some v \<Rightarrow> (case decodeURIComponent v of None \<Rightarrow> Inl URIError | Some u \<Rightarrow> Inr (Some u)))"
proof (cases j)
  case Nil
  then show ?thesis by (simp add: cookie_get_def document_cookie_def)
next
  case (Cons p ps)
  have "list_all2 (\<lambda>c (m, v). c = m @ 61 # v \<or> c = 32 # m @ 61 # v) (split_cu 59 (document_cookie j)) j"
    using split_document_cookie[of p ps] assms(1) Cons
    by (auto simp: list_all2_map1 list_all2_same split: prod.splits)
  moreover have "document_cookie j \<noteq> []" using Cons by (cases p; cases ps) (auto simp: document_cookie_def)
  ultimately show ?thesis using cookie_scan_jar[OF assms] by (simp add: cookie_get_def)
qed

theorem cookie_reads_jar_witness:
  \<open>cookie_get (document_cookie [((js ''LastUserName''), (js ''bob'')), ((js ''UserName''), (js ''a%E5%8D%9A''))]) (js ''UserName'') = Inr (Some (js ''a'' @ [21338]))\<close>
proof -
  let ?j = \<open>[((js ''LastUserName''), (js ''bob'')), ((js ''UserName''), (js ''a%E5%8D%9A''))]\<close>
  have "jar_ok ?j" \<open>cookie_name (js ''UserName'')\<close>
    by (simp_all add: jar_ok_def cookie_name_def cookie_value_def js_def is_ws_def)
  from cookie_reads_jar[OF this] have \<open>cookie_get (document_cookie ?j) (js ''UserName'') =
    (case decodeURIComponent (js ''a%E5%8D%9A'') of None \<Rightarrow> Inl URIError | Some u \<Rightarrow> Inr (Some u))\<close>
    by (simp add: js_def)
  moreover have \<open>decodeURIComponent (js ''a%E5%8D%9A'') = Some (js ''a'' @ [21338])\<close> by code_simp
  ultimately show ?thesis by simp
qed

section \<open>The jar as a store\<close>

text \<open>Setting a cookie encodes the value; \<open>null\<close> deletes it (the browser drops an expired cookie). Reading
  goes through the string.\<close>

definition jar_put :: "jstr \<Rightarrow> jstr option \<Rightarrow> jar \<Rightarrow> jar" where
  [js_eval]: "jar_put n v j =
     (case v of
        None \<Rightarrow> filter (\<lambda>p. fst p \<noteq> n) j
      | Some s \<Rightarrow> (case encodeURIComponent s of None \<Rightarrow> j | Some e \<Rightarrow> jar_set n e j))"

definition jar_get :: "jstr \<Rightarrow> jar \<Rightarrow> jstr option" where
  [js_eval]: "jar_get n j = (case cookie_get (document_cookie j) n of Inl e \<Rightarrow> None | Inr v \<Rightarrow> v)"

text \<open>Values that can be encoded: no lone surrogate.\<close>

definition encodable :: "jstr option \<Rightarrow> bool" where
  "encodable v = (case v of None \<Rightarrow> True | Some s \<Rightarrow> encodeURIComponent s \<noteq> None \<and> (\<forall>c \<in> set s. c < 65536))"

lemma hex2_keeps: "\<forall>c \<in> set (hex2 b). uri_keeps c"
proof -
  have "uri_keeps (hex_digit n)" if "n < 16" for n
    using that by (auto simp: hex_digit_def uri_keeps_def is_word_def is_digit_def is_upper_def)
  then show ?thesis by (simp add: hex2_def)
qed

lemma percent_keeps: "\<forall>c \<in> set (percent bs). uri_keeps c \<or> c = 37"
  using hex2_keeps by (induction bs) (auto simp: percent_Cons percent_Nil)

lemma encoded_keeps: "encodeURIComponent s = Some e \<Longrightarrow> \<forall>c \<in> set e. uri_keeps c \<or> c = 37"
proof (induction s arbitrary: e rule: encodeURIComponent.induct)
  case (2 c s)
  then show ?case using percent_keeps by (fastforce split: if_splits list.splits)
qed simp

lemma encoded_value: "encodeURIComponent s = Some e \<Longrightarrow> cookie_value e"
proof -
  assume "encodeURIComponent s = Some e"
  then have k: "c \<in> set e \<Longrightarrow> uri_keeps c \<or> c = 37" for c using encoded_keeps by blast
  have "\<not> uri_keeps 59" by (simp add: uri_keeps_def is_word_def is_digit_def is_upper_def is_lower_def)
  moreover have "\<not> is_ws c" if "uri_keeps c \<or> c = 37" for c
    using that by (auto simp: uri_keeps_def is_word_def is_digit_def is_upper_def is_lower_def is_ws_def)
  ultimately show ?thesis using k unfolding cookie_value_def by (metis last_in_set numeral_eq_iff semiring_norm(89,90))
qed

lemma jar_ok_filter: "jar_ok j \<Longrightarrow> jar_ok (filter P j)"
  by (auto simp: jar_ok_def distinct_map_filter)

lemma map_of_filter_other: "map_of (filter (\<lambda>p. fst p \<noteq> n) j) m = (if m = n then None else map_of j m)"
  by (induction j) auto

interpretation jars: store_on jar_get jar_put cookie_name encodable jar_ok
proof
  fix k v s assume a: "cookie_name k" "encodable v" "jar_ok s"
  show inv: "jar_ok (jar_put k v s)"
    using a encoded_value jar_ok_set jar_ok_filter by (auto simp: jar_put_def split: option.splits)
  show "jar_get k (jar_put k v s) = v"
  proof (cases v)
    case None
    then show ?thesis unfolding jar_get_def cookie_reads_jar[OF inv a(1)] by (simp add: jar_put_def map_of_filter_other)
  next
    case (Some u)
    then obtain e where "encodeURIComponent u = Some e" "decodeURIComponent e = Some u"
      using a(2) decode_encode by (auto simp: encodable_def)
    then show ?thesis using Some unfolding jar_get_def cookie_reads_jar[OF inv a(1)]
      by (simp add: jar_put_def map_of_jar_set)
  qed
  fix j assume j: "cookie_name j" "k \<noteq> j"
  show "jar_get j (jar_put k v s) = jar_get j s"
    unfolding jar_get_def cookie_reads_jar[OF inv j(1)] cookie_reads_jar[OF a(3) j(1)] using j(2)
    by (auto simp: jar_put_def map_of_jar_set map_of_filter_other split: option.splits)
qed



section \<open>The user name\<close>

text \<open>\<^verbatim>\<open>(^| )UserName=([^;]*)(;|$)\<close>\<close>

definition re_user_name :: rx where
  [js_eval]: \<open>re_user_name = rseq [RGrp 1 (RAlt RBol (RChr 32)), rlit (js ''UserName=''), RGrp 2 (rstar (RNot [Ch 59])),
     RGrp 3 (RAlt (RChr 59) REol)]\<close>

definition getUN :: "jstr \<Rightarrow> jstr" where
  [js_eval]: "getUN cookie =
     (case rx_find no_flags re_user_name cookie 0 of
        None \<Rightarrow> []
      | Some m \<Rightarrow> (case capture cookie m 2 of None \<Rightarrow> [] | Some v \<Rightarrow> v))"

lemma getUN_whole_name: \<open>getUN (js ''LastUserName=bob; UserName=ann'') = (js ''ann'')\<close>
  by code_simp

end
