(* ===== verification/BlogCommon.thy ===== *)
theory BlogCommon
  imports CommentTree Cookies
begin

text \<open>
  The common part of the blog page (first part and end of \<open>newblog.js\<close>): the selection of a text box, the
  mask, the search form, the archive list, the share buttons, the votes, the actions of the owner, the
  table of contents, the follow button and the medal panel.

  The sizes of the window, the answer of the visitor to a dialog and the answer of the server are
  arguments. A style property of an element is the attribute \<open>css:<name>\<close>, a handler put on an element the
  attribute \<open>onclick\<close>.
\<close>

section \<open>The selection of a text box\<close>

text \<open>\<open>document.selection\<close> is what old versions of Internet Explorer have; \<open>Plain\<close> has neither interface.\<close>

datatype select_api = IESelection | SelectionStart | NoSelection

record textbox =
  tb_value :: jstr
  tb_start :: nat
  tb_end :: nat

definition range_text :: "textbox \<Rightarrow> jstr" where
  [js_eval]: "range_text b = substring (tb_value b) (tb_start b) (tb_end b)"

definition replace_range :: "textbox \<Rightarrow> jstr \<Rightarrow> jstr" where
  [js_eval]: "replace_range b v = substring (tb_value b) 0 (tb_start b) @ v @ substring_from (tb_value b) (tb_end b)"

definition selection :: "select_api \<Rightarrow> textbox \<Rightarrow> jstr" where
  [js_eval]: "selection api b =
     trim (case api of
       IESelection \<Rightarrow> range_text b
     | SelectionStart \<Rightarrow> if tb_start b \<noteq> tb_end b then range_text b else []
     | NoSelection \<Rightarrow> [])"

definition parseHtml :: "select_api \<Rightarrow> jstr \<Rightarrow> textbox \<Rightarrow> textbox" where
  [js_eval]: "parseHtml api v b =
     (let v' = (case api of
                  IESelection \<Rightarrow> if range_text b \<noteq> [] then replace_range b v else tb_value b @ v
                | SelectionStart \<Rightarrow> replace_range b v
                | NoSelection \<Rightarrow> tb_value b @ v)
      in \<lparr>tb_value = v', tb_start = length v', tb_end = length v'\<rparr>)"

definition textbox_ok :: "textbox \<Rightarrow> bool" where
  [js_eval]: "textbox_ok b \<longleftrightarrow> tb_start b \<le> tb_end b \<and> tb_end b \<le> length (tb_value b)"

lemma parseHtml_ok: "textbox_ok (parseHtml api v b)"
  by (simp add: textbox_ok_def parseHtml_def Let_def)

lemma replace_range_ok:
  "textbox_ok b \<Longrightarrow> replace_range b v = take (tb_start b) (tb_value b) @ v @ drop (tb_end b) (tb_value b)"
  by (simp add: replace_range_def textbox_ok_def substring_0 substring_from_def)

section \<open>The mask\<close>

record bpage = page +
  mask :: "(int \<times> int) option"

definition createMask :: "int \<Rightarrow> int \<Rightarrow> int \<Rightarrow> bpage \<Rightarrow> bpage" where
  [js_eval]: "createMask clientHeight clientWidth bodyHeight p =
     (let height = (if bodyHeight > clientHeight then bodyHeight else clientHeight)
      in p\<lparr>mask := Some (clientWidth, height)\<rparr>)"

definition removeMask :: "bpage \<Rightarrow> bpage" where
  [js_eval]: "removeMask p = p\<lparr>mask := None\<rparr>"

fun contain :: "'a list \<Rightarrow> 'a \<Rightarrow> bool" where
  "contain [] v = False"
| "contain (x # xs) v = (if x = v then True else contain xs v)"

lemma contain_iff: "contain xs v \<longleftrightarrow> v \<in> set xs"
  by (induction xs) auto

section \<open>Windows\<close>

text \<open>A number that is half an integer, as it is written.\<close>

definition half_str :: "int \<Rightarrow> jstr" where
  [js_eval]: \<open>half_str n =
     (if even n then int_str (n div 2)
      else (if n < 0 then (js ''-'') else []) @ num_str (nat \<bar>n\<bar> div 2) @ (js ''.5''))\<close>

definition set_css :: "selector \<Rightarrow> string \<Rightarrow> jstr \<Rightarrow> 'a page_scheme \<Rightarrow> 'a page_scheme" where
  [js_eval]: "set_css sel prop v p = set_attr (sel, ''css:'' @ prop) (Some v) p"

text \<open>\<open>opened\<close>: whether the browser opened the window.\<close>

definition popup :: "jstr \<Rightarrow> bool \<Rightarrow> 'a page_scheme \<Rightarrow> 'a page_scheme" where
  [js_eval]: "popup url opened p =
     (let p1 = emit (OpenWindow url) p in if opened then p1 else emit (Navigate url) p1)"

text \<open>The two encodings are computed and not used: they can only throw. The encoding of a whole address
  throws for the texts that the encoding of a component throws for.\<close>

definition openWindow ::
  "jstr \<Rightarrow> jstr \<Rightarrow> bool \<Rightarrow> bool \<Rightarrow> jstr \<Rightarrow> jstr \<Rightarrow> 'a page_scheme \<Rightarrow> 'a page_scheme option" where
  [js_eval]: "openWindow doc_title location firefox opened url title p =
     (if title = [] \<and> encodeURIComponent doc_title = None \<or> url = [] \<and> encodeURIComponent location = None then None
      else Some (if firefox then emit (StartTimer ''openWindow'' 0) p else popup url opened p))"

definition collectArticle ::
  "blog_env \<Rightarrow> jstr \<Rightarrow> bool \<Rightarrow> bool \<Rightarrow> jstr \<Rightarrow> jstr \<Rightarrow> 'a page_scheme \<Rightarrow> 'a page_scheme option" where
  [js_eval]: \<open>collectArticle env doc_title firefox opened title fn p =
     (case encodeURIComponent title of
        None \<Rightarrow> None
      | Some t \<Rightarrow> openWindow doc_title (href env) firefox opened
          ((js ''http://wz.csdn.net/storeit.aspx?t='') @ t @ (js ''&u='') @ blog_address env @ (js ''/article/details/'') @ fn) title p)\<close>

section \<open>Search\<close>

text \<open>The handler returns whether the form is sent.\<close>

definition search_click :: "blog_env \<Rightarrow> 'a page_scheme \<Rightarrow> 'a page_scheme \<times> bool" where
  [js_eval]: \<open>search_click env p =
     (let key = val_of ''#inputSearch'' p in
      if key = [] then (emit (Focus ''#inputSearch'') (emit (Alert ([35831, 36755, 20837, 25628, 32034, 20851, 38190, 23383])) p), False)
      else (set_val ''#inputQ'' ((js ''blog:'') @ username env @ (js '' '') @ key) p, True))\<close>

section \<open>The archive list\<close>

abbreviation archive_list :: selector where "archive_list \<equiv> ''#archive_list''"
abbreviation archive_button :: selector where "archive_button \<equiv> ''#archive_list_button''"
abbreviation hidelist :: selector where "hidelist \<equiv> ''#archive_list .hidelist''"

definition li_of :: "jstr \<Rightarrow> jstr" where
  [js_eval]: \<open>li_of h = (js ''<li>'') @ h @ (js ''</li>'')\<close>

text \<open>The lists are built entry by entry, by the position of the entry.\<close>

fun archive_lists :: "nat \<Rightarrow> jstr \<Rightarrow> jstr \<Rightarrow> jstr list \<Rightarrow> jstr \<times> jstr" where
  "archive_lists i shortlist hidden [] = (shortlist, hidden)"
| "archive_lists i shortlist hidden (h # hs) =
     (if i < 5 then archive_lists (i + 1) (shortlist @ li_of h) hidden hs
      else archive_lists (i + 1) shortlist (hidden @ li_of h) hs)"

definition initArchives :: "jstr list \<Rightarrow> 'a page_scheme \<Rightarrow> 'a page_scheme" where
  [js_eval]: \<open>initArchives items p =
     (let (shortlist, hidden) = archive_lists 0 [] [] items in
      if hidden = [] then p
      else upd_elem archive_button (\<lambda>_. blank_elem\<lparr>e_html := ([23637, 24320]), e_classes := [''list_closed'']\<rparr>)
             (upd_elem hidelist (\<lambda>_. blank_elem\<lparr>e_html := hidden, e_shown := False\<rparr>)
               (set_html archive_list (shortlist @ (js ''<span class="hidelist" style="display:none;">'') @ hidden @ (js ''</span>'')
                 @ (js ''<div id="archive_list_button" class="list_closed">'' @ [23637, 24320] @ js ''</div>'')) p)))\<close>

definition archive_click :: "'a page_scheme \<Rightarrow> 'a page_scheme" where
  [js_eval]: \<open>archive_click p =
     (if html_of archive_button p = ([23637, 24320])
      then set_shown hidelist True (add_class archive_button ''list_opended''
             (remove_class archive_button ''list_closed'' (set_html archive_button ([25910, 36215]) p)))
      else set_shown hidelist False (add_class archive_button ''list_closed''
             (remove_class archive_button ''list_opended'' (set_html archive_button ([23637, 24320]) p))))\<close>

lemma archive_lists_eq:
  "archive_lists i a b hs = (a @ concat (map li_of (take (5 - i) hs)), b @ concat (map li_of (drop (5 - i) hs)))"
  by (induction i a b hs rule: archive_lists.induct) (auto simp: Suc_diff_Suc take_Cons' drop_Cons' diff_diff_left)

definition archive_open :: "'a page_scheme \<Rightarrow> bool" where
  [js_eval]: "archive_open p \<longleftrightarrow> shown hidelist p"

text \<open>The label of the button, its class and the list agree.\<close>

definition archive_inv :: "'a page_scheme \<Rightarrow> bool" where
  \<open>archive_inv p \<longleftrightarrow>
     html_of archive_button p = (if archive_open p then ([25910, 36215]) else ([23637, 24320])) \<and>
     has_class archive_button ''list_opended'' p = archive_open p \<and>
     has_class archive_button ''list_closed'' p = (\<not> archive_open p)\<close>

lemma li_of_nonempty: "concat (map li_of hs) = [] \<longleftrightarrow> hs = []"
  by (cases hs) (simp_all add: li_of_def js_def)

lemma archive_init_inv: "5 < length items \<Longrightarrow> archive_inv (initArchives items p)"
  by (simp add: archive_inv_def initArchives_def archive_lists_eq li_of_nonempty archive_open_def page_defs
    blank_elem_def del: concat_eq_Nil_conv)

lemma archive_click_inv: "archive_inv p \<Longrightarrow> archive_inv (archive_click p)"
  by (auto simp: archive_inv_def archive_click_def archive_open_def page_defs has_class_def)

lemma archive_click_toggles: "archive_inv p \<Longrightarrow> archive_open (archive_click p) = (\<not> archive_open p)"
  by (auto simp: archive_inv_def archive_click_def archive_open_def page_defs)

text \<open>After any number of clicks the archive list is open exactly when the number is odd, and the label
  and the classes of its button say so; the list that is written holds every month once, in order.\<close>

theorem archive_clicks:
  assumes "5 < length items"
  shows "archive_open ((archive_click ^^ n) (initArchives items p)) = odd n \<and>
     archive_inv ((archive_click ^^ n) (initArchives items p)) \<and>
     (case archive_lists 0 [] [] items of (a, b) \<Rightarrow> a @ b = concat (map li_of items))"
proof -
  have "archive_inv ((archive_click ^^ n) (initArchives items p)) \<and>
     archive_open ((archive_click ^^ n) (initArchives items p)) = odd n"
  proof (induction n)
    case 0
    have "\<not> archive_open (initArchives items p)"
      using assms(1) by (auto simp: initArchives_def archive_lists_eq li_of_nonempty archive_open_def page_defs
        blank_elem_def simp del: concat_eq_Nil_conv)
    then show ?case using archive_init_inv[OF assms(1)] by simp
  next
    case (Suc n)
    then show ?case by (simp add: archive_click_inv archive_click_toggles)
  qed
  moreover have "concat (map li_of (take 5 items)) @ concat (map li_of (drop 5 items)) = concat (map li_of items)"
    by (metis append_take_drop_id concat_append map_append)
  ultimately show ?thesis by (simp add: archive_lists_eq)
qed

lemma archive_clicks_witness:
  "archive_open ((archive_click ^^ 3) (initArchives (map num_str [0..<7]) blank_page))"
  using archive_clicks[of "map num_str [0..<7]" 3 blank_page] by simp

section \<open>Share buttons\<close>

text \<open>The address and the title are encoded once, when the panel is filled. \<open>img\<close> is the address of the first
  picture of the article.\<close>

definition share_pic :: "jstr option \<Rightarrow> jstr option" where
  [js_eval]: \<open>share_pic img =
     (case img of None \<Rightarrow> Some [] | Some src \<Rightarrow> map_option (\<lambda>u. (js ''&pic='') @ u) (encodeURIComponent src))\<close>

definition share_sina :: "jstr \<Rightarrow> jstr \<Rightarrow> jstr option \<Rightarrow> jstr option" where
  [js_eval]: \<open>share_sina url title img =
     map_option (\<lambda>pic. (js ''http://v.t.sina.com.cn/share/share.php?url='') @ url @ (js ''&title='') @ title @ pic) (share_pic img)\<close>

definition share_qq :: "jstr \<Rightarrow> jstr \<Rightarrow> jstr option \<Rightarrow> jstr option" where
  [js_eval]: \<open>share_qq url title img =
     map_option (\<lambda>pic. (js ''http://v.t.qq.com/share/share.php?url='') @ url @ (js ''&site='') @ (js ''http://blog.csdn.net'') @ (js ''&title='')
        @ title @ pic) (share_pic img)\<close>

definition initShareButtons :: "bool \<Rightarrow> jstr \<Rightarrow> jstr \<Rightarrow> 'a page_scheme \<Rightarrow> ((jstr \<times> jstr) option \<times> 'a page_scheme) option" where
  [js_eval]: \<open>initShareButtons has_panel location doc_title p =
     (if \<not> has_panel then Some (None, p)
      else case (encodeURIComponent location, encodeURIComponent doc_title) of
             (Some url, Some title) \<Rightarrow> Some (Some (url, title), set_html ''#sharePanel''
                (js ''<span>'' @ [20998, 20139, 21040, 65306] @
    js ''</span> <a name="sina" class="share_sina" title="'' @
    [20998, 20139, 21040, 26032, 28010, 24494, 21338] @
    js ''"></a><a name="qq" class="share_qq" title="'' @
    [20998, 20139, 21040, 33150, 35759, 24494, 21338] @ js ''"></a>'') p)
           | _ \<Rightarrow> None)\<close>

text \<open>A click on a button, with the address and the title that \<open>initShareButtons\<close> kept.\<close>

definition share_click ::
  "jstr \<Rightarrow> jstr \<Rightarrow> bool \<Rightarrow> bool \<Rightarrow> jstr \<times> jstr \<Rightarrow> jstr option \<Rightarrow> jstr \<Rightarrow> 'a page_scheme \<Rightarrow> 'a page_scheme option" where
  [js_eval]: \<open>share_click location doc_title firefox opened kept img name p =
     (let go = (\<lambda>u. case u of None \<Rightarrow> None | Some v \<Rightarrow> openWindow doc_title location firefox opened v [] p)
      in if name = (js ''sina'') then go (share_sina (fst kept) (snd kept) img)
         else if name = (js ''qq'') then go (share_qq (fst kept) (snd kept) img)
         else Some p)\<close>

section \<open>Votes\<close>

definition digg_click :: "blog_env \<Rightarrow> jstr \<Rightarrow> jstr \<Rightarrow> jstr \<Rightarrow> 'a page_scheme \<Rightarrow> 'a page_scheme" where
  [js_eval]: \<open>digg_click env articleId cls button p =
     (if cls = (js ''digg digg_disable'') then p
      else emit (AjaxGet (blog_address env @ (js ''/article/'') @ (if button = (js ''btnDigg'') then (js ''digg'') else (js ''bury''))
             @ (js ''?ArticleId='') @ articleId)) p)\<close>

definition digg_answer :: "jstr \<Rightarrow> jstr \<Rightarrow> 'a page_scheme \<Rightarrow> 'a page_scheme" where
  [js_eval]: "digg_answer digg bury p = set_html ''#btnBury dd'' bury (set_html ''#btnDigg dd'' digg p)"

definition initBodyHeight :: "int \<Rightarrow> int \<Rightarrow> int" where
  [js_eval]: "initBodyHeight siderHeight mainHeight =
     (if siderHeight > mainHeight then siderHeight else mainHeight + 100)"

lemma initBodyHeight_covers: "max sh mh \<le> initBodyHeight sh mh \<and> initBodyHeight sh mh \<le> max sh (mh + 100)"
  by (auto simp: initBodyHeight_def)

section \<open>The actions of the owner\<close>

text \<open>The answer to an action: whether it was done, and the text of the server, empty when there is none.\<close>

definition owner_answer :: "jstr \<Rightarrow> jstr \<Rightarrow> bool \<Rightarrow> jstr \<Rightarrow> 'a page_scheme \<Rightarrow> 'a page_scheme" where
  [js_eval]: "owner_answer done refused result content p =
     (if result then emit Reload (emit (Alert done) p)
      else if content \<noteq> [] then emit (Alert content) p else emit (Alert refused) p)"

definition untopArticle :: "blog_env \<Rightarrow> jstr \<Rightarrow> bool \<Rightarrow> 'a page_scheme \<Rightarrow> 'a page_scheme" where
  [js_eval]: \<open>untopArticle env articleId confirmed p =
     (let p1 = emit (Ask ([20320, 30830, 23450, 35201, 21462, 28040, 32622, 39030, 36825, 31687, 25991, 31456, 21527, 65311])) p
      in if confirmed then emit (AjaxGet (blog_address env @ (js ''/article/untop?articleId='') @ articleId)) p1 else p1)\<close>

definition untop_answer :: "bool \<Rightarrow> jstr \<Rightarrow> 'a page_scheme \<Rightarrow> 'a page_scheme" where
  [js_eval]: \<open>untop_answer = owner_answer ([25991, 31456, 24050, 21462, 28040, 32622, 39030, 65281]) ([26080, 27861, 21462, 28040, 32622, 39030, 65292, 35831, 21040, 21518, 21488, 25805, 20316, 65281])\<close>

definition deleteArticle :: "blog_env \<Rightarrow> jstr \<Rightarrow> bool \<Rightarrow> 'a page_scheme \<Rightarrow> 'a page_scheme" where
  [js_eval]: \<open>deleteArticle env articleId confirmed p =
     (let p1 = emit (Ask ([20320, 30830, 23450, 35201, 21024, 38500, 36825, 31687, 25991, 31456, 21527, 65311])) p
      in if confirmed then emit (AjaxGet (blog_address env @ (js ''/article/delete?articleId='') @ articleId)) p1 else p1)\<close>

definition delete_answer :: "bool \<Rightarrow> jstr \<Rightarrow> 'a page_scheme \<Rightarrow> 'a page_scheme" where
  [js_eval]: \<open>delete_answer = owner_answer ([25991, 31456, 24050, 21024, 38500, 65281]) ([26080, 27861, 21024, 38500, 65292, 35831, 21040, 21518, 21488, 21024, 38500, 65281])\<close>

text \<open>\<open>floor\<close> is the attribute of the comment head, \<open>scrollTop\<close> the first scroll position that is not zero. The
  offsets are half integers; the style property gets the unit of the number too.\<close>

definition report :: "blog_env \<Rightarrow> int \<Rightarrow> int \<Rightarrow> int \<Rightarrow> int \<Rightarrow> jstr \<Rightarrow> int \<Rightarrow> jstr option \<Rightarrow> bpage \<Rightarrow> bpage" where
  [js_eval]: \<open>report env clientHeight clientWidth bodyHeight scrollTop ident t floor p =
     (let p1 = createMask clientHeight clientWidth bodyHeight p;
          url = blog_address env @ (js ''/common/report?id='') @ ident @ (js ''&t='') @ int_str t
                @ (if t = 3 then (js ''&floor='') @ js_opt floor else []);
          p2 = emit (Load ''#report_dialog'' url) p1;
          p3 = set_css ''#report_dialog'' ''top'' (half_str (clientHeight - 400 + 2 * scrollTop) @ (js ''px'')) p2;
          p4 = set_css ''#report_dialog'' ''left'' (half_str (clientWidth - 400) @ (js ''px'')) p3
      in set_shown ''#report_dialog'' True p4)\<close>

definition getCalendar :: "blog_env \<Rightarrow> jstr \<Rightarrow> 'a page_scheme \<Rightarrow> 'a page_scheme" where
  [js_eval]: \<open>getCalendar env time p =
     emit (Load ''#calendar'' (blog_address env @ (js ''/Article/Calendar?time='') @ time @ (js ''&.calendar''))) p\<close>

text \<open>The effects of a confirmed action and of its answer: the page is reloaded only when the server says so.\<close>

lemma owner_answer_reload:
  "Reload \<in> set (effects (owner_answer d r result content p)) \<longleftrightarrow> result \<or> Reload \<in> set (effects p)"
  by (simp add: owner_answer_def)

lemma unconfirmed_sends_nothing:
  \<open>effects (deleteArticle env a False p) = effects p @ [Ask ([20320, 30830, 23450, 35201, 21024, 38500, 36825, 31687, 25991, 31456, 21527, 65311])]\<close>
  \<open>effects (untopArticle env a False p) = effects p @ [Ask ([20320, 30830, 23450, 35201, 21462, 28040, 32622, 39030, 36825, 31687, 25991, 31456, 21527, 65311])]\<close>
  by (simp_all add: deleteArticle_def untopArticle_def)

section \<open>The table of contents\<close>

text \<open>A run of code units that satisfy a test, replaced by nothing, is the text without them.\<close>

lemma replace_plus_delete:
  assumes r: "\<And>s. single fl s r P" and fw: "forward_only (rplus r)"
  shows "rx_replace_all_fn fl (rplus r) s (\<lambda>_. []) = filter (\<lambda>c. \<not> P c) s"
proof (induction "length s" arbitrary: s rule: less_induct)
  case less
  have none: "rmatch fl s (rplus r) (0, c) = []" if "s = [] \<or> \<not> P (hd s)" for s c
  proof -
    have "rmatch fl s r (forget (groups r) (0, c)) = []"
      using that r[of s] by (cases s) (auto simp: single_def match_cu_def forget_def)
    then show ?thesis by (simp only: rplus_def) (subst rmatch_rep_unfold, auto)
  qed
  show ?case
  proof (cases s)
    case Nil
    then show ?thesis using replace_const_Nil[OF none] by simp
  next
    case (Cons x t)
    show ?thesis
    proof (cases "P x")
      case False
      then show ?thesis using replace_const_skip[OF fw none, of x t] less Cons by simp
    next
      case True
      define a where "a = x # takeWhile P t"
      define d where "d = dropWhile P t"
      have s: "s = a @ d" by (simp add: a_def d_def Cons)
      have run: "Suc (Suc 0 + run P s (Suc 0)) = Suc (length a)" by (simp add: a_def Cons run_def)
      have "rmatch fl s (rplus r) (0, []) = map (\<lambda>q. (q, [])) (rev [Suc 0..<Suc (length a)])"
        using rmatch_plus[OF r[of s], of 0 "[]"] True unfolding run by (simp add: Cons)
      then have m: "rmatch fl (a @ d) (rplus r) (0, []) = (length a, []) # map (\<lambda>q. (q, [])) (rev [Suc 0..<length a])"
        unfolding s by (simp add: a_def)
      have "rx_replace_all_fn fl (rplus r) s (\<lambda>_. []) = rx_replace_all_fn fl (rplus r) d (\<lambda>_. [])"
        unfolding s using replace_const_hit[OF fw m, of "[]"] by (simp add: a_def)
      also have "length d < length s" using length_dropWhile_le[of P t] by (simp add: Cons d_def)
      then have "rx_replace_all_fn fl (rplus r) d (\<lambda>_. []) = filter (\<lambda>c. \<not> P c) d" by (rule less)
      also have "filter (\<lambda>c. \<not> P c) (dropWhile P u) = filter (\<lambda>c. \<not> P c) u" for u by (induction u) auto
      then have "filter (\<lambda>c. \<not> P c) d = filter (\<lambda>c. \<not> P c) s" using True by (simp add: d_def Cons)
      finally show ?thesis .
    qed
  qed
qed

text \<open>A heading: its tag, its text and its markup.\<close>

datatype htag = H1 | H2 | H3 | H4 | H5 | H6

fun tagName :: "htag \<Rightarrow> jstr" where
  \<open>tagName H1 = (js ''H1'')\<close>
| \<open>tagName H2 = (js ''H2'')\<close>
| \<open>tagName H3 = (js ''H3'')\<close>
| \<open>tagName H4 = (js ''H4'')\<close>
| \<open>tagName H5 = (js ''H5'')\<close>
| \<open>tagName H6 = (js ''H6'')\<close>

record heading =
  h_tag :: htag
  h_text :: jstr
  h_html :: jstr

definition heading_level :: "heading \<Rightarrow> nat" where
  [js_eval]: "heading_level h = (case parse_int (substring_from (tagName (h_tag h)) 1) of None \<Rightarrow> 0 | Some n \<Rightarrow> nat n)"

lemma heading_level_bounds: "1 \<le> heading_level h \<and> heading_level h \<le> 6"
  by (cases "h_tag h") (simp_all add: heading_level_def parse_int_def substring_from_def digits_val_def digit_val_def js_def
      is_digit_def is_ws_def ltrim_def)

text \<open>\<^verbatim>\<open>/^\d+[.\u3001\s]+/g\<close>\<close>

definition re_number :: rx where
  [js_eval]: "re_number = rseq [RBol, rplus (RCls [ClDigit]), rplus (RCls [Ch 46, Ch 12289, ClSpace])]"

text \<open>\<^verbatim>\<open>/[^a-zA-Z0-9_\-\s\u4e00-\u9fa5]+/g\<close>\<close>

definition title_class :: "citem list" where
  [js_eval]: "title_class = [Rng 97 122, Rng 65 90, Rng 48 57, Ch 95, Ch 45, ClSpace, Rng 19968 40869]"

definition toc_title :: "jstr \<Rightarrow> jstr" where
  [js_eval]: "toc_title t =
     rx_replace_all no_flags (rplus (RNot title_class)) (rx_replace_all no_flags re_number t []) []"

lemma toc_title_filter:
  "toc_title t = filter (cls_has no_flags title_class) (rx_replace_all no_flags re_number t [])"
  using replace_plus_delete[of no_flags "RNot title_class" "\<lambda>c. \<not> cls_has no_flags title_class c"]
  by (simp add: toc_title_def rx_replace_all_plain rplus_def)

text \<open>The markup is built from pieces: the list itself, the nested lists and the entries.\<close>

datatype toc_piece = TText jstr | TList | TOpen | TClose | TItem nat jstr

fun toc_render :: "toc_piece \<Rightarrow> jstr" where
  "toc_render (TText t) = t"
| \<open>toc_render TList = (js ''<ol style="display:none;margin-left:14px;padding-left:14px;line-height:160%;">'')\<close>
| \<open>toc_render TOpen = (js ''<ol>'')\<close>
| \<open>toc_render TClose = (js ''</ol>'')\<close>
| \<open>toc_render (TItem i tit) = (js ''<li><a href="#t'') @ num_str i @ (js ''">'') @ tit @ (js ''</a></li>'')\<close>

record toc =
  t_out :: "toc_piece list"
  old_h :: nat
  ol_cnt :: nat

definition put_piece :: "toc_piece \<Rightarrow> toc \<Rightarrow> toc" where
  [js_eval]: "put_piece x st = st\<lparr>t_out := t_out st @ [x]\<rparr>"

text \<open>\<open>while (ol_cnt > 0)\<close>, by the counter.\<close>

fun toc_close :: "nat \<Rightarrow> toc \<Rightarrow> toc" where
  "toc_close 0 st = st"
| "toc_close (Suc n) st = toc_close n (put_piece TClose (st\<lparr>ol_cnt := n\<rparr>))"

definition toc_nest :: "nat \<Rightarrow> toc \<Rightarrow> toc" where
  [js_eval]: "toc_nest h st =
     (let old = (if old_h st = 0 then h else old_h st);
          st1 = (if h > old then (put_piece TOpen st)\<lparr>ol_cnt := ol_cnt st + 1\<rparr>
                 else if h < old \<and> ol_cnt st > 0 then (put_piece TClose st)\<lparr>ol_cnt := ol_cnt st - 1\<rparr>
                 else st);
          st2 = (if h = 1 then toc_close (ol_cnt st1) st1 else st1)
      in st2\<lparr>old_h := h\<rparr>)"

text \<open>One heading: its entry, if the title is not too long, and the heading with the anchor. The loop gives
  the state and the headings as they are marked.\<close>

definition toc_entry :: "nat \<Rightarrow> heading \<Rightarrow> toc \<Rightarrow> toc \<times> heading" where
  [js_eval]: \<open>toc_entry i h st =
     (let tit = toc_title (h_text h) in
      if length tit < 100
      then (put_piece (TItem i tit) st, h\<lparr>h_html := (js ''<a name="t'') @ num_str i @ (js ''"></a>'') @ h_html h\<rparr>)
      else (st, h))\<close>

fun toc_loop :: "nat \<Rightarrow> heading list \<Rightarrow> toc \<Rightarrow> toc \<times> heading list" where
  "toc_loop i [] st = (st, [])"
| "toc_loop i (h # hs) st =
     (let (st2, h') = toc_entry i h (toc_nest (heading_level h) st);
          (st3, hs') = toc_loop (i + 1) hs st2
      in (st3, h' # hs'))"

definition toc_pieces :: "heading list \<Rightarrow> toc_piece list \<times> heading list" where
  [js_eval]: \<open>toc_pieces hs =
     (let (st, hs') = toc_loop 0 hs \<lparr>t_out =
          [TText (js ''<div style="clear:both"></div>''),
           TText (js ''<div style="border:solid 1px #ccc; background:#eee; float:left; min-width:200px;padding:4px 10px'' @
    js '';">''),
           TText (js ''<p style="text-align:right;margin:0;"><span style="float:left;">'' @ [30446, 24405] @
    js ''<a href="#" title="'' @ [31995, 32479, 26681, 25454, 25991, 31456, 20013] @ js ''H1'' @
    [21040] @ js ''H6'' @ [26631, 31614, 33258, 21160, 29983, 25104, 25991, 31456, 30446, 24405] @
    js ''">(?)</a></span><a href="#" onclick="javascript:return openct(this);" title="'' @
    [23637, 24320] @ js ''">[+]</a></p>''),
           TList], old_h = 0, ol_cnt = 0\<rparr>
      in (t_out (toc_close (ol_cnt st) st) @ [TClose, TText (js ''</div>''), TText (js ''<div style="clear:both"></div>'')], hs'))\<close>

text \<open>The markup that is put before the article and the headings as they are marked.\<close>

definition buildCTable :: "heading list \<Rightarrow> jstr \<times> heading list" where
  [js_eval]: "buildCTable hs =
     (if length hs < 2 then ([], hs)
      else let (ps, hs') = toc_pieces hs in (concat (map toc_render ps), hs'))"

text \<open>The depth after the pieces, if no list is closed that is not open and no entry is outside the lists.\<close>

fun toc_depth :: "nat \<Rightarrow> toc_piece list \<Rightarrow> nat option" where
  "toc_depth d [] = Some d"
| "toc_depth d (TText t # ps) = toc_depth d ps"
| "toc_depth d (TList # ps) = toc_depth (Suc d) ps"
| "toc_depth d (TOpen # ps) = toc_depth (Suc d) ps"
| "toc_depth d (TClose # ps) = (case d of 0 \<Rightarrow> None | Suc e \<Rightarrow> toc_depth e ps)"
| "toc_depth d (TItem i t # ps) = (if d = 0 then None else toc_depth d ps)"

fun toc_items :: "toc_piece list \<Rightarrow> (nat \<times> jstr) list" where
  "toc_items [] = []"
| "toc_items (TItem i t # ps) = (i, t) # toc_items ps"
| "toc_items (p # ps) = toc_items ps"

lemma toc_depth_append:
  "toc_depth d (ps @ qs) = (case toc_depth d ps of None \<Rightarrow> None | Some e \<Rightarrow> toc_depth e qs)"
  by (induction d ps rule: toc_depth.induct) (auto split: nat.splits)

lemma toc_items_append: "toc_items (ps @ qs) = toc_items ps @ toc_items qs"
  by (induction ps rule: toc_items.induct) auto

text \<open>Inside the lists the depth is one more than the counter.\<close>

definition toc_inv :: "toc \<Rightarrow> bool" where
  "toc_inv st \<longleftrightarrow> toc_depth 0 (t_out st) = Some (Suc (ol_cnt st))"

lemma toc_close_inv: "toc_inv st \<Longrightarrow> ol_cnt st = n \<Longrightarrow> toc_inv (toc_close n st) \<and> ol_cnt (toc_close n st) = 0"
  by (induction n st rule: toc_close.induct) (auto simp: toc_inv_def put_piece_def toc_depth_append)

lemma toc_close_items: "toc_items (t_out (toc_close n st)) = toc_items (t_out st)"
  by (induction n st rule: toc_close.induct) (auto simp: put_piece_def toc_items_append)

lemma toc_nest_inv: "toc_inv st \<Longrightarrow> toc_inv (toc_nest h st)"
proof -
  assume i: "toc_inv st"
  define st1 where "st1 = (if h > (if old_h st = 0 then h else old_h st)
      then (put_piece TOpen st)\<lparr>ol_cnt := ol_cnt st + 1\<rparr>
      else if h < (if old_h st = 0 then h else old_h st) \<and> ol_cnt st > 0
      then (put_piece TClose st)\<lparr>ol_cnt := ol_cnt st - 1\<rparr> else st)"
  have "toc_inv st1" using i by (auto simp: st1_def toc_inv_def put_piece_def toc_depth_append split: nat.splits)
  then have "toc_inv (if h = 1 then toc_close (ol_cnt st1) st1 else st1)" using toc_close_inv by auto
  then show ?thesis unfolding toc_nest_def Let_def st1_def[symmetric] by (simp add: toc_inv_def)
qed

lemma toc_nest_items: "toc_items (t_out (toc_nest h st)) = toc_items (t_out st)"
  by (simp add: toc_nest_def Let_def toc_close_items put_piece_def toc_items_append)

text \<open>The entries and anchors a list of headings is to have.\<close>

fun toc_entries :: "nat \<Rightarrow> heading list \<Rightarrow> (nat \<times> jstr) list" where
  "toc_entries i [] = []"
| "toc_entries i (h # hs) =
     (if length (toc_title (h_text h)) < 100 then [(i, toc_title (h_text h))] else []) @ toc_entries (i + 1) hs"

fun toc_marked :: "nat \<Rightarrow> heading list \<Rightarrow> heading list" where
  "toc_marked i [] = []"
| \<open>toc_marked i (h # hs) =
     (if length (toc_title (h_text h)) < 100
      then h\<lparr>h_html := (js ''<a name="t'') @ num_str i @ (js ''"></a>'') @ h_html h\<rparr> else h) # toc_marked (i + 1) hs\<close>

lemma toc_entry_spec:
  "toc_inv st \<Longrightarrow> toc_entry i h st = (st', h') \<Longrightarrow>
   toc_inv st' \<and> toc_items (t_out st') = toc_items (t_out st) @ toc_entries i [h] \<and> [h'] = toc_marked i [h]"
  by (auto simp: toc_entry_def Let_def toc_inv_def put_piece_def toc_depth_append toc_items_append split: if_splits)

lemma toc_loop_spec:
  "toc_inv st \<Longrightarrow> toc_loop i hs st = (st', hs') \<Longrightarrow>
   toc_inv st' \<and> toc_items (t_out st') = toc_items (t_out st) @ toc_entries i hs \<and> hs' = toc_marked i hs"
proof (induction hs arbitrary: i st st' hs')
  case (Cons h hs)
  obtain st2 h2 where e: "toc_entry i h (toc_nest (heading_level h) st) = (st2, h2)" by fastforce
  obtain st3 hs3 where l: "toc_loop (i + 1) hs st2 = (st3, hs3)" by fastforce
  have "toc_inv st2 \<and> toc_items (t_out st2) = toc_items (t_out st) @ toc_entries i [h] \<and> [h2] = toc_marked i [h]"
    using toc_entry_spec[OF toc_nest_inv[OF Cons.prems(1)] e] by (simp add: toc_nest_items)
  moreover from this have "toc_inv st3 \<and> toc_items (t_out st3) = toc_items (t_out st2) @ toc_entries (i + 1) hs
      \<and> hs3 = toc_marked (i + 1) hs"
    using Cons.IH[OF _ l] by blast
  ultimately show ?case using Cons.prems(2) e l by auto
qed simp

lemma toc_title_chars: "c \<in> set (toc_title t) \<Longrightarrow> c \<notin> {34, 38, 60, 62}"
  by (auto simp: toc_title_filter cls_has_def title_class_def no_flags_def is_ws_def)

text \<open>C25: the table of contents closes every list it opens and no other, each entry stands inside a
  list, the entries are the headings with a short title, each of these headings gets the anchor its entry
  links to, and no title brings markup into the page.\<close>

theorem toc_well_formed:
  "toc_depth 0 (fst (toc_pieces hs)) = Some 0 \<and>
   toc_items (fst (toc_pieces hs)) = toc_entries 0 hs \<and>
   snd (toc_pieces hs) = toc_marked 0 hs \<and>
   (set (concat (map snd (toc_items (fst (toc_pieces hs)))))) \<inter> {34, 38, 60, 62} = {}"
proof -
  define ini where \<open>ini = \<lparr>t_out =
          [TText (js ''<div style="clear:both"></div>''),
           TText (js ''<div style="border:solid 1px #ccc; background:#eee; float:left; min-width:200px;padding:4px 10px'' @
    js '';">''),
           TText (js ''<p style="text-align:right;margin:0;"><span style="float:left;">'' @ [30446, 24405] @
    js ''<a href="#" title="'' @ [31995, 32479, 26681, 25454, 25991, 31456, 20013] @ js ''H1'' @
    [21040] @ js ''H6'' @ [26631, 31614, 33258, 21160, 29983, 25104, 25991, 31456, 30446, 24405] @
    js ''">(?)</a></span><a href="#" onclick="javascript:return openct(this);" title="'' @
    [23637, 24320] @ js ''">[+]</a></p>''),
           TList], old_h = 0, ol_cnt = 0\<rparr>\<close>
  obtain st hs' where l: "toc_loop 0 hs ini = (st, hs')" by fastforce
  have "toc_inv ini" "toc_items (t_out ini) = []" by (simp_all add: toc_inv_def ini_def)
  with toc_loop_spec[OF _ l] have s: "toc_inv st" "toc_items (t_out st) = toc_entries 0 hs" "hs' = toc_marked 0 hs"
    by simp_all
  have p: \<open>toc_pieces hs = (t_out (toc_close (ol_cnt st) st) @ [TClose, TText (js ''</div>''), TText (js ''<div style="clear:both"></div>'')], hs')\<close>
    using l by (simp add: toc_pieces_def ini_def Let_def)
  have c: "toc_depth 0 (t_out (toc_close (ol_cnt st) st)) = Some 1"
    using toc_close_inv[OF s(1) refl] by (simp add: toc_inv_def)
  have "set (concat (map snd (toc_entries i gs))) \<inter> {34, 38, 60, 62} = {}" for i gs
    by (induction i gs rule: toc_entries.induct) (auto dest: toc_title_chars)
  then show ?thesis using s c by (simp add: p toc_depth_append toc_items_append toc_close_items)
qed

text \<open>The link that opens the table: its text, its title and the list after it.\<close>

abbreviation ct_link :: selector where "ct_link \<equiv> ''ct_link''"
abbreviation ct_list :: selector where "ct_list \<equiv> ''ct_link/../+''"

definition openct :: "'a page_scheme \<Rightarrow> 'a page_scheme" where
  [js_eval]: \<open>openct p =
     (if html_of ct_link p = (js ''[+]'')
      then set_shown ct_list True (set_html ct_link (js ''[-]'') (set_attr (ct_link, ''title'') (Some ([25910, 36215])) p))
      else set_shown ct_list False (set_html ct_link (js ''[+]'') (set_attr (ct_link, ''title'') (Some ([23637, 24320])) p)))\<close>

lemma openct_twice:
  \<open>html_of ct_link p = (js ''[+]'') \<Longrightarrow> html_of ct_link (openct (openct p)) = (js ''[+]'') \<and> \<not> shown ct_list (openct (openct p))\<close>
  by (simp add: openct_def js_def)

section \<open>Following the blogger\<close>

abbreviation follow_link :: selector where "follow_link \<equiv> ''#span_add_follow''"

definition onclick :: "selector \<Rightarrow> 'a page_scheme \<Rightarrow> jstr option" where
  [js_eval]: "onclick sel p = attr_of (sel, ''onclick'') p"

definition set_onclick :: "selector \<Rightarrow> jstr \<Rightarrow> 'a page_scheme \<Rightarrow> 'a page_scheme" where
  [js_eval]: "set_onclick sel f p = set_attr (sel, ''onclick'') (Some f) p"

definition do_follow :: "jstr \<Rightarrow> effect" where
  [js_eval]: \<open>do_follow blogger =
     Jsonp (js ''http://my.csdn.net/index.php/follow/do_follow?jsonpcallback=?'') [(''username'', blogger)]\<close>

definition set_attented :: "'a page_scheme \<Rightarrow> 'a page_scheme" where
  [js_eval]: \<open>set_attented p = set_onclick follow_link (js ''return false'') (set_attr (follow_link, ''class'') (Some (js ''attented'')) p)\<close>

definition set_guanzhu_status :: "jstr \<Rightarrow> jstr \<Rightarrow> 'a page_scheme \<Rightarrow> 'a page_scheme option" where
  [js_eval]: \<open>set_guanzhu_status blogger un p =
     (case (encodeURIComponent un, encodeURIComponent blogger) of
        (Some u, Some b) \<Rightarrow> Some (emit (Jsonp ((js ''http://my.csdn.net/index.php/follow/check_is_followed/'') @ u @ (js ''/'') @ b
            @ (js ''?jsonpcallback=?'')) []) p)
      | _ \<Rightarrow> None)\<close>

definition guanzhu_status_answer :: "int \<Rightarrow> int \<Rightarrow> 'a page_scheme \<Rightarrow> 'a page_scheme" where
  [js_eval]: \<open>guanzhu_status_answer succ info p =
     (if succ = 1 \<and> info = 1 then set_attented p else set_onclick follow_link (js ''guanzhu'') p)\<close>

definition guanzhu :: "jstr \<Rightarrow> 'a page_scheme \<Rightarrow> 'a page_scheme" where
  [js_eval]: "guanzhu blogger p = emit (do_follow blogger) p"

definition guanzhu_answer :: "int \<Rightarrow> jstr \<Rightarrow> 'a page_scheme \<Rightarrow> 'a page_scheme" where
  [js_eval]: \<open>guanzhu_answer succ msg p =
     (if succ = 1 then set_attented (emit (Alert ([20851, 27880, 25104, 21151, 65281])) p) else emit (Alert msg) p)\<close>

text \<open>The last branch of the code is for an empty name that is not empty: the link gets no handler.\<close>

definition blogger_ready :: "jstr \<Rightarrow> jstr \<Rightarrow> 'a page_scheme \<Rightarrow> 'a page_scheme option" where
  [js_eval]: \<open>blogger_ready blogger cookie p =
     (let un = to_lower (getUN cookie) in
      if un = to_lower blogger then Some (set_shown ''.interact'' False p)
      else if un \<noteq> [] then set_guanzhu_status blogger un p
      else if un \<noteq> [] then Some (set_onclick follow_link (js ''loginto(0)'') p)
      else Some p)\<close>

definition loginto :: "jstr \<Rightarrow> jstr \<Rightarrow> int \<Rightarrow> 'a page_scheme \<Rightarrow> 'a page_scheme" where
  [js_eval]: \<open>loginto blogger cookie n p =
     (if n = 0 then emit (Call ''csdn.showLogin'' []) p
      else if getUN cookie = [] then emit (Call ''csdn.showLogin'' []) p
      else emit (Navigate ((js ''http://my.csdn.net/my/letter/send/'') @ blogger)) p)\<close>

definition js_logined :: "jstr \<Rightarrow> 'a page_scheme \<Rightarrow> 'a page_scheme" where
  [js_eval]: \<open>js_logined un p = emit (Navigate (js ''?reload'')) p\<close>

text \<open>A click on the link runs the handler it has.\<close>

definition follow_click :: "jstr \<Rightarrow> 'a page_scheme \<Rightarrow> 'a page_scheme" where
  [js_eval]: \<open>follow_click blogger p =
     (if onclick follow_link p = Some (js ''guanzhu'') then guanzhu blogger p
      else if onclick follow_link p = Some (js ''loginto(0)'') then loginto blogger [] 0 p else p)\<close>

lemma guest_has_no_handler: "getUN cookie = [] \<Longrightarrow> blogger \<noteq> [] \<Longrightarrow> blogger_ready blogger cookie p = Some p"
  by (simp add: blogger_ready_def to_lower_def)

text \<open>
  The requests and answers around the link: the state is the page, whether the question whether the
  visitor follows is open, and the number of open requests to follow.
\<close>

inductive follow_step :: "jstr \<Rightarrow> page \<times> bool \<times> nat \<Rightarrow> page \<times> bool \<times> nat \<Rightarrow> bool" for blogger where
  status: "follow_step blogger (p, True, n) (guanzhu_status_answer succ info p, False, n)"
| click: \<open>onclick follow_link p = Some (js ''guanzhu'') \<Longrightarrow>
    follow_step blogger (p, b, n) (follow_click blogger p, b, Suc n)\<close>
| idle_click: \<open>onclick follow_link p \<noteq> Some (js ''guanzhu'') \<Longrightarrow>
    follow_step blogger (p, b, n) (follow_click blogger p, b, n)\<close>
| answer: "follow_step blogger (p, b, Suc n) (guanzhu_answer succ msg p, b, n)"

definition follow_start :: "jstr \<Rightarrow> jstr \<Rightarrow> page \<times> bool \<times> nat \<Rightarrow> bool" where
  \<open>follow_start blogger cookie s \<longleftrightarrow>
     (\<exists>p q. onclick follow_link p \<noteq> Some (js ''guanzhu'') \<and> attr_of (follow_link, ''class'') p \<noteq> Some (js ''attented'') \<and>
        do_follow blogger \<notin> set (effects p) \<and> set_guanzhu_status blogger (to_lower (getUN cookie)) p = Some q \<and>
        s = (q, True, 0))\<close>

definition attented :: "'a page_scheme \<Rightarrow> bool" where
  [js_eval]: \<open>attented p \<longleftrightarrow> attr_of (follow_link, ''class'') p = Some (js ''attented'')\<close>

definition follow_inv :: "page \<times> bool \<times> nat \<Rightarrow> bool" where
  \<open>follow_inv s = (case s of (p, b, n) \<Rightarrow>
     (attented p \<longrightarrow> onclick follow_link p = Some (js ''return false'')) \<and>
     (b \<longrightarrow> \<not> attented p \<and> n = 0 \<and> onclick follow_link p \<noteq> Some (js ''guanzhu'')))\<close>

lemmas follow_defs = follow_inv_def attented_def onclick_def set_onclick_def set_attented_def guanzhu_status_answer_def
  guanzhu_answer_def guanzhu_def follow_click_def loginto_def

lemma attr_emit [simp]: "attr_of k (emit e p) = attr_of k p"
  by (simp add: page_defs)

lemma attr_set_attr [simp]: "attr_of k (set_attr j v p) = (if j = k then v else attr_of k p)"
  using attrs.get_put_same[of k v p] attrs.get_put_other[of j k v p] by simp

lemma return_false_guanzhu: \<open>(js ''return false'') \<noteq> (js ''guanzhu'')\<close> \<open>(js ''return false'') \<noteq> (js ''loginto(0)'')\<close>
  by (simp_all add: js_def)

lemma follow_inv_step: "follow_step blogger s t \<Longrightarrow> follow_inv s \<Longrightarrow> follow_inv t"
  by (induction rule: follow_step.induct) (auto simp: follow_defs return_false_guanzhu)

lemma follow_inv_start: "follow_start blogger cookie s \<Longrightarrow> follow_inv s"
  by (auto simp: follow_start_def set_guanzhu_status_def follow_inv_def attented_def onclick_def
    split: option.splits)

text \<open>Requests to follow that a page has sent.\<close>

definition follow_requests :: "jstr \<Rightarrow> page \<Rightarrow> nat" where
  [js_eval]: "follow_requests blogger p = count_list (effects p) (do_follow blogger)"

lemma attented_step:
  "follow_step blogger s t \<Longrightarrow> follow_inv s \<Longrightarrow> attented (fst s) \<Longrightarrow>
   attented (fst t) \<and> follow_requests blogger (fst t) = follow_requests blogger (fst s)"
  by (induction rule: follow_step.induct)
    (auto simp: follow_defs return_false_guanzhu return_false_guanzhu[symmetric] follow_requests_def do_follow_def)

text \<open>However the clicks of the visitor and the answers of the server interleave, once the
  link shows that the visitor follows the blogger it goes on showing it and no further request to follow is
  sent.\<close>

theorem followed_is_final:
  assumes "follow_start blogger cookie s" "(follow_step blogger)\<^sup>*\<^sup>* s (p, b, n)" "attented p"
    "(follow_step blogger)\<^sup>*\<^sup>* (p, b, n) (q, c, m)"
  shows "attented q \<and> follow_requests blogger q = follow_requests blogger p"
proof -
  have inv: "follow_inv (p, b, n)"
    using assms(2) follow_inv_start[OF assms(1)] by (induction rule: rtranclp_induct) (auto intro: follow_inv_step)
  have "follow_inv t \<and> attented (fst t) \<and> follow_requests blogger (fst t) = follow_requests blogger p"
    if "(follow_step blogger)\<^sup>*\<^sup>* (p, b, n) t" for t
    using that inv assms(3)
  proof (induction rule: rtranclp_induct)
    case (step t u)
    then show ?case using attented_step[OF step(2)] follow_inv_step[OF step(2)] by simp
  qed simp
  from this[OF assms(4)] show ?thesis by simp
qed

text \<open>A visitor who clicks, is told that he follows now, and clicks again.\<close>

definition asked_page :: page where
  [js_eval]: \<open>asked_page = (case set_guanzhu_status (js ''bob'') (js ''ann'') blank_page of Some q \<Rightarrow> q | None \<Rightarrow> blank_page)\<close>

definition followed_page :: page where
  [js_eval]: \<open>followed_page = guanzhu_answer 1 [] (follow_click (js ''bob'') (guanzhu_status_answer 0 0 asked_page))\<close>

lemma followed_is_final_witness:
  \<open>attented (follow_click (js ''bob'') followed_page) \<and>
   follow_requests (js ''bob'') (follow_click (js ''bob'') followed_page) = follow_requests (js ''bob'') followed_page\<close>
proof (rule followed_is_final)
  have s: \<open>set_guanzhu_status (js ''bob'') (to_lower (getUN (js ''UserName=Ann''))) blank_page = Some asked_page\<close>
  proof -
    have \<open>to_lower (getUN (js ''UserName=Ann'')) = (js ''ann'')\<close> by code_simp
    moreover have \<open>set_guanzhu_status (js ''bob'') (js ''ann'') blank_page \<noteq> None\<close>
      by (simp add: set_guanzhu_status_def js_def uri_keeps_def is_word_def is_lower_def is_digit_def is_upper_def)
    ultimately show ?thesis by (auto simp: asked_page_def)
  qed
  then show \<open>follow_start (js ''bob'') (js ''UserName=Ann'') (asked_page, True, 0)\<close>
    unfolding follow_start_def
    by (intro exI[of _ blank_page] exI[of _ asked_page]) (simp add: onclick_def page_defs blank_page_def blank_elem_def)
  define p1 where "p1 = guanzhu_status_answer 0 0 asked_page"
  have g: \<open>onclick follow_link p1 = Some (js ''guanzhu'')\<close>
    by (simp add: p1_def guanzhu_status_answer_def onclick_def set_onclick_def)
  have \<open>follow_step (js ''bob'') (asked_page, True, 0) (p1, False, 0)\<close>
    unfolding p1_def by (rule follow_step.status)
  moreover have \<open>follow_step (js ''bob'') (p1, False, 0) (follow_click (js ''bob'') p1, False, Suc 0)\<close>
    by (rule follow_step.click[OF g])
  moreover have \<open>follow_step (js ''bob'') (follow_click (js ''bob'') p1, False, Suc 0) (followed_page, False, 0)\<close>
    unfolding followed_page_def p1_def by (rule follow_step.answer)
  ultimately show \<open>(follow_step (js ''bob''))\<^sup>*\<^sup>* (asked_page, True, 0) (followed_page, False, 0)\<close>
    by (meson rtranclp.rtrancl_into_rtrancl rtranclp.rtrancl_refl)
  show a: "attented followed_page"
    by (simp add: followed_page_def guanzhu_answer_def set_attented_def set_onclick_def attented_def)
  have \<open>onclick follow_link followed_page = Some (js ''return false'')\<close>
    by (simp add: followed_page_def guanzhu_answer_def set_attented_def set_onclick_def onclick_def)
  then have \<open>follow_step (js ''bob'') (followed_page, False, 0) (follow_click (js ''bob'') followed_page, False, 0)\<close>
    using return_false_guanzhu(1) by (intro follow_step.idle_click) simp
  then show \<open>(follow_step (js ''bob''))\<^sup>*\<^sup>* (followed_page, False, 0) (follow_click (js ''bob'') followed_page, False, 0)\<close> by simp
qed

section \<open>The start of the page\<close>

text \<open>What the page holds when the script starts: the months of the archive, the headings of the article and
  whether it has a share panel. \<open>None\<close>: an encoding throws after the other parts have run.\<close>

definition common_ready ::
  "jstr list \<Rightarrow> heading list \<Rightarrow> bool \<Rightarrow> jstr \<Rightarrow> jstr \<Rightarrow> 'a page_scheme
     \<Rightarrow> ((jstr \<times> jstr) option \<times> 'a page_scheme) option" where
  [js_eval]: "common_ready months hs has_panel location doc_title p =
     (let p1 = initArchives months p;
          p2 = append_html ''#article_content/before'' (fst (buildCTable hs)) p1
      in initShareButtons has_panel location doc_title p2)"

section \<open>The code blocks of the article\<close>

text \<open>A code block: the attributes \<open>class\<close> and \<open>name\<close>. An undefined language leaves the class as it is.\<close>

record code_attrs =
  ca_class :: "jstr option"
  ca_name :: "jstr option"

definition code_pre :: "code_attrs \<Rightarrow> code_attrs" where
  [js_eval]: \<open>code_pre e =
     (case ca_class e of
        None \<Rightarrow> e
      | Some cls \<Rightarrow>
          let e1 = (if contains (js ''brush:'') cls
                    then (case split_cu 58 (hd (split_cu 59 cls)) of
                            _ # lang # _ \<Rightarrow> e\<lparr>ca_name := Some (js ''code''), ca_class := Some lang\<rparr>
                          | _ \<Rightarrow> e\<lparr>ca_name := Some (js ''code'')\<rparr>)
                    else e)
          in if ca_class e1 = Some [] then e1 else e1\<lparr>ca_name := Some (js ''code'')\<rparr>)\<close>

definition cut_class :: "code_attrs \<Rightarrow> code_attrs" where
  [js_eval]: \<open>cut_class e =
     (case ca_class e of
        None \<Rightarrow> e
      | Some cls \<Rightarrow> if contains (js '':'') cls then e\<lparr>ca_class := Some (hd (split_cu 58 cls))\<rparr> else e)\<close>

text \<open>A text area without a class makes the loop throw (\<open>undefined.indexOf\<close>): the ones before it are done, it and
  the ones after it stay as they are.\<close>

fun code_textareas :: "code_attrs list \<Rightarrow> code_attrs list \<times> js_error option" where
  "code_textareas [] = ([], None)"
| "code_textareas (e # es) =
     (if ca_class e = None then (e # es, Some TypeError)
      else let (es', x) = code_textareas es in (cut_class e # es', x))"

text \<open>The blocks and the text areas afterwards, and the page; an exception ends the handler before the highlighter is called.\<close>

definition code_ready ::
  "bool \<Rightarrow> code_attrs list \<Rightarrow> code_attrs list \<Rightarrow> 'a page_scheme
     \<Rightarrow> code_attrs list \<times> code_attrs list \<times> js_error option \<times> 'a page_scheme" where
  [js_eval]: \<open>code_ready clipboardData pres areas p =
     (let (areas', x) = code_textareas areas in
      (map code_pre pres, areas', x,
       case x of
         Some _ \<Rightarrow> p
       | None \<Rightarrow>
           let p1 = add_class ''.highlighter'' ''dp-highlighter'' (emit (Call ''dp.SyntaxHighlighter.HighlightAll'' [(js ''code'')]) p)
           in if clipboardData then p1 else emit (StartTimer ''setCopyBtn'' 500) p1))\<close>

definition showNickname_ready :: "'a page_scheme \<Rightarrow> 'a page_scheme" where
  [js_eval]: "showNickname_ready p = emit (Call ''CNick.showNickname'' []) p"

lemma code_textareas_eq: "code_textareas es =
    (map cut_class (takeWhile (\<lambda>e. ca_class e \<noteq> None) es) @ dropWhile (\<lambda>e. ca_class e \<noteq> None) es,
     if dropWhile (\<lambda>e. ca_class e \<noteq> None) es = [] then None else Some TypeError)"
  by (induction es) auto

text \<open>The text areas up to the first one without a class get the class before the colon.
  When there is none without a class the highlighter is called, once; otherwise the handler ends with a type error
  before it, and nothing leaves the page.\<close>

theorem code_blocks_highlighted:
  \<open>case code_ready clipboardData pres areas p of (pres', areas', x, q) \<Rightarrow>
     \<exists>ok rest. areas = ok @ rest \<and> (\<forall>e \<in> set ok. ca_class e \<noteq> None) \<and> areas' = map cut_class ok @ rest \<and>
       (if rest = []
        then x = None \<and> effects q = effects p @ Call ''dp.SyntaxHighlighter.HighlightAll'' [(js ''code'')]
               # (if clipboardData then [] else [StartTimer ''setCopyBtn'' 500])
        else ca_class (hd rest) = None \<and> x = Some TypeError \<and> q = p)\<close>
proof -
  let ?has = "\<lambda>e. ca_class e \<noteq> None"
  have "areas = takeWhile ?has areas @ dropWhile ?has areas" "\<forall>e \<in> set (takeWhile ?has areas). ?has e"
    by (auto dest: set_takeWhileD)
  moreover have "dropWhile ?has areas \<noteq> [] \<Longrightarrow> ca_class (hd (dropWhile ?has areas)) = None"
    using hd_dropWhile by blast
  ultimately show ?thesis
    by (simp add: code_ready_def code_textareas_eq Let_def split del: if_split)
       (intro exI[of _ "takeWhile ?has areas"] exI[of _ "dropWhile ?has areas"], auto simp: effects_frame)
qed

section \<open>Medals\<close>

text \<open>A panel: its position and its markup. \<open>panels\<close> are the panels among the children of the body.\<close>

record panel =
  pn_left :: int
  pn_top :: int
  pn_html :: jstr

record mpage = page +
  mm_over :: bool
  mm_intro :: "panel option"
  panels :: "panel list"

text \<open>\<open>if (__mm_intro) { document.body.removeChild(__mm_intro); __mm_intro = null; }\<close>\<close>

definition remove_intro :: "mpage \<Rightarrow> mpage" where
  [js_eval]: "remove_intro p =
     (case mm_intro p of None \<Rightarrow> p | Some x \<Rightarrow> p\<lparr>panels := remove1 x (panels p), mm_intro := None\<rparr>)"

definition medal_text :: "jstr \<Rightarrow> jstr \<times> jstr" where
  [js_eval]: \<open>medal_text img =
     (if contains (js ''zhuanlandaren'') img then
        (([19987, 26639, 36798, 20154]), ([25480, 20104, 25104, 21151, 21019, 24314, 20010, 20154, 21338, 23458, 19987, 26639, 30340, 29992, 25143, 12290] @
    [19987, 26639, 20013, 28155, 21152, 20116, 31687, 20197, 19978, 21338, 25991, 21363, 21487, 28857, 20142, 65281] @
    [25776, 20889, 21338, 23458, 19987, 26639, 27987, 32553, 25216, 26415, 31934, 21326, 65292, 19987, 26639, 36798] @
    [20154, 23601, 26159, 20320, 65281]))
      else if contains (js ''chizhiyiheng'') img then
        (([25345, 20043, 20197, 24658]), ([25480, 20104, 27599, 20010, 33258, 28982, 26376, 20869, 21457, 24067] @ js ''4'' @
    [31687, 25110] @ js ''4'' @ [31687, 20197, 19978, 21407, 21019, 25110, 32763, 35793] @ js ''IT'' @
    [21338, 25991, 30340, 29992, 25143, 12290, 19981, 31215, 36332, 27493, 26080, 20197, 33267, 21315, 37324, 65292] @
    [19981, 31215, 23567, 27969, 26080, 20197, 25104, 27743, 28023, 65292, 31243, 24207, 20154, 29983, 30340, 31934] @
    [24425, 38656, 35201, 22362, 25345, 19981, 25032, 22320, 31215, 32047, 65281]))
      else if contains (js ''weiruanmvp'') img then
        (([24494, 36719] @ js ''MVP''), ([25480, 20104, 36890, 36807] @ js ''CSDN'' @
    [21338, 23458, 24179, 21488, 31215, 26497, 20998, 20139, 24494, 36719, 30456, 20851, 25216, 26415, 30693, 35782] @
    [21644, 19987, 19994, 25216, 33021, 65292, 24182, 20570, 20986, 31361, 20986, 36129, 29486, 30340, 29992, 25143] @
    [12290]))
      else if contains (js ''bokezhixing'') img then
        (([21338, 23458, 20043, 26143]), ([25480, 20104, 36890, 36807] @ js ''"CSDN'' @ [21338, 23458, 20043, 26143, 35780, 36873] @
    js ''"'' @
    [20013, 33073, 39062, 32780, 20986, 30340, 21313, 22823, 21338, 23458, 20043, 26143, 31216, 21495, 30340, 29992] @
    [25143, 12290]))
      else ([], []))\<close>

definition medal_panel :: "jstr \<Rightarrow> int \<Rightarrow> int \<Rightarrow> panel" where
  [js_eval]: \<open>medal_panel img x y =
     (let (title, desc) = medal_text img;
          left = x - 39
      in \<lparr>pn_left = (if left < 0 then 0 else left), pn_top = y + 32 + 4, pn_html =
           (js ''<div  style='' @ [39] @
    js ''  z-index:99999 ; left: 15%;  top: -9px;  position: absolute;  width: 0;  height: 0;  border-lef'' @
    js ''t: 10px solid transparent;  border-right: 10px solid transparent;  border-bottom: 8px solid #EAE'' @
    js ''AEA; '' @ [39] @ js ''></div>'')
           @ (js ''<dl onmouseover='' @ [39] @ js ''__mm_over=true;'' @ [39] @ js '' onmouseout='' @ [39] @
    js ''m_out_m();'' @ [39] @ js ''>'')
           @ (js ''<dt><img src='' @ [39]) @ replace_str img (js ''.png'') [] @ (js ''middle.png'') @ ([39] @ js '' /></dt>'')
           @ (js ''<dd><strong>'') @ title @ (js ''</strong>'') @ desc @ (js ''</dd>'') @ (js ''</dl>'')\<rparr>)\<close>

text \<open>\<open>img\<close> is the picture of the medal; without one \<open>img.indexOf\<close> throws, and the old panel is gone.\<close>

definition showMedalInfo :: "jstr option \<Rightarrow> int \<Rightarrow> int \<Rightarrow> mpage \<Rightarrow> mpage" where
  [js_eval]: "showMedalInfo img x y p =
     (let p1 = remove_intro p in
      case img of
        None \<Rightarrow> p1
      | Some src \<Rightarrow> let m = medal_panel src x y in p1\<lparr>mm_intro := Some m, panels := panels p1 @ [m]\<rparr>)"

definition m_over_m :: "jstr option \<Rightarrow> int \<Rightarrow> int \<Rightarrow> mpage \<Rightarrow> mpage" where
  [js_eval]: "m_over_m img x y p = showMedalInfo img x y (p\<lparr>mm_over := True\<rparr>)"

definition hideMedalInfo :: "mpage \<Rightarrow> mpage" where
  [js_eval]: "hideMedalInfo p = emit (StartTimer ''hideMedalInfo'' 500) p"

definition m_out_m :: "mpage \<Rightarrow> mpage" where
  [js_eval]: "m_out_m p = hideMedalInfo (p\<lparr>mm_over := False\<rparr>)"

definition medal_timeout :: "mpage \<Rightarrow> mpage" where
  [js_eval]: "medal_timeout p =
     (if \<not> mm_over p \<and> mm_intro p \<noteq> None then remove_intro p else p)"

definition level_hover :: "bool \<Rightarrow> 'a page_scheme \<Rightarrow> 'a page_scheme" where
  [js_eval]: \<open>level_hover over p =
     set_css ''#smallTittle'' ''display'' (if over then (js ''inline-block'') else (js ''none'')) p\<close>

datatype medal_event = MOver "jstr option" int int | MPanelOver | MOut | MTimeout

fun medal_run :: "medal_event \<Rightarrow> mpage \<Rightarrow> mpage" where
  "medal_run (MOver img x y) p = m_over_m img x y p"
| "medal_run MPanelOver p = p\<lparr>mm_over := True\<rparr>"
| "medal_run MOut p = m_out_m p"
| "medal_run MTimeout p = medal_timeout p"

definition medal_inv :: "mpage \<Rightarrow> bool" where
  "medal_inv p \<longleftrightarrow> panels p = (case mm_intro p of None \<Rightarrow> [] | Some m \<Rightarrow> [m]) \<and> (\<forall>m \<in> set (panels p). 0 \<le> pn_left m)"

lemma medal_emit [simp]:
  "mm_over (emit e p) = mm_over p" "mm_intro (emit e p) = mm_intro p" "panels (emit e p) = panels p"
  by (simp_all add: emit_def)

lemma medal_step_inv: "medal_inv p \<Longrightarrow> medal_inv (medal_run e p)"
  by (cases e)
    (auto simp: medal_inv_def m_over_m_def showMedalInfo_def remove_intro_def m_out_m_def hideMedalInfo_def
      medal_timeout_def medal_panel_def Let_def split: option.splits prod.splits)

interpretation medals: event_machine medal_run "\<lambda>_. True" medal_inv
  by unfold_locales (rule medal_step_inv)

text \<open>Whatever the order of mouse and timer events, the page shows at most one medal panel, it is
  the one the script keeps and it does not start left of the page; a mouse that leaves and the timer take
  it away.\<close>

theorem one_medal_panel:
  assumes "panels p = []" "mm_intro p = None"
  shows "length (panels (fold medal_run es p)) \<le> 1 \<and> medal_inv (fold medal_run es p) \<and>
     panels (medal_timeout (m_out_m (fold medal_run es p))) = []"
proof -
  have "medal_inv p" using assms by (simp add: medal_inv_def)
  then have i: "medal_inv (fold medal_run es p)" by (rule medals.run_inv) (simp add: list_all_iff)
  then show ?thesis
    by (auto simp: medal_inv_def m_out_m_def hideMedalInfo_def medal_timeout_def remove_intro_def split: option.splits)
qed

lemma one_medal_panel_witness:
  \<open>length (panels (fold medal_run [MOver (Some (js ''a.png'')) 10 0, MOver (Some (js ''b.png'')) 90 0, MOut]
     \<lparr>els = \<lambda>_. blank_elem, effects = [], mm_over = False, mm_intro = None, panels = []\<rparr>)) \<le> 1\<close>
  using one_medal_panel[of "\<lparr>els = \<lambda>_. blank_elem, effects = [], mm_over = False, mm_intro = None, panels = []\<rparr>"
      \<open>[MOver (Some (js ''a.png'')) 10 0, MOver (Some (js ''b.png'')) 90 0, MOut]\<close>]
  by simp

end
