(* ===== verification/ZeroClip.thy ===== *)
theory ZeroClip
  imports BlogCommon Highlighter
begin

text \<open>
  The clipboard movie (\<open>newblog.js\<close>: \<open>ZeroClipboard\<close>, \<open>setCopyBtn\<close>): a Flash movie laid over a button
  copies the text it was last given. A client keeps the text and the settings, passes them to the movie
  once it is loaded, and tells its handlers the events of the movie.

  The movie is the one under the client's \<open>movieId\<close>; whether the page has it when the client looks for it
  is an argument of the event. What a call cannot do (a method of a movie that is not there) is a
  \<open>TypeError\<close>.
\<close>

section \<open>Class names\<close>

text \<open>\<open>className.split(/\s+/)\<close>\<close>

function split_ws :: "jstr \<Rightarrow> jstr list" where
  "split_ws s =
     (let w = takeWhile (\<lambda>c. \<not> is_ws c) s; r = dropWhile (\<lambda>c. \<not> is_ws c) s
      in if r = [] then [w] else w # split_ws (dropWhile is_ws r))"
  by auto
termination
proof (relation "measure length", goal_cases)
  case (2 s w r)
  have "dropWhile is_ws r \<noteq> r"
    using 2 by (metis hd_dropWhile dropWhile_eq_Cons_conv list.collapse dropWhile.simps(2) not_Cons_self)
  moreover have "length (dropWhile is_ws r) \<le> length r" "length r \<le> length s"
    using 2 by (simp_all add: length_dropWhile_le)
  moreover have "dropWhile is_ws r = r" if "length (dropWhile is_ws r) = length r"
    using that by (metis append_eq_append_conv append_self_conv2 takeWhile_dropWhile_id length_append add_0 add_right_cancel length_0_conv)
  ultimately show ?case by force
qed simp

declare split_ws.simps [simp del]

definition remove_first :: "jstr \<Rightarrow> jstr \<Rightarrow> jstr" where
  [js_eval]: \<open>remove_first name className =
     (let cs = split_ws className in if name \<in> set cs then join (js '' '') (remove1 name cs) else className)\<close>

definition dom_addClass :: "jstr \<Rightarrow> jstr \<Rightarrow> jstr" where
  [js_eval]: \<open>dom_addClass name className = remove_first name className @ (js '' '') @ name\<close>

text \<open>\<open>new RegExp("\\s*" + name + "\\s*")\<close>, for a name of letters\<close>

definition dom_hasClass :: "jstr \<Rightarrow> jstr \<Rightarrow> bool" where
  [js_eval]: "dom_hasClass name className =
     rx_test no_flags (rseq [rstar (RCls [ClSpace]), rlit name, rstar (RCls [ClSpace])]) className"

lemma hasClass_substring: \<open>dom_hasClass (js ''active'') (js ''inactive'')\<close>
  by code_simp

section \<open>Clients\<close>

record movie =
  mv_text :: jstr
  mv_cursor :: bool

text \<open>What the script reads of an element of the page: the offsets are those of the element and of the
  elements it is placed in (\<open>offsetParent\<close>), from the inside out.\<close>

record dom_elem =
  de_class :: jstr
  de_zIndex :: jstr
  de_width :: int
  de_height :: int
  de_parent :: selector
  de_offsets :: "(selector \<times> int \<times> int) list"

record div_box =
  dv_left :: jstr
  dv_top :: jstr
  dv_width :: jstr
  dv_height :: jstr
  dv_zIndex :: "int option"
  dv_styles :: "(string \<times> jstr) list"
  dv_html :: jstr

text \<open>A handler: the functions \<open>setCopyBtn\<close> adds, a method of an object, a global function by name.\<close>

datatype handler = HLoad | HCopyCode | HComplete | HMethod string string | HGlobal string

record client =
  cl_id :: nat
  cl_ready :: bool
  cl_bound :: bool
  cl_movie :: movie
  clipText :: jstr
  handCursorEnabled :: bool
  cssEffects :: bool
  recoverActive :: bool
  domElement :: "dom_elem option"
  cl_div :: "div_box option"
  handlers :: "(jstr \<times> handler list) list"
  cl_out :: "effect list"

definition new_client :: "nat \<Rightarrow> client" where
  [js_eval]: "new_client n =
     \<lparr>cl_id = n, cl_ready = False, cl_bound = False, cl_movie = \<lparr>mv_text = [], mv_cursor = False\<rparr>, clipText = [],
      handCursorEnabled = True, cssEffects = True, recoverActive = False, domElement = None, cl_div = None,
      handlers = [], cl_out = []\<rparr>"

definition cl_emit :: "effect \<Rightarrow> client \<Rightarrow> client" where
  [js_eval]: "cl_emit e c = c\<lparr>cl_out := cl_out c @ [e]\<rparr>"

section \<open>The place of the movie\<close>

text \<open>The sum of the offsets up to the element that stops the walk, or of all when none does.\<close>

fun dom_position :: "selector option \<Rightarrow> (selector \<times> int \<times> int) list \<Rightarrow> int \<times> int \<Rightarrow> int \<times> int" where
  "dom_position stopObj [] info = info"
| "dom_position stopObj ((obj, x, y) # os) (l, t) =
     (if stopObj = Some obj then (l, t) else dom_position stopObj os (l + x, t + y))"

lemma dom_position_sum: "dom_position stopObj os (a, b) =
    (let up = takeWhile (\<lambda>(obj, _). stopObj \<noteq> Some obj) os
     in (a + sum_list (map (fst \<circ> snd) up), b + sum_list (map (snd \<circ> snd) up)))"
  by (induction stopObj os "(a, b)" arbitrary: a b rule: dom_position.induct) (auto simp: Let_def)

definition getDOMObjectPosition :: "dom_elem \<Rightarrow> selector option \<Rightarrow> int \<times> int \<times> int \<times> int" where
  [js_eval]: "getDOMObjectPosition e stopObj =
     (let (l, t) = dom_position stopObj (de_offsets e) (0, 0) in (l, t, de_width e, de_height e))"

definition px :: "int \<Rightarrow> jstr" where
  [js_eval]: \<open>px n = int_str n @ (js ''px'')\<close>

definition getHTML :: "jstr \<Rightarrow> bool \<Rightarrow> bool \<Rightarrow> int \<Rightarrow> int \<Rightarrow> client \<Rightarrow> jstr" where
  [js_eval]: \<open>getHTML moviePath msie https width height c =
     (let movieId = (js ''ZeroClipboardMovie_'') @ num_str (cl_id c);
          flashvars = (js ''id='') @ num_str (cl_id c) @ (js ''&width='') @ int_str width @ (js ''&height='') @ int_str height
      in if msie then
           (js ''<object classid="clsid:d27cdb6e-ae6d-11cf-96b8-444553540000" codebase="'') @ (if https then (js ''https://'') else (js ''http://''))
           @ (js ''download.macromedia.com/pub/shockwave/cabs/flash/swflash.cab#version=9,0,0,0" width="'') @ int_str width
           @ (js ''" height="'') @ int_str height @ (js ''" id="'') @ movieId
           @ (js ''" align="middle"><param name="allowScriptAccess" value="always" /><param name="allowFullScreen" '' @
    js ''value="false" /><param name="movie" value="'')
           @ moviePath
           @ (js ''" /><param name="loop" value="false" /><param name="menu" value="false" /><param name="quality" '' @
    js ''value="best" /><param name="bgcolor" value="#ffffff" /><param name="flashvars" value="'')
           @ flashvars @ (js ''"/><param name="wmode" value="transparent"/></object>'')
         else
           (js ''<embed id="'') @ movieId @ (js ''" src="'') @ moviePath
           @ (js ''" loop="false" menu="false" quality="best" bgcolor="#ffffff" width="'') @ int_str width @ (js ''" height="'')
           @ int_str height @ (js ''" name="'') @ movieId
           @ (js ''" align="middle" allowScriptAccess="always" allowFullScreen="false" type="application/x-shockwav'' @
    js ''e-flash" pluginspage="http://www.macromedia.com/go/getflashplayer" flashvars="'')
           @ flashvars @ (js ''" wmode="transparent" />''))\<close>

definition glue :: "jstr \<Rightarrow> bool \<Rightarrow> bool \<Rightarrow> selector option \<Rightarrow> (string \<times> jstr) list \<Rightarrow> dom_elem \<Rightarrow> client \<Rightarrow> client" where
  [js_eval]: "glue moviePath msie https appendElem stylesToAdd e c =
     (let zIndex = (if de_zIndex e \<noteq> [] then map_option (\<lambda>z. z + 1) (parse_int (de_zIndex e)) else Some 99);
          (l, t, w, h) = getDOMObjectPosition e (Some (case appendElem of None \<Rightarrow> ''body'' | Some a \<Rightarrow> a))
      in c\<lparr>domElement := Some e, cl_div := Some
           \<lparr>dv_left = px l, dv_top = px t, dv_width = px w, dv_height = px h,
            dv_zIndex = zIndex, dv_styles = stylesToAdd,
            dv_html = getHTML moviePath msie https w h c\<rparr>\<rparr>)"

definition cl_hide :: "client \<Rightarrow> client" where
  [js_eval]: \<open>cl_hide c = (case cl_div c of None \<Rightarrow> c | Some d \<Rightarrow> c\<lparr>cl_div := Some (d\<lparr>dv_left := (js ''-2000px'')\<rparr>)\<rparr>)\<close>

text \<open>\<open>reposition(elem)\<close>: without an element, with one that is not on the page (\<open>Some None\<close>), and with one that is.\<close>

definition reposition :: "dom_elem option option \<Rightarrow> client \<Rightarrow> client" where
  [js_eval]: "reposition elem c =
     (let c1 = (case elem of
                  None \<Rightarrow> c
                | Some None \<Rightarrow> cl_hide (c\<lparr>domElement := None\<rparr>)
                | Some (Some x) \<Rightarrow> c\<lparr>domElement := Some x\<rparr>) in
      case (domElement c1, cl_div c1) of
        (Some x, Some d) \<Rightarrow>
          (let (l, t, w, h) = getDOMObjectPosition x None
           in c1\<lparr>cl_div := Some (d\<lparr>dv_left := px l, dv_top := px t\<rparr>)\<rparr>)
      | _ \<Rightarrow> c1)"

definition cl_show :: "client \<Rightarrow> client" where
  [js_eval]: "cl_show c = reposition None c"

definition cl_destroy :: "client \<Rightarrow> client" where
  [js_eval]: "cl_destroy c =
     (if domElement c \<noteq> None \<and> cl_div c \<noteq> None
      then (cl_emit (Call ''body.removeChild'' []) (cl_hide c))\<lparr>domElement := None, cl_div := None\<rparr> else c)"

text \<open>A client that is shown again stands where it would if it had not been hidden. That is the place on the whole
  page, while \<open>glue\<close> has placed it in the element it was appended to.\<close>

lemma show_after_hide:
  assumes "domElement c = Some e" "cl_div c = Some d"
  shows "cl_show (cl_hide c) = cl_show c"
  using assms by (cases c) (simp add: cl_show_def cl_hide_def reposition_def Let_def split: prod.splits)

lemma shown_elsewhere:
  \<open>map_option dv_left (cl_div (glue [] False False (Some ''box'') []
       \<lparr>de_class = [], de_zIndex = [], de_width = 20, de_height = 10, de_parent = ''box'',
        de_offsets = [(''button'', 3, 0), (''box'', 100, 200)]\<rparr> (new_client 1))) = Some (js ''3px'')\<close>
  \<open>map_option dv_left (cl_div (cl_show (cl_hide (glue [] False False (Some ''box'') []
       \<lparr>de_class = [], de_zIndex = [], de_width = 20, de_height = 10, de_parent = ''box'',
        de_offsets = [(''button'', 3, 0), (''box'', 100, 200)]\<rparr> (new_client 1))))) = Some (js ''103px'')\<close>
  by code_simp+

section \<open>Text and events\<close>

text \<open>A call of the movie.\<close>

definition movie_call :: "(movie \<Rightarrow> movie) \<Rightarrow> client \<Rightarrow> js_error + client" where
  [js_eval]: "movie_call f c = (if cl_bound c then Inr (c\<lparr>cl_movie := f (cl_movie c)\<rparr>) else Inl TypeError)"

definition cl_setText :: "jstr \<Rightarrow> client \<Rightarrow> js_error + client" where
  [js_eval]: "cl_setText t c =
     (let c1 = c\<lparr>clipText := t\<rparr> in if cl_ready c1 then movie_call (mv_text_update (\<lambda>_. t)) c1 else Inr c1)"

definition event_name :: "jstr \<Rightarrow> jstr" where
  [js_eval]: \<open>event_name n = rx_replace no_flags (RSeq RBol (rlit (js ''on''))) (to_lower n) []\<close>

definition handlers_of :: "jstr \<Rightarrow> client \<Rightarrow> handler list" where
  [js_eval]: "handlers_of n c = (case map_of (handlers c) n of None \<Rightarrow> [] | Some fs \<Rightarrow> fs)"

definition cl_addEventListener :: "jstr \<Rightarrow> handler \<Rightarrow> client \<Rightarrow> client" where
  [js_eval]: "cl_addEventListener n f c =
     c\<lparr>handlers := (event_name n, handlers_of (event_name n) c @ [f]) # filter (\<lambda>h. fst h \<noteq> event_name n) (handlers c)\<rparr>"

definition cl_setHandCursor :: "bool \<Rightarrow> client \<Rightarrow> js_error + client" where
  [js_eval]: "cl_setHandCursor b c =
     (let c1 = c\<lparr>handCursorEnabled := b\<rparr> in if cl_ready c1 then movie_call (mv_cursor_update (\<lambda>_. b)) c1 else Inr c1)"

definition cl_setCSSEffects :: "bool \<Rightarrow> client \<Rightarrow> client" where
  [js_eval]: "cl_setCSSEffects b c = c\<lparr>cssEffects := b\<rparr>"

text \<open>The text of the code block, as the copy button decodes it.\<close>

definition copy_code :: "jstr \<Rightarrow> jstr" where
  [js_eval]: \<open>copy_code h = rx_replace_all no_flags (rlit (js ''&amp;''))
     (rx_replace_all no_flags (rlit (js ''&gt;'')) (rx_replace_all no_flags (rlit (js ''&lt;'')) h (js ''<'')) (js ''>'')) (js ''&'')\<close>

text \<open>One handler, and the loop over the handlers of an event: the first exception ends it.\<close>

fun run_handler :: "jstr \<Rightarrow> handler \<Rightarrow> client \<Rightarrow> js_error + client" where
  "run_handler code HLoad c = Inr c"
| "run_handler code HCopyCode c = (if cl_bound c then cl_setText (copy_code code) c else Inl TypeError)"
| \<open>run_handler code HComplete c = Inr (cl_emit (Alert ([20195, 30721, 24050, 32463, 22797, 21046, 21040, 20320, 30340, 21098, 36148, 26495, 12290])) c)\<close>
| "run_handler code (HMethod ob m) c = Inr (cl_emit (Call (ob @ ''.'' @ m) []) c)"
| "run_handler code (HGlobal f) c = Inr (cl_emit (Call f []) c)"

fun run_handlers :: "jstr \<Rightarrow> handler list \<Rightarrow> client \<Rightarrow> js_error + client" where
  "run_handlers code [] c = Inr c"
| "run_handlers code (f # fs) c =
     (case run_handler code f c of Inl x \<Rightarrow> Inl x | Inr c1 \<Rightarrow> run_handlers code fs c1)"

text \<open>The class of the button follows the mouse, when the client has a button and may style it.\<close>

definition on_button :: "(jstr \<Rightarrow> jstr) \<Rightarrow> client \<Rightarrow> client" where
  [js_eval]: "on_button f c = c\<lparr>domElement := map_option (\<lambda>e. e\<lparr>de_class := f (de_class e)\<rparr>) (domElement c)\<rparr>"

definition mouse_event :: "jstr \<Rightarrow> client \<Rightarrow> client" where
  [js_eval]: \<open>mouse_event n c =
     (case domElement c of
        None \<Rightarrow> c
      | Some e \<Rightarrow>
          if \<not> cssEffects c then c
          else if n = (js ''mouseover'') then
            (let c1 = on_button (dom_addClass (js ''hover'')) c
             in if recoverActive c1 then on_button (dom_addClass (js ''active'')) c1 else c1)
          else if n = (js ''mouseout'') then
            (let c1 = c\<lparr>recoverActive := False\<rparr>;
                 c2 = (if dom_hasClass (js ''active'') (de_class e)
                       then (on_button (remove_first (js ''active'')) c1)\<lparr>recoverActive := True\<rparr> else c1)
             in on_button (remove_first (js ''hover'')) c2)
          else if n = (js ''mousedown'') then on_button (dom_addClass (js ''active'')) c
          else if n = (js ''mouseup'') then (on_button (remove_first (js ''active'')) c)\<lparr>recoverActive := False\<rparr>
          else c)\<close>

text \<open>Loading: the result is the client and whether the handlers are to run. \<open>found\<close>: the page has the movie;
  \<open>ff_win\<close>: Firefox on Windows, where the first load is answered by a second one.\<close>

definition load_event :: "bool \<Rightarrow> bool \<Rightarrow> client \<Rightarrow> js_error + client \<times> bool" where
  [js_eval]: "load_event found ff_win c =
     (let c1 = c\<lparr>cl_bound := found\<rparr> in
      if \<not> found then Inr (cl_emit (StartTimer ''load'' 1) c1, False)
      else if \<not> cl_ready c1 \<and> ff_win then Inr ((cl_emit (StartTimer ''load'' 100) c1)\<lparr>cl_ready := True\<rparr>, False)
      else case movie_call (mv_text_update (\<lambda>_. clipText c1)) (c1\<lparr>cl_ready := True\<rparr>) of
             Inl x \<Rightarrow> Inl x
           | Inr c2 \<Rightarrow>
               (case movie_call (mv_cursor_update (\<lambda>_. handCursorEnabled c2)) c2 of
                  Inl x \<Rightarrow> Inl x | Inr c3 \<Rightarrow> Inr (c3, True)))"

definition receiveEvent :: "bool \<Rightarrow> bool \<Rightarrow> jstr \<Rightarrow> jstr \<Rightarrow> client \<Rightarrow> js_error + client" where
  [js_eval]: \<open>receiveEvent found ff_win code name c =
     (let n = event_name name in
      if n = (js ''load'') then
        (case load_event found ff_win c of
           Inl x \<Rightarrow> Inl x
         | Inr (c1, go) \<Rightarrow> if go then run_handlers code (handlers_of n c1) c1 else Inr c1)
      else run_handlers code (handlers_of n c) (mouse_event n c))\<close>

section \<open>All clients\<close>

record clipboard =
  zc_clients :: "nat \<Rightarrow> client option"
  nextId :: nat
  moviePath :: jstr

definition setMoviePath :: "jstr \<Rightarrow> clipboard \<Rightarrow> clipboard" where
  [js_eval]: "setMoviePath path z = z\<lparr>moviePath := path\<rparr>"

definition zc_register :: "nat \<Rightarrow> client option \<Rightarrow> clipboard \<Rightarrow> clipboard" where
  [js_eval]: "zc_register i c z = z\<lparr>zc_clients := (zc_clients z)(i := c)\<rparr>"

definition zc_client :: "nat \<Rightarrow> clipboard \<Rightarrow> client option" where
  [js_eval]: "zc_client i z = zc_clients z i"

interpretation zc_table: keyed_store zc_client zc_register
  by unfold_locales (simp_all add: zc_client_def zc_register_def)

definition zc_dispatch :: "bool \<Rightarrow> bool \<Rightarrow> jstr \<Rightarrow> nat \<Rightarrow> jstr \<Rightarrow> clipboard \<Rightarrow> js_error + clipboard" where
  [js_eval]: "zc_dispatch found ff_win code i name z =
     (case zc_client i z of
        None \<Rightarrow> Inr z
      | Some c \<Rightarrow>
          (case receiveEvent found ff_win code name c of
             Inl x \<Rightarrow> Inl x | Inr c1 \<Rightarrow> Inr (zc_register i (Some c1) z)))"

definition zc_new :: "clipboard \<Rightarrow> nat \<times> clipboard" where
  [js_eval]: "zc_new z =
     (nextId z, zc_register (nextId z) (Some (new_client (nextId z))) (z\<lparr>nextId := nextId z + 1\<rparr>))"

text \<open>The button of one code block.\<close>

definition copy_client :: "jstr \<Rightarrow> bool \<Rightarrow> bool \<Rightarrow> nat \<Rightarrow> dom_elem \<Rightarrow> client" where
  [js_eval]: \<open>copy_client path msie https n e =
     glue path msie https (Some (de_parent e)) [] e
       (cl_addEventListener (js ''complete'') HComplete
         (cl_addEventListener (js ''mouseOver'') HCopyCode
           (cl_addEventListener (js ''load'') HLoad ((new_client n)\<lparr>handCursorEnabled := True\<rparr>))))\<close>

fun setCopyBtn :: "bool \<Rightarrow> bool \<Rightarrow> dom_elem list \<Rightarrow> clipboard \<Rightarrow> clipboard" where
  "setCopyBtn msie https [] z = z"
| "setCopyBtn msie https (e # es) z =
     (let (n, z1) = zc_new z
      in setCopyBtn msie https es (zc_register n (Some (copy_client (moviePath z1) msie https n e)) z1))"

lemma setCopyBtn_client:
  "i < length es \<Longrightarrow> zc_client (nextId z + i) (setCopyBtn msie https es z) =
     Some (copy_client (moviePath z) msie https (nextId z + i) (es ! i))"
proof (induction es arbitrary: z i)
  case (Cons e es)
  have other: "zc_clients (setCopyBtn msie https xs y) j = zc_clients y j" if "j < nextId y" for j xs y
    using that by (induction xs arbitrary: y) (auto simp: zc_new_def zc_register_def)
  show ?case
  proof (cases i)
    case 0
    then show ?thesis by (simp add: zc_new_def other zc_register_def zc_client_def)
  next
    case (Suc k)
    let ?z = "zc_register (nextId z) (Some (copy_client (moviePath z) msie https (nextId z) e))
        (zc_register (nextId z) (Some (new_client (nextId z))) (z\<lparr>nextId := nextId z + 1\<rparr>))"
    show ?thesis using Suc Cons.prems Cons.IH[of k ?z] by (simp add: zc_new_def zc_register_def)
  qed
qed simp

section \<open>The movie has the text\<close>

text \<open>What happens to a client whose movie stays on the page.\<close>

datatype clip_event = CEvent jstr jstr | CText jstr | CCursor bool | CHide | CShow

fun clip_run :: "bool \<Rightarrow> clip_event \<Rightarrow> client \<Rightarrow> js_error + client" where
  "clip_run ff_win (CEvent name code) c = receiveEvent True ff_win code name c"
| "clip_run ff_win (CText t) c = cl_setText t c"
| "clip_run ff_win (CCursor b) c = cl_setHandCursor b c"
| "clip_run ff_win CHide c = Inr (cl_hide c)"
| "clip_run ff_win CShow c = Inr (cl_show c)"

fun clip_runs :: "bool \<Rightarrow> clip_event list \<Rightarrow> client \<Rightarrow> js_error + client" where
  "clip_runs ff_win [] c = Inr c"
| "clip_runs ff_win (e # es) c = (case clip_run ff_win e c of Inl x \<Rightarrow> Inl x | Inr c1 \<Rightarrow> clip_runs ff_win es c1)"

definition synced :: "client \<Rightarrow> bool" where
  [js_eval]: "synced c \<longleftrightarrow> cl_ready c \<and> cl_bound c \<and> mv_text (cl_movie c) = clipText c \<and>
     mv_cursor (cl_movie c) = handCursorEnabled c"

text \<open>A step that neither fails nor loses the text, and leaves the handlers.\<close>

definition keeps_sync :: "client \<Rightarrow> js_error + client \<Rightarrow> bool" where
  "keeps_sync c r \<longleftrightarrow> (\<exists>c1. r = Inr c1 \<and> synced c1 \<and> handlers c1 = handlers c)"

lemma setText_sync: "synced c \<Longrightarrow> keeps_sync c (cl_setText t c)"
  by (simp add: keeps_sync_def synced_def cl_setText_def movie_call_def)

lemma setHandCursor_sync: "synced c \<Longrightarrow> keeps_sync c (cl_setHandCursor b c)"
  by (simp add: keeps_sync_def synced_def cl_setHandCursor_def movie_call_def)

lemma handler_sync: "synced c \<Longrightarrow> keeps_sync c (run_handler code f c)"
  by (cases f) (auto simp: keeps_sync_def synced_def cl_setText_def movie_call_def cl_emit_def)

lemma handlers_sync: "synced c \<Longrightarrow> keeps_sync c (run_handlers code fs c)"
proof (induction fs arbitrary: c)
  case (Cons f fs)
  obtain c1 where c1: "run_handler code f c = Inr c1" "synced c1" "handlers c1 = handlers c"
    using handler_sync[OF Cons.prems] by (auto simp: keeps_sync_def)
  then show ?case using Cons.IH[OF c1(2)] by (simp add: keeps_sync_def)
qed (simp add: keeps_sync_def)

lemma mouse_sync: "synced c \<Longrightarrow> synced (mouse_event n c) \<and> handlers (mouse_event n c) = handlers c"
  by (auto simp: synced_def mouse_event_def on_button_def Let_def split: option.splits)

lemma load_sync: "cl_ready c \<or> \<not> ff_win \<Longrightarrow> \<exists>c1. load_event True ff_win c = Inr (c1, True) \<and> synced c1 \<and> handlers c1 = handlers c"
  by (auto simp: load_event_def movie_call_def synced_def Let_def)

lemma hide_show_sync:
  "synced c \<Longrightarrow> synced (cl_hide c) \<and> handlers (cl_hide c) = handlers c"
  "synced c \<Longrightarrow> synced (cl_show c) \<and> handlers (cl_show c) = handlers c"
  by (auto simp: synced_def cl_hide_def cl_show_def reposition_def Let_def split: option.splits prod.splits)

lemma receive_sync:
  assumes "synced c"
  shows "keeps_sync c (receiveEvent True ff_win code name c)"
proof (cases \<open>event_name name = (js ''load'')\<close>)
  case True
  obtain c1 where c1: "load_event True ff_win c = Inr (c1, True)" "synced c1" "handlers c1 = handlers c"
    using load_sync[of c ff_win] assms by (auto simp: synced_def)
  then show ?thesis using True handlers_sync[OF c1(2)] by (simp add: receiveEvent_def keeps_sync_def Let_def)
next
  case False
  then show ?thesis
    using mouse_sync[OF assms, of "event_name name"] handlers_sync[of "mouse_event (event_name name) c"]
    by (simp add: receiveEvent_def keeps_sync_def Let_def)
qed

lemma clip_run_sync: "synced c \<Longrightarrow> keeps_sync c (clip_run ff_win e c)"
  by (cases e) (simp_all add: receive_sync setText_sync setHandCursor_sync hide_show_sync keeps_sync_def[of c "Inr _"])

lemma clip_runs_sync: "synced c \<Longrightarrow> keeps_sync c (clip_runs ff_win es c)"
proof (induction es arbitrary: c)
  case (Cons e es)
  obtain c1 where c1: "clip_run ff_win e c = Inr c1" "synced c1" "handlers c1 = handlers c"
    using clip_run_sync[OF Cons.prems] by (auto simp: keeps_sync_def)
  then show ?case using Cons.IH[OF c1(2)] by (simp add: keeps_sync_def)
qed (simp add: keeps_sync_def)

text \<open>A load that finds the movie gives it the text, or is the first of Firefox on Windows and a second one
  gives it.\<close>

lemma first_load:
  obtains c1 where \<open>clip_run ff_win (CEvent (js ''load'') code) c = Inr c1\<close> "cl_ready c1" "handlers c1 = handlers c"
proof (cases "cl_ready c \<or> \<not> ff_win")
  case True
  obtain c2 where c2: "load_event True ff_win c = Inr (c2, True)" "synced c2" "handlers c2 = handlers c"
    using load_sync[OF True] by auto
  obtain c3 where c3: \<open>run_handlers code (handlers_of (js ''load'') c2) c2 = Inr c3\<close> "synced c3" "handlers c3 = handlers c2"
    using handlers_sync[OF c2(2)] by (auto simp: keeps_sync_def)
  have \<open>event_name (js ''load'') = (js ''load'')\<close> by code_simp
  then show ?thesis using that[of c3] c2 c3 by (simp add: receiveEvent_def synced_def)
next
  case False
  have e: \<open>event_name (js ''load'') = (js ''load'')\<close> by code_simp
  then show ?thesis
    using that[of "(cl_emit (StartTimer ''load'' 100) (c\<lparr>cl_bound := True\<rparr>))\<lparr>cl_ready := True\<rparr>"] False
    by (simp add: receiveEvent_def load_event_def cl_emit_def Let_def)
qed

lemma second_load:
  assumes "cl_ready c"
  shows \<open>\<exists>c1. clip_run ff_win (CEvent (js ''load'') code) c = Inr c1 \<and> synced c1 \<and> handlers c1 = handlers c\<close>
proof -
  obtain c2 where c2: "load_event True ff_win c = Inr (c2, True)" "synced c2" "handlers c2 = handlers c"
    using load_sync[of c ff_win] assms by auto
  have \<open>event_name (js ''load'') = (js ''load'')\<close> by code_simp
  then show ?thesis using c2 handlers_sync[OF c2(2)] by (simp add: receiveEvent_def keeps_sync_def)
qed

lemma loaded_runs:
  \<open>\<exists>c1. clip_runs ff_win ([CEvent (js ''load'') a, CEvent (js ''load'') b] @ es) c = Inr c1 \<and> synced c1 \<and> handlers c1 = handlers c\<close>
proof -
  obtain c1 where c1: \<open>clip_run ff_win (CEvent (js ''load'') a) c = Inr c1\<close> "cl_ready c1" "handlers c1 = handlers c"
    by (rule first_load)
  obtain c2 where c2: \<open>clip_run ff_win (CEvent (js ''load'') b) c1 = Inr c2\<close> "synced c2" "handlers c2 = handlers c1"
    using second_load[OF c1(2)] by auto
  then show ?thesis using c1 clip_runs_sync[OF c2(2)] by (simp add: keeps_sync_def del: clip_run.simps)
qed

lemma copy_client_mouseover: \<open>handlers_of (js ''mouseover'') (copy_client path msie https n e) = [HCopyCode]\<close>
proof -
  have e: \<open>event_name (js ''load'') = (js ''load'')\<close> \<open>event_name (js ''mouseOver'') = (js ''mouseover'')\<close> \<open>event_name (js ''complete'') = (js ''complete'')\<close>
    by code_simp+
  have d: \<open>(js ''mouseover'') \<noteq> (js ''complete'')\<close> \<open>(js ''mouseover'') \<noteq> (js ''load'')\<close> \<open>(js ''load'') \<noteq> (js ''mouseover'')\<close> \<open>(js ''complete'') \<noteq> (js ''load'')\<close> \<open>(js ''complete'') \<noteq> (js ''mouseover'')\<close>
    by (simp_all add: js_def)
  show ?thesis using d
    by (auto simp: copy_client_def glue_def cl_addEventListener_def e handlers_of_def new_client_def Let_def
        split: prod.splits)
qed


text \<open>Without the movie a ready client throws: the second load of Firefox may not find it any more.\<close>

lemma lost_movie_throws:
  \<open>\<exists>c1 c2. receiveEvent True True [] (js ''load'') (new_client 1) = Inr c1 \<and> receiveEvent False True [] (js ''load'') c1 = Inr c2 \<and>
     cl_setText (js ''x'') c2 = Inl TypeError\<close>
proof -
  have e: \<open>event_name (js ''load'') = (js ''load'')\<close> by code_simp
  show ?thesis
    by (simp add: receiveEvent_def e load_event_def new_client_def cl_setText_def movie_call_def cl_emit_def Let_def)
qed

end
