(* ===== verification/NotifyText.thy ===== *)
theory NotifyText
  imports Ubb Cookies Highlighter
begin

text \<open>
  The texts of the notification panel (\<open>notify.js\<close>): the mark-up of a notification, the encoding of code,
  the templates and the cookie that names the visitor.

  The mark-up differs from that of the comments (theory \<open>Ubb\<close>) in the tags it writes, the encoding of the
  code and the two replacements at the end; the loops over the code blocks are the same code.
\<close>

section \<open>Encoding\<close>

definition HTMLEncode :: "jstr \<Rightarrow> jstr" where
  [js_eval]: \<open>HTMLEncode str =
     (if str = [] then []
      else rx_replace_all no_flags (RChr 34)
        (rx_replace_all no_flags (RChr 39)
          (rx_replace_all no_flags (RChr 62)
            (rx_replace_all no_flags (RChr 60)
              (rx_replace_all no_flags (RChr 38) str (js ''&amp;'')) (js ''&lt;'')) (js ''&gt;'')) (js ''&#39;'')) (js ''&quot;''))\<close>

text \<open>The encoding of one code unit, and reading it back.\<close>

definition enc_char :: "cu \<Rightarrow> jstr" where
  [js_eval]: \<open>enc_char c = (if c = 38 then (js ''&amp;'') else if c = 60 then (js ''&lt;'') else if c = 62 then (js ''&gt;'')
     else if c = 39 then (js ''&#39;'') else if c = 34 then (js ''&quot;'') else [c])\<close>

lemma replace_chr: "36 \<notin> set t \<Longrightarrow> rx_replace_all no_flags (RChr a) s t = concat (map (\<lambda>x. if x = a then t else [x]) s)"
proof -
  assume t: "36 \<notin> set t"
  have "rx_replace_all_fn no_flags (RChr a) s (\<lambda>_. t) = concat (map (\<lambda>x. if x = a then t else [x]) s)"
    by (rule replace_each) (auto simp: match_cu_def cu_eq_def no_flags_def)
  then show ?thesis using t by (simp add: rx_replace_all_plain)
qed

lemma concat_map_concat: "concat (map f (concat (map g s))) = concat (map (\<lambda>c. concat (map f (g c))) s)"
  by (induction s) simp_all

lemma HTMLEncode_map: "HTMLEncode s = concat (map enc_char s)"
proof -
  have plain: \<open>36 \<notin> set (js ''&amp;'')\<close> \<open>36 \<notin> set (js ''&lt;'')\<close> \<open>36 \<notin> set (js ''&gt;'')\<close> \<open>36 \<notin> set (js ''&#39;'')\<close> \<open>36 \<notin> set (js ''&quot;'')\<close>
    by (simp_all add: js_def)
  have \<open>HTMLEncode s = concat (map (\<lambda>x. if x = 34 then (js ''&quot;'') else [x])
      (concat (map (\<lambda>x. if x = 39 then (js ''&#39;'') else [x])
        (concat (map (\<lambda>x. if x = 62 then (js ''&gt;'') else [x])
          (concat (map (\<lambda>x. if x = 60 then (js ''&lt;'') else [x])
            (concat (map (\<lambda>x. if x = 38 then (js ''&amp;'') else [x]) s)))))))))\<close>
    by (simp add: HTMLEncode_def replace_chr plain)
  also have "\<dots> = concat (map enc_char s)"
    unfolding concat_map_concat by (rule arg_cong[where f = concat], rule map_cong) (auto simp: enc_char_def js_def)
  finally show ?thesis .
qed

lemma HTMLEncode_append: "HTMLEncode (s @ t) = HTMLEncode s @ HTMLEncode t"
  by (simp add: HTMLEncode_map)

text \<open>What a browser shows for an encoded text: the five references are read back.\<close>

fun html_decode :: "jstr \<Rightarrow> jstr" where
  "html_decode [] = []"
| \<open>html_decode (c # s) =
     (if starts_with (js ''&amp;'') (c # s) then 38 # html_decode (drop 4 s)
      else if starts_with (js ''&lt;'') (c # s) then 60 # html_decode (drop 3 s)
      else if starts_with (js ''&gt;'') (c # s) then 62 # html_decode (drop 3 s)
      else if starts_with (js ''&#39;'') (c # s) then 39 # html_decode (drop 4 s)
      else if starts_with (js ''&quot;'') (c # s) then 34 # html_decode (drop 5 s)
      else c # html_decode s)\<close>

lemma html_decode_enc: "html_decode (enc_char c @ s) = c # html_decode s"
  by (auto simp: enc_char_def js_def)

text \<open>C32: the encoded code is shown by a browser as exactly the code, whatever it contains, and
  holds no character that starts or ends a tag or an attribute.\<close>

theorem html_encode_safe: "html_decode (HTMLEncode s) = s \<and> set (HTMLEncode s) \<inter> {34, 39, 60, 62} = {}"
proof
  show "html_decode (HTMLEncode s) = s"
    by (induction s) (simp_all add: HTMLEncode_map html_decode_enc del: html_decode.simps(2))
  show "set (HTMLEncode s) \<inter> {34, 39, 60, 62} = {}"
    by (auto simp: HTMLEncode_map enc_char_def js_def split: if_splits)
qed

section \<open>The mark-up of a notification\<close>

function note_quote :: "jstr \<Rightarrow> jstr" where
  \<open>note_quote str =
     (case rx_find i_flag re_quote str 0 of
        Some m \<Rightarrow>
          replace_str str (match_text str m)
            ((js ''<fieldset><legend>'' @ [24341, 29992, 8220] @ js ''<span class="user_name">'') @ the_capture str m 1 @ (js ''</span>'' @ [8221, 30340, 35780, 35770, 65306] @ js ''</legend>'')
             @ note_quote (the_capture str m 2) @ (js ''</fieldset>''))
      | None \<Rightarrow> str)\<close>
  by pat_completeness auto
termination
proof (relation "measure length", goal_cases)
  case (2 str m)
  from re_quote_groups[OF 2] show ?case by (metis the_capture_def in_measure option.simps(5))
qed simp

declare note_quote.simps [simp del]

text \<open>\<^verbatim>\<open>/(<br\s\S*>|<br>)/ig\<close> and \<^verbatim>\<open>/(\\&quote\;|\&quote\;)/ig\<close>\<close>

definition re_br_tag :: rx where
  [js_eval]: \<open>re_br_tag = RGrp 1 (RAlt
     (rseq [rlit (js ''<br''), RCls [ClSpace], rstar (RCls [ClNotSpace]), RChr 62]) (rlit (js ''<br>'')))\<close>

definition re_quote_ref :: rx where
  [js_eval]: \<open>re_quote_ref = RGrp 1 (RAlt (rlit ([92] @ js ''&quote;'')) (rlit (js ''&quote;'')))\<close>

definition note_code :: "jstr \<Rightarrow> rxmatch \<Rightarrow> jstr" where
  [js_eval]: \<open>note_code s m =
     (if trim (the_capture s m 2) = [] then []
      else (js ''<pre name="code2" class="'') @ the_capture s m 1 @ (js ''">'') @ HTMLEncode (the_capture s m 2) @ (js ''</pre>''))\<close>

definition blank_or :: "jstr \<Rightarrow> jstr \<Rightarrow> rxmatch \<Rightarrow> jstr" where
  [js_eval]: "blank_or t s m = (if trim (match_text s m) = [] then [] else t)"

text \<open>The tags of the line ends become two spaces.\<close>

definition note_breaks :: "jstr \<Rightarrow> jstr" where
  [js_eval]: \<open>note_breaks s = rx_replace_all_fn i_flag re_br_tag s (blank_or (js ''&nbsp;&nbsp;'') s)\<close>

definition ubbDecode :: "jstr \<Rightarrow> jstr" where
  [js_eval]: \<open>ubbDecode content =
     (let (content0, codelist) = collect_code (trim content) 0 [];
          content1 = note_quote content0;
          content2 = rx_replace_all i_flag re_reply content1 ([22238, 22797] @ js ''<span class='' @ [39] @ js ''user_name'' @ [39] @ js ''>$1</span>'' @ [65306]);
          content3 = rx_replace_all i_flag re_url content2 (js ''<a href="$1" target="_blank">$2</a>'');
          content4 = rx_replace_all i_flag re_img content3
            (js ''<img src="$3" style="max-width:200px;max-height:100px;" border="0" title="$2" />'');
          content5 = rx_replace_all i_flag re_br content4 (js ''<br />'');
          content6 = (if codelist \<noteq> [] then restore_code content5 0 codelist else content5);
          content7 = rx_replace_all_fn i_flag re_code content6 (note_code content6);
          content8 = note_breaks content7
      in rx_replace_all_fn i_flag re_quote_ref content8 (blank_or [] content8))\<close>

text \<open>
  The expression for the tag goes on to the last \<^verbatim>\<open>>\<close> before white space, so what follows a line end
  inside a quote is lost with the end tag of the quote.
\<close>

lemma note_break_plain: \<open>note_breaks (js ''x<br />yz'') = (js ''x&nbsp;&nbsp;yz'')\<close>
  by code_simp

lemma note_break_swallows: \<open>note_breaks (js ''x<br />y</fieldset>'') = (js ''x&nbsp;&nbsp;'')\<close>
  by code_simp

section \<open>Templates\<close>

text \<open>\<^verbatim>\<open>new RegExp("{%" + name + "%}", "g")\<close>; the fields are replaced one after the other.\<close>

fun feTemplate_render :: "(jstr \<times> jstr) list \<Rightarrow> jstr \<Rightarrow> jstr" where
  "feTemplate_render [] result = result"
| \<open>feTemplate_render ((name, v) # conf) result =
     feTemplate_render conf (rx_replace_all no_flags (rlit ((js ''{%'') @ name @ (js ''%}''))) result v)\<close>

text \<open>A value that itself looks like a later field is replaced too.\<close>

lemma template_nested:
  \<open>feTemplate_render [((js ''a''), (js ''{%b%}'')), ((js ''b''), (js ''x''))] (js ''<{%a%}>'') = (js ''<x>'')\<close>
  by code_simp

section \<open>The cookie\<close>

text \<open>\<open>decodeURI\<close>: the escapes of the reserved characters stay as they are.\<close>

definition uri_reserved :: "nat \<Rightarrow> bool" where
  [js_eval]: "uri_reserved v \<longleftrightarrow> v \<in> {59, 47, 63, 58, 64, 38, 61, 43, 36, 44, 35}"

function decodeURI :: "jstr \<Rightarrow> jstr option" where
  "decodeURI s =
     (case s of
        [] \<Rightarrow> Some []
      | c # cs \<Rightarrow>
          if c \<noteq> 37 then map_option ((#) c) (decodeURI cs)
          else case utf8_char s of
                 None \<Rightarrow> None
               | Some (v, n) \<Rightarrow>
                   map_option ((@) (if uri_reserved v then take (3 * n) s else units_of v)) (decodeURI (drop (3 * n) s)))"
  by pat_completeness auto
termination
proof (relation "measure length", goal_cases)
  case (3 s c cs x v n)
  then show ?case using utf8_char_bytes[of s v n] by auto
qed simp_all

declare decodeURI.simps [simp del]

text \<open>\<open>Inr None\<close> is \<open>undefined\<close>. The value ends at a second \<open>=\<close>; a cookie without \<open>=\<close> reads as \<open>undefined\<close>.\<close>

fun note_cookie_scan :: "jstr \<Rightarrow> jstr list \<Rightarrow> js_error + jstr option" where
  "note_cookie_scan objName [] = Inr None"
| \<open>note_cookie_scan objName (a # as) =
     (case split_cu 61 a of
        t # ts \<Rightarrow>
          if t = objName
          then (case decodeURI (case ts of [] \<Rightarrow> (js ''undefined'') | v # _ \<Rightarrow> v) of
                  None \<Rightarrow> Inl URIError | Some v \<Rightarrow> Inr (Some v))
          else note_cookie_scan objName as
      | [] \<Rightarrow> note_cookie_scan objName as)\<close>

definition note_getCookie :: "jstr \<Rightarrow> jstr \<Rightarrow> js_error + jstr option" where
  [js_eval]: \<open>note_getCookie cookie objName = note_cookie_scan objName (split_str (js ''; '') cookie)\<close>

lemma note_cookie_cut: \<open>note_getCookie (js ''a=1; UserInfo=x=y'') (js ''UserInfo'') = Inr (Some (js ''x''))\<close>
  by code_simp

end
