(* ===== verification/NotifyApi.thy ===== *)
theory NotifyApi
  imports Page
begin

text \<open>
  The requests of the notification panel (\<open>notify.js\<close>: \<open>lock\<close>, \<open>loading\<close>, \<open>invokeAPI\<close> and the calls built on
  it).

  A call locks its address, shows the loading signs of an area and answers its callback once the signs have
  faded out, or at once when another call keeps them shown. The state keeps every call with the answers its
  callback got. The fading of the signs ends once for each element, so an area that holds several signs runs
  the callback several times; the theorems are about areas with one sign, and \<open>two_signs_two_answers\<close> is
  what happens otherwise.
\<close>

section \<open>State\<close>

text \<open>An answer of the server.\<close>

record 'd answer =
  an_status :: int
  an_error :: "jstr option"
  an_data :: "'d list option"

text \<open>What the callback gets: the failure, the refusal or the data, and whether the signs are still shown.\<close>

datatype 'd reply = Locked | Failed jstr bool | Refused jstr "'d answer" bool | Done "'d answer" bool

record 'd call =
  cl_lock :: jstr
  cl_area :: "nat option"
  cl_loaded :: bool                      \<comment> \<open>\<open>completed\<close> of the function that \<open>loading\<close> returns\<close>
  cl_fade :: "(nat \<times> jstr) option"       \<comment> \<open>signs still fading, and the status to report then\<close>
  cl_completed :: bool
  cl_data :: "'d answer option"
  cl_replies :: "'d reply list"

record 'd api =
  lockers :: "jstr \<Rightarrow> bool"
  loading_count :: "nat \<Rightarrow> nat"
  loading_shown :: "nat \<Rightarrow> bool"
  calls :: "'d call list"
  threw :: bool

definition api_start :: "'d api" where
  [js_eval]: "api_start = \<lparr>lockers = \<lambda>_. False, loading_count = \<lambda>_. 0, loading_shown = \<lambda>_. False, calls = [], threw = False\<rparr>"

definition set_locker :: "jstr \<Rightarrow> bool \<Rightarrow> 'd api \<Rightarrow> 'd api" where
  [js_eval]: "set_locker u b s = s\<lparr>lockers := (lockers s)(u := b)\<rparr>"

definition locker :: "jstr \<Rightarrow> 'd api \<Rightarrow> bool" where
  [js_eval]: "locker u s = lockers s u"

interpretation locks: keyed_store locker set_locker
  by unfold_locales (simp_all add: locker_def set_locker_def)

section \<open>Operations\<close>

text \<open>\<open>lock\<close>: the address is empty when the call uses no lock.\<close>

definition may_lock :: "jstr \<Rightarrow> 'd api \<Rightarrow> bool" where
  [js_eval]: "may_lock u s \<longleftrightarrow> u = [] \<or> \<not> locker u s"

definition start_loading :: "nat option \<Rightarrow> 'd api \<Rightarrow> 'd api" where
  [js_eval]: "start_loading area s =
     (case area of
        None \<Rightarrow> s
      | Some a \<Rightarrow> s\<lparr>loading_shown := (loading_shown s)(a := True),
                     loading_count := (loading_count s)(a := loading_count s a + 1)\<rparr>)"

definition invokeAPI :: "jstr \<Rightarrow> nat option \<Rightarrow> 'd api \<Rightarrow> 'd api" where
  [js_eval]: "invokeAPI u area s =
     (if may_lock u s
      then (start_loading area (set_locker u True s))
        \<lparr>calls := calls s @ [\<lparr>cl_lock = u, cl_area = area, cl_loaded = False, cl_fade = None, cl_completed = False,
            cl_data = None, cl_replies = []\<rparr>]\<rparr>
      else s\<lparr>calls := calls s @ [\<lparr>cl_lock = u, cl_area = None, cl_loaded = True, cl_fade = None, cl_completed = True,
            cl_data = None, cl_replies = [Locked]\<rparr>]\<rparr>)"

text \<open>The callback's arguments; \<open>None\<close>: \<open>data\<close> is undefined and reading its status throws.\<close>

definition reply_of :: "'d call \<Rightarrow> jstr \<Rightarrow> bool \<Rightarrow> 'd reply option" where
  [js_eval]: \<open>reply_of r status loading =
     (if status \<noteq> [] \<and> status \<noteq> (js ''success'') then Some (Failed status loading)
      else case cl_data r of
             None \<Rightarrow> None
           | Some d \<Rightarrow>
               if an_status d \<noteq> 200
               then Some (Refused (case an_error d of None \<Rightarrow> int_str (an_status d)
                    | Some e \<Rightarrow> if e = [] then int_str (an_status d) else e) d loading)
               else Some (Done d loading))\<close>

text \<open>The function given to \<open>done\<close>: the callback, then the lock, then the flag.\<close>

definition deliver :: "nat \<Rightarrow> bool \<Rightarrow> jstr \<Rightarrow> 'd api \<Rightarrow> 'd api" where
  [js_eval]: "deliver i loading status s =
     (let r = calls s ! i in
      case reply_of r status loading of
        None \<Rightarrow> s\<lparr>threw := True\<rparr>
      | Some p \<Rightarrow> set_locker (cl_lock r) False
          (s\<lparr>calls := (calls s)[i := r\<lparr>cl_replies := cl_replies r @ [p], cl_completed := True\<rparr>]\<rparr>))"

text \<open>\<open>signs a\<close> is the number of loading signs of the area.\<close>

definition api_complete :: "(nat \<Rightarrow> nat) \<Rightarrow> nat \<Rightarrow> jstr \<Rightarrow> 'd api \<Rightarrow> 'd api" where
  [js_eval]: "api_complete signs i status s =
     (let r = calls s ! i in
      if cl_completed r then s
      else case cl_area r of
             None \<Rightarrow> deliver i False status s
           | Some a \<Rightarrow>
               if cl_loaded r then s
               else let num = loading_count s a - 1;
                        s1 = s\<lparr>calls := (calls s)[i := r\<lparr>cl_loaded := True,
                               cl_fade := if num = 0 then Some (signs a, status) else None\<rparr>]\<rparr>;
                        s2 = (if num = 0 then s1 else deliver i True status s1)
                    in s2\<lparr>loading_count := (loading_count s2)(a := num)\<rparr>)"

definition api_success :: "nat \<Rightarrow> 'd answer \<Rightarrow> 'd api \<Rightarrow> 'd api" where
  [js_eval]: "api_success i d s =
     (let r = calls s ! i in if cl_completed r then s else s\<lparr>calls := (calls s)[i := r\<lparr>cl_data := Some d\<rparr>]\<rparr>)"

text \<open>A sign has faded out.\<close>

definition api_faded :: "nat \<Rightarrow> 'd api \<Rightarrow> 'd api" where
  [js_eval]: "api_faded i s =
     (let r = calls s ! i in
      case cl_fade r of
        Some (Suc n, status) \<Rightarrow>
          deliver i False status
            (s\<lparr>calls := (calls s)[i := r\<lparr>cl_fade := Some (n, status)\<rparr>],
               loading_shown := (loading_shown s)(the (cl_area r) := False)\<rparr>)
      | _ \<Rightarrow> s)"

text \<open>
  What happens to the calls: a new call, the answer of the server (the library calls \<open>success\<close> and then
  \<open>complete\<close>), a failure that the library or the timer of twenty seconds reports, and a sign that has faded
  out. An event of a call that does not exist does nothing.
\<close>

datatype 'd api_event = Invoke jstr "nat option" | Answer nat "'d answer" | Failure nat jstr | Faded nat

fun api_run :: "(nat \<Rightarrow> nat) \<Rightarrow> 'd api_event \<Rightarrow> 'd api \<Rightarrow> 'd api" where
  "api_run signs (Invoke u area) s = invokeAPI u area s"
| \<open>api_run signs (Answer i d) s =
     (if i < length (calls s) then api_complete signs i (js ''success'') (api_success i d s) else s)\<close>
| "api_run signs (Failure i status) s = (if i < length (calls s) then api_complete signs i status s else s)"
| "api_run signs (Faded i) s = (if i < length (calls s) then api_faded i s else s)"

text \<open>A failure has a status that is neither empty nor \<open>success\<close>.\<close>

fun event_ok :: "'d api_event \<Rightarrow> bool" where
  \<open>event_ok (Failure i status) \<longleftrightarrow> status \<noteq> [] \<and> status \<noteq> (js ''success'')\<close>
| "event_ok _ \<longleftrightarrow> True"

section \<open>Invariant\<close>

definition call_ok :: "'d call \<Rightarrow> bool" where
  "call_ok r \<longleftrightarrow>
     length (cl_replies r) = (if cl_completed r then 1 else 0) \<and>
     (cl_area r = None \<longrightarrow> cl_fade r = None) \<and>
     (case cl_fade r of
        None \<Rightarrow> cl_loaded r \<longrightarrow> cl_completed r
      | Some (n, status) \<Rightarrow> cl_loaded r \<and> n = (if cl_completed r then 0 else 1) \<and> reply_of r status False \<noteq> None)"

text \<open>The open calls hold their locks, and no two of them the same.\<close>

definition locks_ok :: "'d api \<Rightarrow> bool" where
  "locks_ok s \<longleftrightarrow>
     (\<forall>i < length (calls s). \<not> cl_completed (calls s ! i) \<longrightarrow> cl_lock (calls s ! i) \<noteq> [] \<longrightarrow> locker (cl_lock (calls s ! i)) s) \<and>
     (\<forall>i j. i < j \<longrightarrow> j < length (calls s) \<longrightarrow> \<not> cl_completed (calls s ! i) \<longrightarrow> \<not> cl_completed (calls s ! j) \<longrightarrow>
        cl_lock (calls s ! i) = cl_lock (calls s ! j) \<longrightarrow> cl_lock (calls s ! i) = [])"

definition api_inv :: "'d api \<Rightarrow> bool" where
  "api_inv s \<longleftrightarrow> \<not> threw s \<and> (\<forall>r \<in> set (calls s). call_ok r) \<and> locks_ok s"

lemma api_start_inv: "api_inv api_start"
  by (simp add: api_inv_def api_start_def locks_ok_def)

text \<open>Replacing one call by one with the same lock.\<close>

lemma locks_update:
  assumes "locks_ok s" "i < length (calls s)" "cl_lock r = cl_lock (calls s ! i)"
    "cl_completed (calls s ! i) \<longrightarrow> cl_completed r"
    "calls t = (calls s)[i := r]" "lockers t = lockers s"
  shows "locks_ok t"
  using assms unfolding locks_ok_def locker_def
  by (auto simp: nth_list_update split: if_splits)

lemma locks_release:
  assumes "locks_ok s" "i < length (calls s)" "cl_lock r = cl_lock (calls s ! i)" "\<not> cl_completed (calls s ! i)"
    "cl_completed r" "calls t = (calls s)[i := r]" "lockers t = (lockers s)(cl_lock r := False)"
  shows "locks_ok t"
proof -
  have "cl_lock (calls s ! j) = cl_lock r \<Longrightarrow> j < length (calls s) \<Longrightarrow> j \<noteq> i \<Longrightarrow> \<not> cl_completed (calls s ! j) \<Longrightarrow>
      cl_lock (calls s ! j) = []" for j
    using assms(1-4) unfolding locks_ok_def by (cases "i < j") (metis linorder_neqE_nat)+
  then show ?thesis
    using assms unfolding locks_ok_def locker_def by (auto simp: nth_list_update split: if_splits)
qed

lemma all_calls_update:
  "\<forall>r \<in> set (calls s). call_ok r \<Longrightarrow> call_ok r' \<Longrightarrow> \<forall>r \<in> set ((calls s)[i := r']). call_ok r"
  by (auto dest!: set_update_subset_insert[THEN subsetD])

lemma reply_of_loading: "reply_of r st b \<noteq> None \<longleftrightarrow> reply_of r st c \<noteq> None"
  by (auto simp: reply_of_def split: option.splits)

lemma reply_of_cong:
  "cl_data r = cl_data r' \<Longrightarrow> reply_of r st b = reply_of r' st b"
  by (simp add: reply_of_def)

text \<open>Delivering to an open call: one reply, and the lock is free.\<close>

lemma deliver_open:
  assumes "i < length (calls s)" "\<not> threw s" "\<forall>r \<in> set (calls s0). call_ok r" "locks_ok s0"
    "calls s = (calls s0)[i := r]" "lockers s = lockers s0" "cl_lock r = cl_lock (calls s0 ! i)"
    "\<not> cl_completed (calls s0 ! i)" "\<not> cl_completed r" "cl_replies r = []" "reply_of r status loading = Some p"
    "cl_fade r = None \<or> (\<exists>st. cl_fade r = Some (0, st) \<and> cl_loaded r \<and> cl_area r \<noteq> None \<and> reply_of r st False \<noteq> None)"
  shows "api_inv (deliver i loading status s) \<and> cl_replies (calls (deliver i loading status s) ! i) = [p] \<and>
    cl_completed (calls (deliver i loading status s) ! i) \<and> \<not> locker (cl_lock r) (deliver i loading status s)"
proof -
  let ?r = "r\<lparr>cl_replies := [p], cl_completed := True\<rparr>"
  let ?t = "deliver i loading status s"
  have len: "i < length (calls s0)" and at: "calls s ! i = r" using assms(1,5) by simp_all
  have t: "?t = set_locker (cl_lock r) False (s\<lparr>calls := (calls s0)[i := ?r]\<rparr>)"
  proof -
    have u: "(calls s)[i := ?r] = (calls s0)[i := ?r]" using assms(5) by simp
    show ?thesis using assms(10,11) by (simp add: deliver_def at Let_def u)
  qed
  have ok: "call_ok ?r" using assms(12) by (auto simp: call_ok_def reply_of_def)
  have "locks_ok ?t"
    by (rule locks_release[OF assms(4) len, of ?r]) (use assms(6-8) in \<open>simp_all add: t set_locker_def\<close>)
  moreover have "\<forall>r \<in> set (calls ?t). call_ok r"
    using all_calls_update[OF assms(3) ok] by (simp add: t set_locker_def)
  ultimately show ?thesis using assms(2) len by (simp add: api_inv_def t set_locker_def locker_def)
qed

lemma invoke_inv: "api_inv s \<Longrightarrow> api_inv (invokeAPI u area s)"
proof -
  assume i: "api_inv s"
  show ?thesis
  proof (cases "may_lock u s")
    case True
    let ?r = "\<lparr>cl_lock = u, cl_area = area, cl_loaded = False, cl_fade = None, cl_completed = False, cl_data = None,
      cl_replies = []\<rparr> :: 'a call"
    have c: "calls (invokeAPI u area s) = calls s @ [?r]" "threw (invokeAPI u area s) = threw s"
        "lockers (invokeAPI u area s) = (lockers s)(u := True)"
      using True by (simp_all add: invokeAPI_def start_loading_def set_locker_def split: option.split)
    have "cl_lock (calls s ! j) \<noteq> u \<or> u = []" if "j < length (calls s)" "\<not> cl_completed (calls s ! j)" for j
      using that i True by (auto simp: api_inv_def locks_ok_def may_lock_def)
    then have "locks_ok (invokeAPI u area s)"
      using i unfolding api_inv_def locks_ok_def locker_def c by (auto simp: nth_append less_Suc_eq)
    then show ?thesis using i by (simp add: api_inv_def c call_ok_def)
  next
    case False
    then show ?thesis
      using i unfolding api_inv_def locks_ok_def locker_def
      by (auto simp: invokeAPI_def call_ok_def nth_append less_Suc_eq)
  qed
qed

text \<open>Completing an open call: either it is answered, or its signs fade and it will be.\<close>

lemma complete_inv:
  assumes "api_inv s" "i < length (calls s)" "reply_of (calls s ! i) status False \<noteq> None" "\<forall>a. signs a = 1"
  shows "api_inv (api_complete signs i status s) \<and>
     (cl_completed (calls (api_complete signs i status s) ! i) \<or>
      (\<exists>st. cl_fade (calls (api_complete signs i status s) ! i) = Some (1, st)))"
proof -
  let ?r = "calls s ! i"
  have r: "call_ok ?r" and n: "\<not> threw s" and ok: "\<forall>r \<in> set (calls s). call_ok r" "locks_ok s"
    using assms(1,2) by (auto simp: api_inv_def)
  consider "cl_completed ?r" | "\<not> cl_completed ?r" "cl_area ?r = None" |
    a where "\<not> cl_completed ?r" "cl_area ?r = Some a" "cl_loaded ?r" |
    a where "\<not> cl_completed ?r" "cl_area ?r = Some a" "\<not> cl_loaded ?r" "loading_count s a - 1 = 0" |
    a where "\<not> cl_completed ?r" "cl_area ?r = Some a" "\<not> cl_loaded ?r" "loading_count s a - 1 \<noteq> 0"
    by blast
  then show ?thesis
  proof cases
    case 1
    then show ?thesis using assms(1) by (simp add: api_complete_def)
  next
    case 2
    obtain p where p: "reply_of ?r status False = Some p" using assms(3) by blast
    have "cl_fade ?r = None" "cl_replies ?r = []" using r 2 by (auto simp: call_ok_def)
    then show ?thesis
      using deliver_open[of i s s ?r status False p] assms(2) n ok p 2 by (simp add: api_complete_def)
  next
    case 3
    then show ?thesis using assms(1) r by (auto simp: api_complete_def call_ok_def split: option.splits)
  next
    case 4
    let ?f = "?r\<lparr>cl_loaded := True, cl_fade := Some (1, status)\<rparr>"
    have t: "api_complete signs i status s =
        s\<lparr>calls := (calls s)[i := ?f], loading_count := (loading_count s)(a := 0)\<rparr>"
      using 4 assms(4) by (simp add: api_complete_def Let_def)
    have "reply_of ?f status False = reply_of ?r status False" by (rule reply_of_cong) simp
    then have "call_ok ?f" using r 4 assms(3) by (simp add: call_ok_def)
    moreover have "locks_ok (api_complete signs i status s)"
      by (rule locks_update[OF ok(2) assms(2), of ?f]) (simp_all add: t)
    ultimately show ?thesis using n all_calls_update[OF ok(1)] assms(2) by (simp add: api_inv_def t)
  next
    case 5
    let ?f = "?r\<lparr>cl_loaded := True, cl_fade := None\<rparr>"
    let ?s1 = "s\<lparr>calls := (calls s)[i := ?f]\<rparr>"
    obtain p where p: "reply_of ?f status True = Some p"
      using assms(3) reply_of_loading[of ?r status True False] reply_of_cong[of ?f ?r] by auto
    have d: "api_inv (deliver i True status ?s1) \<and> cl_completed (calls (deliver i True status ?s1) ! i)"
    proof -
      have "cl_replies ?r = []" using r 5 by (simp add: call_ok_def)
      then show ?thesis using deliver_open[of i ?s1 s ?f status True p] assms(2) n ok p 5 by simp
    qed
    have "api_complete signs i status s = (deliver i True status ?s1)
        \<lparr>loading_count := (loading_count (deliver i True status ?s1))(a := loading_count s a - 1)\<rparr>"
      using 5 by (simp add: api_complete_def Let_def)
    then show ?thesis using d by (simp add: api_inv_def locks_ok_def locker_def)
  qed
qed

lemma success_inv:
  assumes "api_inv s" "i < length (calls s)"
  shows "api_inv (api_success i d s)"
proof (cases "cl_completed (calls s ! i)")
  case False
  let ?f = "(calls s ! i)\<lparr>cl_data := Some d\<rparr>"
  have "call_ok (calls s ! i)" and ok: "\<forall>r \<in> set (calls s). call_ok r" "locks_ok s" "\<not> threw s"
    using assms by (auto simp: api_inv_def)
  then have "call_ok ?f" by (auto simp: call_ok_def reply_of_def split: option.splits)
  moreover have "locks_ok (api_success i d s)"
    by (rule locks_update[OF ok(2) assms(2), of ?f]) (use False in \<open>simp_all add: api_success_def\<close>)
  ultimately show ?thesis using False ok(3) all_calls_update[OF ok(1)] by (simp add: api_inv_def api_success_def)
qed (use assms in \<open>simp add: api_success_def\<close>)

lemma faded_inv:
  assumes "api_inv s" "i < length (calls s)"
  shows "api_inv (api_faded i s) \<and> ((\<exists>st. cl_fade (calls s ! i) = Some (1, st)) \<longrightarrow> cl_completed (calls (api_faded i s) ! i))"
proof (cases "\<exists>st. cl_fade (calls s ! i) = Some (1, st)")
  case True
  then obtain st where st: "cl_fade (calls s ! i) = Some (1, st)" by blast
  let ?r = "calls s ! i" and ?f = "(calls s ! i)\<lparr>cl_fade := Some (0, st)\<rparr>"
  let ?s1 = "s\<lparr>calls := (calls s)[i := ?f], loading_shown := (loading_shown s)(the (cl_area ?r) := False)\<rparr>"
  have r: "call_ok ?r" and ok: "\<forall>r \<in> set (calls s). call_ok r" "locks_ok s" "\<not> threw s"
    using assms by (auto simp: api_inv_def)
  have o: "\<not> cl_completed ?r" "cl_replies ?r = []" "cl_loaded ?r" "cl_area ?r \<noteq> None" "reply_of ?r st False \<noteq> None"
    using r st by (cases "cl_completed ?r"; auto simp: call_ok_def)+
  have f: "reply_of ?f st False = reply_of ?r st False" by (rule reply_of_cong) simp
  obtain p where p0: "reply_of ?r st False = Some p" using o(5) by blast
  have p: "reply_of ?f st False = Some p" using f p0 by (rule trans)
  have "\<exists>q. cl_fade ?f = Some (0, q) \<and> cl_loaded ?f \<and> cl_area ?f \<noteq> None \<and> reply_of ?f q False \<noteq> None"
    using o(3,4) p by (intro exI[of _ st]) simp
  then have z: "cl_fade ?f = None \<or> (\<exists>q. cl_fade ?f = Some (0, q) \<and> cl_loaded ?f \<and> cl_area ?f \<noteq> None \<and> reply_of ?f q False \<noteq> None)"
    by (rule disjI2)
  have c: "calls ?s1 = (calls s)[i := ?f]" "lockers ?s1 = lockers s" "\<not> threw ?s1" "i < length (calls ?s1)"
      "cl_lock ?f = cl_lock ?r" "\<not> cl_completed ?f" "cl_replies ?f = []"
    using ok(3) assms(2) o(1,2) by simp_all
  have "api_inv (deliver i False st ?s1) \<and> cl_completed (calls (deliver i False st ?s1) ! i)"
    using deliver_open[OF c(4,3) ok(1,2) c(1,2,5) o(1) c(6,7) p z] by blast
  then show ?thesis using st by (simp add: api_faded_def Let_def)
next
  case False
  have "call_ok (calls s ! i)" using assms by (auto simp: api_inv_def)
  then have "api_faded i s = s"
    using False by (auto simp: api_faded_def call_ok_def Let_def split: option.splits nat.splits if_splits)
  then show ?thesis using False assms(1) by simp
qed

lemma success_reply:
  \<open>cl_completed (calls (api_success i d s) ! i) \<or> i \<ge> length (calls s) \<or>
   reply_of (calls (api_success i d s) ! i) (js ''success'') False \<noteq> None\<close>
  by (cases "i < length (calls s)") (auto simp: api_success_def reply_of_def Let_def)

lemma complete_completed: "cl_completed (calls s ! i) \<Longrightarrow> api_complete signs i st s = s"
  by (simp add: api_complete_def)

lemma api_run_inv:
  assumes "api_inv s" "event_ok e" "\<forall>a. signs a = 1"
  shows "api_inv (api_run signs e s)"
proof (cases e)
  case (Invoke u area)
  then show ?thesis using assms by (simp add: invoke_inv)
next
  case (Answer i d)
  show ?thesis
  proof (cases "i < length (calls s)")
    case True
    have i: "api_inv (api_success i d s)" by (rule success_inv[OF assms(1) True])
    have l: "i < length (calls (api_success i d s))" using True by (simp add: api_success_def Let_def)
    show ?thesis
    proof (cases "cl_completed (calls (api_success i d s) ! i)")
      case True
      then show ?thesis using Answer assms(1) i by (simp add: complete_completed)
    next
      case False
      then have \<open>reply_of (calls (api_success i d s) ! i) (js ''success'') False \<noteq> None\<close> using success_reply[of i d s] True by auto
      from complete_inv[OF i l this assms(3)] show ?thesis using Answer True by simp
    qed
  qed (use Answer assms in simp)
next
  case (Failure i st)
  show ?thesis
  proof (cases "i < length (calls s)")
    case True
    have "reply_of (calls s ! i) st False \<noteq> None" using Failure assms(2) by (simp add: reply_of_def)
    from complete_inv[OF assms(1) True this assms(3)] show ?thesis using Failure True by simp
  qed (use Failure assms in simp)
next
  case (Faded i)
  then show ?thesis using faded_inv[OF assms(1)] assms(1) by simp
qed

interpretation apis: event_machine "api_run (\<lambda>_. 1)" event_ok api_inv
  by unfold_locales (simp add: api_run_inv)

lemma api_runs_inv:
  assumes "api_inv s" "\<forall>e \<in> set es. event_ok e" "\<forall>a. signs a = 1"
  shows "api_inv (fold (api_run signs) es s)"
proof -
  have "signs = (\<lambda>_. 1)" using assms(3) by blast
  then show ?thesis using apis.run_inv[OF assms(1), of es] assms(2) by (simp add: list_all_iff)
qed





text \<open>
  A call without a container shows every sign of the panel: with two of them the callback runs twice, and the
  second run frees the lock a new call holds. Without any sign it never runs.
\<close>

lemma two_signs_two_answers:
  \<open>length (cl_replies (calls (fold (api_run (\<lambda>_. 2))
     [Invoke (js ''/do_action'') (Some 0), Answer 0 \<lparr>an_status = 200, an_error = None, an_data = Some [1::nat]\<rparr>, Faded 0, Faded 0]
     api_start) ! 0)) = 2\<close>
  by code_simp

lemma two_signs_two_open:
  \<open>(let s = fold (api_run (\<lambda>_. 2))
     [Invoke (js ''/do_action'') (Some 0), Answer 0 \<lparr>an_status = 200, an_error = None, an_data = Some [1::nat]\<rparr>, Faded 0,
      Invoke (js ''/do_action'') (Some 0), Faded 0, Invoke (js ''/do_action'') (Some 0)] api_start
    in map (\<lambda>r. (cl_lock r, cl_completed r)) (calls s)) =
   [((js ''/do_action''), True), ((js ''/do_action''), False), ((js ''/do_action''), False)]\<close>
  by code_simp

lemma no_sign_no_answer:
  \<open>cl_replies (calls (fold (api_run (\<lambda>_. 0))
     [Invoke (js ''/x'') (Some 0), Failure 0 (js ''timeout''), Faded 0] (api_start :: nat api)) ! 0) = []\<close>
  by code_simp

end
