(* ===== verification/NotifyPanel.thy ===== *)
theory NotifyPanel
  imports NotifyText NotifyApi
begin

text \<open>
  The notification panel (\<open>notify.js\<close>: \<open>csdn.note\<close>): the list of notifications and their details, the hint
  with the number of unread ones, the events of the panel and the messages of the server.

  A handler calls the handlers of the events it emits, as \<open>triggerHandler\<close> does. A request is the effect
  that sends it, its callback a definition of its own with the answer as arguments (theory \<open>NotifyApi\<close> has the
  way between the two). The entries of the list and their details, which the code inserts side by side, are
  one list of items.
\<close>

section \<open>State\<close>

text \<open>A notification as the server sends it.\<close>

record notice =
  n_type :: jstr
  n_title :: jstr
  n_time :: jstr
  n_longTitle :: jstr
  n_containIds :: "int list"
  n_isaction :: bool
  n_isslide :: bool

record item =
  it_ids :: jstr
  it_unread :: bool
  it_noslide :: bool
  it_action :: bool
  it_html :: jstr
  it_detail :: jstr
  it_loaded :: bool

record npage = page +
  localUreadData :: "notice list"
  hasNewMsg :: bool
  hasGetData :: bool
  hasReadedItems :: bool
  keepUnread :: bool
  unread_count :: int
  seen_ids :: "jstr option"       \<comment> \<open>the value of \<open>aa_g_data_ids\<close>, if the script could create it\<close>
  items :: "item list"
  curr :: nat                      \<comment> \<open>the item whose detail is shown\<close>
  waiters :: "bool list"           \<comment> \<open>handlers waiting for the list, and whether they came with a message\<close>
  error_bound :: bool
  btn_left :: int
  btn_top :: int

record note_conf =
  c_api :: jstr
  c_app :: jstr
  c_space :: jstr
  c_staticUrl :: jstr
  c_count :: int
  c_subCount :: int
  c_user :: jstr

abbreviation wrap :: selector where "wrap \<equiv> ''#note1''"
abbreviation tip :: selector where "tip \<equiv> ''.csdn_notice_tip''"
abbreviation tip_num :: selector where "tip_num \<equiv> ''.csdn_notice_tip strong''"
abbreviation btn_icon :: selector where "btn_icon \<equiv> ''#btn .icon-hasnotes''"
abbreviation list_con :: selector where "list_con \<equiv> ''.notice_list_con''"
abbreviation detail_con :: selector where "detail_con \<equiv> ''.detail_con''"
abbreviation error_sel :: selector where "error_sel \<equiv> ''#note1 .error''"

definition px_of :: "int \<Rightarrow> jstr" where
  [js_eval]: \<open>px_of n = int_str n @ (js ''px'')\<close>

definition put_css :: "selector \<Rightarrow> string \<Rightarrow> jstr \<Rightarrow> 'a page_scheme \<Rightarrow> 'a page_scheme" where
  [js_eval]: "put_css sel prop v p = set_attr (sel, ''css:'' @ prop) (Some v) p"

section \<open>Small parts\<close>

definition resetPosition :: "npage \<Rightarrow> npage" where
  [js_eval]: "resetPosition p =
     (let p1 = put_css wrap ''left'' (px_of (btn_left p - 212)) p;
          p2 = put_css wrap ''top'' (px_of (btn_top p + 25)) p1;
          p3 = put_css tip ''left'' (px_of (btn_left p - 72)) p2
      in put_css tip ''top'' (px_of (btn_top p + 18)) p3)"

definition staticUrl :: "note_conf \<Rightarrow> jstr \<Rightarrow> jstr" where
  [js_eval]: \<open>staticUrl conf url = c_staticUrl conf @ url @ (js ''?4d63d1f'')\<close>

definition loadCss :: "jstr \<Rightarrow> 'a page_scheme \<Rightarrow> 'a page_scheme" where
  [js_eval]: \<open>loadCss src p = append_html ''head'' ((js ''<link rel="stylesheet" type="text/css" href="'') @ src @ (js ''">'')) p\<close>

text \<open>The sign of an empty list is shown when it is to be shown and the list is empty.\<close>

definition toggleEmpty :: "bool \<Rightarrow> bool \<Rightarrow> selector \<Rightarrow> 'a page_scheme \<Rightarrow> 'a page_scheme" where
  [js_eval]: "toggleEmpty b has_entries ctx p = set_shown (ctx @ '' .empty'') (b \<and> \<not> has_entries) p"

definition initBtn :: "bool \<Rightarrow> npage \<Rightarrow> npage" where
  [js_eval]: \<open>initBtn has_icon p =
     (if has_icon then p
      else set_shown btn_icon False (set_html ''#btn'' (js ''<div class="icon-hasnotes" style="display:none"></div>'') p))\<close>

definition friendlyErrors :: "jstr \<Rightarrow> jstr option" where
  [js_eval]: \<open>friendlyErrors = map_of
     [((js ''timeout''), ([35831, 27714, 36229, 26102, 65292, 35831, 26816, 26597, 32593, 32476, 21518, 37325, 35797, 65281])), ((js ''abort''), ([35831, 27714, 34987, 20013, 27490, 65281])), ((js ''parsererror''), ([35299, 26512, 38169, 35823, 65292, 35831, 26816, 26597, 32593, 32476, 21518, 37325, 35797, 65281])),
      ((js ''No id supplied''), ([26410, 30331, 24405, 25110, 30331, 24405, 36229, 26102, 65292, 35831, 37325, 26032, 30331, 24405, 65281])), ((js ''locked''), [])]\<close>

text \<open>The first error also makes the panel hide the error when it or a detail is shown.\<close>

definition show_error :: "jstr \<Rightarrow> npage \<Rightarrow> npage" where
  [js_eval]: "show_error msg p =
     (let m = (case friendlyErrors msg of None \<Rightarrow> msg | Some f \<Rightarrow> f)
      in set_html error_sel m (set_shown error_sel (m \<noteq> []) (p\<lparr>error_bound := True\<rparr>)))"

definition hide_error :: "npage \<Rightarrow> npage" where
  [js_eval]: "hide_error p = (if error_bound p then set_shown error_sel False p else p)"

definition slideReset :: "note_conf \<Rightarrow> npage \<Rightarrow> npage" where
  [js_eval]: "slideReset conf p =
     (let p1 = set_shown detail_con False (set_shown list_con True (add_class list_con ''curr'' p))
      in if int (length (items p1)) > c_count conf then add_class ''.notice_list_con .notice_content'' ''hover-overflow'' p1
         else p1)"

section \<open>The entries\<close>

definition data_ids :: "notice \<Rightarrow> jstr" where
  [js_eval]: \<open>data_ids v = join (js '','') (map int_str (n_containIds v))\<close>

definition item_of :: "bool \<Rightarrow> notice \<Rightarrow> item" where
  [js_eval]: \<open>item_of at_end v =
     (let action = (if n_isaction v then (js '' action '') else []);
          isslide = (if \<not> n_isslide v then (js '' noslide '') else []);
          ids = data_ids v
      in \<lparr>it_ids = ids, it_unread = \<not> at_end, it_noslide = \<not> n_isslide v, it_action = n_isaction v,
          it_html = (js ''<dl data-ids="'') @ ids @ (js ''" class="list rev_type'') @ n_type v
            @ (if at_end then [] else (js '' unread'')) @ isslide @ action @ (js ''" style="/*display: none*/">  <dt>    <i></i>    <span class="item_title">'')
            @ n_title v @ (js ''</span>    <span class="count_down">'') @ n_time v @ (js ''</span>  </dt></dl>''),
          it_detail = (js ''<div style="/*display: none*/">  <dl class="detail_list rev_type'') @ n_type v @ isslide @ action
            @ (js ''" data-ids="'') @ join (js '','') (map int_str (n_containIds v))
            @ (js ''">    <dt>      <i></i>      <span class="item_title">'') @ ubbDecode (n_longTitle v)
            @ (js ''</span>      <span class="count_down"></span>    </dt>  </dl>  <div class="loading"></div>  <div'' @
    js '' class="empty">'' @ [26242, 27809, 26377, 26032, 36890, 30693] @
    js ''</div>  <a class="notifications_more" target="_blank">'' @ [26597, 30475, 20854, 23427] @
    js '' 0 '' @ [26465] @ js ''</a></div>''),
          it_loaded = False\<rparr>)\<close>

text \<open>The loop over the notifications: one whose identifiers are found in the string of those already listed
  is left out.\<close>

fun fill_items :: "bool \<Rightarrow> notice list \<Rightarrow> jstr option \<Rightarrow> item list \<times> jstr option" where
  "fill_items at_end [] seen = ([], seen)"
| \<open>fill_items at_end (v # vs) seen =
     (case seen of
        None \<Rightarrow> (let (its, seen') = fill_items at_end vs seen in (item_of at_end v # its, seen'))
      | Some cv \<Rightarrow>
          if contains (data_ids v @ (js ''|'')) cv then fill_items at_end vs seen
          else let (its, seen') = fill_items at_end vs (Some (cv @ data_ids v @ (js ''|'')))
               in (item_of at_end v # its, seen'))\<close>

definition fillList :: "bool \<Rightarrow> notice list option \<Rightarrow> npage \<Rightarrow> npage" where
  [js_eval]: "fillList at_end data p =
     (case data of
        None \<Rightarrow> p
      | Some vs \<Rightarrow>
          if vs = [] then p
          else let (its, seen') = fill_items at_end vs (seen_ids p)
               in emit (Call ''changeToNickname'' [])
                    (p\<lparr>seen_ids := seen', items := (if at_end then items p @ its else its @ items p)\<rparr>))"

text \<open>No notification is listed twice: the identifiers of every entry are in the string.\<close>

definition listed_ok :: "npage \<Rightarrow> bool" where
  \<open>listed_ok p \<longleftrightarrow> distinct (map it_ids (items p)) \<and>
     (case seen_ids p of None \<Rightarrow> False | Some cv \<Rightarrow> \<forall>i \<in> set (items p). contains (it_ids i @ (js ''|'')) cv)\<close>

lemma contains_append: "contains a cv \<Longrightarrow> contains a (cv @ t)"
  unfolding contains_iff by (metis append.assoc)

lemma contains_end: "contains (a @ b) (cv @ a @ b)"
  unfolding contains_iff by (metis append_Nil2)

lemma item_of_ids [simp]: "it_ids (item_of b v) = data_ids v"
  by (simp add: item_of_def Let_def)

lemma fill_items_spec:
  \<open>fill_items at_end vs (Some cv) = (its, seen) \<Longrightarrow>
   (\<exists>t. seen = Some (cv @ t)) \<and> distinct (map it_ids its) \<and>
   (\<forall>i \<in> set its. \<not> contains (it_ids i @ (js ''|'')) cv \<and> contains (it_ids i @ (js ''|'')) (the seen))\<close>
proof (induction vs arbitrary: cv its seen)
  case (Cons v vs)
  show ?case
  proof (cases \<open>contains (data_ids v @ (js ''|'')) cv\<close>)
    case True
    then show ?thesis using Cons by simp
  next
    case False
    let ?cv = \<open>cv @ data_ids v @ (js ''|'')\<close>
    obtain its' where f: "fill_items at_end vs (Some ?cv) = (its', seen)" "its = item_of at_end v # its'"
      using Cons.prems False by (auto split: prod.splits)
    have IH: "\<exists>t. seen = Some (?cv @ t)" "distinct (map it_ids its')"
      \<open>\<forall>i \<in> set its'. \<not> contains (it_ids i @ (js ''|'')) ?cv \<and> contains (it_ids i @ (js ''|'')) (the seen)\<close>
      using Cons.IH[OF f(1)] by blast+
    obtain t where t: "seen = Some (?cv @ t)" using IH(1) by blast
    have own: \<open>contains (data_ids v @ (js ''|'')) ?cv\<close> by (rule contains_end)
    have \<open>contains (data_ids v @ (js ''|'')) (the seen)\<close> using contains_append[OF own, of t] t by simp
    moreover have "data_ids v \<notin> it_ids ` set its'" using IH(3) own by fastforce
    moreover have \<open>\<forall>i \<in> set its'. \<not> contains (it_ids i @ (js ''|'')) cv\<close> using IH(3) contains_append by blast
    ultimately show ?thesis using IH t False f(2) by auto
  qed
qed simp

lemma fillList_listed: "listed_ok p \<Longrightarrow> listed_ok (fillList at_end data p)"
proof -
  assume ok: "listed_ok p"
  then obtain cv where cv: "seen_ids p = Some cv" by (auto simp: listed_ok_def split: option.splits)
  show ?thesis
  proof (cases "data = None \<or> data = Some []")
    case True
    then show ?thesis using ok by (auto simp: fillList_def)
  next
    case False
    then obtain vs where vs: "data = Some vs" "vs \<noteq> []" by auto
    obtain its seen where f: "fill_items at_end vs (Some cv) = (its, seen)" by fastforce
    from fill_items_spec[OF f] obtain t where t: "seen = Some (cv @ t)" and its: "distinct (map it_ids its)"
      \<open>\<forall>i \<in> set its. \<not> contains (it_ids i @ (js ''|'')) cv \<and> contains (it_ids i @ (js ''|'')) (cv @ t)\<close>
      by auto
    have "it_ids ` set its \<inter> it_ids ` set (items p) = {}"
      using its(2) ok cv by (auto simp: listed_ok_def)
    moreover have \<open>\<forall>i \<in> set (items p). contains (it_ids i @ (js ''|'')) (cv @ t)\<close>
      using ok cv contains_append by (auto simp: listed_ok_def)
    ultimately show ?thesis
      using vs f t its ok cv by (auto simp: listed_ok_def fillList_def emit_def Let_def)
  qed
qed

text \<open>The test is for a piece of the string: a notification is left out when the identifiers of another end
  with its own.\<close>

lemma fill_skips_suffix:
  \<open>map it_ids (fst (fill_items True [v\<lparr>n_containIds := [12]\<rparr>, v\<lparr>n_containIds := [2]\<rparr>] (Some []))) = [(js ''12'')]\<close>
proof -
  have "num_str 12 = [49, 50]" "num_str 2 = [50]" by code_simp+
  then have a: \<open>data_ids (v\<lparr>n_containIds := [12]\<rparr>) = (js ''12'')\<close> \<open>data_ids (v\<lparr>n_containIds := [2]\<rparr>) = (js ''2'')\<close>
    by (simp_all add: data_ids_def int_str_def js_def)
  have \<open>\<not> contains ((js ''12'') @ (js ''|'')) []\<close> \<open>contains ((js ''2'') @ (js ''|'')) ((js ''12'') @ (js ''|''))\<close> by code_simp+
  then show ?thesis by (simp add: a Let_def split: prod.split)
qed

section \<open>Requests\<close>

definition api_url :: "note_conf \<Rightarrow> jstr \<Rightarrow> jstr" where
  [js_eval]: \<open>api_url conf url = c_api conf @ url @ (js ''&x-acl-token=5Vu6fEzxC8N9axs3eaFgJktN-KcK'')\<close>

definition getUnreads :: "note_conf \<Rightarrow> 'a page_scheme \<Rightarrow> 'a page_scheme" where
  [js_eval]: \<open>getUnreads conf p = emit (Jsonp (api_url conf (js ''/get_unread?jsonpcallback=?'')) []) p\<close>

text \<open>\<open>conf.subcount\<close> is not \<open>conf.subCount\<close>: it is never set, and the number of entries is always five.\<close>

definition getAllReaded :: "note_conf \<Rightarrow> 'a page_scheme \<Rightarrow> 'a page_scheme" where
  [js_eval]: \<open>getAllReaded conf p =
     emit (Jsonp (api_url conf (js ''/get_all?jsonpcallback=?''))
       [(''username'', c_user conf), (''status'', (js ''1'')),
        (''count'', int_str (if c_count conf = 0 then 5 else c_count conf)), (''subcount'', (js ''5''))]) p\<close>

definition doaction :: "note_conf \<Rightarrow> jstr \<Rightarrow> jstr \<Rightarrow> jstr \<Rightarrow> 'a page_scheme \<Rightarrow> 'a page_scheme" where
  [js_eval]: \<open>doaction conf ident dataApi args p =
     emit (Jsonp (api_url conf (js ''/do_action?jsonpcallback=?''))
       [(''id'', ident), (''dataApi'', dataApi @ (js ''?me='') @ c_user conf @ (js ''&'') @ args)]) p\<close>

definition setReaded :: "note_conf \<Rightarrow> jstr list \<Rightarrow> 'a page_scheme \<Rightarrow> 'a page_scheme" where
  [js_eval]: \<open>setReaded conf ids p =
     emit (Jsonp (api_url conf (js ''/set_readed?jsonpcallback=?'')) [(''ids'', join (js '','') ids)]) p\<close>

text \<open>\<open>start || 0\<close>, \<open>limit || subCount\<close>, and the slice of the identifiers.\<close>

definition getDetail :: "note_conf \<Rightarrow> jstr \<Rightarrow> nat \<Rightarrow> nat \<Rightarrow> 'a page_scheme \<Rightarrow> 'a page_scheme" where
  [js_eval]: \<open>getDetail conf ids start limit p =
     (let l = (if limit = 0 then nat (c_subCount conf) else limit)
      in emit (Jsonp (api_url conf (js ''/get_details?jsonpcallback=?''))
           [(''ids'', join (js '','') (take l (drop start (split_cu 44 ids))))]) p)\<close>

section \<open>Events of the panel\<close>

fun list_showed :: "jstr option \<Rightarrow> bool list \<Rightarrow> npage \<Rightarrow> npage" where
  "list_showed err [] p = p"
| "list_showed err (w # ws) p =
     list_showed err ws
       (case err of
          Some e \<Rightarrow> show_error e p
        | None \<Rightarrow> if w \<and> length (filter it_unread (items p)) = 1 then emit (Trigger ''click .unread'' []) p else p)"

definition emit_list_showed :: "jstr option \<Rightarrow> npage \<Rightarrow> npage" where
  [js_eval]: "emit_list_showed err p = list_showed err (waiters p) (p\<lparr>waiters := []\<rparr>)"

text \<open>The number of entries kept when none is visible: the unread ones, or the number of the settings.\<close>

definition kept_count :: "note_conf \<Rightarrow> item list \<Rightarrow> int" where
  [js_eval]: "kept_count conf its =
     (let n = int (length (filter it_unread its)) in if n < c_count conf then c_count conf else n)"

definition showListCbWrap :: "note_conf \<Rightarrow> (npage \<Rightarrow> npage) \<Rightarrow> jstr option \<Rightarrow> bool \<Rightarrow> bool \<Rightarrow> npage \<Rightarrow> npage" where
  [js_eval]: "showListCbWrap conf callback err loading any_visible p =
     (case err of
        Some e \<Rightarrow> emit_list_showed (Some e) p
      | None \<Rightarrow>
          let p1 = callback p
          in if loading then p1
             else let p2 = (if any_visible then p1
                            else p1\<lparr>items := take (nat (kept_count conf (items p1))) (items p1)\<rparr>)
                  in emit_list_showed None (slideReset conf p2))"

definition tip_showing :: "npage \<Rightarrow> npage" where
  [js_eval]: \<open>tip_showing p =
     (let p1 = initBtn (contains (js ''icon-hasnotes'') (html_of ''#btn'' p)) (p\<lparr>keepUnread := True\<rparr>);
          n = length (localUreadData p1);
          p2 = (if n > 0
                then set_shown btn_icon True (set_html tip_num (num_str n) (set_shown tip True (resetPosition p1)))
                else set_shown btn_icon False p1)
      in emit (Trigger ''toolbar-setNotesNum'' (num_str n)) p2)\<close>

text \<open>\<open>showDetail\<close>: the parameter of the event, and the notifications it carries.\<close>

definition panel_showed :: "note_conf \<Rightarrow> notice list option option \<Rightarrow> npage \<Rightarrow> npage" where
  [js_eval]: "panel_showed conf showDetail p =
     (let p1 = resetPosition p;
          p2 = (if \<not> hasReadedItems p1 then getAllReaded conf (p1\<lparr>items := []\<rparr>) else p1);
          p3 = (case showDetail of
                  Some (Some vs) \<Rightarrow>
                    (slideReset conf (fillList False (Some vs) p2))\<lparr>hasGetData := True, hasNewMsg := False\<rparr>
                | _ \<Rightarrow> if localUreadData p2 \<noteq> [] \<and> hasNewMsg p2 then getUnreads conf (p2\<lparr>hasNewMsg := False\<rparr>) else p2);
          p4 = (if hasGetData p3 then p3\<lparr>waiters := waiters p3 @ [showDetail \<noteq> None]\<rparr> else p3)
      in hide_error p4)"

text \<open>The answers to the two requests for the list.\<close>

definition all_readed_answer ::
  "note_conf \<Rightarrow> jstr option \<Rightarrow> notice list option \<Rightarrow> bool \<Rightarrow> bool \<Rightarrow> npage \<Rightarrow> npage" where
  [js_eval]: "all_readed_answer conf err data loading any_visible p =
     showListCbWrap conf (\<lambda>q. q\<lparr>hasReadedItems := True\<rparr>) err loading any_visible (fillList True data p)"

definition unreads_answer ::
  "note_conf \<Rightarrow> jstr option \<Rightarrow> notice list option \<Rightarrow> bool \<Rightarrow> bool \<Rightarrow> npage \<Rightarrow> npage" where
  [js_eval]: "unreads_answer conf err data loading any_visible p =
     showListCbWrap conf
       (\<lambda>q. tip_showing (q\<lparr>localUreadData := (case data of None \<Rightarrow> [] | Some vs \<Rightarrow> vs), hasNewMsg := False\<rparr>))
       err loading any_visible (fillList False data p)"

definition panel_button :: "note_conf \<Rightarrow> notice list option option \<Rightarrow> npage \<Rightarrow> npage" where
  [js_eval]: "panel_button conf params p =
     (let p1 = panel_showed conf params p;
          p2 = set_shown wrap (\<not> shown wrap p1) p1
      in if shown wrap p2 then set_shown tip False p2 else tip_showing p2)"

definition hidecb :: "npage \<Rightarrow> npage" where
  [js_eval]: "hidecb p = tip_showing (set_shown wrap False p)"

definition document_click :: "bool \<Rightarrow> npage \<Rightarrow> npage" where
  [js_eval]: "document_click inner p = (if inner then p else hidecb p)"

definition go_slide :: "selector \<Rightarrow> selector \<Rightarrow> bool \<Rightarrow> int \<Rightarrow> npage \<Rightarrow> npage" where
  [js_eval]: \<open>go_slide from to to_left offsetW p =
     (let p1 = (if has_class to ''curr'' p then p else add_class to ''curr'' (remove_class from ''curr'' p));
          p2 = put_css from ''position'' (js ''relative'') p1;
          p3 = put_css to ''left'' (px_of (if to_left then - offsetW else offsetW))
                 (put_css to ''top'' (js ''0'') (put_css to ''position'' (js ''absolute'') p2));
          p4 = set_shown to True (put_css to ''width'' (px_of offsetW) p3);
          p5 = set_shown from False (put_css from ''position'' [] (put_css from ''left''
                 (px_of (if to_left then offsetW else - offsetW)) p4))
      in put_css to ''left'' [] (put_css to ''top'' [] (put_css to ''position'' [] p5)))\<close>

text \<open>\<open>needs_detail\<close>: the detail has neither entries nor a sign.\<close>

definition detail_showed :: "note_conf \<Rightarrow> bool \<Rightarrow> nat \<Rightarrow> npage \<Rightarrow> npage" where
  [js_eval]: "detail_showed conf needs_detail i p =
     (let off = (\<lambda>sel b q. if b then add_class sel ''disabled'' q else remove_class sel ''disabled'' q);
          p1 = off ''.detail_con .nextnote'' (i + 1 \<ge> length (items p)) (off ''.detail_con .prvnote'' (i = 0) p);
          p2 = (if i < length (items p1) \<and> \<not> it_loaded (items p1 ! i) \<and> needs_detail
                then getDetail conf (it_ids (items p1 ! i)) 0 0 p1 else p1)
      in hide_error p2)"

text \<open>A click on an entry: the request that marks it read, its detail, and the action of a link in it.\<close>

definition list_click :: "note_conf \<Rightarrow> bool \<Rightarrow> int \<Rightarrow> (jstr \<times> jstr) option \<Rightarrow> nat \<Rightarrow> npage \<Rightarrow> npage" where
  [js_eval]: "list_click conf needs_detail offsetW link i p =
     (if i \<ge> length (items p) then p
      else let it = items p ! i;
               p1 = (if it_unread it then setReaded conf (split_cu 44 (it_ids it)) p else p);
               p2 = p1\<lparr>curr := i\<rparr>;
               p3 = (if it_noslide it then p2
                     else detail_showed conf needs_detail i (go_slide list_con detail_con False offsetW p2))
           in case link of
                Some (dataApi, args) \<Rightarrow>
                  if it_action it then doaction conf (hd (split_cu 44 (it_ids it))) dataApi args p3 else p3
              | None \<Rightarrow> p3)"

text \<open>The loop that takes the read notification out of the unread ones: after a removal the next one moves to
  the position that the loop leaves.\<close>

function remove_loop :: "jstr \<Rightarrow> nat \<Rightarrow> notice list \<Rightarrow> notice list" where
  "remove_loop ids i data =
     (if i < length data
      then remove_loop ids (i + 1) (if data_ids (data ! i) = ids then take i data @ drop (i + 1) data else data)
      else data)"
  by auto
termination
  by (relation "measure (\<lambda>(ids, i, data). length data - i)") (auto split: if_splits)

declare remove_loop.simps [simp del]

text \<open>The callback of the request has the error as its argument and does not look at it.\<close>

definition entry_read :: "nat \<Rightarrow> npage \<Rightarrow> npage" where
  [js_eval]: "entry_read i p =
     (if i < length (items p)
      then tip_showing (p\<lparr>keepUnread := True, items := (items p)[i := (items p ! i)\<lparr>it_unread := False\<rparr>],
             localUreadData := remove_loop (it_ids (items p ! i)) 0 (localUreadData p)\<rparr>)
      else p)"

definition detail_link :: "note_conf \<Rightarrow> jstr \<Rightarrow> jstr \<Rightarrow> nat \<Rightarrow> npage \<Rightarrow> npage" where
  [js_eval]: "detail_link conf dataApi args i p =
     (if i < length (items p) \<and> it_action (items p ! i)
      then doaction conf (hd (split_cu 44 (it_ids (items p ! i)))) dataApi args p else p)"

definition go_back :: "note_conf \<Rightarrow> int \<Rightarrow> npage \<Rightarrow> npage" where
  [js_eval]: "go_back conf offsetW p = panel_showed conf None (go_slide detail_con list_con True offsetW p)"

definition detail_sel :: "nat \<Rightarrow> selector" where
  [js_eval]: "detail_sel i = ''detail_'' @ map char_of (num_str i)"

definition prev_next :: "note_conf \<Rightarrow> bool \<Rightarrow> bool \<Rightarrow> int \<Rightarrow> npage \<Rightarrow> npage" where
  [js_eval]: "prev_next conf needs_detail prev offsetW p =
     (if has_class (if prev then ''.detail_con .prvnote'' else ''.detail_con .nextnote'') ''disabled'' p then p
      else if (if prev then curr p = 0 else curr p + 1 \<ge> length (items p)) then p
      else let i = (if prev then curr p - 1 else curr p + 1);
               p1 = p\<lparr>items := (items p)[i := (items p ! i)\<lparr>it_unread := False\<rparr>], curr := i\<rparr>
           in detail_showed conf needs_detail i (go_slide (detail_sel (curr p)) (detail_sel i) prev offsetW p1))"

text \<open>A message with unread notifications: \<open>ids\<close> replaces them when the message has them.\<close>

definition receive_unreads :: "note_conf \<Rightarrow> notice list option \<Rightarrow> bool \<Rightarrow> notice list \<Rightarrow> npage \<Rightarrow> npage" where
  [js_eval]: "receive_unreads conf ids realtime data p =
     (let p1 = (case ids of None \<Rightarrow> p | Some l \<Rightarrow> p\<lparr>localUreadData := l\<rparr>)
      in if shown wrap p1
         then (if shown list_con p1 then panel_showed conf (if realtime then Some (Some data) else None) p1 else p1)
         else tip_showing p1)"

definition receive_setreaded :: "npage \<Rightarrow> npage" where
  [js_eval]: "receive_setreaded p =
     (let n = length (localUreadData p);
          p1 = (if keepUnread p then p else p\<lparr>unread_count := int n, hasReadedItems := False\<rparr>);
          p2 = (if n = 0 then set_shown btn_icon False (set_shown tip False p1) else p1)
      in set_html tip_num (num_str n) p2)"

definition tip_close :: "note_conf \<Rightarrow> npage \<Rightarrow> npage" where
  [js_eval]: "tip_close conf p = setReaded conf [] (set_shown tip False p)"

text \<open>The unread data are dropped inside the loop over the unread entries, so only when there is one.\<close>

definition setAllReaded :: "note_conf \<Rightarrow> npage \<Rightarrow> npage" where
  [js_eval]: "setAllReaded conf p = (if localUreadData p = [] then p else setReaded conf [] p)"

definition all_read_done :: "npage \<Rightarrow> npage" where
  [js_eval]: "all_read_done p =
     (if \<exists>i \<in> set (items p). it_unread i
      then p\<lparr>items := map (\<lambda>i. i\<lparr>it_unread := False\<rparr>) (items p), localUreadData := []\<rparr> else p)"

section \<open>Messages of the server\<close>

record message =
  m_setReaded :: bool
  m_initUnreadIds :: "notice list option"
  m_realtime :: bool
  m_data :: "notice list"

definition on_message :: "note_conf \<Rightarrow> message \<Rightarrow> npage \<Rightarrow> npage" where
  [js_eval]: "on_message conf msg p =
     (let p1 = (if m_setReaded msg then receive_setreaded p else p);
          p2 = (case m_initUnreadIds msg of
                  Some (v # vs) \<Rightarrow>
                    receive_unreads conf (Some (v # vs)) (m_realtime msg) (m_data msg) (p1\<lparr>hasNewMsg := True\<rparr>)
                | _ \<Rightarrow> p1)
      in if m_realtime msg
         then receive_unreads conf (m_initUnreadIds msg) True (m_data msg)
                (p2\<lparr>hasNewMsg := True, localUreadData := localUreadData p2 @ m_data msg\<rparr>)
         else p2)"

text \<open>The client of the server is loaded when the page does not have it.\<close>

definition initRealtime :: "note_conf \<Rightarrow> bool \<Rightarrow> 'a page_scheme \<Rightarrow> 'a page_scheme" where
  [js_eval]: \<open>initRealtime conf has_client p =
     (if \<not> has_client then emit (AjaxGet (staticUrl conf (js ''js/realtime.js''))) p
      else emit (Call ''csdn.RealtimeClient'' [c_user conf, staticUrl conf (js ''js/socket.io.js'')]) p)\<close>

section \<open>Details\<close>

record detail_row =
  d_from_user :: jstr
  d_body :: jstr
  d_time :: jstr
  d_url :: jstr

text \<open>The decoded text with every \<^verbatim>\<open><\<close> encoded, and those of links and end tags decoded again.\<close>

definition detail_body :: "jstr \<Rightarrow> jstr" where
  [js_eval]: \<open>detail_body b =
     rx_replace_all no_flags (rlit (js ''&lt;/''))
       (rx_replace_all no_flags (rlit (js ''&lt;a''))
         (rx_replace_all no_flags (RChr 60) (ubbDecode b) (js ''&lt;'')) (js ''<a'')) (js ''</'')\<close>

definition detail_entry :: "note_conf \<Rightarrow> jstr \<Rightarrow> detail_row \<Rightarrow> jstr" where
  [js_eval]: \<open>detail_entry conf bodyTpl v =
     feTemplate_render
       [((js ''userlink''), c_space conf @ d_from_user v), ((js ''from_user''), d_from_user v), ((js ''body''), detail_body (d_body v)),
        ((js ''time''), d_time v)] bodyTpl\<close>

text \<open>The markup that is added, the number and the link of the others if there are any, and the item.\<close>

definition fillDetail :: "note_conf \<Rightarrow> jstr \<Rightarrow> detail_row list \<Rightarrow> item \<Rightarrow> jstr \<times> (int \<times> jstr) option \<times> item" where
  [js_eval]: "fillDetail conf bodyTpl data it =
     (case data of
        [] \<Rightarrow> ([], None, it)
      | d # _ \<Rightarrow>
          let html = (if d_body d \<noteq> [] then concat (map (detail_entry conf bodyTpl) data) else []);
              remain = int (length (split_cu 44 (it_ids it))) - int (length data)
          in (html,
              if html \<noteq> [] \<and> remain > 0 \<and> d_url d \<noteq> [] then Some (remain, d_url d) else None,
              if html = [] then it\<lparr>it_loaded := True\<rparr> else it))"

text \<open>The answer to the request for the details: the error, or the entries.\<close>

definition detail_answer ::
  "note_conf \<Rightarrow> nat \<Rightarrow> jstr option \<Rightarrow> jstr \<Rightarrow> detail_row list \<Rightarrow> npage \<Rightarrow> npage" where
  [js_eval]: "detail_answer conf i err bodyTpl data p =
     (case err of
        Some e \<Rightarrow> show_error e p
      | None \<Rightarrow>
          if i < length (items p)
          then (let (html, more, it) = fillDetail conf bodyTpl data (items p ! i);
                    p1 = append_html (detail_sel i @ '' dl'') html (p\<lparr>items := (items p)[i := it]\<rparr>);
                    p2 = (case more of
                            None \<Rightarrow> p1
                          | Some (n, url) \<Rightarrow> add_class (detail_sel i @ '' .notifications_more'') ''block''
                              (set_attr (detail_sel i @ '' .notifications_more'', ''href'') (Some url) p1))
                in emit (Call ''changeToNickname'' []) p2)
          else p)"

text \<open>Nicknames: the users whose name is not replaced yet, and the first nickname of the answer for each.\<close>

record user_el =
  u_html :: jstr
  u_nickname :: bool

definition changeToNickname :: "user_el list \<Rightarrow> effect list" where
  [js_eval]: \<open>changeToNickname us =
     (let usernames = join (js '','') (map u_html (filter (\<lambda>u. \<not> u_nickname u) us))
      in if usernames = [] then []
         else [Jsonp (js ''//internalapi.csdn.net/passport/openapi/get/nick?callback=?&x-acl-token=Q7A5sLruDh5NJynptr73u8lv'' @
    js ''H0MK'')
                 [(''users'', usernames)]])\<close>

definition nickname_answer :: "(jstr \<times> jstr) list \<Rightarrow> user_el \<Rightarrow> user_el" where
  [js_eval]: "nickname_answer dataList u =
     (if u_nickname u then u
      else case map_of dataList (u_html u) of None \<Rightarrow> u | Some n \<Rightarrow> u\<lparr>u_html := n, u_nickname := True\<rparr>)"

lemma nickname_once: "nickname_answer l (nickname_answer m u) = (if map_of m (u_html u) = None \<and> \<not> u_nickname u
    then nickname_answer l u else nickname_answer m u)"
  by (auto simp: nickname_answer_def split: option.splits)

section \<open>The start\<close>

definition initPanel :: jstr where
  [js_eval]: \<open>initPanel = (js ''<div class="notifications notice_list_con curr">  <div class="menu_title">    <span class="title'' @
    js ''"><a href="http://msg.csdn.net/letters" target="_blank" class="read_all">'' @
    [26597, 30475, 25152, 26377, 31169, 20449] @
    js ''</a><a href="http://msg.csdn.net" target="_blank" class="go_all">'' @
    [26597, 30475, 25152, 26377, 36890, 30693] @
    js ''</a></span>  </div>  <div class="loading"></div>  <div class="empty">'' @
    [26242, 27809, 26377, 26032, 36890, 30693] @
    js ''</div>  <div class="notice_content" style="overflow-y: auto; max-height: 270px;"></div></div><di'' @
    js ''v class="notifications detail_con" style="display: none">  <div class="menu_title">    <span cla'' @
    js ''ss="title">      <a class="go_back" href="javascript:void 0;">'' @
    [36820, 22238, 36890, 30693, 21015, 34920] @
    js ''</a>      <a class="notifications_page_none nextnote" href="javascript:void 0;">'' @
    [19979, 19968, 26465] @
    js ''</a>      <a class="notifications_page prvnote" href="javascript:void 0;">'' @
    [19978, 19968, 26465] @
    js ''</a>    </span>  </div>  <div class="notice_content" style="overflow-y: scroll; height: 250px;">'' @
    js ''</div></div><div class="error"></div>'')\<close>

definition getDoms :: "'a page_scheme \<Rightarrow> 'a page_scheme" where
  [js_eval]: \<open>getDoms p = append_html wrap (js ''<iframe src="about:block" frameborder="0" allowTransparency="true" style="z-index:-1;position:ab'' @
    js ''solute;top:0;left:0;width:100%;height:100%;background:transparent"></iframe>'') p\<close>

text \<open>\<open>parseInt(s, 10) || undefined\<close>, and the default for \<open>undefined\<close>.\<close>

definition conf_count :: "jstr option \<Rightarrow> int" where
  [js_eval]: "conf_count s =
     (case s of
        None \<Rightarrow> 5
      | Some t \<Rightarrow> (case parse_int t of None \<Rightarrow> 5 | Some n \<Rightarrow> if n = 0 then 5 else n))"

text \<open>The visitor: the cookie, or the name known before; an exception of the cookie is caught and logged.\<close>

definition checkLogin :: "jstr \<Rightarrow> jstr \<Rightarrow> jstr option" where
  [js_eval]: \<open>checkLogin cookie known =
     (case note_getCookie cookie (js ''UserName'') of
        Inl _ \<Rightarrow> None
      | Inr v \<Rightarrow>
          let name = (case v of None \<Rightarrow> known | Some u \<Rightarrow> if u = [] then known else u)
          in case note_getCookie cookie (js ''UserInfo'') of Inl _ \<Rightarrow> None | Inr _ \<Rightarrow> if name = [] then None else Some name)\<close>

definition note_init :: "note_conf \<Rightarrow> jstr \<Rightarrow> bool \<Rightarrow> npage \<Rightarrow> npage" where
  [js_eval]: \<open>note_init conf cookie has_client p =
     (let p1 = getDoms p
      in case checkLogin cookie (c_user conf) of
           None \<Rightarrow> p1
         | Some name \<Rightarrow>
             let conf' = conf\<lparr>c_user := name\<rparr>;
                 p2 = loadCss (staticUrl conf' (js ''css/style.css'')) p1;
                 p3 = append_html ''#note1 .box'' initPanel (p2\<lparr>unread_count := - 1\<rparr>)
             in initRealtime conf' has_client p3)\<close>

text \<open>The settings a script element gives: an attribute, with hyphens for dots and spaces, or the one that is
  there.\<close>

definition setting_names :: "jstr list" where
  [js_eval]: \<open>setting_names = [(js ''instance''), (js ''wrapId''), (js ''realtime''), (js ''api''), (js ''app''), (js ''space''), (js ''count''), (js ''subCount''), (js ''staticUrl''),
     (js ''cssUrl''), (js ''realtime.js''), (js ''channel''), (js ''socket.io.js''), (js ''socket.io options'')]\<close>

definition script_settings :: "(jstr \<Rightarrow> jstr option) \<Rightarrow> (jstr \<times> jstr) list" where
  [js_eval]: \<open>script_settings attr =
     (let opts = [((js ''instance''), (js ''csdn_note'')), ((js ''wrapId''), (js ''note1''))];
          given = (\<lambda>v. attr (map (\<lambda>c. if c = 46 \<or> c = 32 then 45 else c) v))
      in concat (map (\<lambda>v. case given v of
             Some (c # cs) \<Rightarrow> [(v, c # cs)]
           | _ \<Rightarrow> (case map_of opts v of None \<Rightarrow> [] | Some d \<Rightarrow> [(v, d)])) setting_names))\<close>

text \<open>The panel and the hint are put before the script; without the button nothing is.\<close>

definition note_boxes :: "bool \<Rightarrow> (jstr \<Rightarrow> jstr option) \<Rightarrow> 'a page_scheme \<Rightarrow> 'a page_scheme" where
  [js_eval]: \<open>note_boxes has_button attr p =
     (if \<not> has_button then p
      else let p1 = (if map_of (script_settings attr) (js ''instance'') = Some (js ''csdn_note'')
             then append_html ''#noticeScript/before'' (js ''<div id="note1" class="csdn_note" style="display:none; position:absolute; z-index:9999; width:44'' @
    js ''0px">  <span class="notice_top_arrow"><span class="inner"></span></span>  <div class="box"></div'' @
    js ''></div>'') p
             else p);
             p2 = append_html ''#noticeScript/before'' (js ''<div class="csdn_notice_tip" style="display:none; position:absolute; z-index:9990; width:170px">'' @
    js ''  <iframe src="about:blank" frameborder="0" scrolling="no" style="z-index:-1;position:absolute;t'' @
    js ''op:0;left:0;width:100%;height:100%;background:transparent"></iframe>  <div class="tip_text">'' @
    [24744, 26377] @ js ''<strong>0</strong>'' @ [26465, 26032, 36890, 30693] @
    js ''</div>  <a href="javascript:void 0" class="close2"></a></div>'') p1
           in set_shown tip False p2)\<close>

text \<open>Loading the library: the state change of the script element may be reported several times, and the first
  report that it is loaded runs the rest.\<close>

definition library_loaded :: "jstr option \<Rightarrow> bool \<times> 'a page_scheme \<Rightarrow> bool \<times> 'a page_scheme" where
  [js_eval]: \<open>library_loaded readyState st =
     (case st of (finished, p) \<Rightarrow>
        if \<not> finished \<and> (readyState = None \<or> readyState = Some [] \<or> readyState = Some (js ''loaded'') \<or> readyState = Some (js ''complete''))
        then (True, emit (Call ''start'' []) p) else (finished, p))\<close>

definition load_library :: "bool \<Rightarrow> 'a page_scheme \<Rightarrow> 'a page_scheme" where
  [js_eval]: \<open>load_library has_jquery p =
     (if has_jquery then p
      else append_html ''head'' (js ''<script src="//csdnimg.cn/www/js/jquery-1.4.2.min.js" charset="utf-8"></script>'') p)\<close>

lemma library_starts_once:
  "count_list (effects (snd (fold library_loaded rs (False, p)))) (Call ''start'' [])
     \<le> count_list (effects p) (Call ''start'' []) + 1"
proof -
  have "snd (fold library_loaded rs (True, q)) = q" for q :: "'a page_scheme"
    by (induction rs) (simp_all add: library_loaded_def)
  then show ?thesis
    by (induction rs) (simp_all add: library_loaded_def)
qed

section \<open>What the panel keeps\<close>

text \<open>The events of the panel.\<close>

datatype panel_event =
  PButton "notice list option option"
| PDocument bool
| PMessage message
| PAll "jstr option" "notice list option" bool bool
| PUnread "jstr option" "notice list option" bool bool
| PRead nat
| PClick bool int "(jstr \<times> jstr) option" nat
| PPrevNext bool bool int
| PBack int
| PDetail nat "jstr option" jstr "detail_row list"
| PAllRead
| PClose

fun panel_step :: "note_conf \<Rightarrow> panel_event \<Rightarrow> npage \<Rightarrow> npage" where
  "panel_step conf (PButton params) p = panel_button conf params p"
| "panel_step conf (PDocument b) p = document_click b p"
| "panel_step conf (PMessage m) p = on_message conf m p"
| "panel_step conf (PAll err data loading vis) p = all_readed_answer conf err data loading vis p"
| "panel_step conf (PUnread err data loading vis) p = unreads_answer conf err data loading vis p"
| "panel_step conf (PRead i) p = entry_read i p"
| "panel_step conf (PClick needs w link i) p = list_click conf needs w link i p"
| "panel_step conf (PPrevNext needs prev w) p = prev_next conf needs prev w p"
| "panel_step conf (PBack w) p = go_back conf w p"
| "panel_step conf (PDetail i err tpl data) p = detail_answer conf i err tpl data p"
| "panel_step conf PAllRead p = all_read_done p"
| "panel_step conf PClose p = tip_close conf p"

lemma items_frame [simp]:
  "items (set_html s v p) = items p" "items (append_html s v p) = items p" "items (set_attr k a p) = items p"
  "items (set_shown s b p) = items p" "items (add_class s c p) = items p" "items (remove_class s c p) = items p"
  "items (emit e p) = items p"
  by (simp_all add: page_defs)

lemma seen_frame [simp]:
  "seen_ids (set_html s v p) = seen_ids p" "seen_ids (append_html s v p) = seen_ids p"
  "seen_ids (set_attr k a p) = seen_ids p" "seen_ids (set_shown s b p) = seen_ids p"
  "seen_ids (add_class s c p) = seen_ids p" "seen_ids (remove_class s c p) = seen_ids p"
  "seen_ids (emit e p) = seen_ids p"
  by (simp_all add: page_defs)

lemma listed_cong:
  fixes p q :: npage
  shows "map it_ids (items q) = map it_ids (items p) \<Longrightarrow> seen_ids q = seen_ids p \<Longrightarrow> listed_ok q = listed_ok p"
proof -
  assume e: "map it_ids (items q) = map it_ids (items p)" "seen_ids q = seen_ids p"
  have \<open>(\<forall>i \<in> set (items r). contains (it_ids i @ (js ''|'')) cv) \<longleftrightarrow>
      (\<forall>x \<in> set (map it_ids (items r)). contains (x @ (js ''|'')) cv)\<close> for r :: npage and cv by simp
  then show ?thesis using e unfolding listed_ok_def by (simp only: e)
qed

lemma entries_of [simp]:
  "items (resetPosition p) = items p" "seen_ids (resetPosition p) = seen_ids p"
  "items (hide_error p) = items p" "seen_ids (hide_error p) = seen_ids p"
  "items (show_error m p) = items p" "seen_ids (show_error m p) = seen_ids p"
  "items (slideReset conf p) = items p" "seen_ids (slideReset conf p) = seen_ids p"
  "items (getAllReaded conf p) = items p" "seen_ids (getAllReaded conf p) = seen_ids p"
  "items (getUnreads conf p) = items p" "seen_ids (getUnreads conf p) = seen_ids p"
  "items (setReaded conf ids p) = items p" "seen_ids (setReaded conf ids p) = seen_ids p"
  "items (doaction conf a b c p) = items p" "seen_ids (doaction conf a b c p) = seen_ids p"
  "items (getDetail conf x k l p) = items p" "seen_ids (getDetail conf x k l p) = seen_ids p"
  by (simp_all add: resetPosition_def put_css_def hide_error_def show_error_def slideReset_def getAllReaded_def
    getUnreads_def setReaded_def doaction_def getDetail_def Let_def)

lemma entries_of2 [simp]:
  "items (tip_showing p) = items p" "seen_ids (tip_showing p) = seen_ids p"
  "items (go_slide a b l w p) = items p" "seen_ids (go_slide a b l w p) = seen_ids p"
  "items (receive_setreaded p) = items p" "seen_ids (receive_setreaded p) = seen_ids p"
  "items (list_showed err ws p) = items p" "seen_ids (list_showed err ws p) = seen_ids p"
  by (simp_all add: tip_showing_def initBtn_def go_slide_def put_css_def receive_setreaded_def Let_def)
    (induction err ws p rule: list_showed.induct; simp split: option.split)+

lemma entries_of3 [simp]:
  "items (emit_list_showed err p) = items p" "seen_ids (emit_list_showed err p) = seen_ids p"
  "items (hidecb p) = items p" "seen_ids (hidecb p) = seen_ids p"
  "items (detail_showed conf b i p) = items p" "seen_ids (detail_showed conf b i p) = seen_ids p"
  by (simp_all add: emit_list_showed_def hidecb_def detail_showed_def Let_def)

lemma panel_showed_listed: "listed_ok p \<Longrightarrow> listed_ok (panel_showed conf d p)"
proof -
  assume ok: "listed_ok p"
  define q where "q = (if \<not> hasReadedItems (resetPosition p) then getAllReaded conf ((resetPosition p)\<lparr>items := []\<rparr>)
    else resetPosition p)"
  have q: "listed_ok q"
    using ok by (auto simp: q_def listed_ok_def split: option.splits)
  have f: "listed_ok (fillList False (Some vs) q)" for vs using q by (rule fillList_listed)
  have "\<exists>r. listed_ok r \<and> items (panel_showed conf d p) = items r \<and> seen_ids (panel_showed conf d p) = seen_ids r"
    using q f unfolding panel_showed_def Let_def q_def[symmetric]
    by (cases d) (auto split: option.split)
  then show ?thesis using listed_cong by metis
qed

lemma wrap_listed:
  assumes "listed_ok p" "\<And>q. items (cb q) = items q" "\<And>q. seen_ids (cb q) = seen_ids q"
  shows "listed_ok (showListCbWrap conf cb err loading vis p)"
proof -
  have t: "listed_ok (p\<lparr>items := take n (items p)\<rparr>)" for n
    using assms(1) by (auto simp: listed_ok_def take_map[symmetric] split: option.splits dest: in_set_takeD)
  have "\<exists>r. listed_ok r \<and> items (showListCbWrap conf cb err loading vis p) = items r \<and>
      seen_ids (showListCbWrap conf cb err loading vis p) = seen_ids r"
    using assms(1) t[of "nat (kept_count conf (items p))"]
    by (auto simp: showListCbWrap_def assms(2,3) Let_def split: option.split)
  then show ?thesis using listed_cong by metis
qed

lemma set_item_ids: "it_ids it = it_ids (xs ! i) \<Longrightarrow> map it_ids (xs[i := it]) = map it_ids xs"
  by (metis list_update_id map_update)

lemma mark_read_ids [simp]: "map it_ids (xs[i := (xs ! i)\<lparr>it_unread := False\<rparr>]) = map it_ids xs"
  by (rule set_item_ids) simp

lemma fillDetail_ids: "it_ids (snd (snd (fillDetail conf tpl data it))) = it_ids it"
  by (auto simp: fillDetail_def Let_def split: list.split)

lemma receive_listed: "listed_ok p \<Longrightarrow> listed_ok (receive_unreads conf ids r d p)"
proof -
  assume ok: "listed_ok p"
  define q where "q = (case ids of None \<Rightarrow> p | Some l \<Rightarrow> p\<lparr>localUreadData := l\<rparr>)"
  have q: "listed_ok q"
    using ok listed_cong[of q p] by (simp add: q_def split: option.splits)
  then show ?thesis
    using panel_showed_listed[of q] listed_cong[of "tip_showing q" q]
    by (auto simp: receive_unreads_def q_def[symmetric] Let_def)
qed

lemma message_listed: "listed_ok p \<Longrightarrow> listed_ok (on_message conf m p)"
proof -
  assume ok: "listed_ok p"
  define q where "q = (if m_setReaded m then receive_setreaded p else p)"
  have q: "listed_ok q" using ok listed_cong[of "receive_setreaded p" p] by (simp add: q_def)
  define r where "r = (case m_initUnreadIds m of
      Some (v # vs) \<Rightarrow> receive_unreads conf (Some (v # vs)) (m_realtime m) (m_data m) (q\<lparr>hasNewMsg := True\<rparr>) | _ \<Rightarrow> q)"
  have n: "listed_ok (x\<lparr>hasNewMsg := True\<rparr>) = listed_ok x" for x by (rule listed_cong) simp_all
  have r: "listed_ok r" using q receive_listed by (simp add: r_def n split: option.split list.split)
  have "listed_ok (r\<lparr>hasNewMsg := True, localUreadData := localUreadData r @ m_data m\<rparr>)"
    using r listed_cong[of "r\<lparr>hasNewMsg := True, localUreadData := localUreadData r @ m_data m\<rparr>" r] by simp
  then show ?thesis
    using r receive_listed unfolding on_message_def Let_def q_def[symmetric] r_def[symmetric] by simp
qed

lemma listed_step: "listed_ok p \<Longrightarrow> listed_ok (panel_step conf e p)"
proof -
  assume ok: "listed_ok p"
  have same: "listed_ok q" if "map it_ids (items q) = map it_ids (items p)" "seen_ids q = seen_ids p" for q
    using listed_cong[OF that] ok by simp
  show ?thesis
  proof (cases e)
    case (PButton params)
    let ?q = "panel_showed conf params p"
    have "listed_ok ?q" by (rule panel_showed_listed[OF ok])
    moreover have "items (panel_button conf params p) = items ?q" "seen_ids (panel_button conf params p) = seen_ids ?q"
      by (simp_all add: panel_button_def Let_def)
    ultimately show ?thesis using PButton listed_cong[of "panel_button conf params p" ?q] by simp
  next
    case (PAll err data loading vis)
    then show ?thesis using fillList_listed[OF ok] by (simp add: all_readed_answer_def wrap_listed)
  next
    case (PUnread err data loading vis)
    then show ?thesis using fillList_listed[OF ok] by (simp add: unreads_answer_def wrap_listed)
  next
    case (PBack w)
    then show ?thesis using same[of "go_slide detail_con list_con True w p"] by (simp add: go_back_def panel_showed_listed)
  next
    case (PDetail i err tpl data)
    have "map it_ids (items (detail_answer conf i err tpl data p)) = map it_ids (items p)"
      using fillDetail_ids[of conf tpl data "items p ! i"]
      by (auto simp: detail_answer_def set_item_ids Let_def split: option.split prod.split)
    moreover have "seen_ids (detail_answer conf i err tpl data p) = seen_ids p"
      by (auto simp: detail_answer_def Let_def split: option.split prod.split)
    ultimately show ?thesis using PDetail same by simp
  qed (use ok same message_listed in \<open>auto simp: document_click_def entry_read_def list_click_def prev_next_def
      all_read_done_def tip_close_def Let_def split: option.split\<close>)
qed

interpretation panels: event_machine "panel_step conf" "\<lambda>_. True" listed_ok for conf
  by unfold_locales (rule listed_step)

text \<open>C31: whatever the order of clicks, answers and messages, the panel never lists a
  notification twice, and every one it lists is recorded as listed.\<close>

theorem notifications_listed_once:
  assumes "items p = []" "seen_ids p = Some []"
  shows \<open>distinct (map it_ids (items (fold (panel_step conf) es p))) \<and>
     (\<exists>cv. seen_ids (fold (panel_step conf) es p) = Some cv \<and>
        (\<forall>i \<in> set (items (fold (panel_step conf) es p)). contains (it_ids i @ (js ''|'')) cv))\<close>
proof -
  have "listed_ok p" using assms by (simp add: listed_ok_def)
  then have "listed_ok (fold (panel_step conf) es p)" by (rule panels.run_inv) (simp add: list_all_iff)
  then show ?thesis by (auto simp: listed_ok_def split: option.splits)
qed

definition sample_panel :: npage where
  [js_eval]: "sample_panel = \<lparr>els = \<lambda>_. blank_elem, effects = [], localUreadData = [], hasNewMsg = False,
     hasGetData = False, hasReadedItems = False, keepUnread = False, unread_count = - 1, seen_ids = Some [], items = [],
     curr = 0, waiters = [], error_bound = False, btn_left = 300, btn_top = 10\<rparr>"

definition sample_conf :: note_conf where
  [js_eval]: \<open>sample_conf = \<lparr>c_api = (js ''//api''), c_app = [], c_space = (js ''//my/''), c_staticUrl = (js ''//static/''), c_count = 5,
     c_subCount = 5, c_user = (js ''ann'')\<rparr>\<close>

definition sample_notice :: "int \<Rightarrow> notice" where
  [js_eval]: \<open>sample_notice n = \<lparr>n_type = (js ''1''), n_title = (js ''t''), n_time = (js ''now''), n_longTitle = (js ''t''), n_containIds = [n],
     n_isaction = False, n_isslide = True\<rparr>\<close>

lemma notifications_listed_once_witness:
  "distinct (map it_ids (items (fold (panel_step sample_conf)
     [PButton None, PAll None (Some [sample_notice 1, sample_notice 2, sample_notice 1]) False True,
      PMessage \<lparr>m_setReaded = False, m_initUnreadIds = None, m_realtime = True, m_data = [sample_notice 2]\<rparr>] sample_panel)))"
  using notifications_listed_once[of sample_panel sample_conf "[PButton None,
      PAll None (Some [sample_notice 1, sample_notice 2, sample_notice 1]) False True,
      PMessage \<lparr>m_setReaded = False, m_initUnreadIds = None, m_realtime = True, m_data = [sample_notice 2]\<rparr>]"]
  by (simp add: sample_panel_def)

text \<open>What is listed stays recorded when the list is emptied: read messages that arrive before any hint make the
  panel ask for the list again, and the answer leaves the panel empty.\<close>

lemma list_stays_empty:
  assumes "listed_ok p" "seen_ids p = Some cv" "\<forall>v \<in> set vs. data_ids v \<in> it_ids ` set (items p)"
    "\<not> keepUnread p"
  shows "items (panel_step conf (PAll None (Some vs) False True) (panel_showed conf None (receive_setreaded p))) = []"
proof -
  have h: "hasReadedItems (resetPosition (receive_setreaded p)) = False"
    using assms(4) by (simp add: resetPosition_def put_css_def receive_setreaded_def page_defs Let_def)
  define q where "q = panel_showed conf None (receive_setreaded p)"
  have q: "items q = []" "seen_ids q = Some cv"
    using h assms(2) by (simp_all add: q_def panel_showed_def Let_def)
  have "fill_items True vs (Some cv) = ([], Some cv)"
    using assms(1-3) by (induction vs) (auto simp: listed_ok_def)
  then have f: "items (fillList True (Some vs) q) = []" by (simp add: fillList_def q Let_def)
  show ?thesis
    using f unfolding q_def[symmetric] by (simp add: all_readed_answer_def showListCbWrap_def Let_def)
qed

text \<open>Taking a read notification out: the list without it, when it is there once.\<close>

fun skip_filter :: "jstr \<Rightarrow> notice list \<Rightarrow> notice list" where
  "skip_filter ids [] = []"
| "skip_filter ids [v] = (if data_ids v = ids then [] else [v])"
| "skip_filter ids (v # w # vs) =
     (if data_ids v = ids then w # skip_filter ids vs else v # skip_filter ids (w # vs))"

lemma remove_loop_end: "length data \<le> i \<Longrightarrow> remove_loop ids i data = data"
  by (subst remove_loop.simps) simp

lemma remove_loop_skip: "remove_loop ids (length pre) (pre @ vs) = pre @ skip_filter ids vs"
proof (induction ids vs arbitrary: pre rule: skip_filter.induct)
  case (1 ids)
  then show ?case by (simp add: remove_loop_end)
next
  case (2 ids v)
  then show ?case by (subst remove_loop.simps) (simp add: remove_loop_end)
next
  case (3 ids v w vs)
  show ?case
    using 3(1)[of "pre @ [w]"] 3(2)[of "pre @ [v]"]
    by (subst remove_loop.simps) simp
qed

lemma skip_filter_filter: "distinct (map data_ids vs) \<Longrightarrow> skip_filter ids vs = filter (\<lambda>v. data_ids v \<noteq> ids) vs"
proof (induction ids vs rule: skip_filter.induct)
  case (3 ids v w vs)
  show ?case
  proof (cases "data_ids v = ids")
    case True
    then have "filter (\<lambda>v. data_ids v \<noteq> ids) vs = vs" using 3 by (auto simp: filter_id_conv image_iff)
    moreover have "data_ids w \<noteq> ids" using 3(3) True by auto
    ultimately show ?thesis using 3 True by simp
  next
    case False
    then show ?thesis using 3 by simp
  qed
qed auto

lemma remove_twice_keeps_one: "remove_loop (data_ids v) 0 [v, v] = [v]"
  using remove_loop_skip[of "data_ids v" "[]" "[v, v]"] by simp

text \<open>Reading a notification takes exactly it out of the unread ones, when no two of them have
  the same identifiers, marks its entry as read and tells the toolbar the number that is left; the hint
  shows that number unless it is zero.\<close>

theorem reading_updates_hint:
  assumes "i < length (items p)" "distinct (map data_ids (localUreadData p))"
  shows "(let q = entry_read i p; rest = filter (\<lambda>v. data_ids v \<noteq> it_ids (items p ! i)) (localUreadData p) in
     localUreadData q = rest \<and> \<not> it_unread (items q ! i) \<and>
     last (effects q) = Trigger ''toolbar-setNotesNum'' (num_str (length rest)) \<and>
     (rest \<noteq> [] \<longrightarrow> html_of tip_num q = num_str (length rest) \<and> shown tip q))"
proof -
  define rest where "rest = filter (\<lambda>v. data_ids v \<noteq> it_ids (items p ! i)) (localUreadData p)"
  have r: "remove_loop (it_ids (items p ! i)) 0 (localUreadData p) = rest"
    using remove_loop_skip[of _ "[]"] skip_filter_filter[OF assms(2)] by (simp add: rest_def)
  define q0 where "q0 = p\<lparr>keepUnread := True, items := (items p)[i := (items p ! i)\<lparr>it_unread := False\<rparr>], localUreadData := rest\<rparr>"
  have e: "entry_read i p = tip_showing q0" using assms(1) r by (simp add: entry_read_def q0_def)
  have l: "localUreadData (tip_showing q0) = rest"
    by (simp add: tip_showing_def q0_def initBtn_def resetPosition_def put_css_def page_defs Let_def)
  have n: "localUreadData (initBtn b (q0\<lparr>keepUnread := True\<rparr>)) = rest" for b
    by (simp add: initBtn_def q0_def page_defs)
  have t: "rest \<noteq> [] \<Longrightarrow> html_of tip_num (tip_showing q0) = num_str (length rest) \<and> shown tip (tip_showing q0)"
    by (simp add: tip_showing_def n Let_def)
  have "last (effects (tip_showing q0)) = Trigger ''toolbar-setNotesNum'' (num_str (length rest))"
    by (simp add: tip_showing_def n Let_def)
  moreover have "\<not> it_unread (items (tip_showing q0) ! i)" using assms(1) by (simp add: q0_def)
  ultimately show ?thesis using l t unfolding e rest_def[symmetric] Let_def by simp
qed

lemma reading_updates_hint_witness:
  "(let p = sample_panel\<lparr>items := [item_of False (sample_notice 1)], localUreadData := [sample_notice 1, sample_notice 2]\<rparr>;
        q = entry_read 0 p
    in localUreadData q = filter (\<lambda>v. data_ids v \<noteq> it_ids (items p ! 0)) (localUreadData p))"
proof -
  define p where "p = sample_panel\<lparr>items := [item_of False (sample_notice 1)],
      localUreadData := [sample_notice 1, sample_notice 2]\<rparr>"
  have "data_ids (sample_notice 1) \<noteq> data_ids (sample_notice 2)" by code_simp
  then have "distinct (map data_ids (localUreadData p))" "0 < length (items p)" by (simp_all add: p_def)
  from reading_updates_hint[OF this(2,1)] show ?thesis unfolding p_def[symmetric] Let_def by blast
qed

end
