(* ===== verification/JobTemplates.thy ===== *)
theory JobTemplates
  imports JsRegex
begin

text \<open>
  The templates of the job recommendations (\<open>job_reco.js\<close>: \<open>Position\<close>, \<open>get_itemTpl\<close>,
  \<open>get_containerTpl\<close>): the markup of each kind of page with the places \<^verbatim>\<open>{0}\<close>, \<^verbatim>\<open>{1}\<close>, \dots for its values, and the
  filling of a template, which replaces the places one after the other.

  Filling one after the other is filling all at once, for values without braces and dollars
  (\<open>fill_pieces\<close>).
\<close>

section \<open>Filling\<close>

text \<open>\<^verbatim>\<open>t.replace(/\{n\}/, v)\<close>: the first \<^verbatim>\<open>{n}\<close>.\<close>

definition place :: "nat \<Rightarrow> jstr" where
  [js_eval]: \<open>place n = (js ''{'') @ num_str n @ (js ''}'')\<close>

definition fill1 :: "nat \<Rightarrow> jstr \<Rightarrow> jstr \<Rightarrow> jstr" where
  [js_eval]: "fill1 n v t = rx_replace no_flags (rlit (place n)) t v"

fun fill :: "(nat \<times> jstr) list \<Rightarrow> jstr \<Rightarrow> jstr" where
  "fill [] t = t"
| "fill ((n, v) # vs) t = fill vs (fill1 n v t)"

text \<open>A replacement by a text without dollars passes over a code unit where the literal does not start, and
  replaces the literal where it does.\<close>

lemma rx_replace_skip:
  assumes "forward_only r" "rmatch fl (x # s) r (0, []) = []" "36 \<notin> set v"
  shows "rx_replace fl r (x # s) v = x # rx_replace fl r s v"
proof -
  have "rx_find fl r (x # s) 0 = map_option (move_match 1) (rx_find fl r s 0)"
    using rx_find_later[OF assms(1,2)] rx_find_move[OF assms(1), of fl "[x]" s 0] by simp
  then show ?thesis
    using assms(3) by (cases "rx_find fl r s 0") (auto simp: rx_replace_def repl_text_def expand_repl_plain move_match_def)
qed

lemma rx_replace_lit_hit:
  assumes "w \<noteq> []" "36 \<notin> set v"
  shows "rx_replace fl (rlit w) (w @ s) v = v @ s"
proof -
  have "rx_find fl (rlit w) (w @ s) 0 = Some (0, length w, [])"
    using lit_at_append[of fl w "[]" s] by (intro rx_find_first[of _ _ _ _ _ "[]"]) (simp add: rmatch_rlit)
  then show ?thesis using assms(2) by (simp add: rx_replace_def repl_text_def expand_repl_plain)
qed

lemma fill1_skip:
  assumes "\<not> starts_with (place n) (x # s)" "36 \<notin> set v"
  shows "fill1 n v (x # s) = x # fill1 n v s"
proof -
  have "lit_at no_flags w t 0 \<Longrightarrow> starts_with w t" for w t
    by (auto simp: lit_at_def starts_with_take list_all2_conv_all_nth cu_eq_def no_flags_def intro!: nth_equalityI)
  then have "\<not> lit_at no_flags (place n) (x # s) 0" using assms(1) by blast
  moreover have "place n \<noteq> []" by (simp add: place_def js_def)
  ultimately have "rmatch no_flags (x # s) (rlit (place n)) (0, []) = []" by (simp add: rmatch_rlit)
  then show ?thesis unfolding fill1_def by (rule rx_replace_skip[OF forward_rlit _ assms(2)])
qed

lemma fill1_hit: "36 \<notin> set v \<Longrightarrow> fill1 n v (place n @ s) = v @ s"
  unfolding fill1_def by (rule rx_replace_lit_hit) (simp_all add: place_def js_def)

lemma fill1_Nil: "fill1 n v [] = []"
proof -
  have "rx_find no_flags (rlit (place n)) [] 0 = None" by (simp add: rx_find_None rmatch_rlit lit_at_def place_def js_def)
  then show ?thesis by (simp add: fill1_def rx_replace_def)
qed

lemma fill1_plain: "123 \<notin> set a \<Longrightarrow> 36 \<notin> set v \<Longrightarrow> fill1 n v (a @ s) = a @ fill1 n v s"
proof (induction a)
  case (Cons x a)
  have "\<not> starts_with (place n) (x # a @ s)" using Cons.prems by (simp add: place_def js_def)
  then show ?case using fill1_skip[of n x "a @ s" v] Cons by simp
qed simp

lemma place_not_start: "m \<noteq> n \<Longrightarrow> \<not> starts_with (place n) (place m @ s)"
proof
  assume "m \<noteq> n" "starts_with (place n) (place m @ s)"
  then obtain t where t: "num_str m @ 125 # s = num_str n @ 125 # t"
    by (auto simp: starts_with_iff place_def js_def)
  have d: "125 \<notin> set (num_str k)" for k using num_str_digits[of k] by (auto simp: is_digit_def)
  have "num_str m = takeWhile ((\<noteq>) 125) (num_str m @ 125 # s)" using d[of m] by (auto simp: takeWhile_append takeWhile_eq_all_conv)
  also have "\<dots> = num_str n" unfolding t using d[of n] by (auto simp: takeWhile_append takeWhile_eq_all_conv)
  finally show False using \<open>m \<noteq> n\<close> digits_val_num_str by metis
qed

lemma fill1_other: "m \<noteq> n \<Longrightarrow> 36 \<notin> set v \<Longrightarrow> fill1 n v (place m @ s) = place m @ fill1 n v s"
proof -
  assume m: "m \<noteq> n" and v: "36 \<notin> set v"
  have "123 \<notin> set (num_str m @ [125])" using num_str_digits[of m] by (auto simp: is_digit_def)
  moreover have p: "place m = 123 # num_str m @ [125]" by (simp add: place_def js_def)
  moreover have "fill1 n v (123 # num_str m @ [125] @ s) = 123 # fill1 n v (num_str m @ [125] @ s)"
    using fill1_skip[of n 123 "num_str m @ [125] @ s" v] place_not_start[OF m, of s] v by (simp add: p)
  ultimately show ?thesis using fill1_plain[of "num_str m @ [125]" v n s] v by simp
qed

section \<open>Templates as pieces\<close>

text \<open>A template is a list of texts and places; filled at once, every place gets its value.\<close>

datatype piece = Lit jstr | Hole nat

fun written :: "piece \<Rightarrow> jstr" where
  "written (Lit t) = t"
| "written (Hole n) = place n"

definition template :: "piece list \<Rightarrow> jstr" where
  [js_eval]: "template ps = concat (map written ps)"

fun holes :: "piece list \<Rightarrow> nat list" where
  "holes [] = []"
| "holes (Lit t # ps) = holes ps"
| "holes (Hole n # ps) = n # holes ps"

text \<open>No brace in the texts, no place twice.\<close>

definition pieces_ok :: "piece list \<Rightarrow> bool" where
  [js_eval]: "pieces_ok ps \<longleftrightarrow> distinct (holes ps) \<and> (\<forall>p \<in> set ps. case p of Lit t \<Rightarrow> 123 \<notin> set t | Hole _ \<Rightarrow> True)"

fun put_value :: "nat \<Rightarrow> jstr \<Rightarrow> piece \<Rightarrow> piece" where
  "put_value n v (Lit t) = Lit t"
| "put_value n v (Hole m) = (if m = n then Lit v else Hole m)"

definition value_ok :: "jstr \<Rightarrow> bool" where
  [js_eval]: "value_ok v \<longleftrightarrow> 36 \<notin> set v \<and> 123 \<notin> set v"

lemma template_Cons: "template (p # ps) = written p @ template ps"
  by (simp add: template_def)

lemma put_absent: "n \<notin> set (holes ps) \<Longrightarrow> map (put_value n v) ps = ps"
  by (induction ps rule: holes.induct) auto

lemma fill1_absent: "pieces_ok ps \<Longrightarrow> n \<notin> set (holes ps) \<Longrightarrow> 36 \<notin> set v \<Longrightarrow> fill1 n v (template ps) = template ps"
  by (induction ps rule: holes.induct)
    (auto simp: template_def fill1_Nil fill1_plain fill1_other pieces_ok_def)

lemma fill1_template:
  "pieces_ok ps \<Longrightarrow> value_ok v \<Longrightarrow> fill1 n v (template ps) = template (map (put_value n v) ps)"
proof (induction ps rule: holes.induct)
  case (2 t ps)
  then show ?case by (simp add: template_Cons fill1_plain pieces_ok_def value_ok_def)
next
  case (3 m ps)
  then show ?case
    by (auto simp: template_Cons fill1_other fill1_hit pieces_ok_def value_ok_def put_absent)
qed (simp add: template_def fill1_Nil)

lemma put_holes: "holes (map (put_value n v) ps) = filter ((\<noteq>) n) (holes ps)"
  by (induction ps rule: holes.induct) auto

lemma put_ok: "pieces_ok ps \<Longrightarrow> value_ok v \<Longrightarrow> pieces_ok (map (put_value n v) ps)"
proof -
  assume a: "pieces_ok ps" "value_ok v"
  have "case put_value n v p of Lit t \<Rightarrow> 123 \<notin> set t | Hole _ \<Rightarrow> True" if "p \<in> set ps" for p
    using a that by (cases p) (auto simp: pieces_ok_def value_ok_def)
  then show ?thesis using a(1) by (auto simp: pieces_ok_def put_holes)
qed

text \<open>The value of a piece: that of its place, if there is one.\<close>

fun filled :: "(nat \<times> jstr) list \<Rightarrow> piece \<Rightarrow> jstr" where
  "filled vs (Lit t) = t"
| "filled vs (Hole n) = (case map_of vs n of None \<Rightarrow> place n | Some v \<Rightarrow> v)"

lemma filled_put: "filled vs (put_value n v p) = filled ((n, v) # vs) p"
  by (cases p) auto

lemma fill_pieces:
  "pieces_ok ps \<Longrightarrow> \<forall>(n, v) \<in> set vs. value_ok v \<Longrightarrow> fill vs (template ps) = concat (map (filled vs) ps)"
proof (induction vs arbitrary: ps)
  case Nil
  have "filled [] = written" by (rule ext, case_tac x) simp_all
  then show ?case by (simp add: template_def)
next
  case (Cons nv vs)
  obtain n v where nv: "nv = (n, v)" by (cases nv)
  have "value_ok v" using Cons.prems(2) nv by auto
  then have "fill (nv # vs) (template ps) = concat (map (filled vs) (map (put_value n v) ps))"
    using Cons.IH[OF put_ok[OF Cons.prems(1)]] Cons.prems by (simp add: nv fill1_template)
  then show ?case by (simp add: nv filled_put comp_def)
qed

section \<open>The templates\<close>

text \<open>The strings of the code, written as the texts and places they are made of. Two templates are written over
  after they are set: the first ones are the definitions that end in \<open>_replaced\<close>.\<close>

definition blogTpl :: jstr where
  [js_eval]: \<open>blogTpl = template
    [Lit (js ''<dl class="blog-ass-articl tracking-ad" data-mod="''),
     Hole 0,
     Lit (js ''"><dt><span>'' @ [20934, 22791, 22909, 20102, 20040, 65311] @
    js ''&nbsp;<label class="po_blg_detail_tiao">'' @ [36339] @
    js ''</label><label class="po_blg_detail_ba">'' @ [21543] @
    js ''</label><label class="po_blg_detail_th">&nbsp;&nbsp;&nbsp;&nbsp;&nbsp;&nbsp;&nbsp;&nbsp;&nbsp;&n'' @
    js ''bsp;&nbsp;&nbsp;&nbsp;'' @ [65281] @ js ''</label></span><a href="''),
     Hole 1,
     Lit (js ''" target="_blank" class="po_blg_more">'' @ [26356, 22810, 32844, 20301, 23613, 22312] @
    js ''&nbsp;<label class="po_blg_detail_csdn">CSDN JOB</label></a></dt>''),
     Hole 2,
     Lit (js ''</dl>'')]\<close>

definition blogItem :: jstr where
  [js_eval]: \<open>blogItem = template
    [Lit (js ''<dd class="po_blg_dd"><div class="po_blg_po"><a href="''),
     Hole 0,
     Lit (js ''" title="''),
     Hole 1,
     Lit (js ''" strategy="''),
     Hole 8,
     Lit (js ''" target="_blank">''),
     Hole 2,
     Lit (js ''</a></div><div class="po_blg_company"><a href="''),
     Hole 3,
     Lit (js ''" title="''),
     Hole 4,
     Lit (js ''" target="_blank">''),
     Hole 5,
     Lit (js ''</a></div><label class="po_blg_separator">|</label><div class="po_blg_salary"><a href="''),
     Hole 6,
     Lit (js ''" target="_blank">''),
     Hole 7,
     Lit (js ''</a></div><a class="po_blg_iwant" href="''),
     Hole 9,
     Lit (js ''" target="_blank">'' @ [25105, 35201, 36339, 27133] @ js ''</a></dd>'')]\<close>

definition blogSpecTpl :: jstr where
  [js_eval]: \<open>blogSpecTpl = template
    [Lit (js ''<div class="box_1 tracking-ad" data-mod="''),
     Hole 0,
     Lit (js ''"><div style="position: relative;"><h2>'' @ [20934, 22791, 22909, 20102, 20040, 65311] @
    js ''&nbsp;<label class="po_blg_detail_tiao">'' @ [36339] @
    js ''</label><label class="po_blg_detail_ba">'' @ [21543] @
    js ''</label><label>&nbsp;&nbsp;&nbsp;&nbsp;&nbsp;&nbsp;&nbsp;&nbsp;&nbsp;&nbsp;&nbsp;&nbsp;'' @
    [65281] @ js ''</label></h2></div><ul class="list_comm">''),
     Hole 2,
     Lit (js ''</ul><div class="po_blg_spec_more_div"><a href="''),
     Hole 1,
     Lit (js ''" target="_blank" class="po_blg_spec_more">'' @ [26356, 22810, 32844, 20301, 23613, 22312] @
    js ''&nbsp;<label class="po_blg_spec_csdn">CSDN JOB</label></a></div></div>'')]\<close>

definition blogSpecItem :: jstr where
  [js_eval]: \<open>blogSpecItem = template
    [Lit (js ''<li><div class="po_blg_spec_po"><a href="''),
     Hole 0,
     Lit (js ''" title="''),
     Hole 1,
     Lit (js ''" strategy="''),
     Hole 8,
     Lit (js ''" target="_blank">''),
     Hole 2,
     Lit (js ''</a></div><div class="po_blg_spec_company"><a href="''),
     Hole 3,
     Lit (js ''" title="''),
     Hole 4,
     Lit (js ''" target="_blank">''),
     Hole 5,
     Lit (js ''</a></div><div class="po_blg_spec_salary"><a href="''),
     Hole 6,
     Lit (js ''" target="_blank">''),
     Hole 7,
     Lit (js ''</a></div><div><a class="po_blg_spec_iwant" href="''),
     Hole 9,
     Lit (js ''" target="_blank">'' @ [25105, 35201, 36339, 27133] @ js ''</a></div></li>'')]\<close>

definition bbsTpl :: jstr where
  [js_eval]: \<open>bbsTpl = template
    [Lit (js ''<div id="topic-suggest" class="po_bbs_div tracking-ad" data-mod="''),
     Hole 0,
     Lit (js ''"><div class="related-tags po_bbs_tit_div"><span>'' @
    [20934, 22791, 22909, 20102, 20040, 65311] @ js ''&nbsp;<label class="po_blg_detail_tiao">'' @
    [36339] @ js ''</label><label class="po_blg_detail_ba">'' @ [21543] @
    js ''</label><label>&nbsp;&nbsp;&nbsp;&nbsp;&nbsp;&nbsp;&nbsp;&nbsp;&nbsp;&nbsp;&nbsp;&nbsp;'' @
    [65281] @ js ''</label></span><a class="po_bbs_more" href="''),
     Hole 1,
     Lit (js ''" target="_blank">'' @ [26356, 22810, 32844, 20301, 23613, 22312] @
    js ''&nbsp;<label class="po_bbs_csdn">CSDN JOB</label></a></div><div class="related-topics po_bbs_ite'' @
    js ''m_div"><ul>''),
     Hole 2,
     Lit (js ''</ul></div>'')]\<close>

definition bbsItem :: jstr where
  [js_eval]: \<open>bbsItem = template
    [Lit (js ''<li class="po_bbs_li"><div class="po_bbs_po"><a href="''),
     Hole 0,
     Lit (js ''" title="''),
     Hole 1,
     Lit (js ''" strategy="''),
     Hole 8,
     Lit (js ''" target="_blank">''),
     Hole 2,
     Lit (js ''</a></div><div class="po_bbs_company"><a href="''),
     Hole 3,
     Lit (js ''" title="''),
     Hole 4,
     Lit (js ''" target="_blank">''),
     Hole 5,
     Lit (js ''</a></div><label class="po_bbs_separator">|</label><div class="po_bbs_salary"><a href="''),
     Hole 6,
     Lit (js ''" target="_blank">''),
     Hole 7,
     Lit (js ''</a></div><div><a class="po_bbs_iwant" href="''),
     Hole 9,
     Lit (js ''" target="_blank">'' @ [25105, 35201, 36339, 27133] @ js ''</a></div></li>'')]\<close>

definition askTpl :: jstr where
  [js_eval]: \<open>askTpl = template
    [Lit (js ''<div class="mod_other_ask hot_tags po_ask_div tracking-ad" data-mod="''),
     Hole 0,
     Lit (js ''"><div class="other_ask"><h3><span>'' @ [20934, 22791, 22909, 20102, 20040, 65311] @
    js ''&nbsp;<label class="po_ask_tiao">'' @ [36339] @ js ''</label><label class="po_ask_ba">'' @
    [21543] @ js ''</label><label class="po_blg_detail_th">'' @ [65281] @
    js ''</label></span></h3><div class="po_ask_div_list">''),
     Hole 2,
     Lit (js ''</div><div class="po_ask_more_div"><a href="''),
     Hole 1,
     Lit (js ''" target="_blank" class="po_ask_more">'' @ [26356, 22810, 32844, 20301, 23613, 22312] @
    js ''&nbsp;<label class="po_my_home_csdn">CSDN JOB</label></a></div></div></div>'')]\<close>

definition askItem :: jstr where
  [js_eval]: \<open>askItem = template
    [Lit (js ''<div class="po_ask_item_div"><div class="po_ask_po"><a href="''),
     Hole 0,
     Lit (js ''" title="''),
     Hole 1,
     Lit (js ''" strategy="''),
     Hole 8,
     Lit (js ''" target="_blank">''),
     Hole 2,
     Lit (js ''</a></div><div class="po_ask_salary"><a href="''),
     Hole 6,
     Lit (js ''" target="_blank">''),
     Hole 7,
     Lit (js ''</a></div><div class="po_ask_company"><a href="''),
     Hole 3,
     Lit (js ''" title="''),
     Hole 4,
     Lit (js ''" target="_blank">''),
     Hole 5,
     Lit (js ''</a></div><a class="po_ask_iwant" href="''),
     Hole 9,
     Lit (js ''" target="_blank">'' @ [25105, 35201, 36339, 27133] @ js ''</a></div>'')]\<close>

definition perSpaceHomeTpl :: jstr where
  [js_eval]: \<open>perSpaceHomeTpl = template
    [Lit (js ''<div class="phr_third clearfix tracking-ad" data-mod="''),
     Hole 0,
     Lit (js ''"><div class="phr_third_tit po_my_home_tit"><div class="phrt_t po_my_home_t">'' @
    [20934, 22791, 22909, 20102, 20040, 65311] @ js ''&nbsp;<label class="po_my_my_tiao">'' @ [36339] @
    js ''</label><label class="po_my_my_ba">'' @ [21543] @
    js ''</label><label class="po_blg_detail_th">&nbsp;&nbsp;&nbsp;&nbsp;&nbsp;&nbsp;&nbsp;&nbsp;&nbsp;'' @
    [65281] @ js ''</label></div></div><div class="phr_third_con po_my_home_div">''),
     Hole 2,
     Lit (js ''</div><div class="po_my_home_more"><a href="''),
     Hole 1,
     Lit (js ''" target="_blank" class="po_my_home_more">'' @ [26356, 22810, 32844, 20301, 23613, 22312] @
    js ''&nbsp;<label class="po_my_home_csdn">CSDN JOB</label></a></div></div>'')]\<close>

definition perSpaceHomeItem :: jstr where
  [js_eval]: \<open>perSpaceHomeItem = template
    [Lit (js ''<div class="po_my_home_item_div clearfix"><div class="po_my_home_po"><a href="''),
     Hole 0,
     Lit (js ''" title="''),
     Hole 1,
     Lit (js ''" strategy="''),
     Hole 8,
     Lit (js ''" target="_blank">''),
     Hole 2,
     Lit (js ''</a></div><div class="po_my_home_salary"><a href="''),
     Hole 6,
     Lit (js ''" target="_blank">''),
     Hole 7,
     Lit (js ''</a></div><div class="po_my_home_company"><a href="''),
     Hole 3,
     Lit (js ''" title="''),
     Hole 4,
     Lit (js ''" target="_blank">''),
     Hole 5,
     Lit (js ''</a></div><a class="po_my_home_iwant" href="''),
     Hole 9,
     Lit (js ''" target="_blank">'' @ [25105, 35201, 36339, 27133] @ js ''</a></div>'')]\<close>

definition perSpaceMyTpl :: jstr where
  [js_eval]: \<open>perSpaceMyTpl = template
    [Lit (js ''<div class="interested_con tracking-ad" data-mod="''),
     Hole 0,
     Lit (js ''" style="display: block;"><h3 class="po_my_my_h3">'' @
    [20934, 22791, 22909, 20102, 20040, 65311] @ js ''&nbsp;<label class="po_my_my_tiao">'' @ [36339] @
    js ''</label><label class="po_my_my_ba">'' @ [21543] @
    js ''</label><label class="po_blg_detail_th">&nbsp;&nbsp;&nbsp;&nbsp;&nbsp;&nbsp;&nbsp;&nbsp;&nbsp;'' @
    [65281] @ js ''</label></h3>''),
     Hole 2,
     Lit (js ''<div class="po_my_my_more_div"><a href="''),
     Hole 1,
     Lit (js ''" target="_blank" class="po_my_my_more">'' @ [26356, 22810, 32844, 20301, 23613, 22312] @
    js ''&nbsp;<label class="po_my_my_csdn">CSDN JOB</label></a></div></div>'')]\<close>

definition perSpaceMyItem :: jstr where
  [js_eval]: \<open>perSpaceMyItem = template
    [Lit (js ''<div class="po_my_my_item_div"><div class="po_my_my_po"><a class="po_my_my_po_a" href="''),
     Hole 0,
     Lit (js ''" title="''),
     Hole 1,
     Lit (js ''" strategy="''),
     Hole 8,
     Lit (js ''" target="_blank">''),
     Hole 2,
     Lit (js ''</a></div><div class="po_my_my_salary"><a href="''),
     Hole 6,
     Lit (js ''" target="_blank">''),
     Hole 7,
     Lit (js ''</a></div><div class="po_my_my_company"><a href="''),
     Hole 3,
     Lit (js ''" title="''),
     Hole 4,
     Lit (js ''" target="_blank">''),
     Hole 5,
     Lit (js ''</a></div><a class="po_my_my_iwant" href="''),
     Hole 9,
     Lit (js ''" target="_blank">'' @ [25105, 35201, 36339, 27133] @ js ''</a></div>'')]\<close>

definition heroHomeTpl :: jstr where
  [js_eval]: \<open>heroHomeTpl = template
    [Lit (js ''<div class="her_topic_right tracking-ad" data-mod="''),
     Hole 0,
     Lit (js ''"><h3 class="haping_t">'' @ [20934, 22791, 22909, 20102, 20040, 65311] @
    js ''&nbsp;<span class="po_yx_home_tiao">'' @ [36339] @
    js ''</span><span class="po_yx_home_ba">'' @ [21543] @
    js ''</span><span>&nbsp;&nbsp;&nbsp;&nbsp;&nbsp;&nbsp;&nbsp;&nbsp;'' @ [65281] @ js ''</span></h3>''),
     Hole 2,
     Lit (js ''<div class="po_yx_home_more_div"><a href="''),
     Hole 1,
     Lit (js ''" target="_blank" class="po_yx_home_more">'' @ [26356, 22810, 32844, 20301, 23613, 22312] @
    js ''&nbsp;<label class="po_yx_home_csdn">CSDN JOB</label></a></div></div>'')]\<close>

definition heroHomeItem :: jstr where
  [js_eval]: \<open>heroHomeItem = template
    [Lit (js ''<div class="her_platform po_yx_home_item_div"><div class="po_yx_home_po"><a href="''),
     Hole 0,
     Lit (js ''" title="''),
     Hole 1,
     Lit (js ''" strategy="''),
     Hole 8,
     Lit (js ''" target="_blank">''),
     Hole 2,
     Lit (js ''</a></div><div class="po_yx_home_salary"><a href="''),
     Hole 6,
     Lit (js ''" target="_blank">''),
     Hole 7,
     Lit (js ''</a></div><div class="po_yx_home_company"><a href="''),
     Hole 3,
     Lit (js ''" title="''),
     Hole 4,
     Lit (js ''" target="_blank">''),
     Hole 5,
     Lit (js ''</a></div><a class="po_yx_home_iwant" href="''),
     Hole 9,
     Lit (js ''" target="_blank">'' @ [25105, 35201, 36339, 27133] @ js ''</a></div>'')]\<close>

definition heroExpertTpl :: jstr where
  [js_eval]: \<open>heroExpertTpl = template
    [Lit (js ''<div class="her-r-expli po_yx_ex_div tracking-ad" data-mod="''),
     Hole 0,
     Lit (js ''"><h3 class="tit"><span class="po_yx_ex_tit">'' @ [20934, 22791, 22909, 20102, 20040, 65311] @
    js ''&nbsp;</span><label class="po_yx_home_tiao px_yx_ex_tiao">'' @ [36339] @
    js ''</label><label class="po_yx_home_ba px_yx_ex_ba">'' @ [21543] @
    js ''</label><span class="po_yx_ex_tit">&nbsp;&nbsp;&nbsp;&nbsp;&nbsp;&nbsp;&nbsp;&nbsp;&nbsp;&nbsp;'' @
    [65281] @ js ''</span></h3>''),
     Hole 2,
     Lit (js ''<div class="po_yx_ex_more_div"><a href="''),
     Hole 1,
     Lit (js ''" target="_blank" class="po_yx_ex_more">'' @ [26356, 22810, 32844, 20301, 23613, 22312] @
    js ''&nbsp;<label class="po_yx_ex_csdn">CSDN JOB</label></a></div></div>'')]\<close>

definition heroExpertItem :: jstr where
  [js_eval]: \<open>heroExpertItem = template
    [Lit (js ''<dl class="her-r-explicon po_yx_ex_po_item_div"><dt class="po_yx_ex_po"><a href="''),
     Hole 0,
     Lit (js ''" title="''),
     Hole 1,
     Lit (js ''" strategy="''),
     Hole 8,
     Lit (js ''" target="_blank">''),
     Hole 2,
     Lit (js ''</a></dt><dd class="po_yx_ex_salary"><a href="''),
     Hole 6,
     Lit (js ''" target="_blank">''),
     Hole 7,
     Lit (js ''</a></dd><dd class="py_yx_ex_company"><a href="''),
     Hole 3,
     Lit (js ''" title="''),
     Hole 4,
     Lit (js ''" target="_blank">''),
     Hole 5,
     Lit (js ''</a></dd><a class="po_yx_ex_iwant" href="''),
     Hole 9,
     Lit (js ''" target="_blank">'' @ [25105, 35201, 36339, 27133] @ js ''</a></dl>'')]\<close>

definition heroFightDetailTpl_replaced :: jstr where
  [js_eval]: \<open>heroFightDetailTpl_replaced = template
    [Lit (js ''<div class="her_format_right py_yx_fd_div tracking-ad" data-mod="''),
     Hole 0,
     Lit (js ''"><h3 class="po_yx_fd_tit"><span>'' @ [20934, 22791, 22909, 20102, 20040, 65311] @
    js ''&nbsp;</span><label class="po_yx_home_tiao">'' @ [36339] @
    js ''</label><label class="po_yx_home_ba">'' @ [21543] @
    js ''</label><span>&nbsp;&nbsp;&nbsp;&nbsp;&nbsp;&nbsp;&nbsp;&nbsp;&nbsp;&nbsp;'' @ [65281] @
    js ''</span></h3>''),
     Hole 2,
     Lit (js ''<div class="po_yx_fd_more_div"><a href="''),
     Hole 1,
     Lit (js ''" target="_blank" class="po_yx_fd_more">'' @ [26356, 22810, 32844, 20301, 23613, 22312] @
    js ''&nbsp;<label class="po_yx_fd_csdn">CSDN JOB</label></a></div></div>'')]\<close>

definition heroFightDetailItem_replaced :: jstr where
  [js_eval]: \<open>heroFightDetailItem_replaced = template
    [Lit (js ''<div class="po_yx_fd_item_div"><div class="po_yx_fd_po"><a href="''),
     Hole 0,
     Lit (js ''" title="''),
     Hole 1,
     Lit (js ''" strategy="''),
     Hole 8,
     Lit (js ''" target="_blank">''),
     Hole 2,
     Lit (js ''</a></div><div class="po_yx_fd_company"><a href="''),
     Hole 3,
     Lit (js ''" title="''),
     Hole 4,
     Lit (js ''" target="_blank">''),
     Hole 5,
     Lit (js ''</a></div><div class="po_yx_fd_salary"><a href="''),
     Hole 6,
     Lit (js ''" target="_blank">''),
     Hole 7,
     Lit (js ''</a></div><div><a class="po_yx_fd_iwant" href="''),
     Hole 9,
     Lit (js ''" target="_blank">'' @ [25105, 35201, 36339, 27133] @ js ''</a></div></div>'')]\<close>

definition heroMyTpl :: jstr where
  [js_eval]: \<open>heroMyTpl = template
    [Lit (js ''<div class="her-resultli po_yx_my_div tracking-ad" data-mod="''),
     Hole 0,
     Lit (js ''"><h3><span>'' @ [20934, 22791, 22909, 20102, 20040, 65311] @
    js ''&nbsp;</span><label class="po_yx_home_tiao">'' @ [36339] @
    js ''</label><label class="po_yx_home_ba">'' @ [21543] @
    js ''</label><span>&nbsp;&nbsp;&nbsp;&nbsp;&nbsp;&nbsp;&nbsp;&nbsp;&nbsp;&nbsp;'' @ [65281] @
    js ''</span><a href="''),
     Hole 1,
     Lit (js ''" target="_blank" class="po_yx_my_more">'' @ [26356, 22810, 32844, 20301, 23613, 22312] @
    js ''&nbsp;<label class="po_yx_my_csdn">CSDN JOB</label></a></h3>''),
     Hole 2,
     Lit (js ''</div>'')]\<close>

definition heroMyItem :: jstr where
  [js_eval]: \<open>heroMyItem = template
    [Lit (js ''<div class="po_yx_my_item_div"><div class="po_yx_my_item_dot">'' @ [9642] @
    js ''</div><div class="po_yx_my_item_cont"><div class="po_yx_my_po"><a href="''),
     Hole 0,
     Lit (js ''" title="''),
     Hole 1,
     Lit (js ''" strategy="''),
     Hole 8,
     Lit (js ''" target="_blank">''),
     Hole 2,
     Lit (js ''</a></div><div class="po_yx_my_company"><a href="''),
     Hole 3,
     Lit (js ''" title="''),
     Hole 4,
     Lit (js ''" target="_blank">''),
     Hole 5,
     Lit (js ''</a></div><label class="po_yx_my_separator">|</label><div class="po_yx_my_salary"><a href="''),
     Hole 6,
     Lit (js ''" target="_blank">''),
     Hole 7,
     Lit (js ''</a></div></div><a class="po_yx_my_iwant" href="''),
     Hole 9,
     Lit (js ''" target="_blank">'' @ [25105, 35201, 36339, 27133] @ js ''</a></div>'')]\<close>

definition heroFightDetailTpl :: jstr where
  [js_eval]: "heroFightDetailTpl = heroMyTpl"

definition heroFightDetailItem :: jstr where
  [js_eval]: "heroFightDetailItem = heroMyItem"

definition eduDetailTpl :: jstr where
  [js_eval]: \<open>eduDetailTpl = template
    [Lit (js ''<div class="boutique-curr-box tracking-ad" data-mod="''),
     Hole 0,
     Lit (js ''"><div class="boutique-curr"><h3>'' @ [20934, 22791, 22909, 20102, 20040, 65311] @
    js ''&nbsp;<label class="po_my_my_tiao">'' @ [36339] @ js ''</label><label class="po_my_my_ba">'' @
    [21543] @ js ''</label><label class="po_blg_detail_th">&nbsp;&nbsp;&nbsp;&nbsp;&nbsp;'' @ [65281] @
    js ''</label></h3><div class="cutt-column">''),
     Hole 2,
     Lit (js ''<div class="po_edu_detail_more_div"><a href="''),
     Hole 1,
     Lit (js ''" target="_blank" class="po_edu_detail_more">'' @ [26356, 22810, 32844, 20301, 23613, 22312] @
    js ''&nbsp;<label class="po_edu_detail_csdn">CSDN JOB</label></a></div></div></div></div>'')]\<close>

definition eduDetailItem :: jstr where
  [js_eval]: \<open>eduDetailItem = template
    [Lit (js ''<div class="po_edu_detail_item_div clearfix"><div class="po_edu_detail_po"><a href="''),
     Hole 0,
     Lit (js ''" title="''),
     Hole 1,
     Lit (js ''" strategy="''),
     Hole 8,
     Lit (js ''" target="_blank">''),
     Hole 2,
     Lit (js ''<a></div><div class="po_edu_detail_salary"><a href="''),
     Hole 6,
     Lit (js ''" target="_blank">''),
     Hole 7,
     Lit (js ''</a></div><div class="po_edu_detail_company"><a href="''),
     Hole 3,
     Lit (js ''" title="''),
     Hole 4,
     Lit (js ''" target="_blank">''),
     Hole 5,
     Lit (js ''</a></div><a class="po_edu_detail_iwant" href="''),
     Hole 9,
     Lit (js ''" target="_blank">'' @ [25105, 35201, 36339, 27133] @ js ''</a></div>'')]\<close>

definition eduListTpl :: jstr where
  [js_eval]: "eduListTpl = eduDetailTpl"

definition eduListItem :: jstr where
  [js_eval]: "eduListItem = eduDetailItem"

definition search_reco_edu :: jstr where
  [js_eval]: \<open>search_reco_edu = template
    [Lit (js ''<div class="common-box tracking-ad" data-mod="popu_84" style="display: block;"><h3 id="job-pos-t'' @
    js ''itle" class="po_search_tit">'' @ [31934, 21697, 35838, 31243] @
    js ''<a class="class-edu-more" href="http://edu.csdn.net">'' @ [26356, 22810] @
    js ''</a></h3><div class="po_search_div">''),
     Hole 0,
     Lit (js ''</div></div>'')]\<close>

definition search_reco_edu_item :: jstr where
  [js_eval]: \<open>search_reco_edu_item = template
    [Lit (js ''<div class="po_search_item_div"><div class="class-img-box"><a href="''),
     Hole 0,
     Lit (js ''" target="_blank" strategy="''),
     Hole 7,
     Lit (js ''"><img src="''),
     Hole 1,
     Lit (js ''"></a></div><div class="class-content-box"><div class="class-content-tit"><a href="''),
     Hole 2,
     Lit (js ''" target="_blank" title="''),
     Hole 3,
     Lit (js ''" strategy="''),
     Hole 8,
     Lit (js ''">''),
     Hole 4,
     Lit (js ''</a></div><div class="class-content-hp">'' @ [22909, 35780, 29575, 65306] @ js ''<a href="''),
     Hole 9,
     Lit (js ''" class="class-content-hp-hpl">''),
     Hole 5,
     Lit (js ''%</a>  <span class="class-content-hp-rzx"><i class="class-content-icon">&nbsp;</i><a href="''),
     Hole 10,
     Lit (js ''" class="class-content-icon-rdx">''),
     Hole 6,
     Lit (js ''</a>'' @ [20154, 22312, 23398] @ js ''</span></div></div></div>'')]\<close>

definition blog_reco_edu :: jstr where
  [js_eval]: \<open>blog_reco_edu = template
    [Lit (js ''<div class="tracking-ad" data-mod="popu_84">''),
     Hole 0,
     Lit (js ''</div>'')]\<close>

definition blog_reco_edu_item :: jstr where
  [js_eval]: \<open>blog_reco_edu_item = template
    [Lit (js ''<dd style="background:url(http://static.blog.csdn.net/skin/default/images/blog-dot-red3.gif) no-'' @
    js ''repeat 0 10px; white-space: nowrap;"><a href="''),
     Hole 0,
     Lit (js ''" title="''),
     Hole 1,
     Lit (js ''" strategy="''),
     Hole 3,
     Lit (js ''" target="_blank">''),
     Hole 2,
     Lit (js ''</a></dd>'')]\<close>

definition down_reco_edu :: jstr where
  [js_eval]: \<open>down_reco_edu = template
    [Lit (js ''<div class="section-list panel panel-default tracking-ad" data-mod="popu_84"><div class="panel-h'' @
    js ''eading po_down_detail_tit_div"><h3 class="panel-title po_down_detail_tit">'' @
    [30456, 20851, 35838, 31243] @ js ''</h3></div><div class="panel-body"><ul class="down_edu_t">''),
     Hole 0,
     Lit (js ''</ul></div></div>'')]\<close>

definition down_reco_edu_item :: jstr where
  [js_eval]: \<open>down_reco_edu_item = template
    [Lit (js ''  <li style="line-height: 25px;display:block;margin-bottom: 9px;margin-top: 9px;padding-top: 0px'' @
    js '';"><div style="padding:0;margin:0;border:0;text-overflow: ellipsis;overflow: hidden;"><a href="''),
     Hole 0,
     Lit (js ''" title="''),
     Hole 1,
     Lit (js ''" alt="" target="_blank" strategy="''),
     Hole 3,
     Lit (js ''">''),
     Hole 2,
     Lit (js ''</a></div></li>'')]\<close>

definition edu_detail_url_base :: jstr where
  [js_eval]: \<open>edu_detail_url_base = (js ''http://edu.csdn.net/course/detail/'')\<close>

definition searchTpl :: jstr where
  [js_eval]: \<open>searchTpl = template
    [Lit (js ''<div class="common-box tracking-ad" data-mod="''),
     Hole 0,
     Lit (js ''" style="display: block;"><h3 id="job-pos-title" class="po_search_tit">'' @
    [20934, 22791, 22909, 20102, 20040, 65311] @ js ''&nbsp;<span class="po_blg_detail_tiao">'' @
    [36339] @ js ''</span><span class="po_blg_detail_ba">'' @ [21543] @
    js ''</span><span>&nbsp;&nbsp;&nbsp;&nbsp;&nbsp;&nbsp;&nbsp;&nbsp;'' @ [65281] @
    js ''</span></h3><div class="po_search_div">''),
     Hole 2,
     Lit (js ''<div class="po_search_more_div"><a href="''),
     Hole 1,
     Lit (js ''" target="_blank" class="po_search_more">'' @ [26356, 22810, 32844, 20301, 23613, 22312] @
    js ''&nbsp;<label class="po_search_csdn">CSDN JOB</label></a></div></div></div>'')]\<close>

definition searchItem :: jstr where
  [js_eval]: \<open>searchItem = template
    [Lit (js ''<div class="po_search_item_div"><div class="po_search_po_div"><a href="''),
     Hole 0,
     Lit (js ''" title="''),
     Hole 1,
     Lit (js ''" strategy="''),
     Hole 8,
     Lit (js ''" target="_blank">''),
     Hole 2,
     Lit (js ''</a></div><div class="po_search_salary_div"><a href="''),
     Hole 6,
     Lit (js ''" target="_blank">''),
     Hole 7,
     Lit (js ''</a></div><div class="po_search_company_div"><a href="''),
     Hole 3,
     Lit (js ''" title="''),
     Hole 4,
     Lit (js ''" target="_blank">''),
     Hole 5,
     Lit (js ''</a></div><a class="po_search_iwant" href="''),
     Hole 9,
     Lit (js ''" target="_blank">'' @ [25105, 35201, 36339, 27133] @ js ''</a></div>'')]\<close>

definition downMyTpl :: jstr where
  [js_eval]: \<open>downMyTpl = template
    [Lit (js ''<div id="my-tags-side" class="panel panel-default tracking-ad" data-mod="''),
     Hole 0,
     Lit (js ''"><div class="panel-heading po_downmy_div"><h3 class="panel-title">'' @
    [20934, 22791, 22909, 20102, 20040, 65311] @ js ''&nbsp;<span class="po_blg_detail_tiao">'' @
    [36339] @ js ''</span><span class="po_blg_detail_ba">'' @ [21543] @
    js ''</span><span class="po_blg_detail_th">&nbsp;&nbsp;&nbsp;&nbsp;&nbsp;&nbsp;&nbsp;&nbsp;&nbsp;&nbs'' @
    js ''p;&nbsp;'' @ [65281] @ js ''</span></h3></div><div>''),
     Hole 2,
     Lit (js ''</div><div class="po_downmy_more_div"><a href="''),
     Hole 1,
     Lit (js ''" target="_blank" class="po_downmy_more">'' @ [26356, 22810, 32844, 20301, 23613, 22312] @
    js ''&nbsp;<label class="po_downmy_csdn">CSDN JOB</label></a></div></div>'')]\<close>

definition downMyItem :: jstr where
  [js_eval]: \<open>downMyItem = template
    [Lit (js ''<div class="po_downmy_item_div"><div class="po_downmy_po_div"><a href="''),
     Hole 0,
     Lit (js ''" title="''),
     Hole 1,
     Lit (js ''" strategy="''),
     Hole 8,
     Lit (js ''" target="_blank">''),
     Hole 2,
     Lit (js ''</a></div><div class="po_downmy_company_div"><a href="''),
     Hole 3,
     Lit (js ''" title="''),
     Hole 4,
     Lit (js ''" target="_blank">''),
     Hole 5,
     Lit (js ''</a></div><div class="po_downmy_salary_div"><a href="''),
     Hole 6,
     Lit (js ''">''),
     Hole 7,
     Lit (js ''</a></div><a class="po_downmy_iwant" href="''),
     Hole 9,
     Lit (js ''" target="_blank">'' @ [25105, 35201, 36339, 27133] @ js ''</a></div>'')]\<close>

definition downDetailTpl :: jstr where
  [js_eval]: \<open>downDetailTpl = template
    [Lit (js ''<div class="related po_down_detail_big_div tracking-ad" data-mod="''),
     Hole 0,
     Lit (js ''"><div><div class="section-list panel panel-default"><div class="panel-heading po_down_detail_ti'' @
    js ''t_div"><h3 class="panel-title po_down_detail_tit">'' @
    [20934, 22791, 22909, 20102, 20040, 65311] @ js ''&nbsp;<span class="po_blg_detail_tiao">'' @
    [36339] @ js ''</span><span class="po_blg_detail_ba">'' @ [21543] @
    js ''</span><span class="po_blg_detail_th">&nbsp;&nbsp;&nbsp;&nbsp;&nbsp;&nbsp;&nbsp;&nbsp;&nbsp;&nbs'' @
    js ''p;&nbsp;&nbsp;&nbsp;'' @ [65281] @ js ''</span></h3><a class="po_downdetail_more" href="''),
     Hole 1,
     Lit (js ''" target="_blank">'' @ [26356, 22810, 32844, 20301, 23613, 22312] @
    js ''&nbsp;<label class="po_dwondetail_csdn">CSDN JOB</label></a></div>''),
     Hole 2,
     Lit (js ''</div></div></div>'')]\<close>

definition downDetailItem :: jstr where
  [js_eval]: \<open>downDetailItem = template
    [Lit (js ''<div class="panel-body po_down_detail_item_div"><ul><li><div class="po_down_detail_left"><a clas'' @
    js ''s="con" href="''),
     Hole 0,
     Lit (js ''" title="''),
     Hole 1,
     Lit (js ''" target="_blank">'' @ [12304]),
     Hole 7,
     Lit ([12305]),
     Hole 2,
     Lit (js ''</a></div><div class="po_down_detail_right"><a class="po_downdetail_iwant" href="http://job.csdn'' @
    js ''.net/Job/Index?jobID=81328" target="_blank">'' @ [25105, 35201, 36339, 27133] @
    js ''</a></div></li></ul></div>'')]\<close>

definition cstoCaseListTpl :: jstr where
  [js_eval]: \<open>cstoCaseListTpl = template
    [Lit (js ''<div class="contbox tracking-ad" data-mod="''),
     Hole 0,
     Lit (js ''"><h3 class="po_csto_caselist_tit"><span>'' @ [20934, 22791, 22909, 20102, 20040, 65311] @
    js ''&nbsp;</span><span class="po_my_my_tiao">'' @ [36339] @
    js ''</span><span class="po_my_my_ba">'' @ [21543] @
    js ''</span><span class="po_blg_detail_th">&nbsp;&nbsp;&nbsp;&nbsp;&nbsp;&nbsp;&nbsp;&nbsp;&nbsp;&nbs'' @
    js ''p;&nbsp;&nbsp;'' @ [65281] @ js ''</span></h3><div class="po_caselist_div">''),
     Hole 2,
     Lit (js ''<div class="po_caselist_more_div"><a href="''),
     Hole 1,
     Lit (js ''" target="_blank" class="po_caselist_more">'' @ [26356, 22810, 32844, 20301, 23613, 22312] @
    js ''&nbsp;<label class="po_caselist_csdn">CSDN JOB</label></a></div></div></div>'')]\<close>

definition cstoCaseListItem :: jstr where
  [js_eval]: \<open>cstoCaseListItem = template
    [Lit (js ''<div class="po_caselist_item_div"><div class="po_caselist_po_div"><a href="''),
     Hole 0,
     Lit (js ''" title="''),
     Hole 1,
     Lit (js ''" strategy="''),
     Hole 8,
     Lit (js ''" target="_blank">''),
     Hole 2,
     Lit (js ''</a></div><div class="po_caselist_salary_div"><a href="''),
     Hole 6,
     Lit (js ''" target="_blank">''),
     Hole 7,
     Lit (js ''</a></div><div class="po_caselist_company_div"><a href="''),
     Hole 3,
     Lit (js ''" title="''),
     Hole 4,
     Lit (js ''" target="_blank">''),
     Hole 5,
     Lit (js ''</a></div><a class="po_caselist_iwant" href="''),
     Hole 9,
     Lit (js ''" target="_blank">'' @ [25105, 35201, 36339, 27133] @ js ''</a></div>'')]\<close>

definition cstoCaseDetailTpl :: jstr where
  [js_eval]: \<open>cstoCaseDetailTpl = template
    [Lit (js ''<ul class="case_list po_case_detail_div tracking-ad" data-mod="''),
     Hole 0,
     Lit (js ''"><h3 class="po_csto_casedetail_tit"><span>'' @ [20934, 22791, 22909, 20102, 20040, 65311] @
    js ''&nbsp;</span><span class="po_my_my_tiao">'' @ [36339] @
    js ''</span><span class="po_my_my_ba">'' @ [21543] @
    js ''</span><span class="po_blg_detail_th">&nbsp;&nbsp;&nbsp;&nbsp;&nbsp;&nbsp;&nbsp;&nbsp;&nbsp;&nbs'' @
    js ''p;&nbsp;&nbsp;'' @ [65281] @ js ''</span></h3><div class="po_casedetail_div">''),
     Hole 2,
     Lit (js ''<div class="po_casedetail_more_div"><a href="''),
     Hole 1,
     Lit (js ''" target="_blank" class="po_casedetail_more">'' @ [26356, 22810, 32844, 20301, 23613, 22312] @
    js ''&nbsp;<label class="po_casedetail_csdn">CSDN JOB</label></a></div></div></ul>'')]\<close>

definition cstoCaseDetailItem :: jstr where
  [js_eval]: \<open>cstoCaseDetailItem = template
    [Lit (js ''<div class="po_casedetail_item_div clearfix"><div class="po_casedetail_po_div"><a href="''),
     Hole 0,
     Lit (js ''" title="''),
     Hole 1,
     Lit (js ''" strategy="''),
     Hole 8,
     Lit (js ''" target="_blank">''),
     Hole 2,
     Lit (js ''</a></div><div class="po_casedetail_company_div"><a href="''),
     Hole 3,
     Lit (js ''" title="''),
     Hole 4,
     Lit (js ''" target="_blank">''),
     Hole 5,
     Lit (js ''</a></div><div class="po_casedetail_salary_div"><a href="''),
     Hole 6,
     Lit (js ''" target="_blank">''),
     Hole 7,
     Lit (js ''</a></div><a class="po_casedetail_iwant" href="''),
     Hole 9,
     Lit (js ''" target="_blank">'' @ [25105, 35201, 36339, 27133] @ js ''</a></div>'')]\<close>

definition cstoMyTpl :: jstr where
  [js_eval]: \<open>cstoMyTpl = template
    [Lit (js ''<ul class="menu tracking-ad" data-mod="''),
     Hole 0,
     Lit (js ''"><li class="icon selected po_csto_my_big_div"><h3 class="po_csto_my_tit"><span>'' @
    [20934, 22791, 22909, 20102, 20040, 65311] @ js ''&nbsp;</span><span class="po_my_my_tiao">'' @
    [36339] @ js ''</span><span class="po_my_my_ba">'' @ [21543] @
    js ''</span><span class="po_blg_detail_th">&nbsp;&nbsp;&nbsp;&nbsp;&nbsp;&nbsp;&nbsp;&nbsp;&nbsp;&nbs'' @
    js ''p;&nbsp;&nbsp;'' @ [65281] @ js ''</span></h3><div class="po_csto_my_div">''),
     Hole 2,
     Lit (js ''</div><div class="po_csto_my_more_div"><a href="''),
     Hole 1,
     Lit (js ''" target="_blank" class="po_csto_my_more">'' @ [26356, 22810, 32844, 20301, 23613, 22312] @
    js ''&nbsp;<label class="po_csto_my_csdn">CSDN JOB</label></a></div></li></ul>'')]\<close>

definition cstoMyItem :: jstr where
  [js_eval]: \<open>cstoMyItem = template
    [Lit (js ''<div class="po_csto_my_item_div"><div class="po_csto_my_po_div"><a href="''),
     Hole 0,
     Lit (js ''" title="''),
     Hole 1,
     Lit (js ''" strategy="''),
     Hole 8,
     Lit (js ''" target="_blank">''),
     Hole 2,
     Lit (js ''</a></div><div class="po_csto_my_salary_div"><a href="''),
     Hole 6,
     Lit (js ''" target="_blank">''),
     Hole 7,
     Lit (js ''</a></div><div class="po_csto_my_company_div"><a href="''),
     Hole 3,
     Lit (js ''" title="''),
     Hole 4,
     Lit (js ''" target="_blank">''),
     Hole 5,
     Lit (js ''</a></div><a class="po_csto_my_iwant" href="''),
     Hole 9,
     Lit (js ''" target="_blank">'' @ [25105, 35201, 36339, 27133] @ js ''</a></div>'')]\<close>

definition cstoProjectListTpl :: jstr where
  [js_eval]: \<open>cstoProjectListTpl = template
    []\<close>

definition cstoProjectListItem :: jstr where
  [js_eval]: \<open>cstoProjectListItem = template
    []\<close>

definition cstoProjectDetailTpl :: jstr where
  [js_eval]: \<open>cstoProjectDetailTpl = template
    [Lit (js ''<div class="bid_scheme tracking-ad" data-mod="''),
     Hole 0,
     Lit (js ''"><h3 class="po_csto_proj_detail_tit"><span>'' @ [20934, 22791, 22909, 20102, 20040, 65311] @
    js ''&nbsp;</span><span class="po_my_my_tiao">'' @ [36339] @
    js ''</span><span class="po_my_my_ba">'' @ [21543] @
    js ''</span><span class="po_blg_detail_th">&nbsp;&nbsp;&nbsp;&nbsp;&nbsp;&nbsp;&nbsp;&nbsp;&nbsp;&nbs'' @
    js ''p;'' @ [65281] @ js ''</span></h3><div class="po_proj_detail_div">''),
     Hole 2,
     Lit (js ''<div class="po_proj_detail_more_div"><a href="''),
     Hole 1,
     Lit (js ''" target="_blank" class="po_proj_detail_more">'' @
    [26356, 22810, 32844, 20301, 23613, 22312] @
    js ''&nbsp;<label class="po_proj_detail_csdn">CSDN JOB</label></a></div></div></div>'')]\<close>

definition cstoProjectDetailItem :: jstr where
  [js_eval]: \<open>cstoProjectDetailItem = template
    [Lit (js ''<div class="po_proj_detail_item_div clearfix"><div class="po_proj_detail_po_div"><a href="''),
     Hole 0,
     Lit (js ''" title="''),
     Hole 1,
     Lit (js ''" strategy="''),
     Hole 8,
     Lit (js ''" target="_blank">''),
     Hole 2,
     Lit (js ''</a></div><div class="po_proj_detail_salary_div"><a href="''),
     Hole 6,
     Lit (js ''" target="_blank">''),
     Hole 7,
     Lit (js ''</a></div><div class="po_proj_detail_company_div"><a href="''),
     Hole 3,
     Lit (js ''" title="''),
     Hole 4,
     Lit (js ''" target="_blank">''),
     Hole 5,
     Lit (js ''</a></div><a class="po_proj_detail_iwant" href="''),
     Hole 9,
     Lit (js ''" target="_blank">'' @ [25105, 35201, 36339, 27133] @ js ''</a></div>'')]\<close>

section \<open>The template of a page\<close>

definition get_itemTpl :: "jstr \<Rightarrow> jstr" where
  [js_eval]: \<open>get_itemTpl tplType =
     (if tplType = (js ''blogDetail'') then blogItem else
      if tplType = (js ''blogSpec'') then blogSpecItem else
      if tplType = (js ''bbsDetail'') then bbsItem else
      if tplType = (js ''askDetail'') then askItem else
      if tplType = (js ''personalSpaceMy'') then perSpaceMyItem else
      if tplType = (js ''personalSpaceHome'') then perSpaceHomeItem else
      if tplType = (js ''heroHome'') then heroHomeItem else
      if tplType = (js ''heroExpert'') then heroExpertItem else
      if tplType = (js ''heroFightDetail'') then heroFightDetailItem else
      if tplType = (js ''heroMy'') then heroMyItem else
      if tplType = (js ''eduList'') then eduListItem else
      if tplType = (js ''eduDetail'') then eduDetailItem else
      if tplType = (js ''search'') then searchItem else
      if tplType = (js ''downMy'') then downMyItem else
      if tplType = (js ''downDetail'') then downDetailItem else
      if tplType = (js ''cstoCaseList'') then cstoCaseListItem else
      if tplType = (js ''cstoCaseDetail'') then cstoCaseDetailItem else
      if tplType = (js ''cstoMy'') then cstoMyItem else
      if tplType = (js ''cstoProjectList'') then cstoCaseListItem else
      if tplType = (js ''cstoProjectDetail'') then cstoProjectDetailItem else [])\<close>

definition get_containerTpl :: "jstr \<Rightarrow> jstr" where
  [js_eval]: \<open>get_containerTpl tplType =
     (if tplType = (js ''blogDetail'') then blogTpl else
      if tplType = (js ''blogSpec'') then blogSpecTpl else
      if tplType = (js ''bbsDetail'') then bbsTpl else
      if tplType = (js ''askDetail'') then askTpl else
      if tplType = (js ''personalSpaceMy'') then perSpaceMyTpl else
      if tplType = (js ''personalSpaceHome'') then perSpaceHomeTpl else
      if tplType = (js ''heroHome'') then heroHomeTpl else
      if tplType = (js ''heroExpert'') then heroExpertTpl else
      if tplType = (js ''heroFightDetail'') then heroFightDetailTpl else
      if tplType = (js ''heroMy'') then heroMyTpl else
      if tplType = (js ''eduList'') then eduListTpl else
      if tplType = (js ''eduDetail'') then eduDetailTpl else
      if tplType = (js ''search'') then searchTpl else
      if tplType = (js ''downMy'') then downMyTpl else
      if tplType = (js ''downDetail'') then downDetailTpl else
      if tplType = (js ''cstoCaseList'') then cstoCaseListTpl else
      if tplType = (js ''cstoCaseDetail'') then cstoCaseDetailTpl else
      if tplType = (js ''cstoMy'') then cstoMyTpl else
      if tplType = (js ''cstoProjectList'') then cstoCaseListTpl else
      if tplType = (js ''cstoProjectDetail'') then cstoProjectDetailTpl else [])\<close>

text \<open>Every template of the pages is made of texts without braces and of places that occur once.\<close>

definition template_ok :: "jstr \<Rightarrow> bool" where
  "template_ok t \<longleftrightarrow> (\<exists>ps. pieces_ok ps \<and> t = template ps)"

lemma template_okI: "pieces_ok ps \<Longrightarrow> template_ok (template ps)"
  by (auto simp: template_ok_def)

lemma brace_js: "123 \<in> set (js s) \<longleftrightarrow> CHR 0x7B \<in> set s"
proof -
  have "(123 :: nat) = of_char CHR 0x7B" by simp
  then show ?thesis unfolding js_def set_map by (metis image_iff of_char_eq_iff)
qed

lemmas pieces_simps = pieces_ok_def brace_js

lemma blogTpl_ok: "template_ok blogTpl"
  unfolding blogTpl_def by (rule template_okI) (simp add: pieces_simps)

lemma blogItem_ok: "template_ok blogItem"
  unfolding blogItem_def by (rule template_okI) (simp add: pieces_simps)

lemma blogSpecTpl_ok: "template_ok blogSpecTpl"
  unfolding blogSpecTpl_def by (rule template_okI) (simp add: pieces_simps)

lemma blogSpecItem_ok: "template_ok blogSpecItem"
  unfolding blogSpecItem_def by (rule template_okI) (simp add: pieces_simps)

lemma bbsTpl_ok: "template_ok bbsTpl"
  unfolding bbsTpl_def by (rule template_okI) (simp add: pieces_simps)

lemma bbsItem_ok: "template_ok bbsItem"
  unfolding bbsItem_def by (rule template_okI) (simp add: pieces_simps)

lemma askTpl_ok: "template_ok askTpl"
  unfolding askTpl_def by (rule template_okI) (simp add: pieces_simps)

lemma askItem_ok: "template_ok askItem"
  unfolding askItem_def by (rule template_okI) (simp add: pieces_simps)

lemma perSpaceHomeTpl_ok: "template_ok perSpaceHomeTpl"
  unfolding perSpaceHomeTpl_def by (rule template_okI) (simp add: pieces_simps)

lemma perSpaceHomeItem_ok: "template_ok perSpaceHomeItem"
  unfolding perSpaceHomeItem_def by (rule template_okI) (simp add: pieces_simps)

lemma perSpaceMyTpl_ok: "template_ok perSpaceMyTpl"
  unfolding perSpaceMyTpl_def by (rule template_okI) (simp add: pieces_simps)

lemma perSpaceMyItem_ok: "template_ok perSpaceMyItem"
  unfolding perSpaceMyItem_def by (rule template_okI) (simp add: pieces_simps)

lemma heroHomeTpl_ok: "template_ok heroHomeTpl"
  unfolding heroHomeTpl_def by (rule template_okI) (simp add: pieces_simps)

lemma heroHomeItem_ok: "template_ok heroHomeItem"
  unfolding heroHomeItem_def by (rule template_okI) (simp add: pieces_simps)

lemma heroExpertTpl_ok: "template_ok heroExpertTpl"
  unfolding heroExpertTpl_def by (rule template_okI) (simp add: pieces_simps)

lemma heroExpertItem_ok: "template_ok heroExpertItem"
  unfolding heroExpertItem_def by (rule template_okI) (simp add: pieces_simps)

lemma heroMyTpl_ok: "template_ok heroMyTpl"
  unfolding heroMyTpl_def by (rule template_okI) (simp add: pieces_simps)

lemma heroMyItem_ok: "template_ok heroMyItem"
  unfolding heroMyItem_def by (rule template_okI) (simp add: pieces_simps)

lemma heroFightDetailTpl_ok: "template_ok heroFightDetailTpl"
  by (simp only: heroFightDetailTpl_def heroMyTpl_ok)

lemma heroFightDetailItem_ok: "template_ok heroFightDetailItem"
  by (simp only: heroFightDetailItem_def heroMyItem_ok)

lemma eduDetailTpl_ok: "template_ok eduDetailTpl"
  unfolding eduDetailTpl_def by (rule template_okI) (simp add: pieces_simps)

lemma eduDetailItem_ok: "template_ok eduDetailItem"
  unfolding eduDetailItem_def by (rule template_okI) (simp add: pieces_simps)

lemma eduListTpl_ok: "template_ok eduListTpl"
  by (simp only: eduListTpl_def eduDetailTpl_ok)

lemma eduListItem_ok: "template_ok eduListItem"
  by (simp only: eduListItem_def eduDetailItem_ok)

lemma searchTpl_ok: "template_ok searchTpl"
  unfolding searchTpl_def by (rule template_okI) (simp add: pieces_simps)

lemma searchItem_ok: "template_ok searchItem"
  unfolding searchItem_def by (rule template_okI) (simp add: pieces_simps)

lemma downMyTpl_ok: "template_ok downMyTpl"
  unfolding downMyTpl_def by (rule template_okI) (simp add: pieces_simps)

lemma downMyItem_ok: "template_ok downMyItem"
  unfolding downMyItem_def by (rule template_okI) (simp add: pieces_simps)

lemma downDetailTpl_ok: "template_ok downDetailTpl"
  unfolding downDetailTpl_def by (rule template_okI) (simp add: pieces_simps)

lemma downDetailItem_ok: "template_ok downDetailItem"
  unfolding downDetailItem_def by (rule template_okI) (simp add: pieces_simps)

lemma cstoCaseListTpl_ok: "template_ok cstoCaseListTpl"
  unfolding cstoCaseListTpl_def by (rule template_okI) (simp add: pieces_simps)

lemma cstoCaseListItem_ok: "template_ok cstoCaseListItem"
  unfolding cstoCaseListItem_def by (rule template_okI) (simp add: pieces_simps)

lemma cstoCaseDetailTpl_ok: "template_ok cstoCaseDetailTpl"
  unfolding cstoCaseDetailTpl_def by (rule template_okI) (simp add: pieces_simps)

lemma cstoCaseDetailItem_ok: "template_ok cstoCaseDetailItem"
  unfolding cstoCaseDetailItem_def by (rule template_okI) (simp add: pieces_simps)

lemma cstoMyTpl_ok: "template_ok cstoMyTpl"
  unfolding cstoMyTpl_def by (rule template_okI) (simp add: pieces_simps)

lemma cstoMyItem_ok: "template_ok cstoMyItem"
  unfolding cstoMyItem_def by (rule template_okI) (simp add: pieces_simps)

lemma cstoProjectDetailTpl_ok: "template_ok cstoProjectDetailTpl"
  unfolding cstoProjectDetailTpl_def by (rule template_okI) (simp add: pieces_simps)

lemma cstoProjectDetailItem_ok: "template_ok cstoProjectDetailItem"
  unfolding cstoProjectDetailItem_def by (rule template_okI) (simp add: pieces_simps)

lemmas templates_ok = blogTpl_ok blogItem_ok blogSpecTpl_ok blogSpecItem_ok bbsTpl_ok bbsItem_ok askTpl_ok askItem_ok perSpaceHomeTpl_ok perSpaceHomeItem_ok perSpaceMyTpl_ok perSpaceMyItem_ok heroHomeTpl_ok heroHomeItem_ok heroExpertTpl_ok heroExpertItem_ok heroMyTpl_ok heroMyItem_ok heroFightDetailTpl_ok heroFightDetailItem_ok eduDetailTpl_ok eduDetailItem_ok eduListTpl_ok eduListItem_ok searchTpl_ok searchItem_ok downMyTpl_ok downMyItem_ok downDetailTpl_ok downDetailItem_ok cstoCaseListTpl_ok cstoCaseListItem_ok cstoCaseDetailTpl_ok cstoCaseDetailItem_ok cstoMyTpl_ok cstoMyItem_ok cstoProjectDetailTpl_ok cstoProjectDetailItem_ok

lemma template_ok_Nil: "template_ok []"
  unfolding template_ok_def by (rule exI[of _ "[]"]) (simp add: pieces_ok_def template_def)

lemma page_templates_ok: "template_ok (get_itemTpl t)" "template_ok (get_containerTpl t)"
  by (simp_all only: get_itemTpl_def get_containerTpl_def templates_ok template_ok_Nil if_split simp_thms imp_conjR)

end
