(* ===== verification/JobReco.thy ===== *)
theory JobReco
  imports JobTemplates NotifyText Page
begin

text \<open>
  The job and course recommendations (\<open>job_reco.js\<close>: \<open>Position\<close>): the requests for jobs, which ask again
  until there are four, and the markup put into the page.

  A request is the effect that sends it, its callback a definition with the answer as argument; \<open>jobs_run\<close>
  is the whole chain. The variable \<open>totalHtmlItems\<close>, which the callbacks share, is part of the page.
\<close>

section \<open>Jobs\<close>

text \<open>A job of the search and of the list of the latest ones; an empty text is a field that is not there.\<close>

record job =
  jb_id :: jstr
  jb_title :: jstr
  jb_org_id :: jstr
  jb_org_name :: jstr
  salary_max :: nat
  salary_min :: nat

record job_conf =
  sourceType :: jstr
  tplType :: jstr
  searchType :: jstr
  searchKey :: jstr
  jc_user :: jstr
  containerId :: selector
  jc_prefix :: jstr

record jpage = page +
  totalHtmlItems :: jstr

text \<open>\<open>n / 1000\<close> as it is written.\<close>

definition thousandth :: "nat \<Rightarrow> jstr" where
  [js_eval]: \<open>thousandth n =
     (let r = n mod 1000
      in num_str (n div 1000)
         @ (if r = 0 then []
            else if r mod 100 = 0 then (js ''.'') @ num_str (r div 100)
            else if r mod 10 = 0 then (js ''.'') @ num_str (r div 100) @ num_str (r div 10 mod 10)
            else (js ''.'') @ num_str (r div 100) @ num_str (r div 10 mod 10) @ num_str (r mod 10)))\<close>

definition salary_text :: "job \<Rightarrow> jstr" where
  [js_eval]: \<open>salary_text j =
     (if salary_max j = 0 \<and> salary_min j = 0 then ([38754, 35758])
      else thousandth (salary_min j) @ (js ''-'') @ thousandth (salary_max j) @ (js ''K/'' @ [26376]))\<close>

definition job_values :: "jstr \<Rightarrow> jstr \<Rightarrow> job \<Rightarrow> (nat \<times> jstr) list" where
  [js_eval]: \<open>job_values prefix strategy j =
     (let jobUrl = prefix @ (js ''//job.csdn.net/Job/Index?jobID='');
          companyUrl = prefix @ (js ''//pr.csdn.net/enterprise/ent_home?orgid='')
      in [(0, jobUrl @ jb_id j), (1, jb_title j), (2, jb_title j), (3, companyUrl @ jb_org_id j), (4, jb_org_name j),
          (5, jb_org_name j), (6, jobUrl @ jb_id j), (7, salary_text j), (8, strategy), (9, jobUrl @ jb_id j)])\<close>

definition job_item :: "jstr \<Rightarrow> jstr \<Rightarrow> jstr \<Rightarrow> job \<Rightarrow> jstr" where
  [js_eval]: "job_item itemTpl prefix strategy j = fill (job_values prefix strategy j) itemTpl"

definition job_complete :: "job \<Rightarrow> bool" where
  [js_eval]: "job_complete j \<longleftrightarrow> jb_id j \<noteq> [] \<and> jb_title j \<noteq> [] \<and> jb_org_id j \<noteq> [] \<and> jb_org_name j \<noteq> []"

fun getData :: "job list \<Rightarrow> jstr \<Rightarrow> jstr \<Rightarrow> jstr \<Rightarrow> jstr" where
  "getData [] itemTpl prefix strategy = []"
| "getData (j # ps) itemTpl prefix strategy =
     (if job_complete j then job_item itemTpl prefix strategy j else []) @ getData ps itemTpl prefix strategy"

text \<open>The latest jobs need a salary too, so the text for none is never used there.\<close>

definition latest_complete :: "job \<Rightarrow> bool" where
  [js_eval]: "latest_complete j \<longleftrightarrow> job_complete j \<and> salary_max j \<noteq> 0 \<and> salary_min j \<noteq> 0"

fun latest_items :: "nat \<Rightarrow> job list \<Rightarrow> jstr \<Rightarrow> jstr \<Rightarrow> jstr \<Rightarrow> jstr" where
  "latest_items (Suc n) (j # ps) itemTpl prefix strategy =
     (if latest_complete j then job_item itemTpl prefix strategy j else []) @ latest_items n ps itemTpl prefix strategy"
| "latest_items _ _ itemTpl prefix strategy = []"

section \<open>Requests\<close>

definition get_strategy :: "jstr \<Rightarrow> jstr \<Rightarrow> jstr" where
  [js_eval]: \<open>get_strategy un searcht =
     (if un \<noteq> [] then (js ''PersonalRecommend'')
      else if searcht = (js ''detail'') then (js ''DetailRecommend'')
      else if searcht = (js ''list'') then (js ''ListRecommend'')
      else if searcht = (js ''latest'') then (js ''LatestRecommend'')
      else (js ''unknown''))\<close>

definition escape_key :: "jstr \<Rightarrow> jstr" where
  [js_eval]: \<open>escape_key key =
     rx_replace_all no_flags (RChr 43) (rx_replace_all no_flags (RChr 38) (rx_replace_all no_flags (RChr 35)
       (rx_replace_all no_flags (RChr 37) key (js ''%25'')) (js ''%23'')) (js ''%26'')) (js ''%2B'')\<close>

text \<open>\<open>count ? count : 4\<close>\<close>

definition size_of :: "nat \<Rightarrow> jstr" where
  [js_eval]: "size_of count = num_str (if count = 0 then 4 else count)"

definition get_url :: "jstr \<Rightarrow> jstr \<Rightarrow> jstr \<Rightarrow> jstr \<Rightarrow> jstr \<Rightarrow> nat \<Rightarrow> jstr" where
  [js_eval]: \<open>get_url un searcht key st tt count =
     (let kk = escape_key key;
          u = (js ''http://internalapi.csdn.net/psearch/psearch/query?x-acl-token=kUOm7x6dCaKGFa8RxxLQ5Hm75ioK&index'' @
    js ''_name=test_b2d_job_141211&_client_='');
          (st', q) =
            (if un \<noteq> [] then ((js ''uc_proxy''), (js ''search_job_by_user'') @ (js ''&from=1&size=4'') @ (js ''&id='') @ un)
             else if tt = (js ''search'') then
               (st, (js ''job_position_query'') @ (js ''&like=title:'') @ kk @ (js ''&shouldNum=0&from=1&size='') @ size_of count)
             else if searcht = (js ''detail'') then
               (st, (js ''search_job_by_content'') @ (js ''&id='') @ kk @ (js ''&from=1&size='') @ size_of count)
             else if searcht = (js ''list'') then
               (st, (js ''search_job_by_content'') @ (js ''&content='') @ kk @ (js ''&from=1&size='') @ size_of count)
             else (st, []))
      in u @ q @ (js ''&source_type='') @ st' @ (js ''&fields=id,publish_time,title,org_name,org_id,salary_max,salary_min''))\<close>

definition goInPage :: "job_conf \<Rightarrow> jpage \<Rightarrow> jpage" where
  [js_eval]: \<open>goInPage conf p =
     emit (Call ''trackingAd'' [])
       (set_html (containerId conf)
         (fill [(0, (js ''popu_72'')), (1, jc_prefix conf @ (js ''//job.csdn.net'')), (2, totalHtmlItems p)]
            (get_containerTpl (tplType conf))) p)\<close>

definition load :: "job_conf \<Rightarrow> jpage \<Rightarrow> jpage" where
  [js_eval]: \<open>load conf p =
     (if searchKey conf = (js ''NO'') \<and> jc_user conf = [] then p
      else emit (Jsonp (get_url (jc_user conf) (searchType conf) (searchKey conf) (sourceType conf) (tplType conf) 0) []) p)\<close>

text \<open>What a callback asks for next: more jobs by the content or the latest ones, for a strategy and with the
  number there is, or nothing.\<close>

datatype next_request = ByDetail jstr nat | ByLatest jstr nat | Finished

definition loadByDetail :: "job_conf \<Rightarrow> jstr \<Rightarrow> nat \<Rightarrow> jpage \<Rightarrow> jpage \<times> next_request" where
  [js_eval]: "loadByDetail conf strategy count p =
     (emit (Jsonp (get_url [] (searchType conf) (searchKey conf) (sourceType conf) (tplType conf) (4 - count)) []) p,
      ByDetail strategy count)"

definition loadByLatest :: "job_conf \<Rightarrow> jstr \<Rightarrow> nat \<Rightarrow> jpage \<Rightarrow> jpage \<times> next_request" where
  [js_eval]: \<open>loadByLatest conf strategy count p =
     (emit (Jsonp (js ''http://job.csdn.net/api/lastJobList'') []) p, ByLatest strategy count)\<close>

definition load_answer :: "job_conf \<Rightarrow> job list \<Rightarrow> jpage \<Rightarrow> jpage \<times> next_request" where
  [js_eval]: \<open>load_answer conf hits p =
     (let count = length hits;
          strategy = get_strategy (jc_user conf) (searchType conf);
          p1 = p\<lparr>totalHtmlItems := getData hits (get_itemTpl (tplType conf)) (jc_prefix conf) strategy\<rparr>
      in if count < 4 \<and> jc_user conf \<noteq> [] \<and> searchType conf = (js ''detail'')
         then loadByDetail conf (get_strategy [] (js ''detail'')) count p1
         else if count < 4 then loadByLatest conf (get_strategy [] (js ''latest'')) count p1
         else (goInPage conf p1, Finished))\<close>

text \<open>The strategy for the latest jobs is computed and not passed on: they are asked for with that of the
  details.\<close>

definition detail_jobs :: "job_conf \<Rightarrow> jstr \<Rightarrow> nat \<Rightarrow> job list \<Rightarrow> jpage \<Rightarrow> jpage \<times> next_request" where
  [js_eval]: "detail_jobs conf strategy n hits p =
     (let count = length hits;
          p1 = p\<lparr>totalHtmlItems := totalHtmlItems p @ getData hits (get_itemTpl (tplType conf)) (jc_prefix conf) strategy\<rparr>
      in if count + n < 4 then loadByLatest conf strategy (count + n) p1 else (goInPage conf p1, Finished))"

text \<open>\<open>papers\<close> is the list of the latest jobs, if the answer has one.\<close>

definition latest_jobs :: "job_conf \<Rightarrow> jstr \<Rightarrow> nat \<Rightarrow> job list option \<Rightarrow> jpage \<Rightarrow> jpage \<times> next_request" where
  [js_eval]: "latest_jobs conf strategy n papers p =
     (let p1 = (case papers of
                  None \<Rightarrow> p
                | Some ps \<Rightarrow>
                    if ps \<noteq> [] \<and> length ps \<ge> 4 - n
                    then p\<lparr>totalHtmlItems := totalHtmlItems p
                             @ latest_items (4 - n) ps (get_itemTpl (tplType conf)) (jc_prefix conf) strategy\<rparr>
                    else p)
      in (goInPage conf p1, Finished))"

text \<open>The answers to the requests, one after the other.\<close>

fun jobs_run :: "job_conf \<Rightarrow> job list \<Rightarrow> job list \<Rightarrow> job list option \<Rightarrow> jpage \<Rightarrow> jpage \<times> next_request" where
  "jobs_run conf a1 a2 a3 p =
     (case load_answer conf a1 p of
        (p1, Finished) \<Rightarrow> (p1, Finished)
      | (p1, ByLatest st n) \<Rightarrow> latest_jobs conf st n a3 p1
      | (p1, ByDetail st n) \<Rightarrow>
          (case detail_jobs conf st n a2 p1 of
             (p2, ByLatest st' m) \<Rightarrow> latest_jobs conf st' m a3 p2
           | r \<Rightarrow> r))"

declare jobs_run.simps [simp del]


text \<open>The user name is a text here: one that is not set takes part in no comparison of the code as the empty one.
  \<open>show\<close> keeps the fields of its argument in the object, which is the argument \<open>conf\<close> of the definitions.\<close>

definition position_show :: "jstr \<Rightarrow> job_conf \<Rightarrow> jpage \<Rightarrow> jpage" where
  [js_eval]: "position_show protocol conf p = load (conf\<lparr>jc_prefix := protocol\<rparr>) p"

definition getThisCss :: "jstr \<Rightarrow> jpage \<Rightarrow> jpage" where
  [js_eval]: \<open>getThisCss prefix p =
     append_html ''head''
       ((js ''<link rel="stylesheet" type="text/css" href="'') @ prefix @ (js ''//csdnimg.cn/jobreco/job_reco.css">'')) p\<close>

definition job_getUserName :: "jstr \<Rightarrow> js_error + jstr option" where
  [js_eval]: \<open>job_getUserName cookie = note_getCookie cookie (js ''UserName'')\<close>

section \<open>The items of a page\<close>

text \<open>What is shown is a list of jobs, each with the strategy it was found by.\<close>

definition job_items :: "jstr \<Rightarrow> jstr \<Rightarrow> (jstr \<times> job) list \<Rightarrow> jstr" where
  "job_items itemTpl prefix sjs = concat (map (\<lambda>(st, j). job_item itemTpl prefix st j) sjs)"

lemma job_items_append: "job_items t pre (a @ b) = job_items t pre a @ job_items t pre b"
  by (simp add: job_items_def)

lemma getData_items: "getData a t pre st = job_items t pre (map (Pair st) (filter job_complete a))"
  by (induction a) (simp_all add: job_items_def)

lemma latest_items_items: "latest_items n a t pre st = job_items t pre (map (Pair st) (filter latest_complete (take n a)))"
  by (induction n a t pre st rule: latest_items.induct) (simp_all add: job_items_def)

definition few_jobs :: "nat \<Rightarrow> (jstr \<times> job) list \<Rightarrow> bool" where
  "few_jobs n sjs \<longleftrightarrow> length sjs \<le> n \<and> (\<forall>(st, j) \<in> set sjs. job_complete j)"

lemma few_found: "length a \<le> n \<Longrightarrow> few_jobs n (map (Pair st) (filter job_complete a))"
  by (auto simp: few_jobs_def intro: order_trans[OF length_filter_le])

lemma few_latest: "few_jobs n (map (Pair st) (filter latest_complete (take n a)))"
  using length_filter_le[of latest_complete "take n a"] by (auto simp: few_jobs_def latest_complete_def)

lemma few_append: "few_jobs m a \<Longrightarrow> few_jobs n b \<Longrightarrow> few_jobs (m + n) (a @ b)"
  by (auto simp: few_jobs_def)

text \<open>The page that shows a list of jobs.\<close>

definition shows_jobs :: "job_conf \<Rightarrow> (jstr \<times> job) list \<Rightarrow> jpage \<Rightarrow> bool" where
  \<open>shows_jobs conf sjs p \<longleftrightarrow>
     html_of (containerId conf) p =
       fill [(0, (js ''popu_72'')), (1, jc_prefix conf @ (js ''//job.csdn.net'')),
             (2, job_items (get_itemTpl (tplType conf)) (jc_prefix conf) sjs)]
         (get_containerTpl (tplType conf))\<close>

lemma goInPage_shows:
  "totalHtmlItems p = job_items (get_itemTpl (tplType conf)) (jc_prefix conf) sjs \<Longrightarrow> shows_jobs conf sjs (goInPage conf p)"
  by (simp add: shows_jobs_def goInPage_def)

definition trackings :: "'a page_scheme \<Rightarrow> nat" where
  "trackings p = length (filter (\<lambda>e. e = Call ''trackingAd'' []) (effects p))"

lemma trackings_simps [simp]:
  "trackings (set_html s h p) = trackings p"
  "trackings (emit e p) = (if e = Call ''trackingAd'' [] then Suc (trackings p) else trackings p)"
  "trackings (p'\<lparr>totalHtmlItems := t\<rparr>) = trackings p'"
  by (simp_all add: trackings_def)

lemma jpage_emit [simp]: "totalHtmlItems (emit e p) = totalHtmlItems p"
  by (simp add: emit_def)

lemma goInPage_trackings [simp]: "trackings (goInPage conf p) = Suc (trackings p)"
  by (simp add: goInPage_def)

text \<open>The callbacks only add effects.\<close>

definition adds_effects :: "'a page_scheme \<Rightarrow> 'a page_scheme \<Rightarrow> bool" where
  "adds_effects p q \<longleftrightarrow> (\<exists>es. effects q = effects p @ es)"

lemma adds_effects_trans: "adds_effects p q \<Longrightarrow> adds_effects q r \<Longrightarrow> adds_effects p r"
  by (auto simp: adds_effects_def)

lemma adds_effects_simps [simp]:
  "adds_effects p (emit e q) = (\<exists>es. effects q @ [e] = effects p @ es)"
  "adds_effects p (set_html s h q) = adds_effects p q"
  by (simp_all add: adds_effects_def)

lemma callbacks_add:
  "adds_effects p (fst (load_answer conf a p))" "adds_effects p (fst (detail_jobs conf st n a p))"
  "adds_effects p (fst (latest_jobs conf st n a3 p))"
  by (auto simp: load_answer_def detail_jobs_def latest_jobs_def loadByDetail_def loadByLatest_def goInPage_def Let_def
    adds_effects_def split: option.splits)

lemma jobs_run_adds: "jobs_run conf a1 a2 a3 p = (q, r) \<Longrightarrow> adds_effects p q"
  using callbacks_add(1)[of p conf a1]
  by (auto simp: jobs_run.simps split: prod.splits next_request.splits)
    (metis adds_effects_trans callbacks_add(2,3) fst_conv)+

section \<open>The chain of requests\<close>

text \<open>What a callback promises when the page has \<open>n\<close> jobs: it has filled the page, or it asks for the rest and the page
  is filled by the callback after it.\<close>

lemma latest_jobs_end:
  assumes "totalHtmlItems p = job_items (get_itemTpl (tplType conf)) (jc_prefix conf) sjs" "few_jobs n sjs" "n \<le> 4"
  obtains sjs' where "few_jobs 4 sjs'" "shows_jobs conf sjs' (fst (latest_jobs conf st n a p))"
    "snd (latest_jobs conf st n a p) = Finished" "trackings (fst (latest_jobs conf st n a p)) = Suc (trackings p)"
proof (cases "\<exists>ps. a = Some ps \<and> ps \<noteq> [] \<and> length ps \<ge> 4 - n")
  case True
  then obtain ps where ps: "a = Some ps" "ps \<noteq> []" "length ps \<ge> 4 - n" by blast
  let ?new = "map (Pair st) (filter latest_complete (take (4 - n) ps))"
  have "few_jobs 4 (sjs @ ?new)" using few_append[OF assms(2) few_latest[of "4 - n" st ps]] assms(3) by simp
  then show ?thesis
    using ps assms(1) that[of "sjs @ ?new"]
    by (simp add: latest_jobs_def goInPage_shows job_items_append latest_items_items)
next
  case False
  then have "latest_jobs conf st n a p = (goInPage conf p, Finished)" by (auto simp: latest_jobs_def split: option.splits)
  moreover have "few_jobs 4 sjs" using assms(2,3) by (auto simp: few_jobs_def)
  ultimately show ?thesis using that[of sjs] goInPage_shows[OF assms(1)] by simp
qed

lemma detail_jobs_end:
  assumes "totalHtmlItems p = job_items (get_itemTpl (tplType conf)) (jc_prefix conf) sjs" "few_jobs n sjs"
    "n + length a \<le> 4"
  obtains (go_on) sjs' p' where "detail_jobs conf st n a p = (p', ByLatest st (length a + n))"
      "few_jobs (length a + n) sjs'" "length a + n < 4" "trackings p' = trackings p"
      "totalHtmlItems p' = job_items (get_itemTpl (tplType conf)) (jc_prefix conf) sjs'"
  | (stop) sjs' p' where "detail_jobs conf st n a p = (p', Finished)" "few_jobs 4 sjs'" "shows_jobs conf sjs' p'"
      "trackings p' = Suc (trackings p)"
proof -
  let ?sjs = "sjs @ map (Pair st) (filter job_complete a)"
  let ?p = "p\<lparr>totalHtmlItems := job_items (get_itemTpl (tplType conf)) (jc_prefix conf) ?sjs\<rparr>"
  have few: "few_jobs (length a + n) ?sjs" using few_append[OF assms(2) few_found[of a "length a" st]] by (simp add: add.commute)
  have run: "detail_jobs conf st n a p =
      (if length a + n < 4 then loadByLatest conf st (length a + n) ?p else (goInPage conf ?p, Finished))"
    using assms(1) by (simp add: detail_jobs_def Let_def getData_items job_items_append)
  show ?thesis
  proof (cases "length a + n < 4")
    case True
    then show ?thesis using go_on[of _ ?sjs] run few by (simp add: loadByLatest_def)
  next
    case False
    then have "length a + n = 4" using assms(3) by simp
    then show ?thesis using stop[of "goInPage conf ?p" ?sjs] run few goInPage_shows[of ?p conf ?sjs] by simp
  qed
qed

lemma load_answer_cases:
  assumes "length a \<le> 4"
  obtains (detail) p1 where \<open>load_answer conf a p = (p1, ByDetail (get_strategy [] (js ''detail'')) (length a))\<close> "length a < 4"
      "jc_user conf \<noteq> []" \<open>searchType conf = (js ''detail'')\<close> "trackings p1 = trackings p"
      "totalHtmlItems p1 = job_items (get_itemTpl (tplType conf)) (jc_prefix conf)
         (map (Pair (get_strategy (jc_user conf) (searchType conf))) (filter job_complete a))"
  | (latest) p1 where \<open>load_answer conf a p = (p1, ByLatest (get_strategy [] (js ''latest'')) (length a))\<close> "length a < 4"
      \<open>\<not> (jc_user conf \<noteq> [] \<and> searchType conf = (js ''detail''))\<close> "trackings p1 = trackings p"
      "totalHtmlItems p1 = job_items (get_itemTpl (tplType conf)) (jc_prefix conf)
         (map (Pair (get_strategy (jc_user conf) (searchType conf))) (filter job_complete a))"
  | (full) p1 where "load_answer conf a p = (goInPage conf p1, Finished)" "length a = 4" "trackings p1 = trackings p"
      "totalHtmlItems p1 = job_items (get_itemTpl (tplType conf)) (jc_prefix conf)
         (map (Pair (get_strategy (jc_user conf) (searchType conf))) (filter job_complete a))"
proof -
  define p1 where "p1 = p\<lparr>totalHtmlItems := job_items (get_itemTpl (tplType conf)) (jc_prefix conf)
    (map (Pair (get_strategy (jc_user conf) (searchType conf))) (filter job_complete a))\<rparr>"
  have run: \<open>load_answer conf a p =
      (if length a < 4 \<and> jc_user conf \<noteq> [] \<and> searchType conf = (js ''detail'')
       then loadByDetail conf (get_strategy [] (js ''detail'')) (length a) p1
       else if length a < 4 then loadByLatest conf (get_strategy [] (js ''latest'')) (length a) p1
       else (goInPage conf p1, Finished))\<close>
    by (simp add: load_answer_def Let_def getData_items p1_def)
  have p1: "trackings p1 = trackings p"
    "totalHtmlItems p1 = job_items (get_itemTpl (tplType conf)) (jc_prefix conf)
       (map (Pair (get_strategy (jc_user conf) (searchType conf))) (filter job_complete a))"
    by (simp_all add: p1_def)
  consider \<open>length a < 4 \<and> jc_user conf \<noteq> [] \<and> searchType conf = (js ''detail'')\<close>
    | "length a < 4" \<open>\<not> (jc_user conf \<noteq> [] \<and> searchType conf = (js ''detail''))\<close> | "length a = 4"
    using assms by linarith
  then show ?thesis
  proof cases
    case 1
    then show ?thesis using run p1 detail by (simp add: loadByDetail_def)
  next
    case 2
    then have \<open>load_answer conf a p = loadByLatest conf (get_strategy [] (js ''latest'')) (length a) p1\<close> using run by auto
    then show ?thesis using 2 p1 latest by (simp add: loadByLatest_def)
  next
    case 3
    then show ?thesis using run p1 full by simp
  qed
qed

lemma jobs_run_spec:
  assumes "length a1 \<le> 4" "length a2 \<le> 4 - length a1" "jobs_run conf a1 a2 a3 p = (q, r)"
  shows "r = Finished \<and> (\<exists>sjs. few_jobs 4 sjs \<and> shows_jobs conf sjs q) \<and> trackings q = Suc (trackings p)"
proof (cases rule: load_answer_cases[OF assms(1), of conf p, case_names detail latest full])
  case (detail p1)
  have le: "length a1 + length a2 \<le> 4" using assms(1,2) by simp
  show ?thesis
  proof (cases rule: detail_jobs_end[OF detail(6) few_found[OF order_refl] le,
      where st = \<open>get_strategy [] (js ''detail'')\<close>, case_names go_on stop])
    case (go_on sjs' p')
    have le': "length a2 + length a1 \<le> 4" using go_on(3) by simp
    show ?thesis
      using latest_jobs_end[OF go_on(5,2) le', where st = \<open>get_strategy [] (js ''detail'')\<close> and a = a3]
        go_on(1,4) assms(3) detail(1,5)
      by (auto simp: jobs_run.simps)
  next
    case (stop sjs' p')
    then show ?thesis using assms(3) detail(1,5) by (auto simp: jobs_run.simps)
  qed
next
  case (latest p1)
  show ?thesis
    using latest_jobs_end[OF latest(5) few_found[OF order_refl] assms(1), where st = \<open>get_strategy [] (js ''latest'')\<close> and a = a3]
      assms(3) latest(1,4)
    by (auto simp: jobs_run.simps)
next
  case (full p1)
  then have "few_jobs 4 (map (Pair (get_strategy (jc_user conf) (searchType conf))) (filter job_complete a1))"
    by (simp add: few_found)
  then show ?thesis using assms(3) full(1,3) goInPage_shows[OF full(4)] by (auto simp: jobs_run.simps)
qed

text \<open>C28 When the answers have at most as many jobs as the requests asked for, the chain of requests
  for jobs ends, the container then shows at most four jobs, all with a number, a title and a company, and it has been
  filled and reported to the tracking exactly once.\<close>

theorem jobs_shown_bounded:
  assumes "length a1 \<le> 4" "length a2 \<le> 4 - length a1" "jobs_run conf a1 a2 a3 p = (q, r)"
  shows "r = Finished \<and> (\<exists>sjs. few_jobs 4 sjs \<and> shows_jobs conf sjs q) \<and> trackings q = Suc (trackings p)"
  using jobs_run_spec[OF assms] .

lemma jobs_shown_bounded_witness:
  \<open>snd (jobs_run \<lparr>sourceType = (js ''blog''), tplType = (js ''blogDetail''), searchType = (js ''detail''), searchKey = (js ''1''), jc_user = (js ''u''),
          containerId = ''job'', jc_prefix = (js ''http:'')\<rparr> [] [] None \<lparr>els = (\<lambda>_. blank_elem), effects = [], totalHtmlItems = []\<rparr>) = Finished\<close>
  using jobs_shown_bounded[of "[]" "[]" _ None, OF _ _ prod.collapse[symmetric]] by simp


section \<open>An item is filled at once\<close>

text \<open>The fields that go into an item have no dollar and no brace, so no value is taken for a place or a pattern.\<close>

definition job_plain :: "jstr \<Rightarrow> jstr \<Rightarrow> job \<Rightarrow> bool" where
  [js_eval]: "job_plain prefix strategy j \<longleftrightarrow>
     (\<forall>v \<in> set [prefix, strategy, jb_id j, jb_title j, jb_org_id j, jb_org_name j]. value_ok v)"

lemma value_ok_append [simp]: "value_ok (a @ b) \<longleftrightarrow> value_ok a \<and> value_ok b"
  by (auto simp: value_ok_def)

lemma value_ok_num [simp]: "value_ok (num_str n)"
  using num_str_digits[of n] by (auto simp: value_ok_def is_digit_def)

lemma value_ok_thousandth: "value_ok (thousandth n)"
  by (simp add: thousandth_def Let_def) (simp add: value_ok_def js_def)

lemma value_ok_salary: "value_ok (salary_text j)"
  by (simp add: salary_text_def value_ok_thousandth) (simp add: value_ok_def js_def)

lemma value_ok_job: "job_plain prefix strategy j \<Longrightarrow> \<forall>(n, v) \<in> set (job_values prefix strategy j). value_ok v"
  by (simp add: job_values_def Let_def job_plain_def value_ok_salary) (simp add: value_ok_def js_def)

text \<open>For every kind of page the template of an item is a list of texts and places in which no place
  occurs twice, and the chain of ten replacements of the code gives what filling all the places at once would, when
  the fields of the job have no dollar and no opening brace.\<close>

theorem item_filled_at_once:
  assumes "job_plain prefix strategy j"
  shows "\<exists>ps. pieces_ok ps \<and> get_itemTpl t = template ps
    \<and> job_item (get_itemTpl t) prefix strategy j = concat (map (filled (job_values prefix strategy j)) ps)"
proof -
  obtain ps where "pieces_ok ps" "get_itemTpl t = template ps"
    using page_templates_ok(1)[of t] by (auto simp: template_ok_def)
  then show ?thesis using fill_pieces[OF _ value_ok_job[OF assms]] by (auto simp: job_item_def)
qed

lemma item_filled_at_once_witness:
  \<open>\<exists>ps. pieces_ok ps \<and> get_itemTpl (js ''blogDetail'') = template ps
    \<and> job_item (get_itemTpl (js ''blogDetail'')) (js ''http:'') (js ''s'') (job.make (js ''1'') (js ''t'') (js ''2'') (js ''o'') 9000 4500)
        = concat (map (filled (job_values (js ''http:'') (js ''s'') (job.make (js ''1'') (js ''t'') (js ''2'') (js ''o'') 9000 4500))) ps)\<close>
  by (rule item_filled_at_once) (simp add: job_plain_def job.defs value_ok_def js_def)

text \<open>A title that has the form of a later place is replaced itself.\<close>

lemma title_taken_for_place:
  \<open>fill [(1, (js ''{3}'')), (3, (js ''x''))] (template [Hole 1, Lit (js ''-''), Hole 3]) = (js ''x-{3}'')\<close>
  by code_simp

section \<open>Courses\<close>

record course =
  co_id :: jstr
  co_title :: jstr
  co_pic :: jstr
  stu_count :: nat
  good_ratio :: nat
  rc_flag :: jstr

record edu_conf =
  ec_sourceType :: jstr
  ec_searchKey :: jstr
  ec_username :: jstr
  recordcount :: nat
  ec_containerId :: selector

definition edu_templates :: "jstr \<Rightarrow> (jstr \<times> jstr) option" where
  [js_eval]: \<open>edu_templates st =
     (if st = (js ''so'') then Some (search_reco_edu, search_reco_edu_item)
      else if st = (js ''blog'') then Some (blog_reco_edu, blog_reco_edu_item)
      else if st = (js ''down'') then Some (down_reco_edu, down_reco_edu_item)
      else None)\<close>

definition edu_url :: "jstr \<Rightarrow> jstr \<Rightarrow> jstr" where
  [js_eval]: \<open>edu_url st key =
     (js ''http://internalapi.csdn.net/psearch/psearch/query?x-acl-token=kUOm7x6dCaKGFa8RxxLQ5Hm75ioK&index'' @
    js ''_name=pro_course_v2'')
     @ (if st = (js ''so'') then (js ''&search_str='') else (js ''&pro_id='')) @ escape_key key\<close>

definition edu_data :: "edu_conf \<Rightarrow> (string \<times> jstr) list" where
  [js_eval]: \<open>edu_data c =
     [(''_client_'', (js ''rcommend_course'')), (''fields'', (js ''id,title,pic,stu_count,good_ratio,rc_flag,source_type''))]
     @ (if ec_sourceType c = (js ''blog'') then [(''pro_type'', (js ''blog''))]
        else if ec_sourceType c = (js ''down'') then [(''pro_type'', (js ''download''))] else [])
     @ (if ec_username c = [] then [] else [(''user_id'', ec_username c)])
     @ [(''size'', num_str (recordcount c))]\<close>

text \<open>A page of another kind asks for nothing and starts no interval.\<close>

definition load_edu_reco :: "edu_conf \<Rightarrow> 'a page_scheme \<Rightarrow> 'a page_scheme" where
  [js_eval]: "load_edu_reco c p =
     (case edu_templates (ec_sourceType c) of
        None \<Rightarrow> p
      | Some _ \<Rightarrow>
          emit (StartInterval ''setFive'' 200)
            (emit (Jsonp (edu_url (ec_sourceType c) (ec_searchKey c)) (edu_data c)) p))"

definition edu_item :: "jstr \<Rightarrow> jstr \<Rightarrow> course \<Rightarrow> jstr" where
  [js_eval]: \<open>edu_item st itemTpl item =
     (let kcurl = edu_detail_url_base @ co_id item
      in if st = (js ''so'')
         then fill [(0, kcurl), (1, co_pic item), (2, kcurl), (3, co_title item), (4, co_title item),
                (5, num_str (if good_ratio item = 0 then 100 else good_ratio item)), (6, num_str (stu_count item)),
                (7, rc_flag item), (8, rc_flag item), (9, kcurl), (10, kcurl)] itemTpl
         else fill [(0, kcurl), (1, co_title item), (2, co_title item), (3, rc_flag item)] itemTpl)\<close>

text \<open>\<open>result.hits[i].object\<close> past the last hit is a field of \<open>undefined\<close>.\<close>

fun edu_items :: "jstr \<Rightarrow> jstr \<Rightarrow> nat \<Rightarrow> course list \<Rightarrow> js_error + jstr" where
  "edu_items st itemTpl 0 hits = Inr []"
| "edu_items st itemTpl (Suc n) [] = Inl TypeError"
| "edu_items st itemTpl (Suc n) (h # hits) =
     (case edu_items st itemTpl n hits of Inl e \<Rightarrow> Inl e | Inr t \<Rightarrow> Inr (edu_item st itemTpl h @ t))"

definition edu_answer :: "edu_conf \<Rightarrow> course list \<Rightarrow> 'a page_scheme \<Rightarrow> js_error + 'a page_scheme" where
  [js_eval]: "edu_answer c hits p =
     (case edu_templates (ec_sourceType c) of
        None \<Rightarrow> Inr p
      | Some (tpl, itemTpl) \<Rightarrow>
          if hits = [] then Inr p
          else case edu_items (ec_sourceType c) itemTpl (recordcount c) hits of
                 Inl e \<Rightarrow> Inl e
               | Inr htmlItems \<Rightarrow>
                   Inr (emit (Call ''trackingAd'' [])
                     (append_html (ec_containerId c) (fill [(0, htmlItems)] tpl) p)))"

lemma edu_items_eq:
  "edu_items st itemTpl n hits =
     (if n \<le> length hits then Inr (concat (map (edu_item st itemTpl) (take n hits))) else Inl TypeError)"
  by (induction st itemTpl n hits rule: edu_items.induct) auto

text \<open>C35 On a page that shows courses, an answer without courses changes nothing, one with at least
  as many as asked for appends the markup of exactly that many, and one with fewer throws a \<open>TypeError\<close> before anything
  is shown, so courses that were found are lost.\<close>

theorem courses_all_or_none:
  "edu_answer c hits p =
     (case edu_templates (ec_sourceType c) of
        None \<Rightarrow> Inr p
      | Some (tpl, itemTpl) \<Rightarrow>
          if hits = [] then Inr p
          else if length hits < recordcount c then Inl TypeError
          else Inr (emit (Call ''trackingAd'' []) (append_html (ec_containerId c)
                 (fill [(0, concat (map (edu_item (ec_sourceType c) itemTpl) (take (recordcount c) hits)))] tpl) p)))"
  by (auto simp: edu_answer_def edu_items_eq split: option.splits)

section \<open>The list of five\<close>

text \<open>The interval that shortens the list \<^verbatim>\<open>#res\<close>: its own counter, whether it still runs, and the list, whose elements
  other scripts append between the ticks.\<close>

record res_page =
  res_count :: nat
  setFive :: bool
  res_children :: "jstr list"
  res_shown :: bool

definition getCount :: nat where
  [js_eval]: "getCount = 300"

definition res_tick :: "res_page \<Rightarrow> res_page" where
  [js_eval]: "res_tick p =
     (let p1 = p\<lparr>res_count := Suc (res_count p)\<rparr>;
          p2 = (if res_count p1 > getCount then p1\<lparr>setFive := False\<rparr> else p1);
          p3 = p2\<lparr>res_shown := False\<rparr>
      in if length (res_children p3) > 5
         then p3\<lparr>setFive := False, res_children := take 5 (res_children p3), res_shown := True\<rparr>
         else p3)"

text \<open>What is appended before each tick; a stopped interval does not tick.\<close>

fun res_run :: "jstr list list \<Rightarrow> res_page \<Rightarrow> res_page" where
  "res_run [] p = p"
| "res_run (new # news) p =
     (if setFive p then res_run news (res_tick (p\<lparr>res_children := res_children p @ new\<rparr>))
      else res_run news (p\<lparr>res_children := res_children p @ new\<rparr>))"

lemma res_stopped: "\<not> setFive p \<Longrightarrow> res_run news p = p\<lparr>res_children := res_children p @ concat news\<rparr>"
  by (induction news arbitrary: p) simp_all

lemma res_hidden:
  "setFive p \<Longrightarrow> length (res_children p) + length (concat news) \<le> 5 \<Longrightarrow> news \<noteq> [] \<Longrightarrow>
   \<not> res_shown (res_run news p) \<and> res_children (res_run news p) = res_children p @ concat news"
proof (induction news arbitrary: p)
  case (Cons new news)
  let ?p = "res_tick (p\<lparr>res_children := res_children p @ new\<rparr>)"
  have t: "res_children ?p = res_children p @ new" "\<not> res_shown ?p" using Cons.prems by (auto simp: res_tick_def Let_def)
  show ?case
  proof (cases "setFive ?p \<and> news \<noteq> []")
    case True
    then show ?thesis using Cons.IH[of ?p] Cons.prems t by simp
  next
    case False
    then have "res_run news ?p = ?p\<lparr>res_children := res_children ?p @ concat news\<rparr>" by (auto simp: res_stopped)
    then show ?thesis using Cons.prems t by simp
  qed
qed simp

lemma res_steps:
  "setFive p \<Longrightarrow> res_count p \<le> getCount \<Longrightarrow> length news + res_count p > getCount \<Longrightarrow> \<not> setFive (res_run news p)"
proof (induction news arbitrary: p)
  case (Cons new news)
  let ?p = "res_tick (p\<lparr>res_children := res_children p @ new\<rparr>)"
  have c: "res_count ?p = Suc (res_count p)" "setFive ?p \<Longrightarrow> res_count ?p \<le> getCount"
    by (auto simp: res_tick_def Let_def split: if_splits)
  show ?case
  proof (cases "setFive ?p")
    case True
    moreover have "length news + res_count ?p > getCount" using Cons.prems c(1) by simp
    ultimately show ?thesis using Cons.IH[of ?p] Cons.prems c(2) by simp
  next
    case False
    then show ?thesis using Cons.prems by (simp add: res_stopped)
  qed
qed simp

lemma res_cut:
  "setFive p \<Longrightarrow> 5 < length (res_children p @ new) \<Longrightarrow>
   res_shown (res_run (new # news) p) \<and>
   res_children (res_run (new # news) p) = take 5 (res_children p @ new) @ concat news"
  by (simp add: res_stopped res_tick_def Let_def)

text \<open>The interval stops after at most 301 ticks. When a tick finds more than five results it leaves the first
  five, shows them and stops; a list that never has more than five stays complete but hidden, also after the interval
  has ended.\<close>

theorem five_results:
  assumes "setFive p" "res_count p = 0"
  shows "(300 < length news \<longrightarrow> \<not> setFive (res_run news p))
    \<and> (5 < length (res_children p @ new) \<longrightarrow>
         res_shown (res_run (new # news) p)
         \<and> res_children (res_run (new # news) p) = take 5 (res_children p @ new) @ concat news)
    \<and> (news \<noteq> [] \<and> length (res_children p @ concat news) \<le> 5 \<longrightarrow>
         \<not> res_shown (res_run news p) \<and> res_children (res_run news p) = res_children p @ concat news)"
proof (intro conjI impI)
  assume "300 < length news"
  then show "\<not> setFive (res_run news p)" using res_steps[OF assms(1), of news] assms(2) by (simp add: getCount_def)
next
  assume "news \<noteq> [] \<and> length (res_children p @ concat news) \<le> 5"
  then show "\<not> res_shown (res_run news p)" "res_children (res_run news p) = res_children p @ concat news"
    using res_hidden[OF assms(1), of news] by simp_all
qed (use res_cut[OF assms(1), of new news] in simp_all)

lemma five_results_witness:
  "\<not> setFive (res_run (replicate 301 []) \<lparr>res_count = 0, setFive = True, res_children = [], res_shown = True\<rparr>)"
  using five_results[of "\<lparr>res_count = 0, setFive = True, res_children = [], res_shown = True\<rparr>" "replicate 301 []" "[]"]
  by (simp only: res_page.simps length_replicate) simp

end
