(* ===== verification/Tracking.thy ===== *)
theory Tracking
  imports Page JsRegex Cookies "HOL-Library.Multiset"
begin

text \<open>
  The tracking of the promoted places (\<open>main.js\<close>): a place is registered with \<open>trackingAd\<close>, also by the other scripts;
  it is reported once when the window has been scrolled down to it, and every click on its links is reported.

  The environment has what is read from the browser: the address, the referrer, the cookie, the random keys of the
  requests, and \<open>RegExp\<close> for an expression that is given as text. The callers give no options. A place is what jQuery
  finds for it: its attributes, its position, its links for a selector and the number of its frames.
\<close>

section \<open>Environment, links and places\<close>

record track_env =
  te_protocol :: jstr
  te_referrer :: jstr
  te_body_pid :: "jstr option"
  te_host :: jstr
  te_cookie :: jstr
  te_random :: "nat \<Rightarrow> nat"                \<comment> \<open>of the \<open>k\<close>-th request, below 10000\<close>
  te_RegExp :: "jstr \<Rightarrow> jstr \<Rightarrow> rflags \<times> rx"

record link =
  lk_html :: jstr
  lk_title :: jstr
  lk_href :: jstr
  lk_strategy :: "jstr option"
  lk_img :: "(jstr \<times> jstr \<times> jstr) option"      \<comment> \<open>title, alternative text and source of its first image\<close>
  lk_target :: jstr

record place_elem =
  pl_pid :: "jstr option"
  pl_mod :: "jstr option"
  pl_blk :: "jstr option"
  pl_mtp :: "jstr option"
  pl_trim :: "jstr option"
  pl_dsm :: "jstr option"
  pl_filter :: "jstr option"
  pl_top :: int
  pl_links :: "jstr \<Rightarrow> link list"
  pl_frames :: nat

text \<open>The type of a place: a number when the code finds it, a text when it is an attribute.\<close>

datatype mtp_val = MtpNum nat | MtpText jstr

datatype trimmer = NoTrim | TrimText jstr | TrimRx bool rflags rx

text \<open>\<open>a || b\<close> of an attribute: an empty one does not count.\<close>

definition or_else :: "jstr option \<Rightarrow> jstr option \<Rightarrow> jstr option" where
  [js_eval]: "or_else a b = (case a of Some v \<Rightarrow> if v \<noteq> [] then a else b | None \<Rightarrow> b)"

definition track_protocol :: "track_env \<Rightarrow> jstr" where
  [js_eval]: \<open>track_protocol env = (if substr (te_protocol env) 0 4 = (js ''http'') then [] else (js ''http:''))\<close>

definition track_ref :: "track_env \<Rightarrow> jstr" where
  [js_eval]: \<open>track_ref env = (if te_referrer env = [] then (js ''-'') else te_referrer env)\<close>

definition re_host :: rx where
  [js_eval]: "re_host =
     rseq [RGrp 1 (rplus (RCls [ClWord])), RChr 46, rplus (RCls [ClWord]), RChr 46, rplus (RCls [ClWord]), REol]"

definition track_pid :: "track_env \<Rightarrow> place_elem \<Rightarrow> jstr option" where
  [js_eval]: "track_pid env ele =
     or_else (pl_pid ele) (or_else (te_body_pid env)
       (case rx_find no_flags re_host (te_host env) 0 of
          None \<Rightarrow> None | Some m \<Rightarrow> capture (te_host env) m 1))"

definition track_mtp :: "place_elem \<Rightarrow> mtp_val" where
  [js_eval]: \<open>track_mtp ele =
     (case or_else (pl_mtp ele) None of
        Some t \<Rightarrow> MtpText t
      | None \<Rightarrow> MtpNum (if \<exists>l \<in> set (pl_links ele (js ''a'')). lk_img l \<noteq> None then 3 else 2))\<close>

definition track_dsm :: "place_elem \<Rightarrow> jstr" where
  [js_eval]: \<open>track_dsm ele = to_lower (case or_else (pl_dsm ele) None of Some t \<Rightarrow> t | None \<Rightarrow> (js ''get''))\<close>

text \<open>\<^verbatim>\<open>trim.split('/')\<close>, and the parts between the first and the last slash joined by commas as the text of the array.\<close>

definition track_trim :: "track_env \<Rightarrow> place_elem \<Rightarrow> trimmer" where
  [js_eval]: \<open>track_trim env ele =
     (case or_else (pl_trim ele) None of
        None \<Rightarrow> NoTrim
      | Some t \<Rightarrow>
          if starts_with (js ''/'') t
          then let parts = split_cu 47 t; (fl, r) = te_RegExp env (join (js '','') (butlast (tl parts))) (last parts) in TrimRx (103 \<in> set (last parts)) fl r
          else TrimText t)\<close>

section \<open>The content of links\<close>

definition re_tag :: rx where
  [js_eval]: "re_tag = rseq [RChr 60, rplus (RNot [Ch 62]), RChr 62]"

text \<open>The first of the texts that is not empty. A link has no alternative text of its own.\<close>

definition first_text :: "jstr list \<Rightarrow> jstr" where
  [js_eval]: "first_text ts = (case filter (\<lambda>t. t \<noteq> []) ts of t # _ \<Rightarrow> t | [] \<Rightarrow> [])"

definition link_text :: "mtp_val \<Rightarrow> link \<Rightarrow> jstr" where
  [js_eval]: "link_text mtp l =
     first_text
       ((if mtp = MtpNum 3 then (case lk_img l of None \<Rightarrow> [] | Some (ti, al, sr) \<Rightarrow> [ti, al, sr]) else [])
        @ [trim (rx_replace_all no_flags re_tag (lk_html l) []), lk_title l, trim (lk_html l)])"

fun trim_text :: "trimmer \<Rightarrow> jstr \<Rightarrow> jstr" where
  "trim_text NoTrim t = t"
| "trim_text (TrimText s) t = replace_str t s []"
| "trim_text (TrimRx g fl r) t = (if g then rx_replace_all fl r t [] else rx_replace fl r t [])"

definition link_content :: "mtp_val \<Rightarrow> trimmer \<Rightarrow> link \<Rightarrow> jstr" where
  [js_eval]: \<open>link_content mtp tr l =
     trim_text tr (link_text mtp l) @ (js '','') @ lk_href l
       @ (case lk_strategy l of None \<Rightarrow> [] | Some s \<Rightarrow> (js '','') @ s)\<close>

definition linksContent :: "mtp_val \<Rightarrow> trimmer \<Rightarrow> link list \<Rightarrow> jstr" where
  [js_eval]: \<open>linksContent mtp tr ls = join (js '';'') (map (link_content mtp tr) ls)\<close>

section \<open>Reports\<close>

text \<open>The data of a report, in the order of its fields; a field can be \<open>undefined\<close>.\<close>

type_synonym report = "(jstr \<times> jstr option) list"

record ad =
  ad_top :: int
  viewed :: bool
  ad_pid :: "jstr option"
  ad_mod :: "jstr option"
  ad_dsm :: jstr
  ad_mtp :: mtp_val
  ad_trim :: trimmer
  ad_con :: jstr
  ad_links :: "link list"

definition re_uid :: rx where
  [js_eval]: \<open>re_uid =
     rseq [ropt (RGrp 1 (rlit (js ''; ''))), RGrp 2 (RAlt (rlit (js ''UserName'')) (rlit (js ''_javaeye_cookie_id_''))), RChr 61,
           RGrp 3 (rplus (RNot [Ch 59]))]\<close>

definition track_uid :: "jstr \<Rightarrow> jstr" where
  [js_eval]: \<open>track_uid cookie =
     (case rx_find no_flags re_uid cookie 0 of
        None \<Rightarrow> (js ''-'')
      | Some m \<Rightarrow> (case capture cookie m 3 of Some v \<Rightarrow> v | None \<Rightarrow> (js ''-'')))\<close>

fun mtp_str :: "mtp_val \<Rightarrow> jstr" where
  "mtp_str (MtpNum n) = num_str n"
| "mtp_str (MtpText t) = t"

definition ad_report :: "track_env \<Rightarrow> jstr \<Rightarrow> ad \<Rightarrow> report" where
  [js_eval]: \<open>ad_report env ck a =
     [((js ''uid''), Some (track_uid (te_cookie env))), ((js ''ref''), Some (track_ref env)), ((js ''pid''), ad_pid a), ((js ''mod''), ad_mod a),
      ((js ''dsm''), Some (ad_dsm a)), ((js ''mtp''), Some (mtp_str (ad_mtp a))), ((js ''con''), Some (ad_con a)), ((js ''ck''), Some ck)]\<close>

text \<open>\<open>$.param\<close>: an \<open>undefined\<close> value is empty, a blank is a plus.\<close>

fun param_pairs :: "(jstr \<times> jstr) list \<Rightarrow> jstr list option" where
  "param_pairs [] = Some []"
| \<open>param_pairs ((k, v) # kvs) =
     (case (encodeURIComponent k, encodeURIComponent v, param_pairs kvs) of
        (Some k', Some v', Some r) \<Rightarrow> Some ((k' @ (js ''='') @ v') # r)
      | _ \<Rightarrow> None)\<close>

definition param :: "(jstr \<times> jstr) list \<Rightarrow> jstr option" where
  [js_eval]: \<open>param kvs = map_option (\<lambda>ps. rx_replace_all no_flags (rlit (js ''%20'')) (join (js ''&'') ps) (js ''+'')) (param_pairs kvs)\<close>

definition or_empty :: "jstr option \<Rightarrow> jstr" where
  [js_eval]: "or_empty v = (case v of Some t \<Rightarrow> t | None \<Rightarrow> [])"

definition or_undefined :: "jstr option \<Rightarrow> jstr" where
  [js_eval]: \<open>or_undefined v = (case v of Some t \<Rightarrow> t | None \<Rightarrow> (js ''undefined''))\<close>

text \<open>The text of a POST: the fields without the last comma, none of them escaped.\<close>

definition post_body :: "report \<Rightarrow> jstr" where
  [js_eval]: \<open>post_body d = (js ''[{'') @ join (js '','') (map (\<lambda>(k, v). (js ''"'') @ k @ (js ''":"'') @ or_undefined v @ (js ''"'')) d) @ (js ''}]'')\<close>

text \<open>The query of a GET: the random key is a number, so it comes before the named ones.\<close>

definition get_query :: "nat \<Rightarrow> report \<Rightarrow> jstr option" where
  [js_eval]: \<open>get_query rnd d =
     param ((num_str rnd, []) # map (\<lambda>(k, v). (k, or_empty v)) d
            @ [((js ''x-acl-token''), (js ''status_js_dkuyqthzbajmncbsb_token''))])\<close>

definition field :: "jstr \<Rightarrow> report \<Rightarrow> jstr" where
  [js_eval]: "field k d = (case map_of d k of Some v \<Rightarrow> or_empty v | None \<Rightarrow> [])"

definition crossdomainGet :: "track_env \<Rightarrow> nat \<Rightarrow> report \<Rightarrow> js_error + effect option" where
  [js_eval]: \<open>crossdomainGet env rnd d =
     (if field (js ''con'') d = [] then Inr None
      else if field (js ''dsm'') d = (js ''get'') then
        (case get_query rnd d of
           None \<Rightarrow> Inl URIError
         | Some q \<Rightarrow> Inr (Some (AjaxGet (track_protocol env @ (js ''//dc.csdn.net/re?'') @ q))))
      else if field (js ''dsm'') d = (js ''post'') then
        Inr (Some (AjaxPost (track_protocol env @ (js ''//dc.csdn.net/re'')) [('''', post_body d)]))
      else Inr None)\<close>

section \<open>The tracker\<close>

text \<open>\<open>sent\<close> is every request, with its data and whether it reports that the place was seen (\<open>isA\<close>). A place with frames
  waits until each of them has loaded. \<open>blk\<close> is a global variable of the page.\<close>

record waiting =
  wt_elem :: place_elem
  wt_frames :: "nat list"
  wt_links :: "link list"

record tracker =
  ads :: "ad list"
  viewedHeight :: int
  scroll_timer :: bool
  tr_ready :: bool
  waitings :: "waiting list"
  blk :: "jstr option"
  sent :: "(bool \<times> report \<times> effect) list"

definition tracker_start :: tracker where
  [js_eval]: "tracker_start = \<lparr>ads = [], viewedHeight = 0, scroll_timer = False, tr_ready = False, waitings = [],
     blk = None, sent = []\<rparr>"

text \<open>The handler is bound when the document is ready.\<close>

definition track_scroll :: "tracker \<Rightarrow> tracker" where
  [js_eval]: "track_scroll s = (if tr_ready s \<and> ads s \<noteq> [] then s\<lparr>scroll_timer := True\<rparr> else s)"

text \<open>The loop over the places; an exception ends it, with the place already marked.\<close>

fun report_seen :: "track_env \<Rightarrow> int \<Rightarrow> nat \<Rightarrow> ad list \<Rightarrow> ad list \<times> (bool \<times> report \<times> effect) list" where
  "report_seen env bottom k [] = ([], [])"
| \<open>report_seen env bottom k (a # as) =
     (if viewed a \<or> bottom < ad_top a
      then (let (as', out) = report_seen env bottom k as in (a # as', out))
      else let d = ad_report env (js ''-'') a; a' = a\<lparr>viewed := True\<rparr> in
        case crossdomainGet env (te_random env k) d of
          Inl e \<Rightarrow> (a' # as, [])
        | Inr None \<Rightarrow> (let (as', out) = report_seen env bottom k as in (a' # as', out))
        | Inr (Some e) \<Rightarrow> (let (as', out) = report_seen env bottom (Suc k) as in (a' # as', (True, d, e) # out)))\<close>

definition track_timer :: "track_env \<Rightarrow> int \<Rightarrow> tracker \<Rightarrow> tracker" where
  [js_eval]: "track_timer env bottom s =
     (if \<not> scroll_timer s then s
      else let s1 = s\<lparr>scroll_timer := False\<rparr> in
        if bottom > viewedHeight s1
        then let (as', out) = report_seen env bottom (length (sent s1)) (ads s1)
             in s1\<lparr>viewedHeight := bottom, ads := as', sent := sent s1 @ out\<rparr>
        else s1)"

definition open_blank :: "jstr option \<Rightarrow> link \<Rightarrow> link" where
  [js_eval]: \<open>open_blank b l = (if b = Some (js ''0'') \<or> lk_target l \<noteq> [] then l else l\<lparr>lk_target := (js ''_blank'')\<rparr>)\<close>

definition place_found :: "track_env \<Rightarrow> place_elem \<Rightarrow> link list \<Rightarrow> tracker \<Rightarrow> tracker" where
  [js_eval]: "place_found env ele ls s =
     (let mtp = track_mtp ele; tr = track_trim env ele;
          a = \<lparr>ad_top = pl_top ele, viewed = False, ad_pid = track_pid env ele, ad_mod = pl_mod ele,
               ad_dsm = track_dsm ele, ad_mtp = mtp, ad_trim = tr, ad_con = linksContent mtp tr ls,
               ad_links = map (open_blank (blk s)) ls\<rparr>;
          s1 = s\<lparr>ads := ads s @ [a]\<rparr>
      in if viewedHeight s1 > ad_top a then track_scroll s1 else s1)"

definition trackingAd :: "track_env \<Rightarrow> place_elem \<Rightarrow> tracker \<Rightarrow> tracker" where
  [js_eval]: \<open>trackingAd env ele s =
     (let s1 = s\<lparr>blk := pl_blk ele\<rparr>;
          links = pl_links ele ((js ''a'') @ or_empty (pl_filter ele))
      in if pl_frames ele > 0
         then s1\<lparr>waitings := waitings s1 @ [\<lparr>wt_elem = ele, wt_frames = [0..<pl_frames ele], wt_links = links\<rparr>]\<rparr>
         else place_found env ele links s1)\<close>

text \<open>A frame counts when it loads for the first time.\<close>

definition frame_loaded :: "track_env \<Rightarrow> nat \<Rightarrow> nat \<Rightarrow> link list \<Rightarrow> tracker \<Rightarrow> tracker" where
  [js_eval]: "frame_loaded env w i ls s =
     (if w < length (waitings s) \<and> i \<in> set (wt_frames (waitings s ! w))
      then let wt = waitings s ! w;
               wt' = wt\<lparr>wt_frames := remove1 i (wt_frames wt), wt_links := wt_links wt @ ls\<rparr>;
               s1 = s\<lparr>waitings := (waitings s)[w := wt']\<rparr>
           in if wt_frames wt' = [] then place_found env (wt_elem wt') (wt_links wt') s1 else s1
      else s)"

definition link_clicked :: "track_env \<Rightarrow> nat \<Rightarrow> nat \<Rightarrow> tracker \<Rightarrow> tracker" where
  [js_eval]: "link_clicked env i j s =
     (if i < length (ads s) \<and> j < length (ad_links (ads s ! i))
      then let a = ads s ! i; l = ad_links a ! j in
        if lk_href l \<noteq> [] \<and> trim (lk_html l) \<noteq> []
        then let d = ad_report env (linksContent (ad_mtp a) (ad_trim a) [l]) a in
          case crossdomainGet env (te_random env (length (sent s))) d of
            Inr (Some e) \<Rightarrow> s\<lparr>sent := sent s @ [(False, d, e)]\<rparr>
          | _ \<Rightarrow> s
        else s
      else s)"

text \<open>The places of one module are one place: the attributes and the position of the first, the links of all.\<close>

definition same_mod :: "place_elem \<Rightarrow> place_elem \<Rightarrow> bool" where
  [js_eval]: "same_mod a b \<longleftrightarrow> or_undefined (pl_mod a) = or_undefined (pl_mod b)"

definition join_places :: "place_elem \<Rightarrow> place_elem list \<Rightarrow> place_elem" where
  [js_eval]: "join_places a bs = a\<lparr>pl_links := (\<lambda>sel. concat (map (\<lambda>e. pl_links e sel) (a # bs))),
     pl_frames := sum_list (map pl_frames (a # bs))\<rparr>"

function group_places :: "place_elem list \<Rightarrow> place_elem list" where
  "group_places [] = []"
| "group_places (a # as) =
     join_places a (filter (same_mod a) as) # group_places (filter (\<lambda>b. \<not> same_mod a b) as)"
  by pat_completeness auto
termination
  by (relation "measure length") (auto simp: less_Suc_eq_le)

definition dom_ready :: "track_env \<Rightarrow> place_elem list \<Rightarrow> tracker \<Rightarrow> tracker" where
  [js_eval]: "dom_ready env es s = track_scroll (fold (trackingAd env) (group_places es) (s\<lparr>tr_ready := True\<rparr>))"

datatype track_event =
  TReady "place_elem list" | TScroll | TTimer int | TTrack place_elem | TFrame nat nat "link list" | TClick nat nat

fun track_step :: "track_env \<Rightarrow> track_event \<Rightarrow> tracker \<Rightarrow> tracker" where
  "track_step env (TReady es) s = dom_ready env es s"
| "track_step env TScroll s = track_scroll s"
| "track_step env (TTimer bottom) s = track_timer env bottom s"
| "track_step env (TTrack ele) s = trackingAd env ele s"
| "track_step env (TFrame w i ls) s = frame_loaded env w i ls s"
| "track_step env (TClick i j) s = link_clicked env i j s"

definition track_run :: "track_env \<Rightarrow> track_event list \<Rightarrow> tracker \<Rightarrow> tracker" where
  [js_eval]: "track_run env evs s = fold (track_step env) evs s"


section \<open>Every place is reported once\<close>

lemma encode_keeps: "\<forall>c \<in> set s. uri_keeps c \<Longrightarrow> encodeURIComponent s = Some s"
  by (induction s) auto

lemma encode_num_str: "encodeURIComponent (num_str n) = Some (num_str n)"
  using num_str_digits[of n] by (intro encode_keeps) (auto simp: uri_keeps_def is_word_def is_digit_def)

text \<open>Whether a request is sent does not depend on its random key.\<close>

lemma param_random: "param ((num_str k, []) # kvs) = None \<longleftrightarrow> param_pairs kvs = None"
  by (cases "param_pairs kvs") (simp_all add: param_def encode_num_str)

lemma get_query_None: "get_query k d = None \<longleftrightarrow> get_query 0 d = None"
  by (simp only: get_query_def param_random append_Cons)

lemma crossdomain_random:
  "crossdomainGet env k d = Inr None \<longleftrightarrow> crossdomainGet env 0 d = Inr None"
  "(\<exists>e. crossdomainGet env k d = Inl e) \<longleftrightarrow> (\<exists>e. crossdomainGet env 0 d = Inl e)"
proof -
  consider (nil) \<open>field (js ''con'') d = []\<close> | (get) \<open>field (js ''con'') d \<noteq> []\<close> \<open>field (js ''dsm'') d = (js ''get'')\<close>
    | (other) \<open>field (js ''con'') d \<noteq> []\<close> \<open>field (js ''dsm'') d \<noteq> (js ''get'')\<close> by blast
  then show "crossdomainGet env k d = Inr None \<longleftrightarrow> crossdomainGet env 0 d = Inr None"
    "(\<exists>e. crossdomainGet env k d = Inl e) \<longleftrightarrow> (\<exists>e. crossdomainGet env 0 d = Inl e)"
    by (cases; use get_query_None[of k d] in \<open>cases "get_query k d"; cases "get_query 0 d"; simp only: crossdomainGet_def if_True if_False
      option.case sum.simps option.simps simp_thms\<close>)+
qed

lemma crossdomain_sends: "(\<exists>e. crossdomainGet env k d = Inr (Some e)) \<longleftrightarrow> (\<exists>e. crossdomainGet env 0 d = Inr (Some e))"
  using crossdomain_random[of env k d]
  by (cases "crossdomainGet env k d"; cases "crossdomainGet env 0 d") (metis not_None_eq sum.distinct(1) sum.inject(2))+

definition reportable :: "track_env \<Rightarrow> ad \<Rightarrow> bool" where
  \<open>reportable env a \<longleftrightarrow> (\<exists>e. crossdomainGet env 0 (ad_report env (js ''-'') a) = Inr (Some e))\<close>

definition throws_uri :: "track_env \<Rightarrow> ad \<Rightarrow> bool" where
  \<open>throws_uri env a \<longleftrightarrow> (\<exists>e. crossdomainGet env 0 (ad_report env (js ''-'') a) = Inl e)\<close>

lemma crossdomain_cases:
  obtains (thrown) e where \<open>crossdomainGet env k (ad_report env (js ''-'') a) = Inl e\<close> "throws_uri env a" "\<not> reportable env a"
  | (none) \<open>crossdomainGet env k (ad_report env (js ''-'') a) = Inr None\<close> "\<not> throws_uri env a" "\<not> reportable env a"
  | (sends) e where \<open>crossdomainGet env k (ad_report env (js ''-'') a) = Inr (Some e)\<close> "\<not> throws_uri env a" "reportable env a"
proof -
  have t: \<open>throws_uri env a \<longleftrightarrow> (\<exists>e. crossdomainGet env k (ad_report env (js ''-'') a) = Inl e)\<close>
    unfolding throws_uri_def by (rule crossdomain_random(2)[symmetric])
  have r: \<open>reportable env a \<longleftrightarrow> (\<exists>e. crossdomainGet env k (ad_report env (js ''-'') a) = Inr (Some e))\<close>
    unfolding reportable_def by (rule crossdomain_sends[symmetric])
  show ?thesis
  proof (cases \<open>crossdomainGet env k (ad_report env (js ''-'') a)\<close>)
    case (Inl e)
    then show ?thesis using t r thrown by simp
  next
    case (Inr o')
    then show ?thesis using t r none sends by (cases o') simp_all
  qed
qed

lemma reportable_viewed [simp]: "reportable env (a\<lparr>viewed := b\<rparr>) = reportable env a"
  "ad_report env ck (a\<lparr>viewed := b\<rparr>) = ad_report env ck a"
  by (simp_all add: reportable_def ad_report_def)

text \<open>The reports the places that were seen stand for, and those that were sent.\<close>

definition owed :: "track_env \<Rightarrow> ad list \<Rightarrow> report multiset" where
  \<open>owed env as = mset (map (ad_report env (js ''-'')) (filter (reportable env) (filter viewed as)))\<close>

definition exposures :: "(bool \<times> report \<times> effect) list \<Rightarrow> report multiset" where
  "exposures out = mset (map (fst \<circ> snd) (filter fst out))"

lemma exposures_simps [simp]:
  "exposures [] = {#}" "exposures (out1 @ out2) = exposures out1 + exposures out2"
  "exposures ((v, d, e) # out) = (if v then add_mset d (exposures out) else exposures out)"
  by (simp_all add: exposures_def)

lemma owed_simps [simp]:
  "owed env [] = {#}" "owed env (a @ b) = owed env a + owed env b"
  \<open>owed env (x # as) = (if viewed x \<and> reportable env x then add_mset (ad_report env (js ''-'') x) (owed env as) else owed env as)\<close>
  by (simp_all add: owed_def del: filter_filter filter_filter_mset)

lemma report_seen_owed:
  "report_seen env bottom k as = (as', out) \<Longrightarrow> owed env as' = owed env as + exposures out"
proof (induction as arbitrary: k as' out)
  case (Cons a as)
  show ?case
  proof (cases "viewed a \<or> bottom < ad_top a")
    case True
    then show ?thesis using Cons by (auto split: prod.splits)
  next
    case False
    show ?thesis
    proof (cases rule: crossdomain_cases[of env "te_random env k" a])
      case (thrown e)
      then show ?thesis using False Cons.prems by auto
    next
      case none
      then show ?thesis using False Cons by (auto split: prod.splits)
    next
      case (sends e)
      then show ?thesis using False Cons.prems Cons.IH by (auto split: prod.splits)
    qed
  qed
qed simp

lemma report_seen_above:
  "report_seen env bottom k as = (as', out) \<Longrightarrow> a' \<in> set as' \<Longrightarrow> viewed a' \<Longrightarrow>
   ad_top a' \<le> bottom \<or> (\<exists>a \<in> set as. viewed a \<and> ad_top a = ad_top a')"
proof (induction as arbitrary: k as' out)
  case (Cons a as)
  then show ?case
    by (auto simp: Let_def not_le split: prod.splits if_splits sum.splits option.splits) (meson not_le)+
qed simp

text \<open>Nothing is reported before it is reached.\<close>

definition track_inv :: "track_env \<Rightarrow> tracker \<Rightarrow> bool" where
  "track_inv env s \<longleftrightarrow> exposures (sent s) = owed env (ads s)
     \<and> (\<forall>a \<in> set (ads s). viewed a \<longrightarrow> ad_top a \<le> viewedHeight s)"

lemma inv_scroll: "track_inv env s \<Longrightarrow> track_inv env (track_scroll s)"
  by (simp add: track_inv_def track_scroll_def)

lemma inv_timer: "track_inv env s \<Longrightarrow> track_inv env (track_timer env bottom s)"
proof -
  assume inv: "track_inv env s"
  obtain as' out where r: "report_seen env bottom (length (sent s)) (ads s) = (as', out)" by fastforce
  have "ad_top a \<le> bottom" if "bottom > viewedHeight s" "a \<in> set as'" "viewed a" for a
    using report_seen_above[OF r that(2,3)] inv that(1) by (fastforce simp: track_inv_def)
  then show ?thesis
    using inv r report_seen_owed[OF r] by (auto simp: track_timer_def track_inv_def Let_def)
qed

lemma inv_place: "track_inv env s \<Longrightarrow> track_inv env (place_found env ele ls s)"
proof -
  assume inv: "track_inv env s"
  define a where "a = \<lparr>ad_top = pl_top ele, viewed = False, ad_pid = track_pid env ele, ad_mod = pl_mod ele,
    ad_dsm = track_dsm ele, ad_mtp = track_mtp ele, ad_trim = track_trim env ele,
    ad_con = linksContent (track_mtp ele) (track_trim env ele) ls, ad_links = map (open_blank (blk s)) ls\<rparr>"
  have "track_inv env (s\<lparr>ads := ads s @ [a]\<rparr>)" using inv by (auto simp: track_inv_def a_def)
  then show ?thesis by (simp add: place_found_def Let_def inv_scroll flip: a_def)
qed

lemma inv_fields:
  "track_inv env (s\<lparr>blk := b\<rparr>) = track_inv env s" "track_inv env (s\<lparr>waitings := w\<rparr>) = track_inv env s"
  "track_inv env (s\<lparr>tr_ready := r\<rparr>) = track_inv env s"
  by (simp_all add: track_inv_def)

lemma inv_trackingAd: "track_inv env s \<Longrightarrow> track_inv env (trackingAd env ele s)"
  by (auto simp: trackingAd_def Let_def inv_fields intro!: inv_place)

lemma inv_ready: "track_inv env s \<Longrightarrow> track_inv env (dom_ready env es s)"
proof -
  have "track_inv env s \<Longrightarrow> track_inv env (fold (trackingAd env) gs s)" for gs s
    by (induction gs arbitrary: s) (auto intro: inv_trackingAd)
  then show "track_inv env s \<Longrightarrow> track_inv env (dom_ready env es s)" by (simp add: dom_ready_def inv_scroll inv_fields)
qed

lemma inv_clicked: "track_inv env s \<Longrightarrow> track_inv env (link_clicked env i j s)"
  by (auto simp: link_clicked_def track_inv_def Let_def split: sum.splits option.splits)

lemma inv_step: "track_inv env s \<Longrightarrow> track_inv env (track_step env ev s)"
  by (cases ev) (auto simp: frame_loaded_def Let_def inv_fields intro: inv_scroll inv_timer inv_place inv_trackingAd inv_ready inv_clicked)

interpretation trackers: event_machine "track_step env" "\<lambda>_. True" "track_inv env" for env
  by unfold_locales (rule inv_step)

lemma inv_run: "track_inv env s \<Longrightarrow> track_inv env (track_run env evs s)"
  unfolding track_run_def by (rule trackers.run_inv) (simp_all add: list_all_iff)

text \<open>C13 After any sequence of registrations, scroll events, timers, loads of frames and clicks, the reports of
  exposures that were sent are, as a multiset, one for each place that counts as seen and can be reported, so no place
  is reported twice and none is lost; and every place that counts as seen has been scrolled to.\<close>

theorem exposures_once:
  "exposures (sent (track_run env evs tracker_start)) = owed env (ads (track_run env evs tracker_start))
   \<and> {a \<in> set (ads (track_run env evs tracker_start)). viewed a}
       \<subseteq> {a. ad_top a \<le> viewedHeight (track_run env evs tracker_start)}"
proof -
  have "track_inv env tracker_start" by (simp add: track_inv_def tracker_start_def)
  from inv_run[OF this, of evs] show ?thesis by (auto simp: track_inv_def)
qed

section \<open>What a scroll reports\<close>

lemma report_seen_all:
  "report_seen env bottom k as = (as', out) \<Longrightarrow> \<forall>a \<in> set as. \<not> throws_uri env a \<Longrightarrow>
   as' = map (\<lambda>a. if ad_top a \<le> bottom then a\<lparr>viewed := True\<rparr> else a) as"
proof (induction as arbitrary: k as' out)
  case (Cons a as)
  show ?case
  proof (cases "viewed a \<or> bottom < ad_top a")
    case True
    then show ?thesis using Cons by (auto split: prod.splits)
  next
    case False
    show ?thesis
      by (cases rule: crossdomain_cases[of env "te_random env k" a]) (use False Cons in \<open>auto split: prod.splits\<close>)
  qed
qed simp

text \<open>When the timer of a scroll event fires and the bottom of the window is lower than ever before, every
  place down to it counts as seen and the others are as they were, when the texts of the places can be encoded.\<close>

theorem scroll_sees_all:
  assumes "tr_ready s" "ads s \<noteq> []" "viewedHeight s < bottom" "\<forall>a \<in> set (ads s). \<not> throws_uri env a"
  shows "ads (track_timer env bottom (track_scroll s))
    = map (\<lambda>a. if ad_top a \<le> bottom then a\<lparr>viewed := True\<rparr> else a) (ads s)"
proof -
  obtain as' out where r: "report_seen env bottom (length (sent s)) (ads s) = (as', out)" by fastforce
  show ?thesis using assms(1-3) r report_seen_all[OF r assms(4)] by (simp add: track_timer_def track_scroll_def Let_def)
qed

lemma scroll_sees_all_witness:
  \<open>ads (track_timer \<lparr>te_protocol = (js ''http:''), te_referrer = [], te_body_pid = None, te_host = [], te_cookie = [],
       te_random = (\<lambda>_. 0), te_RegExp = (\<lambda>_ _. (no_flags, REps))\<rparr> 800
     (track_scroll (tracker_start\<lparr>tr_ready := True,
       ads := [\<lparr>ad_top = 500, viewed = False, ad_pid = None, ad_mod = Some (js ''popu_72''), ad_dsm = (js ''post''), ad_mtp = MtpNum 2,
                ad_trim = NoTrim, ad_con = (js ''x''), ad_links = []\<rparr>]\<rparr>)))
   = [\<lparr>ad_top = 500, viewed = True, ad_pid = None, ad_mod = Some (js ''popu_72''), ad_dsm = (js ''post''), ad_mtp = MtpNum 2,
        ad_trim = NoTrim, ad_con = (js ''x''), ad_links = []\<rparr>]\<close>
  by (subst scroll_sees_all)
    (simp_all add: tracker_start_def throws_uri_def crossdomainGet_def ad_report_def field_def or_empty_def js_def)

text \<open>A place that is added above the height that was reached waits: the scroll event that \<open>trackingAd\<close> triggers for it
  does nothing until the window is scrolled further down.\<close>

lemma late_place_waits:
  assumes "pl_frames ele = 0" "\<forall>b \<in> set bottoms. b \<le> viewedHeight s"
  shows "sent (track_run env (TTrack ele # concat (map (\<lambda>b. [TScroll, TTimer b]) bottoms)) s) = sent s"
proof -
  have wait: "\<forall>b \<in> set bs. b \<le> viewedHeight s' \<Longrightarrow>
      sent (track_run env (concat (map (\<lambda>b. [TScroll, TTimer b]) bs)) s') = sent s'" for bs s'
  proof (induction bs arbitrary: s')
    case (Cons b bs)
    let ?s = "track_timer env b (track_scroll s')"
    have "sent ?s = sent s'" "viewedHeight ?s = viewedHeight s'"
      using Cons.prems by (auto simp: track_timer_def track_scroll_def Let_def)
    then show ?case using Cons.IH[of ?s] Cons.prems by (simp add: track_run_def)
  qed (simp add: track_run_def)
  have "sent (trackingAd env ele s) = sent s" "viewedHeight (trackingAd env ele s) = viewedHeight s"
    using assms(1) by (simp_all add: trackingAd_def place_found_def track_scroll_def Let_def)
  then show ?thesis using wait[of bottoms "trackingAd env ele s"] assms(2) by (simp add: track_run_def)
qed

text \<open>The type of a place that is given as an attribute is a text, which is never the number of the images.\<close>

lemma image_type_ignored:
  \<open>link_text (MtpText (js ''3'')) \<lparr>lk_html = (js ''<img>x''), lk_title = [], lk_href = [], lk_strategy = None,
     lk_img = Some ((js ''t''), [], []), lk_target = []\<rparr> = (js ''x'')\<close>
  by code_simp

end
