(* ===== verification/SaveCode.thy ===== *)
theory SaveCode
  imports Page Cookies
begin

text \<open>
  Saving a code block as a snippet (\<open>saveToCode.js\<close>): the form over the page, the language of the block, the tags of the
  snippet and the request that saves it.

  A tag is kept as the markup the code writes for it; what the browser reads back from the element, as markup and as
  text, are the two functions of \<open>browser\<close>. The page is that of \<open>Page\<close> with the variables of the script.
\<close>

section \<open>State\<close>

record browser =
  bw_html :: "jstr \<Rightarrow> jstr"
  bw_text :: "jstr \<Rightarrow> jstr"

record save_page = page +
  spans :: "jstr list"                \<comment> \<open>the tags shown, in their order\<close>
  tag_count :: int                    \<comment> \<open>\<open>i\<close>\<close>
  newVal :: jstr
  tag_flag :: bool                    \<comment> \<open>\<open>b\<close>\<close>
  sv_title :: jstr
  sv_code :: jstr
  sv_lang :: jstr

lemma save_frame [simp]:
  "spans (set_val k v p) = spans p" "spans (emit e p) = spans p"
  "tag_count (set_val k v p) = tag_count p" "tag_count (emit e p) = tag_count p"
  "newVal (set_val k v p) = newVal p" "newVal (emit e p) = newVal p"
  "tag_flag (set_val k v p) = tag_flag p" "tag_flag (emit e p) = tag_flag p"
  by (simp_all add: page_upd_defs)

lemma save_val_frame [simp]:
  "val_of k (p\<lparr>spans := a\<rparr>) = val_of k p" "val_of k (p\<lparr>tag_count := b\<rparr>) = val_of k p"
  "val_of k (p\<lparr>newVal := c\<rparr>) = val_of k p" "val_of k (p\<lparr>tag_flag := d\<rparr>) = val_of k p"
  by (simp_all add: page_acc_defs)

section \<open>The language of a block\<close>

definition langArr :: "(jstr \<times> jstr) list" where
  [js_eval]: \<open>langArr = [((js ''cpp''), (js ''c++'')), ((js ''csharp''), (js ''c#'')), ((js ''obj-c''), (js ''objective-c'')), ((js ''objc''), (js ''objective-c''))]\<close>

text \<open>The loop over the keys; \<open>None\<close> is \<open>undefined\<close>, which has no \<open>toLowerCase\<close>.\<close>

fun handle_loop :: "(jstr \<times> jstr) list \<Rightarrow> jstr option \<Rightarrow> js_error + jstr option" where
  "handle_loop [] str = Inr str"
| "handle_loop ((key, v) # ks) None = Inl TypeError"
| "handle_loop ((key, v) # ks) (Some str) =
     (if to_lower str = key then handle_loop ks (map_of langArr str) else handle_loop ks (Some str))"

definition encode_or_throw :: "jstr \<Rightarrow> js_error + jstr" where
  [js_eval]: "encode_or_throw s = (case encodeURIComponent s of None \<Rightarrow> Inl URIError | Some t \<Rightarrow> Inr t)"

definition handle_lang :: "jstr \<Rightarrow> js_error + jstr" where
  [js_eval]: \<open>handle_lang str =
     (case handle_loop langArr (Some str) of
        Inl e \<Rightarrow> Inl e
      | Inr r \<Rightarrow> encode_or_throw (case r of None \<Rightarrow> (js ''undefined'') | Some s \<Rightarrow> s))\<close>

definition getLang :: "jstr option \<Rightarrow> jstr \<Rightarrow> js_error + jstr" where
  [js_eval]: "getLang str htmlEdit =
     (case str of
        Some s \<Rightarrow> handle_lang (drop 9 (hd (split_cu 32 s)))
      | None \<Rightarrow>
          (case encode_or_throw (substring htmlEdit 1 (length htmlEdit - 1)) of
             Inl e \<Rightarrow> Inl e | Inr t \<Rightarrow> handle_lang t))"

section \<open>The form\<close>

definition getTag :: "jstr list \<Rightarrow> save_page \<Rightarrow> save_page" where
  [js_eval]: \<open>getTag pageTags p =
     p\<lparr>spans := pageTags, newVal := newVal p @ concat (map (\<lambda>t. t @ (js '','')) pageTags),
       tag_count := int (if length pageTags \<le> 5 then length pageTags else 5)\<rparr>\<close>

text \<open>The value of the hidden field is written without quotes, so it ends at the first blank.\<close>

definition unquoted :: "jstr \<Rightarrow> jstr" where
  [js_eval]: "unquoted v = takeWhile (\<lambda>c. c \<notin> {9, 10, 12, 13, 32, 62}) v"

definition save_preload :: "jstr list \<Rightarrow> jstr \<Rightarrow> save_page \<Rightarrow> js_error + save_page" where
  [js_eval]: \<open>save_preload pageTags winHref p =
     (let p1 = append_html ''body'' (js ''<div id='' @ [39] @ js ''mask_code'' @ [39] @ js ''></div>'')
                 (append_html ''.dp-highlighter,.prettyprint''
                   (js ''<div class="save_code tracking-ad" data-mod="popu_249"><a href="javascript:;"><img src="http://s'' @
    js ''tatic.blog.csdn.net/images/save_snippets.png"/></a></div>'')
                   p)
      in case decodeURIComponent (sv_title p) of
           None \<Rightarrow> Inl URIError
         | Some t \<Rightarrow>
             Inr (set_val ''#OrganTag'' (unquoted (newVal (getTag pageTags p1)))
               (set_attr (''#form_title'', ''placeholder'') (Some t)
                 (set_attr (''#form-textarea'', ''placeholder'') (Some (t @ ([65306] @ js '' '') @ winHref)) (getTag pageTags p1)))))\<close>

definition save_enter :: "nat \<Rightarrow> 'a page_scheme \<Rightarrow> 'a page_scheme" where
  [js_eval]: \<open>save_enter height p =
     set_shown ''.save_code'' True
       (if height < 80
        then set_attr (''.save_code img'', ''src'') (Some (js ''http://static.blog.csdn.net/images/save_snippets_01.png'')) p
        else p)\<close>

definition save_leave :: "'a page_scheme \<Rightarrow> 'a page_scheme" where
  [js_eval]: "save_leave p = set_shown ''.save_code'' False p"

definition resetTag :: "'a page_scheme \<Rightarrow> 'a page_scheme" where
  [js_eval]: "resetTag p = set_shown ''.gist_edit'' False (set_shown ''#mask_code'' False p)"

text \<open>A click on the button of a block: the text of the block, its class and the title of its bar. The handler may
  throw after it has set the variables.\<close>

definition showPop :: "jstr \<Rightarrow> jstr \<Rightarrow> jstr \<Rightarrow> jstr option \<Rightarrow> jstr \<Rightarrow> save_page \<Rightarrow> save_page \<times> js_error option" where
  [js_eval]: \<open>showPop currentUserName pageTitle codeText preLan htmlEdit p =
     (let p1 = p\<lparr>sv_title := trim pageTitle\<rparr> in
      case encode_or_throw codeText of
        Inl e \<Rightarrow> (p1, Some e)
      | Inr c \<Rightarrow>
          let p2 = p1\<lparr>sv_code := c\<rparr> in
          case getLang preLan htmlEdit of
            Inl e \<Rightarrow> (p2, Some e)
          | Inr l \<Rightarrow>
              let p3 = p2\<lparr>sv_lang := l\<rparr> in
              if currentUserName \<noteq> []
              then (set_shown ''.gist_edit'' True (set_shown ''#mask_code'' True p3), None)
              else (emit (Navigate (js ''https://passport.csdn.net/'')) p3, None))\<close>

definition save_cancel :: "'a page_scheme \<Rightarrow> 'a page_scheme" where
  [js_eval]: "save_cancel p = resetTag (set_val ''#form_title'' [] (set_val ''#form-textarea'' [] p))"

definition val_or :: "jstr \<Rightarrow> jstr \<Rightarrow> jstr" where
  [js_eval]: "val_or a b = (if a \<noteq> [] then a else b)"

text \<open>The title that is sent is kept in the variable, encoded.\<close>

definition save_confirm :: "jstr \<Rightarrow> save_page \<Rightarrow> save_page \<times> js_error option" where
  [js_eval]: \<open>save_confirm currentUserName p =
     (case encode_or_throw (val_or (val_of ''#form-textarea'' p)
             (case attr_of (''#form-textarea'', ''placeholder'') p of Some t \<Rightarrow> t | None \<Rightarrow> (js ''undefined''))) of
        Inl e \<Rightarrow> (p, Some e)
      | Inr description \<Rightarrow>
          (case encode_or_throw (val_or (val_of ''#form_title'' p) (sv_title p)) of
             Inl e \<Rightarrow> (p, Some e)
           | Inr t \<Rightarrow>
               let p1 = p\<lparr>sv_title := t\<rparr> in
               case encode_or_throw (val_of ''#OrganTag'' p) of
                 Inl e \<Rightarrow> (p1, Some e)
               | Inr tags \<Rightarrow>
                   (emit (AjaxPost ((js ''http://blog.csdn.net/'') @ currentUserName @ (js ''/svc/addpostcode''))
                      [('''', (js ''code='') @ sv_code p @ (js ''&lang='') @ sv_lang p @ (js ''&username='') @ currentUserName @ (js ''&title='') @ t
                              @ (js ''&description='') @ description @ (js ''&tags='') @ tags)]) p1, None)))\<close>

definition save_answer :: "jstr option \<Rightarrow> 'a page_scheme \<Rightarrow> 'a page_scheme" where
  [js_eval]: \<open>save_answer msg p =
     (case msg of
        None \<Rightarrow> emit (Alert ([20445, 23384, 22833, 36133])) p
      | Some m \<Rightarrow> if m \<noteq> [] then resetTag (emit (Alert ([20445, 23384, 25104, 21151, 65281])) p) else p)\<close>

section \<open>Tags\<close>

text \<open>The two warnings, after 300 milliseconds.\<close>

definition tag_test :: "bool \<Rightarrow> 'a page_scheme \<Rightarrow> 'a page_scheme" where
  [js_eval]: "tag_test flg p = emit (StartTimer (if flg then ''tag chosen'' else ''five tags'') 300) p"

fun tag_same :: "browser \<Rightarrow> jstr \<Rightarrow> jstr list \<Rightarrow> save_page \<Rightarrow> save_page" where
  "tag_same bw insertval [] p = p"
| "tag_same bw insertval (v # vs) p =
     tag_same bw insertval vs
       (if insertval = trim (bw_html bw v)
        then (if tag_count p < 5 then tag_test True (p\<lparr>tag_flag := True\<rparr>) else p\<lparr>tag_flag := True\<rparr>)
        else p)"

definition addTag :: "browser \<Rightarrow> save_page \<Rightarrow> save_page" where
  [js_eval]: \<open>addTag bw p =
     (let insertval = trim (val_of ''#insertTag'' p);
          p' = (if insertval \<noteq> []
            then let p1 = tag_same bw insertval (spans p) p;
                     p2 = (if tag_count p1 \<ge> 5 then tag_test False (p1\<lparr>tag_flag := True\<rparr>) else p1);
                     p3 = (if \<not> tag_flag p2
                           then p2\<lparr>spans := spans p2 @ [insertval], newVal := newVal p2 @ insertval @ (js '',''),
                                   tag_count := tag_count p2 + 1\<rparr>
                           else p2)
                 in if tag_flag p3 then set_val ''#insertTag'' [] (p3\<lparr>tag_flag := False\<rparr>) else p3
            else p)
      in set_val ''#OrganTag'' (newVal p') (set_val ''#insertTag'' [] p'))\<close>

text \<open>The handler is delegated with an element for its selector, so jQuery binds it to every key of the page.\<close>

definition enterTag :: "browser \<Rightarrow> nat \<Rightarrow> save_page \<Rightarrow> save_page" where
  [js_eval]: "enterTag bw keyCode p = (if keyCode = 13 \<or> keyCode = 188 then addTag bw p else p)"

fun splice_equal :: "jstr \<Rightarrow> jstr list \<Rightarrow> jstr list" where
  "splice_equal v [] = []"
| "splice_equal v (x # xs) =
     (if v = x then (case xs of [] \<Rightarrow> [] | y # ys \<Rightarrow> y # splice_equal v ys) else x # splice_equal v xs)"

definition DelTag :: "browser \<Rightarrow> nat \<Rightarrow> save_page \<Rightarrow> save_page" where
  [js_eval]: \<open>DelTag bw n p =
     (if n < length (spans p)
      then let delVal = bw_text bw (spans p ! n);
               p1 = p\<lparr>spans := take n (spans p) @ drop (Suc n) (spans p), newVal := butlast (newVal p)\<rparr>;
               p2 = (if contains delVal (newVal p1)
                     then let nv = join (js '','') (splice_equal delVal (split_cu 44 (newVal p1))) @ (js '','')
                          in set_val ''#OrganTag'' nv (p1\<lparr>newVal := nv\<rparr>)
                     else p1)
           in p2\<lparr>tag_count := tag_count p2 - 1\<rparr>
      else p)\<close>

datatype tag_event = TagTyped jstr nat | TagRemoved nat

fun tag_step :: "browser \<Rightarrow> tag_event \<Rightarrow> save_page \<Rightarrow> save_page" where
  "tag_step bw (TagTyped v k) p = enterTag bw k (set_val ''#insertTag'' v p)"
| "tag_step bw (TagRemoved n) p = DelTag bw n p"

definition tag_run :: "browser \<Rightarrow> tag_event list \<Rightarrow> save_page \<Rightarrow> save_page" where
  [js_eval]: "tag_run bw evs p = fold (tag_step bw) evs p"


section \<open>Languages\<close>

text \<open>The language of a block: the four aliases of the table give the names of the table, every other name is
  sent as it is, but an alias with a capital letter looks itself up in the table and gives \<open>undefined\<close>, which throws a
  \<open>TypeError\<close> in the next round of the loop unless it was the last one.\<close>

theorem lang_result:
  \<open>handle_lang s =
     (if s \<noteq> to_lower s \<and> to_lower s \<in> {(js ''cpp''), (js ''csharp''), (js ''obj-c'')} then Inl TypeError
      else if s \<noteq> to_lower s \<and> to_lower s = (js ''objc'') then Inr (js ''undefined'')
      else encode_or_throw (case map_of langArr s of Some v \<Rightarrow> v | None \<Rightarrow> s))\<close>
proof -
  have lower: \<open>to_lower (js ''cpp'') = (js ''cpp'')\<close> \<open>to_lower (js ''csharp'') = (js ''csharp'')\<close> \<open>to_lower (js ''obj-c'') = (js ''obj-c'')\<close>
    \<open>to_lower (js ''objc'') = (js ''objc'')\<close> \<open>to_lower (js ''c++'') = (js ''c++'')\<close> \<open>to_lower (js ''c#'') = (js ''c#'')\<close> \<open>to_lower (js ''objective-c'') = (js ''objective-c'')\<close>
    by code_simp+
  have differ: \<open>(js ''cpp'') \<noteq> (js ''csharp'')\<close> \<open>(js ''cpp'') \<noteq> (js ''obj-c'')\<close> \<open>(js ''cpp'') \<noteq> (js ''objc'')\<close> \<open>(js ''csharp'') \<noteq> (js ''obj-c'')\<close> \<open>(js ''csharp'') \<noteq> (js ''objc'')\<close> \<open>(js ''obj-c'') \<noteq> (js ''objc'')\<close>
    \<open>(js ''c++'') \<notin> {(js ''csharp''), (js ''obj-c''), (js ''objc'')}\<close> \<open>(js ''c#'') \<notin> {(js ''obj-c''), (js ''objc'')}\<close> \<open>(js ''objective-c'') \<noteq> (js ''objc'')\<close>
    by code_simp+
  have undef: \<open>encode_or_throw (js ''undefined'') = Inr (js ''undefined'')\<close> by code_simp
  show ?thesis
  proof (cases "s = to_lower s")
    case True
    then show ?thesis using lower differ by (auto simp: handle_lang_def langArr_def)
  next
    case False
    then have "map_of langArr s = None" using lower by (auto simp: langArr_def)
    then show ?thesis using False differ undef by (auto simp: handle_lang_def langArr_def)
  qed
qed

section \<open>The tags and the hidden field\<close>

text \<open>A tag the browser reads back as it was written.\<close>

definition tag_ok :: "browser \<Rightarrow> jstr \<Rightarrow> bool" where
  [js_eval]: "tag_ok bw v \<longleftrightarrow> v \<noteq> [] \<and> trim v = v \<and> 44 \<notin> set v \<and> bw_html bw v = v \<and> bw_text bw v = v"

definition tag_list :: "jstr list \<Rightarrow> jstr" where
  "tag_list ts = concat (map (\<lambda>t. t @ [44]) ts)"

lemma tag_list_simps [simp]: "tag_list [] = []" "tag_list (t # ts) = t @ 44 # tag_list ts"
  "tag_list (ss @ ts) = tag_list ss @ tag_list ts"
  by (simp_all add: tag_list_def)

lemma butlast_tag_list: "ts \<noteq> [] \<Longrightarrow> butlast (tag_list ts) = join [44] ts"
proof (induction "[44 :: cu]" ts rule: join.induct)
  case (3 x y ys)
  then show ?case by (simp add: butlast_append)
qed simp_all

lemma tag_list_join: "ts \<noteq> [] \<Longrightarrow> tag_list ts = join [44] ts @ [44]"
  by (induction "[44 :: cu]" ts rule: join.induct) simp_all

lemma split_tag_list: "\<forall>t \<in> set ts. 44 \<notin> set t \<Longrightarrow> split_cu 44 (tag_list ts) = ts @ [[]]"
  by (induction ts) (simp_all add: split_cu_append_sep)

lemma splice_equal_remove1: "distinct ts \<Longrightarrow> splice_equal v ts = remove1 v ts"
proof (induction v ts rule: splice_equal.induct)
  case (2 v x xs)
  have "splice_equal v ys = ys" if "v \<notin> set ys" for ys
    using that by (induction v ys rule: splice_equal.induct) (auto split: list.splits)
  then show ?case using 2 by (cases xs) auto
qed simp

lemma contains_join: "v \<in> set ts \<Longrightarrow> contains v (join [44] ts)"
proof -
  assume "v \<in> set ts"
  then obtain as bs where ts: "ts = as @ v # bs" by (meson split_list)
  have "\<exists>x y. join [44] (as @ v # bs) = x @ v @ y"
  proof (induction as)
    case Nil
    show ?case by (cases bs) (auto intro: exI[of _ "[]"])
  next
    case (Cons a as)
    then obtain x y where "join [44] (as @ v # bs) = x @ v @ y" by blast
    then have "join [44] ((a # as) @ v # bs) = (a @ 44 # x) @ v @ y" by (cases "as @ v # bs") simp_all
    then show ?case by blast
  qed
  then show ?thesis by (simp add: contains_iff ts)
qed

text \<open>The hidden field lists the tags, after an empty one once the last tag has been removed.\<close>

definition tags_inv :: "browser \<Rightarrow> save_page \<Rightarrow> bool" where
  "tags_inv bw p \<longleftrightarrow> list_all (tag_ok bw) (spans p) \<and> distinct (spans p) \<and> length (spans p) \<le> 5
     \<and> tag_count p = int (length (spans p)) \<and> \<not> tag_flag p
     \<and> (newVal p = tag_list (spans p) \<or> newVal p = tag_list ([] # spans p))
     \<and> val_of ''#OrganTag'' p = newVal p"

lemma tag_same_frame [simp]:
  "spans (tag_same bw v vs p) = spans p" "newVal (tag_same bw v vs p) = newVal p"
  "tag_count (tag_same bw v vs p) = tag_count p" "val_of k (tag_same bw v vs p) = val_of k p"
  by (induction bw v vs p rule: tag_same.induct) (simp_all add: tag_test_def)

lemma tag_same_flag: "list_all (tag_ok bw) vs \<Longrightarrow> tag_flag (tag_same bw v vs p) \<longleftrightarrow> tag_flag p \<or> v \<in> set vs"
  by (induction bw v vs p rule: tag_same.induct) (auto simp: tag_test_def tag_ok_def)

lemma addTag_inv:
  assumes "tags_inv bw p" "v = val_of ''#insertTag'' p" "trim v = [] \<or> tag_ok bw (trim v)"
  shows "tags_inv bw (addTag bw p)"
proof (cases "trim v = [] \<or> trim v \<in> set (spans p) \<or> tag_count p \<ge> 5")
  case True
  have "spans (addTag bw p) = spans p" "newVal (addTag bw p) = newVal p" "tag_count (addTag bw p) = tag_count p"
    "\<not> tag_flag (addTag bw p)" "val_of ''#OrganTag'' (addTag bw p) = newVal p"
    using True assms by (auto simp: addTag_def Let_def tag_same_flag tag_test_def tags_inv_def)
  then show ?thesis using assms(1) by (simp add: tags_inv_def)
next
  case False
  have "spans (addTag bw p) = spans p @ [trim v]" "newVal (addTag bw p) = newVal p @ tag_list [trim v]"
    "tag_count (addTag bw p) = tag_count p + 1" "\<not> tag_flag (addTag bw p)"
    "val_of ''#OrganTag'' (addTag bw p) = newVal p @ tag_list [trim v]"
    using False assms by (auto simp: addTag_def Let_def tag_same_flag tags_inv_def js_def)
  then show ?thesis using assms False by (auto simp: tags_inv_def)
qed

lemma DelTag_inv:
  assumes "tags_inv bw p"
  shows "tags_inv bw (DelTag bw n p)"
proof (cases "n < length (spans p)")
  case False
  then show ?thesis using assms by (simp add: DelTag_def)
next
  case True
  define v where "v = spans p ! n"
  define vs where "vs = take n (spans p) @ drop (Suc n) (spans p)"
  have sp: "spans p = take n (spans p) @ v # drop (Suc n) (spans p)" using True by (simp add: v_def id_take_nth_drop)
  obtain pre where pre: "pre = [] \<or> pre = [[]]" "newVal p = tag_list (pre @ spans p)"
    using assms by (auto simp: tags_inv_def intro: that[of "[]"] that[of "[[]]"])
  have ok: "\<forall>t \<in> set (spans p). tag_ok bw t" and dist: "distinct (spans p)"
    using assms by (auto simp: tags_inv_def list_all_iff)
  have v: "v \<in> set (spans p)" "bw_text bw v = v" "v \<noteq> []" using ok True by (auto simp: v_def tag_ok_def)
  have "v \<notin> set (take n (spans p))" using dist by (subst (asm) sp) simp
  then have "remove1 v (take n (spans p) @ v # drop (Suc n) (spans p)) = vs" by (simp add: vs_def remove1_append)
  then have rem: "remove1 v (spans p) = vs" using sp by simp
  have dist': "distinct (pre @ spans p)" using dist ok pre(1) by (auto simp: tag_ok_def)
  have nv: "butlast (newVal p) = join [44] (pre @ spans p)" 
    unfolding pre(2) by (rule butlast_tag_list) (use v(1) in auto)
  have split: "split_cu 44 (join [44] (pre @ spans p)) = pre @ spans p"
    using v(1) ok pre(1) by (intro split_cu_join) (auto simp: tag_ok_def)
  have left: "splice_equal v (pre @ spans p) = pre @ vs"
    using v(3) pre(1) by (auto simp: splice_equal_remove1[OF dist'] rem remove1_append)
  have del: "DelTag bw n p =
      (set_val ''#OrganTag'' (join [44] (pre @ vs) @ [44])
        (p\<lparr>spans := vs, newVal := join [44] (pre @ vs) @ [44]\<rparr>))\<lparr>tag_count := tag_count p - 1\<rparr>"
    using True v(1,2) contains_join[of v "pre @ spans p"]
    by (simp add: DelTag_def Let_def nv split left js_def flip: v_def vs_def)
  have "join [44] (pre @ vs) @ [44] = tag_list vs \<or> join [44] (pre @ vs) @ [44] = tag_list ([] # vs)"
    using pre(1) tag_list_join[of "pre @ vs"] by (cases "pre @ vs = []") auto
  moreover have "list_all (tag_ok bw) vs" "distinct vs" "length vs = length (spans p) - 1"
    using ok dist v(1) set_remove1_subset[of v "spans p"] by (auto simp: list_all_iff length_remove1 simp flip: rem)
  ultimately show ?thesis using assms True by (auto simp: del tags_inv_def)
qed


text \<open>A tag that is typed is one the browser keeps, or blank.\<close>

definition typed_ok :: "browser \<Rightarrow> tag_event \<Rightarrow> bool" where
  [js_eval]: "typed_ok bw ev = (case ev of TagTyped v k \<Rightarrow> trim v = [] \<or> tag_ok bw (trim v) | TagRemoved n \<Rightarrow> True)"

lemma tag_step_inv: "tags_inv bw p \<Longrightarrow> typed_ok bw ev \<Longrightarrow> tags_inv bw (tag_step bw ev p)"
proof (cases ev)
  case (TagTyped v k)
  assume inv: "tags_inv bw p" and ok: "typed_ok bw ev"
  have "tags_inv bw (set_val ''#insertTag'' v p)" using inv by (simp add: tags_inv_def)
  then show ?thesis using ok addTag_inv[of bw "set_val ''#insertTag'' v p" v] by (simp add: TagTyped enterTag_def typed_ok_def)
qed (simp add: DelTag_inv)

text \<open>What the tags are meant to be: a new one is added while there are fewer than five.\<close>

fun tag_spec :: "tag_event \<Rightarrow> jstr list \<Rightarrow> jstr list" where
  "tag_spec (TagTyped v k) ts =
     (if (k = 13 \<or> k = 188) \<and> trim v \<noteq> [] \<and> trim v \<notin> set ts \<and> length ts < 5 then ts @ [trim v] else ts)"
| "tag_spec (TagRemoved n) ts = take n ts @ drop (Suc n) ts"

lemma DelTag_spans: "spans (DelTag bw n p) = take n (spans p) @ drop (Suc n) (spans p)"
  by (simp add: DelTag_def Let_def)

lemma tag_step_spans: "tags_inv bw p \<Longrightarrow> typed_ok bw ev \<Longrightarrow> spans (tag_step bw ev p) = tag_spec ev (spans p)"
proof (cases ev)
  case (TagTyped v k)
  assume "tags_inv bw p"
  then show ?thesis
    by (auto simp: TagTyped enterTag_def addTag_def Let_def tag_same_flag tag_test_def tags_inv_def)
qed (simp add: DelTag_spans)

interpretation snippets: refined_machine "tag_step bw" "typed_ok bw" "tags_inv bw" spans tag_spec for bw
  by unfold_locales (simp_all add: tag_step_inv tag_step_spans)

lemma tag_run_inv: "tags_inv bw p \<Longrightarrow> list_all (typed_ok bw) evs \<Longrightarrow> tags_inv bw (tag_run bw evs p)"
  unfolding tag_run_def by (rule snippets.run_inv)

lemma getTag_inv:
  assumes "list_all (tag_ok bw) cats" "distinct cats" "length cats \<le> 5" "newVal p = []" "\<not> tag_flag p"
  shows "tags_inv bw (set_val ''#OrganTag'' (newVal (getTag cats p)) (getTag cats p))"
proof -
  have \<open>concat (map (\<lambda>t. t @ (js '','')) cats) = tag_list cats\<close> by (simp add: tag_list_def js_def)
  then show ?thesis using assms by (simp add: tags_inv_def getTag_def)
qed


definition plain_browser :: browser where
  [js_eval]: "plain_browser = \<lparr>bw_html = id, bw_text = id\<rparr>"

definition blank_save :: save_page where
  [js_eval]: "blank_save = \<lparr>els = (\<lambda>_. blank_elem), effects = [], spans = [], tag_count = 0, newVal = [], tag_flag = False,
     sv_title = [], sv_code = [], sv_lang = []\<rparr>"


text \<open>Six categories are all shown as tags, and after one has been removed a sixth can be added again.\<close>

lemma six_tags:
  \<open>length (spans (tag_run plain_browser [TagRemoved 0, TagTyped (js ''g'') 13]
     (getTag [(js ''a''), (js ''b''), (js ''c''), (js ''d''), (js ''e''), (js ''f'')] blank_save))) = 6\<close>
  by code_simp

text \<open>The browser reads an ampersand back as an entity, so the same tag can be added twice.\<close>

lemma same_tag_twice:
  \<open>spans (tag_run \<lparr>bw_html = (\<lambda>v. if v = (js ''a&b'') then (js ''a&amp;b'') else v), bw_text = id\<rparr>
     [TagTyped (js ''a&b'') 13, TagTyped (js ''a&b'') 13] blank_save) = [(js ''a&b''), (js ''a&b'')]\<close>
  by code_simp

text \<open>A category with a blank is cut in the hidden field the form starts with.\<close>

lemma category_cut: \<open>unquoted (newVal (getTag [(js ''my tag''), (js ''x'')] blank_save)) = (js ''my'')\<close>
  by code_simp

text \<open>A second attempt to save encodes the title again.\<close>

lemma title_encoded_twice:
  \<open>sv_title (fst (save_confirm (js ''u'') (fst (save_confirm (js ''u'') (blank_save\<lparr>sv_title := (js ''a b'')\<rparr>))))) = (js ''a%2520b'')\<close>
  by code_simp

text \<open>A title with a percent sign that starts no escape stops the script before its handlers are bound.\<close>

lemma percent_title_stops: \<open>case save_preload [] [] (blank_save\<lparr>sv_title := (js ''100% done'')\<rparr>) of Inl e \<Rightarrow> e = URIError | Inr p \<Rightarrow> False\<close>
  by code_simp

end
