(* ===== verification/Category.thy ===== *)
theory Category
  imports Page
begin

text \<open>
  The categories of an article (\<open>category.js\<close>): the boxes that open under the names of the categories, and the lists
  of the other articles of a category, which the server sends (\<open>GetCategoryArticles\<close>).

  An entry of a list is kept as what the code writes into it: its address, its id, its text and the columns after it.
\<close>

section \<open>The boxes\<close>

record catbox =
  cb_onclick :: "jstr option"
  cb_open :: bool                     \<comment> \<open>\<open>.subItem\<close> is shown\<close>
  cb_up :: bool                       \<comment> \<open>\<open>.arrow-up\<close> is shown\<close>
  cb_down :: bool

definition close_box :: "catbox \<Rightarrow> catbox" where
  [js_eval]: "close_box c = c\<lparr>cb_up := False, cb_down := True, cb_open := False\<rparr>"

definition open_box :: "catbox \<Rightarrow> catbox" where
  [js_eval]: "open_box c = c\<lparr>cb_up := True, cb_down := False, cb_open := True\<rparr>"

definition close_other :: "jstr option \<Rightarrow> catbox \<Rightarrow> catbox" where
  [js_eval]: "close_other thisClickText c = (if cb_onclick c \<noteq> thisClickText \<and> cb_open c then close_box c else c)"

definition category_click :: "nat \<Rightarrow> catbox list \<Rightarrow> catbox list" where
  [js_eval]: "category_click n cs =
     (if n < length cs
      then if \<not> cb_open (cs ! n)
           then let cs1 = map (close_other (cb_onclick (cs ! n))) cs in cs1[n := open_box (cs1 ! n)]
           else cs[n := close_box (cs ! n)]
      else cs)"

text \<open>The cross of a box; its click does not reach the label.\<close>

definition category_close :: "nat \<Rightarrow> catbox list \<Rightarrow> catbox list" where
  [js_eval]: "category_close n cs = (if n < length cs then cs[n := close_box (cs ! n)] else cs)"

text \<open>The mark of the chosen category in the list of similar articles: at most one label has it.\<close>

definition similar_click :: "nat \<Rightarrow> nat option \<Rightarrow> nat option" where
  [js_eval]: "similar_click n similar_cur = Some n"

section \<open>The lists\<close>

record article =
  articleid :: nat
  ar_title :: jstr
  posttime :: jstr
  viewcount :: jstr

record entry =
  en_href :: jstr
  en_id :: jstr
  en_text :: jstr
  en_after :: "(jstr \<times> jstr) option"      \<comment> \<open>time and number of readers\<close>

record catpage = page +
  top_list :: "entry list"
  foot_left :: "entry list"
  foot_right :: "entry list"
  top_more :: "jstr option"
  more_articles :: "jstr option"

definition category_url :: "jstr \<Rightarrow> jstr \<Rightarrow> jstr \<Rightarrow> jstr" where
  [js_eval]: \<open>category_url cid username type = (js ''/'') @ username @ (js ''/svc/GetCategoryArticleList?id='') @ cid @ (js ''&type='') @ type\<close>

definition GetCategoryArticles :: "jstr \<Rightarrow> jstr \<Rightarrow> jstr \<Rightarrow> catpage \<Rightarrow> catpage" where
  [js_eval]: \<open>GetCategoryArticles cid username type p =
     (if type = (js ''top'') \<and> (top_list p \<noteq> [] \<or> top_more p \<noteq> None) then p
      else emit (AjaxGet (category_url cid username type)) p)\<close>

text \<open>\<open>replace("0.")\<close> replaces by the text of \<open>undefined\<close>. A random number is the text of one.\<close>

definition random_suffix :: "jstr \<Rightarrow> jstr" where
  [js_eval]: \<open>random_suffix rnd = replace_str rnd (js ''0.'') (js ''undefined'')\<close>

definition article_entry :: "jstr \<Rightarrow> jstr \<Rightarrow> bool \<Rightarrow> jstr \<Rightarrow> article \<Rightarrow> entry" where
  [js_eval]: \<open>article_entry prefix username columns rnd a =
     \<lparr>en_href = (js ''http://blog.csdn.net/'') @ username @ (js ''/article/details/'') @ num_str (articleid a),
      en_id = prefix @ num_str (articleid a) @ random_suffix rnd, en_text = ar_title a,
      en_after = (if columns then Some (posttime a, viewcount a) else None)\<rparr>\<close>

text \<open>The number behind the name of a category, without its brackets.\<close>

definition bracketed :: "jstr \<Rightarrow> int option" where
  [js_eval]: \<open>bracketed t = parse_int (replace_str (replace_str t ([65288]) []) ([65289]) [])\<close>

definition more_than :: "int \<Rightarrow> int option \<Rightarrow> bool" where
  [js_eval]: "more_than n v = (case v of None \<Rightarrow> False | Some k \<Rightarrow> k > n)"

definition top_answer :: "jstr \<Rightarrow> nat \<Rightarrow> (nat \<Rightarrow> jstr) \<Rightarrow> jstr \<Rightarrow> jstr \<Rightarrow> article list \<Rightarrow> catpage \<Rightarrow> catpage" where
  [js_eval]: \<open>top_answer username aid rnd emText moreurl res p =
     p\<lparr>top_list := map (\<lambda>(i, a). article_entry (js ''top_aritcle_'') username False (rnd i) a)
                    (filter (\<lambda>(i, a). aid \<noteq> articleid a) (enumerate 0 res)),
       top_more := (if more_than 5 (bracketed emText) then Some moreurl else None)\<rparr>\<close>

text \<open>The articles go alternately to the left and to the right list.\<close>

fun foot_loop :: "jstr \<Rightarrow> nat \<Rightarrow> (nat \<Rightarrow> jstr) \<Rightarrow> nat \<Rightarrow> nat \<Rightarrow> article list \<Rightarrow> catpage \<Rightarrow> catpage" where
  "foot_loop username aid rnd i j [] p = p"
| \<open>foot_loop username aid rnd i j (a # as) p =
     (if aid \<noteq> articleid a
      then let e = article_entry (js ''foot_aritcle_'') username True (rnd i) a;
               p1 = (if j mod 2 = 1 then p\<lparr>foot_right := foot_right p @ [e]\<rparr> else p\<lparr>foot_left := foot_left p @ [e]\<rparr>)
           in foot_loop username aid rnd (Suc i) (Suc j) as (set_shown ''.similar_article'' True p1)
      else foot_loop username aid rnd (Suc i) j as p)\<close>

text \<open>The last link of a category whose address contains the id.\<close>

definition more_url :: "jstr \<Rightarrow> jstr list \<Rightarrow> jstr" where
  [js_eval]: "more_url cid hrefs = fold (\<lambda>h m. if contains cid h then h else m) hrefs []"

definition foot_answer :: "jstr \<Rightarrow> jstr \<Rightarrow> nat \<Rightarrow> (nat \<Rightarrow> jstr) \<Rightarrow> jstr \<Rightarrow> jstr list \<Rightarrow> article list \<Rightarrow> catpage \<Rightarrow> catpage" where
  [js_eval]: "foot_answer cid username aid rnd emText hrefs res p =
     (let p1 = foot_loop username aid rnd 0 0 res (p\<lparr>foot_left := [], foot_right := []\<rparr>)
      in if more_than 10 (bracketed emText) \<and> more_url cid hrefs \<noteq> []
         then p1\<lparr>more_articles := Some (more_url cid hrefs)\<rparr> else p1)"

section \<open>At most one box is open\<close>

text \<open>The arrows of a box agree with it, and only one of the boxes with different handlers is open.\<close>

definition boxes_inv :: "catbox list \<Rightarrow> bool" where
  [js_eval]: "boxes_inv cs \<longleftrightarrow> list_all (\<lambda>c. cb_up c = cb_open c \<and> cb_down c = (\<not> cb_open c)) cs
     \<and> length (filter cb_open cs) \<le> 1"

lemma one_open_iff: "length (filter P xs) \<le> Suc 0 \<longleftrightarrow> (\<forall>i < length xs. \<forall>j < length xs. P (xs ! i) \<longrightarrow> P (xs ! j) \<longrightarrow> i = j)"
proof -
  have "length (filter P xs) = card {i. i < length xs \<and> P (xs ! i)}" by (rule length_filter_conv_card)
  moreover have "finite {i. i < length xs \<and> P (xs ! i)}" by simp
  ultimately show ?thesis by (auto simp: card_le_Suc0_iff_eq)
qed

lemma click_inv:
  assumes "boxes_inv cs" "distinct (map cb_onclick cs)"
  shows "boxes_inv (category_click n cs) \<and> map cb_onclick (category_click n cs) = map cb_onclick cs"
proof (cases "n < length cs \<and> \<not> cb_open (cs ! n)")
  case False
  then show ?thesis using assms(1)
    by (auto simp: category_click_def boxes_inv_def one_open_iff close_box_def nth_list_update list_all_length map_update
      intro!: nth_equalityI)
next
  case True
  let ?cs = "map (close_other (cb_onclick (cs ! n))) cs"
  have other: "\<not> cb_open (?cs ! i)" if "i < length cs" "i \<noteq> n" for i
    using that assms(2) True nth_eq_iff_index_eq[of "map cb_onclick cs" i n]
    by (auto simp: close_other_def close_box_def)
  have run: "category_click n cs = ?cs[n := open_box (?cs ! n)]" using True by (simp add: category_click_def Let_def)
  have one: "i = n" if "i < length cs" "cb_open (?cs[n := open_box (?cs ! n)] ! i)" for i
    using that other[of i] by (cases "i = n") auto
  have single: "length (filter cb_open (?cs[n := open_box (?cs ! n)])) \<le> 1"
    using one by (simp only: one_open_iff One_nat_def length_list_update length_map) blast
  have arrows: "list_all (\<lambda>c. cb_up c = cb_open c \<and> cb_down c = (\<not> cb_open c)) (?cs[n := open_box (?cs ! n)])"
    using assms(1) by (auto simp: boxes_inv_def list_all_iff close_other_def close_box_def open_box_def
      dest!: set_update_subset_insert[THEN subsetD])
  have "cb_onclick (open_box c) = cb_onclick c" "cb_onclick (close_other h c) = cb_onclick c" for c h
    by (simp_all add: open_box_def close_other_def close_box_def)
  then have handlers: "map cb_onclick (?cs[n := open_box (?cs ! n)]) = map cb_onclick cs"
    using True by (simp add: map_update comp_def) (metis list_update_id nth_map)
  show ?thesis unfolding run boxes_inv_def using single arrows handlers by blast
qed

lemma close_inv: "boxes_inv cs \<Longrightarrow> boxes_inv (category_close n cs) \<and> map cb_onclick (category_close n cs) = map cb_onclick cs"
  by (auto simp: category_close_def boxes_inv_def one_open_iff close_box_def nth_list_update list_all_length
    intro!: nth_equalityI)

datatype cat_event = CatClick nat | CatClose nat

fun cat_step :: "cat_event \<Rightarrow> catbox list \<Rightarrow> catbox list" where
  "cat_step (CatClick n) cs = category_click n cs"
| "cat_step (CatClose n) cs = category_close n cs"

text \<open>What the boxes are meant to do, on the list of the open ones: a click on a name opens its box and closes the others, or
  closes it; a cross closes its box.\<close>

definition open_boxes :: "catbox list \<Rightarrow> nat list" where
  [js_eval]: "open_boxes cs = filter (\<lambda>i. cb_open (cs ! i)) [0..<length cs]"

fun cat_spec :: "nat \<Rightarrow> cat_event \<Rightarrow> nat list \<Rightarrow> nat list" where
  "cat_spec len (CatClick n) os = (if n < len then if n \<in> set os then [] else [n] else os)"
| "cat_spec len (CatClose n) os = filter (\<lambda>i. i \<noteq> n) os"

definition boxes_ok :: "jstr option list \<Rightarrow> catbox list \<Rightarrow> bool" where
  "boxes_ok hs cs \<longleftrightarrow> boxes_inv cs \<and> map cb_onclick cs = hs \<and> distinct hs"

lemma boxes_ok_step: "boxes_ok hs cs \<Longrightarrow> boxes_ok hs (cat_step ev cs)"
  using click_inv close_inv by (cases ev) (auto simp: boxes_ok_def)

lemma open_boxes_single: "boxes_inv cs \<Longrightarrow> n < length cs \<Longrightarrow> cb_open (cs ! n) \<Longrightarrow> open_boxes cs = [n]"
  unfolding open_boxes_def by (rule filter_only) (auto simp: boxes_inv_def one_open_iff)

lemma cat_step_open:
  assumes "boxes_ok hs cs"
  shows "open_boxes (cat_step ev cs) = cat_spec (length hs) ev (open_boxes cs)"
proof -
  have len: "length (cat_step ev cs) = length cs" "length hs = length cs"
    using assms by (cases ev; auto simp: boxes_ok_def category_click_def category_close_def Let_def)+
  have closed: "open_boxes (cs[n := close_box (cs ! n)]) = filter (\<lambda>i. i \<noteq> n) (open_boxes cs)" if "n < length cs" for n
    using that by (auto simp: open_boxes_def close_box_def nth_list_update intro!: filter_cong)
  show ?thesis
  proof (cases ev)
    case (CatClick n)
    show ?thesis
    proof (cases "n < length cs \<and> \<not> cb_open (cs ! n)")
      case True
      have "cb_open (cat_step ev cs ! n)" using True by (simp add: CatClick category_click_def Let_def open_box_def)
      moreover have "boxes_inv (cat_step ev cs)" using boxes_ok_step[OF assms, of ev] by (simp add: boxes_ok_def)
      ultimately have "open_boxes (cat_step ev cs) = [n]" using True len(1) by (intro open_boxes_single) auto
      moreover have "n \<notin> set (open_boxes cs)" using True by (simp add: open_boxes_def)
      ultimately show ?thesis using True len(2) by (simp add: CatClick)
    next
      case False
      then show ?thesis using assms closed[of n] open_boxes_single[of cs n] len(2)
        by (auto simp: CatClick category_click_def boxes_ok_def)
    qed
  next
    case (CatClose n)
    have "filter (\<lambda>i. i \<noteq> n) (open_boxes cs) = open_boxes cs" if "\<not> n < length cs"
      by (rule filter_True) (use that in \<open>auto simp: open_boxes_def\<close>)
    then show ?thesis using closed[of n] by (auto simp: CatClose category_close_def)
  qed
qed

interpretation categories: refined_machine cat_step "\<lambda>_. True" "boxes_ok hs" open_boxes "cat_spec (length hs)" for hs
  by unfold_locales (simp_all add: boxes_ok_step cat_step_open)

text \<open>C37 When the categories have different handlers, then after any sequence of clicks on their names and on the
  crosses of their boxes at most one box is open, the one that the specification of the open boxes says, and of every
  box the arrow that is shown is the right one.\<close>

theorem one_category_open:
  assumes "boxes_inv cs" "distinct (map cb_onclick cs)"
  shows "boxes_inv (fold cat_step evs cs)
    \<and> open_boxes (fold cat_step evs cs) = fold (cat_spec (length cs)) evs (open_boxes cs)"
proof -
  have ok: "boxes_ok (map cb_onclick cs) cs" using assms by (simp add: boxes_ok_def)
  have "list_all (\<lambda>_. True) evs" by (simp add: list_all_iff)
  from categories.run_inv[OF ok this] categories.run_view[OF ok this] show ?thesis by (simp add: boxes_ok_def)
qed

definition closed_box :: "jstr option \<Rightarrow> catbox" where
  [js_eval]: "closed_box h = \<lparr>cb_onclick = h, cb_open = False, cb_up = False, cb_down = True\<rparr>"

lemma one_category_open_witness:
  \<open>open_boxes (fold cat_step [CatClick 0, CatClick 1] [closed_box (Some (js ''a'')), closed_box (Some (js ''b''))]) = [1]\<close>
proof -
  let ?cs = \<open>[closed_box (Some (js ''a'')), closed_box (Some (js ''b''))]\<close>
  have "boxes_inv ?cs" "distinct (map cb_onclick ?cs)" by code_simp+
  from one_category_open[OF this, of "[CatClick 0, CatClick 1]"] show ?thesis by (simp add: open_boxes_def closed_box_def)
qed

text \<open>Labels with the same handler, or with none, stay open together.\<close>

lemma two_categories_open:
  "length (filter cb_open (fold cat_step [CatClick 0, CatClick 1] [closed_box None, closed_box None])) = 2"
  by code_simp

section \<open>The lists of articles\<close>

text \<open>What is in the two lists, row by row.\<close>

function interleave :: "'a list \<Rightarrow> 'a list \<Rightarrow> 'a list" where
  "interleave [] ys = ys"
| "interleave (x # xs) ys = x # interleave ys xs"
  by pat_completeness auto
termination
  by (relation "measure (\<lambda>(xs, ys). length xs + length ys)") auto

lemma interleave_snoc:
  "length xs = length ys \<Longrightarrow> interleave (xs @ [e]) ys = interleave xs ys @ [e]"
  "length xs = Suc (length ys) \<Longrightarrow> interleave xs (ys @ [e]) = interleave xs ys @ [e]"
proof -
  have "(length xs = length ys \<longrightarrow> interleave (xs @ [e]) ys = interleave xs ys @ [e]) \<and>
        (length xs = Suc (length ys) \<longrightarrow> interleave xs (ys @ [e]) = interleave xs ys @ [e])"
  proof (induction xs ys rule: interleave.induct)
    case (1 ys)
    show ?case by simp
  next
    case (2 x xs ys)
    show ?case
    proof (cases ys)
      case Nil
      then show ?thesis using 2 by (cases xs) auto
    next
      case (Cons y zs)
      then show ?thesis using 2 by auto
    qed
  qed
  then show "length xs = length ys \<Longrightarrow> interleave (xs @ [e]) ys = interleave xs ys @ [e]"
    "length xs = Suc (length ys) \<Longrightarrow> interleave xs (ys @ [e]) = interleave xs ys @ [e]" by blast+
qed

definition foot_row :: "entry \<Rightarrow> jstr \<times> (jstr \<times> jstr) option" where
  "foot_row e = (en_text e, en_after e)"

lemma foot_loop_rows:
  assumes "length (foot_left p) = (j + 1) div 2" "length (foot_right p) = j div 2"
  shows "map foot_row (interleave (foot_left (foot_loop u aid rnd i j as p)) (foot_right (foot_loop u aid rnd i j as p)))
    = map foot_row (interleave (foot_left p) (foot_right p))
      @ map (\<lambda>a. (ar_title a, Some (posttime a, viewcount a))) (filter (\<lambda>a. aid \<noteq> articleid a) as)"
  using assms
proof (induction u aid rnd i j as p rule: foot_loop.induct)
  case (2 username aid rnd i j a as p)
  show ?case
  proof (cases "aid \<noteq> articleid a")
    case True
    have row: "foot_row (article_entry t u c r a) = (ar_title a, if c then Some (posttime a, viewcount a) else None)" for t u c r
      by (simp add: foot_row_def article_entry_def)
    have len: "j mod 2 = 1 \<Longrightarrow> length (foot_left p) = Suc (length (foot_right p))"
      "j mod 2 \<noteq> 1 \<Longrightarrow> length (foot_left p) = length (foot_right p)" using "2.prems" by presburger+
    show ?thesis
      using True 2(1)[OF True refl refl] "2.prems" len
      by (auto simp: Let_def row interleave_snoc set_shown_def upd_elem_def)
  next
    case False
    then show ?thesis using 2 by simp
  qed
qed simp

text \<open>The lists of similar articles, read from left to right and from top to bottom, have the titles, times and
  numbers of readers of the articles of the answer except the one that is shown, in their order, whatever the lists
  held before.\<close>

theorem similar_articles:
  "map foot_row (interleave (foot_left (foot_answer cid u aid rnd t hs as p)) (foot_right (foot_answer cid u aid rnd t hs as p)))
   = map (\<lambda>a. (ar_title a, Some (posttime a, viewcount a))) (filter (\<lambda>a. aid \<noteq> articleid a) as)"
  using foot_loop_rows[of "p\<lparr>foot_left := [], foot_right := []\<rparr>" 0 u aid rnd 0 as]
  by (simp add: foot_answer_def Let_def)

lemma id_has_undefined: \<open>random_suffix (js ''0.25'') = (js ''undefined25'')\<close>
  by code_simp

end
