(* ===== verification/MsgPopup.thy ===== *)
theory MsgPopup
  imports Page JsRegex Cookies
begin

text \<open>
  The message that slides up in the corner of the page (\<open>msg.js\<close>): the request for it, the box it is put into, and the
  two intervals that move the box.

  The file declares three of its functions two dozen times, word for word; the last declaration is the one that
  counts. The browser's part is an argument: whether the message has a \<^verbatim>\<open><div>\<close> and with which height, its links, and the
  padding of the box, which the browser adds to the height it reports. Heights are whole numbers.
\<close>

section \<open>The address of the page\<close>

text \<open>The argument \<open>qkey\<close> is not used: the answer is the first value there is.\<close>

fun search_args_loop :: "jstr list \<Rightarrow> jstr" where
  "search_args_loop [] = []"
| "search_args_loop (q # qs) =
     (case index_of [61] q of None \<Rightarrow> search_args_loop qs | Some pos \<Rightarrow> unescape (drop (Suc pos) q))"

definition message_get_search_args :: "jstr \<Rightarrow> jstr \<Rightarrow> jstr" where
  [js_eval]: "message_get_search_args search qkey = search_args_loop (split_cu 38 (drop 1 search))"

text \<open>\<open>v == 1\<close> of a text, for whole numbers.\<close>

definition loosely_one :: "jstr \<Rightarrow> bool" where
  [js_eval]: "loosely_one v \<longleftrightarrow> trim v \<noteq> [] \<and> (\<forall>c \<in> set (trim v). is_digit c) \<and> digits_val (trim v) = 1"

definition msg_server :: "jstr \<Rightarrow> jstr" where
  [js_eval]: \<open>msg_server search =
     (if loosely_one (message_get_search_args search (js ''_msg_local'')) then (js ''local.message.csdn.net'') else (js ''message.csdn.net''))\<close>

definition msg_query :: "jstr \<Rightarrow> jstr" where
  [js_eval]: \<open>msg_query search = (if contains (js ''?'') search then drop 1 search else (js ''1=1''))\<close>

text \<open>The script does nothing on a small or a mobile screen.\<close>

definition msg_wanted :: "jstr \<Rightarrow> nat \<Rightarrow> nat \<Rightarrow> bool" where
  [js_eval]: \<open>msg_wanted userAgent height width \<longleftrightarrow>
     (let ua = to_lower userAgent
      in \<not> (contains (js ''ipad'') ua \<or> contains (js ''iphone'') ua \<or> contains (js ''android'') ua \<or> contains (js ''wap'') ua)
         \<and> (height > 768 \<or> width > 1024))\<close>

definition message_callScript :: "jstr \<Rightarrow> 'a page_scheme \<Rightarrow> 'a page_scheme" where
  [js_eval]: "message_callScript url p = emit (Load ''HEAD'' url) p"

definition msg_onload :: "jstr \<Rightarrow> 'a page_scheme \<Rightarrow> 'a page_scheme" where
  [js_eval]: \<open>msg_onload search p =
     message_callScript ((js ''http://'') @ msg_server search @ (js ''/shm/msg_new.php?'') @ msg_query search
       @ (js ''&jsoncallback=_message_callback'')) p\<close>

definition re_user :: rx where
  [js_eval]: \<open>re_user =
     rseq [RGrp 1 (RAlt RBol (RChr 32)), rlit (js ''UserName=''), RGrp 2 (rstar (RNot [Ch 59])), RGrp 3 (RAlt (RChr 59) REol)]\<close>

definition msg_member :: "jstr \<Rightarrow> 'a page_scheme \<Rightarrow> 'a page_scheme" where
  [js_eval]: \<open>msg_member cookie p =
     emit (Call ''_gaq.push''
       [(js ''_setCustomVar''), (js ''1''), (js ''User Type''), if rx_test no_flags re_user cookie then (js ''Member'') else (js ''Visitor''), (js ''2'')]) p\<close>

section \<open>The box and its intervals\<close>

text \<open>An interval has a number and a direction, up or not. The variables \<open>show\<close> and \<open>hide\<close> hold the number of the
  interval that was started last.\<close>

record msgbox =
  bx_shown :: bool
  bx_height :: nat

record msgpage = page +
  msg_box :: "msgbox option"          \<comment> \<open>the \<^verbatim>\<open><div>\<close> of the container\<close>
  msg_links :: "jstr list"            \<comment> \<open>the links whose clicks are counted\<close>
  pop_height :: nat
  msg_intervals :: "(nat \<times> bool) list"
  next_interval :: nat
  show_id :: "nat option"
  hide_id :: "nat option"

text \<open>\<open>clientHeight\<close>: nothing for a box that is not shown.\<close>

definition clientHeight :: "nat \<Rightarrow> msgbox \<Rightarrow> nat" where
  [js_eval]: "clientHeight pad b = (if bx_shown b then bx_height b + pad else 0)"

definition stop_interval :: "nat option \<Rightarrow> msgpage \<Rightarrow> msgpage" where
  [js_eval]: "stop_interval k p = p\<lparr>msg_intervals := filter (\<lambda>(i, d). Some i \<noteq> k) (msg_intervals p)\<rparr>"

text \<open>Without a \<^verbatim>\<open><div>\<close> the code has \<open>false\<close> for the box, which has no style.\<close>

definition message_tips_pop :: "bool \<Rightarrow> msgpage \<Rightarrow> js_error + msgpage" where
  [js_eval]: "message_tips_pop up p =
     (let started = p\<lparr>msg_intervals := msg_intervals p @ [(next_interval p, up)], next_interval := Suc (next_interval p)\<rparr>
      in if up
         then (case msg_box p of
                 None \<Rightarrow> Inl TypeError
               | Some b \<Rightarrow> Inr (started\<lparr>msg_box := Some (b\<lparr>bx_shown := True\<rparr>), show_id := Some (next_interval p)\<rparr>))
         else Inr (started\<lparr>hide_id := Some (next_interval p)\<rparr>))"

definition message_changeH :: "nat \<Rightarrow> bool \<Rightarrow> msgpage \<Rightarrow> js_error + msgpage" where
  [js_eval]: "message_changeH pad up p =
     (case msg_box p of
        None \<Rightarrow> if up then Inr (stop_interval (show_id p) p) else Inl TypeError
      | Some b \<Rightarrow>
          let popH = clientHeight pad b in
          if up
          then if popH < pop_height p then Inr (p\<lparr>msg_box := Some (b\<lparr>bx_height := popH + 2\<rparr>)\<rparr>)
               else Inr (stop_interval (show_id p) p)
          else if popH \<ge> 2 then Inr (p\<lparr>msg_box := Some (b\<lparr>bx_height := popH - 4\<rparr>)\<rparr>)
               else Inr (stop_interval (hide_id p) (p\<lparr>msg_box := Some (b\<lparr>bx_shown := False\<rparr>)\<rparr>)))"

text \<open>An interval whose function throws goes on.\<close>

definition interval_tick :: "nat \<Rightarrow> nat \<Rightarrow> msgpage \<Rightarrow> msgpage" where
  [js_eval]: "interval_tick pad i p =
     (case map_of (msg_intervals p) i of
        None \<Rightarrow> p
      | Some up \<Rightarrow> (case message_changeH pad up p of Inl e \<Rightarrow> p | Inr q \<Rightarrow> q))"

section \<open>The message\<close>

text \<open>A message of the server, with what the browser makes of its content: the height of its \<^verbatim>\<open><div>\<close>, if it has one, and its
  links.\<close>

record message =
  ms_id :: int
  ms_css :: jstr
  ms_content :: jstr
  ms_types :: jstr
  no_count_click :: bool
  no_count_view :: bool
  ms_div :: "jstr option option"
  ms_links :: "jstr list"

definition counted_link :: "jstr \<Rightarrow> bool" where
  [js_eval]: \<open>counted_link url \<longleftrightarrow> starts_with (js ''http://'') (to_lower url) \<or> starts_with (js ''https://'') (to_lower url)\<close>

definition message_child_attr_add :: "jstr list \<Rightarrow> msgpage \<Rightarrow> msgpage" where
  [js_eval]: "message_child_attr_add links p = p\<lparr>msg_links := filter counted_link links\<rparr>"

text \<open>\<open>Math.ceil(Math.random() * 10000)\<close> is the argument \<open>rand\<close>.\<close>

definition msg_item_click_count :: "jstr \<Rightarrow> nat \<Rightarrow> int \<Rightarrow> jstr \<Rightarrow> 'a page_scheme \<Rightarrow> 'a page_scheme" where
  [js_eval]: \<open>msg_item_click_count server rand mid type p =
     emit (AjaxGet ((js ''http://'') @ server @ (js ''/shm/count_click.php?id='') @ int_str mid @ (js ''&t='') @ type @ (js ''#'') @ num_str rand)) p\<close>

definition spheight :: "jstr option \<Rightarrow> nat \<Rightarrow> nat" where
  [js_eval]: \<open>spheight attr h =
     (case attr of
        None \<Rightarrow> h
      | Some t \<Rightarrow>
          let n = replace_str t (js ''px'') []
          in if t \<noteq> [] \<and> (\<forall>c \<in> set n. is_digit c) then digits_val n else h)\<close>

definition message_callback :: "jstr \<Rightarrow> message \<Rightarrow> msgpage \<Rightarrow> msgpage" where
  [js_eval]: \<open>message_callback server data p =
     (if ms_id data > 0
      then let p1 = append_html ''body'' ((js ''<link href="'') @ ms_css data @ (js ''" rel="stylesheet" type="text/css">'')) p;
               p2 = append_html ''body'' ((js ''<div style="display: block;" id="_popup_msg_container">'') @ ms_content data @ (js ''</div>'')) p1;
               p3 = (if no_count_click data then p2 else message_child_attr_add (ms_links data) p2);
               p4 = (case ms_div data of
                       None \<Rightarrow> p3\<lparr>msg_box := None\<rparr>
                     | Some h \<Rightarrow> p3\<lparr>pop_height := spheight h (pop_height p3),
                                  msg_box := Some \<lparr>bx_shown = False, bx_height = 0\<rparr>\<rparr>);
               p5 = emit (StartTimer ''_message_tips_pop(up)'' 100) p4
           in if no_count_view data then p5
              else emit (AjaxGet ((js ''http://'') @ server @ (js ''/shm/count_new.php?id='') @ int_str (ms_id data) @ (js ''&t='') @ ms_types data)) p5
      else p)\<close>

definition msg_start :: msgpage where
  [js_eval]: "msg_start = \<lparr>els = (\<lambda>_. blank_elem), effects = [], msg_box = None, msg_links = [], pop_height = 250,
     msg_intervals = [], next_interval = 0, show_id = None, hide_id = None\<rparr>"

section \<open>The box rises\<close>

text \<open>A page whose only interval is the one that was started to raise the box.\<close>

definition rising :: "nat \<Rightarrow> msgpage \<Rightarrow> bool" where
  [js_eval]: "rising i p \<longleftrightarrow> msg_intervals p = [(i, True)] \<and> show_id p = Some i"

lemma rise_step:
  assumes "rising i p" "msg_box p = Some b" "bx_shown b" "bx_height b < pop_height p"
  shows "interval_tick 0 i p = p\<lparr>msg_box := Some (b\<lparr>bx_height := bx_height b + 2\<rparr>)\<rparr>"
  using assms by (simp add: rising_def interval_tick_def message_changeH_def clientHeight_def)

lemma rise_stop:
  assumes "rising i p" "msg_box p = Some b" "bx_shown b" "bx_height b \<ge> pop_height p"
  shows "interval_tick 0 i p = p\<lparr>msg_intervals := []\<rparr>"
  using assms by (simp add: rising_def interval_tick_def message_changeH_def clientHeight_def stop_interval_def)

lemma no_interval_tick: "msg_intervals p = [] \<Longrightarrow> (interval_tick pad i ^^ n) p = p"
  by (induction n) (simp_all add: interval_tick_def)

lemma rise_ticks:
  "rising i p \<Longrightarrow> msg_box p = Some b \<Longrightarrow> bx_shown b \<Longrightarrow> bx_height b + 2 * n \<le> pop_height p + 1 \<Longrightarrow>
   (interval_tick 0 i ^^ n) p = p\<lparr>msg_box := Some (b\<lparr>bx_height := bx_height b + 2 * n\<rparr>)\<rparr>"
proof (induction n arbitrary: p b)
  case (Suc n)
  let ?p = "p\<lparr>msg_box := Some (b\<lparr>bx_height := bx_height b + 2\<rparr>)\<rparr>"
  have "interval_tick 0 i p = ?p" using Suc.prems by (intro rise_step) auto
  moreover have "(interval_tick 0 i ^^ n) ?p
      = ?p\<lparr>msg_box := Some (b\<lparr>bx_height := bx_height b + 2, bx_height := bx_height b + 2 + 2 * n\<rparr>)\<rparr>"
    using Suc.IH[of ?p "b\<lparr>bx_height := bx_height b + 2\<rparr>"] Suc.prems by (simp add: rising_def)
  ultimately show ?case by (simp add: funpow_Suc_right del: funpow.simps(2))
qed simp

text \<open>A box without padding that has just been put into the page hidden rises by two pixels with every tick of
  its interval; it stops at its height, rounded up to an even number, and the interval is gone after the tick after that.\<close>

theorem popup_rises:
  assumes "msg_box p = Some \<lparr>bx_shown = False, bx_height = 0\<rparr>" "msg_intervals p = []"
    and "message_tips_pop True p = Inr q"
  shows "msg_box ((interval_tick 0 (next_interval p) ^^ n) q)
      = Some \<lparr>bx_shown = True, bx_height = min (2 * n) (2 * ((pop_height p + 1) div 2))\<rparr>
    \<and> (msg_intervals ((interval_tick 0 (next_interval p) ^^ n) q) = []) = (n > (pop_height p + 1) div 2)"
proof -
  define h where "h = (pop_height p + 1) div 2"
  define i where "i = next_interval p"
  define up where "up m = q\<lparr>msg_box := Some \<lparr>bx_shown = True, bx_height = 2 * m\<rparr>\<rparr>" for m
  have q: "rising i q" "msg_box q = Some \<lparr>bx_shown = True, bx_height = 0\<rparr>" "pop_height q = pop_height p"
    using assms by (auto simp: message_tips_pop_def rising_def i_def)
  have ups: "(interval_tick 0 i ^^ m) q = up m" if "m \<le> h" for m
    using rise_ticks[OF q(1,2), of m] that q(3) by (simp add: h_def up_def)
  have top: "interval_tick 0 i (up h) = (up h)\<lparr>msg_intervals := []\<rparr>"
    using q by (intro rise_stop) (auto simp: rising_def up_def h_def)
  have "msg_box ((interval_tick 0 i ^^ n) q) = Some \<lparr>bx_shown = True, bx_height = min (2 * n) (2 * h)\<rparr>
    \<and> (msg_intervals ((interval_tick 0 i ^^ n) q) = []) = (n > h)"
  proof (cases "n \<le> h")
    case True
    then show ?thesis using ups[OF True] q(1) by (simp add: up_def rising_def)
  next
    case False
    then obtain m where n: "n = m + Suc h" by (metis add.commute less_imp_Suc_add not_le add_Suc_right)
    have "(interval_tick 0 i ^^ n) q = (interval_tick 0 i ^^ m) (interval_tick 0 i (up h))"
      by (simp only: n funpow_add comp_apply funpow.simps(2) ups[OF order_refl])
    also have "\<dots> = (up h)\<lparr>msg_intervals := []\<rparr>" unfolding top by (rule no_interval_tick) simp
    finally have "(interval_tick 0 i ^^ n) q = (up h)\<lparr>msg_intervals := []\<rparr>" .
    then show ?thesis using False by (simp add: up_def)
  qed
  then show ?thesis by (simp only: h_def i_def)
qed

definition sample_message :: message where
  [js_eval]: \<open>sample_message = \<lparr>ms_id = 7, ms_css = [], ms_content = [], ms_types = (js ''1''), no_count_click = True,
     no_count_view = True, ms_div = Some (Some (js ''9px'')), ms_links = []\<rparr>\<close>

lemma popup_rises_witness:
  \<open>\<exists>q :: msgpage. message_tips_pop True (message_callback (js ''message.csdn.net'') sample_message msg_start) = Inr q
     \<and> msg_box ((interval_tick 0 0 ^^ 6) q) = Some \<lparr>bx_shown = True, bx_height = 10\<rparr>\<close>
proof -
  let ?p = \<open>message_callback (js ''message.csdn.net'') sample_message msg_start\<close>
  have p: "msg_box ?p = Some \<lparr>bx_shown = False, bx_height = 0\<rparr>" "msg_intervals ?p = []" "next_interval ?p = 0"
    "pop_height ?p = 9" by code_simp+
  then obtain q where q: "message_tips_pop True ?p = Inr q" by (simp add: message_tips_pop_def)
  from popup_rises[OF p(1,2) q, of 6] show ?thesis using p(3,4) q by simp
qed

section \<open>What goes wrong\<close>

text \<open>A box that is closed while it still rises: the box is hidden in the end, and the interval that raises it never stops.\<close>

lemma closed_while_rising:
  assumes "msg_box p = Some b" "\<not> bx_shown b" "map_of (msg_intervals p) i = Some True" "pop_height p > 0"
  shows "map_of (msg_intervals ((interval_tick pad i ^^ n) p)) i = Some True
    \<and> (\<exists>b'. msg_box ((interval_tick pad i ^^ n) p) = Some b' \<and> \<not> bx_shown b')"
proof -
  have "map_of (msg_intervals ((interval_tick pad i ^^ n) p)) i = Some True
    \<and> (\<exists>b'. msg_box ((interval_tick pad i ^^ n) p) = Some b' \<and> \<not> bx_shown b') \<and> pop_height ((interval_tick pad i ^^ n) p) > 0"
    using assms by (induction n) (auto simp: interval_tick_def message_changeH_def clientHeight_def)
  then show ?thesis by blast
qed

text \<open>With a padding of two pixels or more the box never gets low enough to be hidden.\<close>

lemma padded_never_hides:
  assumes "msg_box p = Some b" "bx_shown b" "map_of (msg_intervals p) i = Some False" "pad \<ge> 2"
  shows "\<exists>b'. msg_box ((interval_tick pad i ^^ n) p) = Some b' \<and> bx_shown b'"
proof -
  have "map_of (msg_intervals ((interval_tick pad i ^^ n) p)) i = Some False
    \<and> (\<exists>b'. msg_box ((interval_tick pad i ^^ n) p) = Some b' \<and> bx_shown b')"
    using assms by (induction n) (auto simp: interval_tick_def message_changeH_def clientHeight_def)
  then show ?thesis by blast
qed

lemma message_without_div: "msg_box p = None \<Longrightarrow> message_tips_pop True p = Inl TypeError"
  by (simp add: message_tips_pop_def)

text \<open>Any first value 1 in the address of the page selects the local server.\<close>

lemma any_key_is_local: \<open>msg_server (js ''?page=1'') = (js ''local.message.csdn.net'')\<close>
  by code_simp

end
