(* ===== verification/Toolbar.thy ===== *)
theory Toolbar
  imports NotifyPanel
begin

text \<open>
  The toolbar over the page (\<open>toolbar.js\<close>: \<open>Toolbar\<close>): its menus, of which one is open at a time, the form for a
  favourite, and the sign for unread notifications, which it draws from the notification panel (theory \<open>NotifyPanel\<close>).

  The buttons of the menus are numbered; \<open>tb_on\<close> tells which of them have the class \<open>on\<close>.
\<close>

section \<open>Menus\<close>

record toolbar = page +
  tb_on :: "nat \<Rightarrow> bool"
  tb_folded :: bool
  isNotifyShowed :: bool

definition buttons_on :: "nat \<Rightarrow> toolbar \<Rightarrow> nat list" where
  [js_eval]: "buttons_on nb p = filter (tb_on p) [0..<nb]"

text \<open>The mouse over the button \<open>n\<close>, or over something in the button for the notifications. \<open>Curr\<close> is the first button that
  is on.\<close>

definition toolbar_mouseover :: "nat \<Rightarrow> nat \<Rightarrow> bool \<Rightarrow> npage \<Rightarrow> toolbar \<Rightarrow> toolbar" where
  [js_eval]: "toolbar_mouseover nb n in_notify notes p =
     (let p1 = (if in_notify \<and> (\<not> isNotifyShowed p \<or> hasNewMsg notes)
                then emit (Trigger ''click #header_notice_num'' []) (p\<lparr>isNotifyShowed := True\<rparr>) else p)
      in case buttons_on nb p1 of
           c # _ \<Rightarrow> if c = n then p1 else p1\<lparr>tb_on := (tb_on p1)(c := False, n := True), tb_folded := False\<rparr>
         | [] \<Rightarrow> p1\<lparr>tb_on := (tb_on p1)(n := True), tb_folded := False\<rparr>)"

definition toolbar_fold :: "toolbar \<Rightarrow> toolbar" where
  [js_eval]: "toolbar_fold p = p\<lparr>tb_on := (\<lambda>_. False)\<rparr>"

definition toolbar_mouseout :: "bool \<Rightarrow> toolbar \<Rightarrow> toolbar" where
  [js_eval]: "toolbar_mouseout active_inside p = (if active_inside then p else toolbar_fold p)"

definition toolbar_docclick :: "bool \<Rightarrow> toolbar \<Rightarrow> toolbar" where
  [js_eval]: "toolbar_docclick inside_toolbar p = (if inside_toolbar then p else toolbar_fold p)"

text \<open>The handler of the search form reads \<open>keycode\<close>, which no event has.\<close>

definition search_keyup :: "nat \<Rightarrow> toolbar \<Rightarrow> toolbar" where
  [js_eval]: "search_keyup keyCode p = (let e_keycode = (None :: nat option) in if e_keycode = Some 13 then emit (Trigger ''submit'' []) p else p)"

section \<open>The favourite\<close>

abbreviation favor :: "string \<Rightarrow> selector" where "favor s \<equiv> ''.csdn-toolbar .favor '' @ s"

definition initFavor :: "jstr \<Rightarrow> jstr \<Rightarrow> 'a page_scheme \<Rightarrow> 'a page_scheme" where
  [js_eval]: \<open>initFavor doc_title href p =
     set_attr (favor ''.share'', ''checked'') (Some (js ''checked''))
       (set_val (favor ''.url'') href (set_val (favor ''.title'') doc_title p))\<close>

definition favor_ok :: "toolbar \<Rightarrow> toolbar" where
  [js_eval]: "favor_ok p =
     toolbar_fold (set_shown (favor ''.favor-form'') True
       (set_shown (favor ''.favor-success'') False (set_shown (favor ''.favor-failed'') False p)))"

definition favor_submit :: "'a page_scheme \<Rightarrow> 'a page_scheme" where
  [js_eval]: \<open>favor_submit p =
     emit (Jsonp (js ''http://my.csdn.net/service/favorite/add_favorite'')
       [(''title'', val_of (favor ''.title'') p), (''url'', val_of (favor ''.url'') p),
        (''description'', val_of (favor ''#input-description'') p), (''tag'', val_of (favor ''#input-tag'') p),
        (''share'', if attr_of (favor ''.share'', ''checked'') p \<noteq> None then (js ''1'') else (js ''0''))]) p\<close>

text \<open>The fields that are reset are not the ones the form reads.\<close>

definition resetForm :: "jstr \<Rightarrow> 'a page_scheme \<Rightarrow> 'a page_scheme" where
  [js_eval]: "resetForm href p =
     set_val (favor ''.description'') []
       (set_val (favor ''.tag'') []
         (set_val (favor ''.url'') href (set_val (favor ''.title'') (val_of (favor ''.title'') p) p)))"

definition favor_result :: "bool \<Rightarrow> 'a page_scheme \<Rightarrow> 'a page_scheme" where
  [js_eval]: "favor_result ok p =
     set_shown (favor ''.favor-form'') False
       (set_shown (favor ''.favor-success'') ok (set_shown (favor ''.favor-failed'') (\<not> ok) p))"

definition favor_answer :: "jstr \<Rightarrow> jstr \<Rightarrow> 'a page_scheme \<Rightarrow> 'a page_scheme" where
  [js_eval]: \<open>favor_answer success href p =
     (let p1 = (if success = (js ''-1'') then resetForm href (favor_result False p) else p)
      in if success = (js ''1'') then resetForm href (favor_result True p1) else p1)\<close>

section \<open>The sign for notifications\<close>

definition toolbar_setNotesNum :: "int \<Rightarrow> 'a page_scheme \<Rightarrow> 'a page_scheme" where
  [js_eval]: "toolbar_setNotesNum num p = set_shown ''.csdn-toolbar .icon-hasnotes-sm'' (num > 0) p"

text \<open>The toolbar without a panel hides its button and throws, after the menus and the form have been set up.\<close>

definition toolbar_init :: "bool \<Rightarrow> jstr \<Rightarrow> jstr \<Rightarrow> toolbar \<Rightarrow> toolbar \<times> bool" where
  [js_eval]: "toolbar_init has_notify doc_title href p =
     (let p1 = initFavor doc_title href (p\<lparr>tb_folded := True\<rparr>)
      in if has_notify then (p1, False) else (set_shown ''.csdn-toolbar .notify'' False p1, True))"

text \<open>What the panel tells its listeners once it has received unread notifications, or they have been read.\<close>

definition toolbar_listens :: "npage \<Rightarrow> 'a page_scheme \<Rightarrow> 'a page_scheme" where
  [js_eval]: "toolbar_listens notes p = toolbar_setNotesNum (int (length (localUreadData notes))) p"

section \<open>One menu at a time\<close>

datatype toolbar_event = TbOver nat bool npage | TbOut bool | TbClick bool | TbOk

fun toolbar_step :: "nat \<Rightarrow> toolbar_event \<Rightarrow> toolbar \<Rightarrow> toolbar" where
  "toolbar_step nb (TbOver n k notes) p = (if n < nb then toolbar_mouseover nb n k notes p else p)"
| "toolbar_step nb (TbOut b) p = toolbar_mouseout b p"
| "toolbar_step nb (TbClick b) p = toolbar_docclick b p"
| "toolbar_step nb TbOk p = favor_ok p"

lemma tb_on_frame [simp]: "tb_on (emit e p) = tb_on p" "tb_on (set_shown s b p) = tb_on p"
  by (simp_all add: page_upd_defs)

lemma toolbar_fold_on: "tb_on (toolbar_fold p) = (\<lambda>_. False)" by (simp add: toolbar_fold_def)

lemma buttons_over:
  assumes "length (buttons_on nb p) \<le> 1" "n < nb"
  shows "buttons_on nb (toolbar_mouseover nb n k notes p) = [n]"
proof -
  define p1 where "p1 = (if k \<and> (\<not> isNotifyShowed p \<or> hasNewMsg notes)
    then emit (Trigger ''click #header_notice_num'' []) (p\<lparr>isNotifyShowed := True\<rparr>) else p)"
  have on: "tb_on p1 = tb_on p" by (simp add: p1_def)
  consider (none) "filter (tb_on p) [0..<nb] = []" | (one) c where "filter (tb_on p) [0..<nb] = [c]"
    using assms(1) by (auto simp: buttons_on_def le_Suc_eq length_Suc_conv)
  then show ?thesis
  proof cases
    case none
    then have "tb_on (toolbar_mouseover nb n k notes p) = (tb_on p)(n := True)"
      by (simp add: toolbar_mouseover_def buttons_on_def on flip: p1_def)
    then show ?thesis using none assms(2) by (auto simp: buttons_on_def filter_empty_conv intro!: filter_only split: if_splits)
  next
    case (one c)
    have "{x. x < nb \<and> tb_on p x} = set (filter (tb_on p) [0..<nb])" by auto
    also have "\<dots> = {c}" by (simp add: one)
    finally have "{x. x < nb \<and> tb_on p x} = {c}" .
    then have c: "c < nb" "tb_on p c" "\<And>x. x < nb \<Longrightarrow> tb_on p x \<longleftrightarrow> x = c" by blast+
    have "tb_on (toolbar_mouseover nb n k notes p) = (if c = n then tb_on p else (tb_on p)(c := False, n := True))"
      using one by (simp add: toolbar_mouseover_def buttons_on_def on flip: p1_def)
    then show ?thesis using c assms(2) by (auto simp: buttons_on_def intro!: filter_only split: if_splits)
  qed
qed

text \<open>What the menus are meant to do: the mouse over a button opens its menu and no other, leaving the toolbar closes all.\<close>

fun menu_spec :: "nat \<Rightarrow> toolbar_event \<Rightarrow> nat list \<Rightarrow> nat list" where
  "menu_spec nb (TbOver n k notes) os = (if n < nb then [n] else os)"
| "menu_spec nb (TbOut active_inside) os = (if active_inside then os else [])"
| "menu_spec nb (TbClick inside_toolbar) os = (if inside_toolbar then os else [])"
| "menu_spec nb TbOk os = []"

lemma toolbar_step_on:
  assumes "length (buttons_on nb p) \<le> 1"
  shows "buttons_on nb (toolbar_step nb ev p) = menu_spec nb ev (buttons_on nb p)"
proof -
  have "buttons_on nb (toolbar_fold q) = []" for q by (simp add: buttons_on_def toolbar_fold_on)
  then show ?thesis using buttons_over[OF assms]
    by (cases ev) (simp_all add: toolbar_mouseout_def toolbar_docclick_def favor_ok_def)
qed

interpretation menus: refined_machine "toolbar_step nb" "\<lambda>_. True" "\<lambda>p. length (buttons_on nb p) \<le> 1"
    "buttons_on nb" "menu_spec nb" for nb
proof
  show "length (buttons_on nb (toolbar_step nb ev p)) \<le> 1" if "length (buttons_on nb p) \<le> 1" for ev p
    unfolding toolbar_step_on[OF that] by (cases ev) (use that in auto)
qed (rule toolbar_step_on)

text \<open>C39 After any sequence of mouse moves and clicks at most one menu of the toolbar is open, if it was so at the
  start, and the open menus are those of the specification: the one the mouse was over last, none after the toolbar
  was left.\<close>

theorem one_menu_open:
  assumes "length (buttons_on nb p) \<le> 1"
  shows "length (buttons_on nb (fold (toolbar_step nb) evs p)) \<le> 1
    \<and> buttons_on nb (fold (toolbar_step nb) evs p) = fold (menu_spec nb) evs (buttons_on nb p)"
proof -
  have "list_all (\<lambda>_. True) evs" by (simp add: list_all_iff)
  from menus.run_inv[OF assms this] menus.run_view[OF assms this] show ?thesis by blast
qed

definition blank_toolbar :: toolbar where
  [js_eval]: "blank_toolbar = \<lparr>els = (\<lambda>_. blank_elem), effects = [], tb_on = (\<lambda>_. False), tb_folded = True, isNotifyShowed = False\<rparr>"

lemma one_menu_open_witness:
  "buttons_on 4 (fold (toolbar_step 4) [TbOver 1 False sample_panel, TbOver 2 True sample_panel] blank_toolbar) = [2]"
  using one_menu_open[of 4 blank_toolbar "[TbOver 1 False sample_panel, TbOver 2 True sample_panel]"]
  by (simp add: buttons_on_def blank_toolbar_def)

text \<open>The fields the form reads keep what was typed.\<close>

lemma favour_not_reset: "val_of (favor ''#input-tag'') (favor_answer s href p) = val_of (favor ''#input-tag'') p"
  by (simp add: favor_answer_def resetForm_def favor_result_def Let_def)

lemma enter_does_not_search: "search_keyup k p = p"
  by (simp add: search_keyup_def)

end
