(* ===== verification/PanelSign.thy ===== *)
theory PanelSign
  imports Toolbar
begin

text \<open>
  The notification panel and the toolbar together: the sign in the toolbar and the list of unread notifications of
  the panel.

  The panel triggers \<open>toolbar-setNotesNum\<close> while a handler runs, and the toolbar listens to it, and to the two events
  with which messages of the server arrive, after the panel's own handler. What the toolbar does when it hears of a
  number touches only its sign, which no handler of the panel reads, so the numbers are delivered when the handler
  has ended.
\<close>

section \<open>What the toolbar hears\<close>

definition sign :: selector where
  [js_eval]: "sign = ''.csdn-toolbar .icon-hasnotes-sm''"

definition notes_num :: "effect \<Rightarrow> int option" where
  [js_eval]: "notes_num e =
     (case e of Trigger n v \<Rightarrow> if n = ''toolbar-setNotesNum'' then parse_int v else None | _ \<Rightarrow> None)"

definition hear :: "effect \<Rightarrow> npage \<Rightarrow> npage" where
  [js_eval]: "hear e p = (case notes_num e of None \<Rightarrow> p | Some n \<Rightarrow> toolbar_setNotesNum n p)"

definition with_toolbar :: "(npage \<Rightarrow> npage) \<Rightarrow> npage \<Rightarrow> npage" where
  [js_eval]: "with_toolbar f p = (let q = f p in fold hear (drop (length (effects p)) (effects q)) q)"

text \<open>An event of the panel's element, with the panel's handler and the toolbar's.\<close>

definition notify_on :: "(npage \<Rightarrow> npage) \<Rightarrow> npage \<Rightarrow> npage" where
  [js_eval]: "notify_on f p = (let q = with_toolbar f p in toolbar_listens q q)"

definition message_heard :: "note_conf \<Rightarrow> NotifyPanel.message \<Rightarrow> npage \<Rightarrow> npage" where
  [js_eval]: "message_heard conf msg p =
     (let p1 = (if m_setReaded msg then notify_on receive_setreaded p else p);
          p2 = (case m_initUnreadIds msg of
                  Some (v # vs) \<Rightarrow> notify_on (receive_unreads conf (Some (v # vs)) (m_realtime msg) (m_data msg))
                    (p1\<lparr>hasNewMsg := True\<rparr>)
                | _ \<Rightarrow> p1)
      in if m_realtime msg
         then notify_on (receive_unreads conf (m_initUnreadIds msg) True (m_data msg))
                (p2\<lparr>hasNewMsg := True, localUreadData := localUreadData p2 @ m_data msg\<rparr>)
         else p2)"

definition page_step :: "note_conf \<Rightarrow> panel_event \<Rightarrow> npage \<Rightarrow> npage" where
  [js_eval]: "page_step conf e p =
     (case e of PMessage m \<Rightarrow> message_heard conf m p | _ \<Rightarrow> with_toolbar (panel_step conf e) p)"

definition sign_ok :: "npage \<Rightarrow> bool" where
  "sign_ok p \<longleftrightarrow> shown sign p = (localUreadData p \<noteq> [])"

section \<open>Handlers that tell the toolbar what they change\<close>

text \<open>What is left of the sign after some effects.\<close>

definition sign_after :: "effect list \<Rightarrow> bool \<Rightarrow> bool" where
  "sign_after es b = fold (\<lambda>e b. case notes_num e of None \<Rightarrow> b | Some n \<Rightarrow> 0 < n) es b"

text \<open>\<open>tells p q\<close>: the numbers triggered between the two states give the sign for the list of the second when it was right
  for the first. \<open>quiet p q\<close>: the list is the same and no number is triggered.\<close>

definition tells :: "npage \<Rightarrow> npage \<Rightarrow> bool" where
  "tells p q \<longleftrightarrow> shown sign q = shown sign p \<and>
     (\<exists>es. effects q = effects p @ es \<and> sign_after es (localUreadData p \<noteq> []) = (localUreadData q \<noteq> []))"

definition quiet :: "npage \<Rightarrow> npage \<Rightarrow> bool" where
  "quiet p q \<longleftrightarrow> shown sign q = shown sign p \<and> localUreadData q = localUreadData p \<and>
     (\<exists>es. effects q = effects p @ es \<and> (\<forall>e \<in> set es. notes_num e = None))"

lemma sign_after_append: "sign_after (es @ fs) b = sign_after fs (sign_after es b)"
  by (simp add: sign_after_def)

lemma sign_after_quiet: "\<forall>e \<in> set es. notes_num e = None \<Longrightarrow> sign_after es b = b"
  by (induction es arbitrary: b) (simp_all add: sign_after_def)

lemma quiet_tells: "quiet p q \<Longrightarrow> tells p q"
  by (auto simp: quiet_def tells_def sign_after_quiet)

lemma tells_quiet: "tells p q \<Longrightarrow> quiet q r \<Longrightarrow> tells p r"
  by (force simp: quiet_def tells_def sign_after_append sign_after_quiet)

lemma quiet_refl [simp]: "quiet p p"
  by (simp add: quiet_def)

lemma hear_frame: "shown sign (hear e p) = (case notes_num e of None \<Rightarrow> shown sign p | Some n \<Rightarrow> 0 < n)"
    "localUreadData (hear e p) = localUreadData p"
  by (auto simp: hear_def toolbar_setNotesNum_def sign_def page_defs split: option.split)

lemma hear_all: "shown sign (fold hear es p) = sign_after es (shown sign p)"
    "localUreadData (fold hear es p) = localUreadData p"
  by (induction es arbitrary: p) (simp_all add: sign_after_def hear_frame)

lemma tells_sign: "tells p (f p) \<Longrightarrow> sign_ok p \<Longrightarrow> sign_ok (with_toolbar f p)"
  by (auto simp: tells_def sign_ok_def with_toolbar_def Let_def hear_all)

text \<open>The parts handlers are made of.\<close>

lemma quiet_page [simp]:
  "quiet p q \<Longrightarrow> quiet p (set_html s v q)" "quiet p q \<Longrightarrow> quiet p (append_html s v q)"
  "quiet p q \<Longrightarrow> quiet p (set_attr k a q)" "quiet p q \<Longrightarrow> quiet p (add_class s c q)"
  "quiet p q \<Longrightarrow> quiet p (remove_class s c q)" "s \<noteq> sign \<Longrightarrow> quiet p q \<Longrightarrow> quiet p (set_shown s b q)"
  by (auto simp: quiet_def page_defs add_class_def remove_class_def)

lemma quiet_emit [simp]: "notes_num e = None \<Longrightarrow> quiet p q \<Longrightarrow> quiet p (emit e q)"
  by (auto simp: quiet_def page_defs)

lemma quiet_fields [simp]:
  "quiet p q \<Longrightarrow> quiet p (q\<lparr>hasNewMsg := b\<rparr>)" "quiet p q \<Longrightarrow> quiet p (q\<lparr>hasGetData := b\<rparr>)"
  "quiet p q \<Longrightarrow> quiet p (q\<lparr>hasReadedItems := b\<rparr>)" "quiet p q \<Longrightarrow> quiet p (q\<lparr>items := its\<rparr>)"
  "quiet p q \<Longrightarrow> quiet p (q\<lparr>seen_ids := x\<rparr>)" "quiet p q \<Longrightarrow> quiet p (q\<lparr>waiters := ws\<rparr>)"
  "quiet p q \<Longrightarrow> quiet p (q\<lparr>error_bound := b\<rparr>)" "quiet p q \<Longrightarrow> quiet p (q\<lparr>curr := i\<rparr>)"
  by (auto simp: quiet_def shown_def)

lemma quiet_if [simp]: "quiet p a \<Longrightarrow> quiet p b \<Longrightarrow> quiet p (if c then a else b)"
  by simp

lemma no_notes [simp]:
  "notes_num (Jsonp u ps) = None" "notes_num (Call f as) = None" "notes_num (Trigger ''click .unread'' v) = None"
  by (simp_all add: notes_num_def)

section \<open>The handlers of the panel\<close>

lemma sign_not [simp]:
  "wrap \<noteq> sign" "tip \<noteq> sign" "btn_icon \<noteq> sign" "list_con \<noteq> sign" "detail_con \<noteq> sign" "error_sel \<noteq> sign"
  "detail_sel i \<noteq> sign"
  by (simp_all add: sign_def detail_sel_def)

lemma quiet_parts [simp]:
  "quiet p q \<Longrightarrow> quiet p (resetPosition q)" "quiet p q \<Longrightarrow> quiet p (hide_error q)"
  "quiet p q \<Longrightarrow> quiet p (show_error m q)" "quiet p q \<Longrightarrow> quiet p (slideReset conf q)"
  "quiet p q \<Longrightarrow> quiet p (getAllReaded conf q)" "quiet p q \<Longrightarrow> quiet p (getUnreads conf q)"
  "quiet p q \<Longrightarrow> quiet p (setReaded conf ids q)" "quiet p q \<Longrightarrow> quiet p (doaction conf a b c q)"
  "quiet p q \<Longrightarrow> quiet p (getDetail conf x k l q)" "quiet p q \<Longrightarrow> quiet p (fillList at_end data q)"
  by (simp_all add: resetPosition_def put_css_def hide_error_def show_error_def slideReset_def getAllReaded_def
      getUnreads_def setReaded_def doaction_def getDetail_def fillList_def Let_def split: option.split prod.split)

lemma quiet_slide [simp]: "quiet p q \<Longrightarrow> a \<noteq> sign \<Longrightarrow> b \<noteq> sign \<Longrightarrow> quiet p (go_slide a b l w q)"
  by (simp add: go_slide_def put_css_def Let_def)

lemma quiet_detail_showed [simp]: "quiet p q \<Longrightarrow> quiet p (detail_showed conf b i q)"
  by (simp add: detail_showed_def Let_def)

lemma quiet_list_showed [simp]: "quiet p q \<Longrightarrow> quiet p (list_showed err ws q)"
  by (induction err ws q rule: list_showed.induct) (simp_all split: option.split)

lemma quiet_emit_list [simp]: "quiet p q \<Longrightarrow> quiet p (emit_list_showed err q)"
  by (simp add: emit_list_showed_def)

lemma quiet_panel_showed [simp]: "quiet p q \<Longrightarrow> quiet p (panel_showed conf d q)"
  unfolding panel_showed_def Let_def by (simp split: option.split)

lemma quiet_detail_answer [simp]: "quiet p q \<Longrightarrow> quiet p (detail_answer conf i err tpl data q)"
  by (simp add: detail_answer_def Let_def split: option.split prod.split)

text \<open>The hint triggers the number of the list as it is.\<close>

lemma tells_tip:
  assumes "shown sign q = shown sign p" "effects q = effects p @ es"
  shows "tells p (tip_showing q)"
proof -
  have "shown sign (initBtn b q) = shown sign q" "effects (initBtn b q) = effects q"
      "localUreadData (initBtn b q) = localUreadData q" for b q
    by (auto simp: initBtn_def sign_def page_defs)
  then have "shown sign (tip_showing q) = shown sign q"
      "effects (tip_showing q) = effects q @ [Trigger ''toolbar-setNotesNum'' (num_str (length (localUreadData q)))]"
      "localUreadData (tip_showing q) = localUreadData q"
    by (auto simp: tip_showing_def resetPosition_def put_css_def Let_def sign_def page_defs)
  then show ?thesis using assms
    by (auto simp: tells_def sign_after_def notes_num_def parse_int_num_str)
qed

lemma tells_tip_quiet: "quiet p q \<Longrightarrow> tells p (tip_showing q)"
  by (auto simp: quiet_def intro: tells_tip)

lemma tells_wrap:
  assumes "quiet p q" "tells p (cb q)"
  shows "tells p (showListCbWrap conf cb err loading vis q)"
proof -
  have "tells p r" if "quiet (cb q) r" for r using tells_quiet assms(2) that by blast
  moreover have "tells p r" if "quiet p r" for r using that by (rule quiet_tells)
  ultimately show ?thesis using assms
    by (simp add: showListCbWrap_def Let_def split: option.split)
qed

lemma tells_step:
  assumes "e \<noteq> PAllRead" "\<forall>m. e \<noteq> PMessage m"
  shows "tells p (panel_step conf e p)"
proof (cases e)
  case (PButton params)
  then show ?thesis by (simp add: panel_button_def Let_def quiet_tells tells_tip_quiet)
next
  case (PDocument inner)
  then show ?thesis by (simp add: document_click_def hidecb_def quiet_tells tells_tip_quiet)
next
  case (PAll err data loading vis)
  then show ?thesis by (simp add: all_readed_answer_def tells_wrap quiet_tells)
next
  case (PUnread err data loading vis)
  have "quiet p (fillList False data p)" by simp
  then have "tells p (tip_showing (fillList False data p\<lparr>localUreadData := l, hasNewMsg := False\<rparr>))" for l
    by (auto simp: quiet_def shown_def intro!: tells_tip)
  then show ?thesis using PUnread by (simp add: unreads_answer_def tells_wrap)
next
  case (PRead i)
  have "tells p (tip_showing (p\<lparr>keepUnread := True, items := its, localUreadData := l\<rparr>))" for its l
    by (rule tells_tip) (simp_all add: shown_def)
  then show ?thesis using PRead by (simp add: entry_read_def quiet_tells)
next
  case (PClick needs w link i)
  then show ?thesis by (simp add: list_click_def Let_def quiet_tells split: option.split)
qed (use assms in \<open>simp_all add: go_back_def prev_next_def tip_close_def Let_def quiet_tells\<close>)

text \<open>An event that comes with a message leaves the sign right, whatever it was.\<close>

lemma notify_on_ok: "sign_ok (notify_on f p)"
  by (auto simp: notify_on_def toolbar_listens_def toolbar_setNotesNum_def sign_ok_def sign_def page_defs Let_def)

lemma message_ok: "sign_ok p \<Longrightarrow> sign_ok (message_heard conf m p)"
  unfolding message_heard_def Let_def by (simp add: notify_on_ok split: option.split list.split)

lemma page_step_ok: "e \<noteq> PAllRead \<Longrightarrow> sign_ok p \<Longrightarrow> sign_ok (page_step conf e p)"
proof (cases "\<exists>m. e = PMessage m")
  case False
  assume e: "e \<noteq> PAllRead" "sign_ok p"
  have "page_step conf e p = with_toolbar (panel_step conf e) p"
    using False by (cases e) (simp_all add: page_step_def)
  then show ?thesis using tells_sign[of p "panel_step conf e"] tells_step[OF e(1), of p conf] e(2) False by simp
qed (auto simp: page_step_def message_ok)

interpretation signs: event_machine "page_step conf" "\<lambda>e. e \<noteq> PAllRead" sign_ok for conf
  by unfold_locales (rule page_step_ok)


definition quiet_panel :: npage where
  [js_eval]: "quiet_panel = set_shown sign False sample_panel"


text \<open>If it were called, the toolbar would not hear of it.\<close>

lemma all_read_keeps_sign:
  assumes "sign_ok p" "localUreadData p \<noteq> []" "it_unread i" "i \<in> set (items p)"
  shows "shown sign (page_step conf PAllRead p) \<and> localUreadData (page_step conf PAllRead p) = []"
proof -
  have q: "all_read_done p = p\<lparr>items := map (\<lambda>i. i\<lparr>it_unread := False\<rparr>) (items p), localUreadData := []\<rparr>"
    using assms(3,4) by (auto simp: all_read_done_def)
  show ?thesis using assms(1,2) by (simp add: page_step_def with_toolbar_def q Let_def sign_ok_def shown_def)
qed

end
