(* ===== verification/Shims.thy ===== *)
theory Shims
  imports Page JsRegex Cookies
begin

text \<open>
  Three small scripts of the page: the browser detection jQuery no longer has (\<open>jquery-version.js\<close>), the frames of the
  advertisements (\<open>ad.js\<close>) and the contact link of the footer (\<open>JavaScript1.js\<close>).
\<close>

section \<open>The browser\<close>

definition version_chars :: rx where
  [js_eval]: "version_chars = rplus (RCls [ClWord, Ch 46])"

definition re_webkit :: rx where
  [js_eval]: \<open>re_webkit = rseq [RGrp 1 (rlit (js ''webkit'')), RCls [Ch 32, Ch 47], RGrp 2 version_chars]\<close>

definition re_opera :: rx where
  [js_eval]: \<open>re_opera = rseq [RGrp 1 (rlit (js ''opera'')), ropt (rseq [rstar RDot, rlit (js ''version'')]), RCls [Ch 32, Ch 47],
     RGrp 2 version_chars]\<close>

definition re_msie :: rx where
  [js_eval]: \<open>re_msie = rseq [RGrp 1 (rlit (js ''msie'')), RChr 32, RGrp 2 version_chars]\<close>

definition re_mozilla :: rx where
  [js_eval]: \<open>re_mozilla = rseq [RGrp 1 (rlit (js ''mozilla'')), ropt (rseq [rstar_lazy RDot, rlit (js '' rv:''), RGrp 2 version_chars])]\<close>

text \<open>The groups of the first expression that matches; none match the empty list, which has no groups.\<close>

definition ua_groups :: "rx \<Rightarrow> jstr \<Rightarrow> (jstr option \<times> jstr option) option" where
  [js_eval]: "ua_groups r a = map_option (\<lambda>m. (capture a m 1, capture a m 2)) (rx_find no_flags r a 0)"

definition uaMatch :: "jstr \<Rightarrow> jstr \<times> jstr" where
  [js_eval]: \<open>uaMatch ua =
     (let a = to_lower ua;
          result = (\<lambda>(b, v). (case b of Some t \<Rightarrow> t | None \<Rightarrow> [], case v of Some t \<Rightarrow> t | None \<Rightarrow> (js ''0'')))
      in case ua_groups re_webkit a of
           Some g \<Rightarrow> result g
         | None \<Rightarrow>
             (case ua_groups re_opera a of
                Some g \<Rightarrow> result g
              | None \<Rightarrow>
                  (case ua_groups re_msie a of
                     Some g \<Rightarrow> result g
                   | None \<Rightarrow>
                       if contains (js ''compatible'') a then result (None, None)
                       else (case ua_groups re_mozilla a of Some g \<Rightarrow> result g | None \<Rightarrow> result (None, None)))))\<close>

record browser_flags =
  bf_name :: "jstr option"
  bf_version :: "jstr option"
  bf_safari :: bool

definition jquery_browser :: "jstr \<Rightarrow> browser_flags" where
  [js_eval]: \<open>jquery_browser ua =
     (case uaMatch ua of (b, v) \<Rightarrow>
        if b \<noteq> [] then \<lparr>bf_name = Some b, bf_version = Some v, bf_safari = (b = (js ''webkit''))\<rparr>
        else \<lparr>bf_name = None, bf_version = None, bf_safari = False\<rparr>)\<close>

text \<open>Nothing is done when the page's own jQuery already has one of the three.\<close>

definition shim_needed :: "bool \<Rightarrow> bool \<Rightarrow> bool \<Rightarrow> bool \<Rightarrow> bool" where
  [js_eval]: "shim_needed same_jquery has_browser has_httpData has_handleError \<longleftrightarrow>
     \<not> (same_jquery \<and> (has_browser \<or> has_httpData \<or> has_handleError))"

text \<open>The settings of the request: whether they have an error callback, a context, and global events.\<close>

definition handleError :: "bool \<Rightarrow> selector option \<Rightarrow> bool \<Rightarrow> jstr \<Rightarrow> 'a page_scheme \<Rightarrow> 'a page_scheme" where
  [js_eval]: "handleError has_error context global status p =
     (let p1 = (if has_error then emit (Call ''s.error'' [status]) p else p)
      in if global then emit (Trigger (''ajaxError '' @ (case context of Some c \<Rightarrow> c | None \<Rightarrow> ''jQuery.event'')) status) p1
         else p1)"

text \<open>The data of an answer of the old interface: XML or text, the text of a script or of JSON evaluated.\<close>

datatype http_data = XmlData | Text jstr | Evaluated jstr

definition httpData :: "jstr option \<Rightarrow> bool \<Rightarrow> jstr \<Rightarrow> jstr \<Rightarrow> (http_data \<Rightarrow> jstr \<Rightarrow> http_data) option \<Rightarrow>
    jstr + http_data \<times> jstr list" where
  [js_eval]: \<open>httpData ct parsererror responseText type dataFilter =
     (let xml = (type = (js ''xml'') \<or> (type = [] \<and> (case ct of Some c \<Rightarrow> contains (js ''xml'') c | None \<Rightarrow> False)));
          data = (if xml then XmlData else Text responseText)
      in if xml \<and> parsererror then Inl (js ''parsererror'')
         else case (case dataFilter of Some f \<Rightarrow> f data type | None \<Rightarrow> data) of
                Text t \<Rightarrow>
                  if type = (js ''script'') then Inr (Text t, [t])
                  else if type = (js ''json'') then Inr (Evaluated ((js ''('') @ t @ (js '')'')), [])
                  else Inr (Text t, [])
              | d \<Rightarrow> Inr (d, []))\<close>

lemma unknown_agent: \<open>jquery_browser (js ''bot/1.0'') = \<lparr>bf_name = None, bf_version = None, bf_safari = False\<rparr>\<close>
  by code_simp

lemma known_agents:
  \<open>uaMatch (js ''Mozilla/5.0 AppleWebKit/537.36'') = ((js ''webkit''), (js ''537.36''))\<close>
  \<open>uaMatch (js ''Mozilla/4.0 (compatible; MSIE 8.0)'') = ((js ''msie''), (js ''8.0''))\<close>
  \<open>uaMatch (js ''Mozilla/5.0 (X11; rv:38.0)'') = ((js ''mozilla''), (js ''38.0''))\<close>
  by code_simp+

section \<open>Advertisements\<close>

text \<open>A number of a style, as it is read from text: none is 0, anything but digits is not a number.\<close>

definition style_num :: "jstr \<Rightarrow> nat option" where
  [js_eval]: "style_num t = (if \<forall>c \<in> set t. is_digit c then Some (digits_val t) else None)"

record ad_frame =
  af_id :: jstr
  af_width :: jstr
  af_src :: jstr

definition loadAd :: "nat \<Rightarrow> jstr \<Rightarrow> nat \<Rightarrow> int \<Rightarrow> jstr \<Rightarrow> jstr \<Rightarrow> ad_frame" where
  [js_eval]: \<open>loadAd adType containerId adIndex offsetWidth paddingLeft paddingRight =
     (let width = (case (style_num paddingLeft, style_num paddingRight) of
                     (Some l, Some r) \<Rightarrow> Some (offsetWidth - 2 - int l - int r) | _ \<Rightarrow> None);
          frm = (js ''ad_frm_'') @ num_str adIndex
      in \<lparr>af_id = frm,
          af_width = (case width of Some w \<Rightarrow> if w > 0 then int_str w @ (js ''px'') else (js ''98%'') | None \<Rightarrow> (js ''98%'')),
          af_src = (js ''http://blog.csdn.net/common/ad.html?t='') @ num_str adType @ (js ''&containerId='') @ containerId
            @ (js ''&frmId='') @ frm\<rparr>)\<close>

text \<open>Advertisements are numbered in the order in which they are made.\<close>

fun make_ads :: "nat \<Rightarrow> (nat \<times> jstr \<times> int \<times> jstr \<times> jstr) list \<Rightarrow> ad_frame list" where
  "make_ads ad_cnt [] = []"
| "make_ads ad_cnt ((t, c, w, l, r) # as) = loadAd t c ad_cnt w l r # make_ads (Suc ad_cnt) as"

lemma make_ads_ids: \<open>map af_id (make_ads k as) = map (\<lambda>i. (js ''ad_frm_'') @ num_str i) [k..<k + length as]\<close>
proof (induction k as rule: make_ads.induct)
  case (2 k t c w l r as)
  have "[k..<k + length ((t, c, w, l, r) # as)] = k # [Suc k..<Suc k + length as]" by (simp add: upt_conv_Cons del: upt.simps)
  then show ?case using 2 by (simp add: loadAd_def Let_def del: upt.simps)
qed simp

lemma frames_distinct: "distinct (map af_id (make_ads k as))"
  by (auto simp: make_ads_ids distinct_map intro!: inj_onI dest: num_str_inj)

section \<open>The footer\<close>

definition footer_protocol :: "jstr \<Rightarrow> jstr" where
  [js_eval]: \<open>footer_protocol protocol = (if substr protocol 0 4 = (js ''http'') then [] else (js ''http:''))\<close>

text \<open>The markup of the footer, one entry for each \<open>document.write\<close>.\<close>

definition footer_writes :: "jstr \<Rightarrow> jstr list" where
  [js_eval]: \<open>footer_writes protocol =
    [(js ''<link rel='' @ [39] @ js ''stylesheet'' @ [39] @ js '' type='' @ [39] @ js ''text/css'' @
    [39] @ js '' href='' @ [39]) @ protocol @ (js ''//csdnimg.cn/pubfooter/css/pub_footer_2014.css'' @ [39] @ js '' />''),
     (js ''<div class='' @ [39] @ js ''pub_fo'' @ [39] @ js ''>''),
     (js ''<div id='' @ [39] @ js ''pub_footerall'' @ [39] @ js '' class='' @ [39] @
    js ''pub_footer_new'' @ [39] @ js ''>''),
     (js ''<dl>''),
     (js ''<dt></dt>''),
     (js '' <dd class='' @ [39] @ js ''foot_sub_menu'' @ [39] @ js ''><a href='' @ [39] @
    js ''http://www.csdn.net/company/about.html'' @ [39] @ js '' target='' @ [39] @ js ''_blank'' @
    [39] @ js ''>'' @ [20844, 21496, 31616, 20171] @ js ''</a><span>|</span><a href='' @ [39] @
    js ''http://www.csdn.net/company/recruit.html'' @ [39] @ js '' target='' @ [39] @ js ''_blank'' @
    [39] @ js ''>'' @ [25307, 36132, 32435, 22763] @ js ''</a><span>|</span><a href='' @ [39] @
    js ''http://www.csdn.net/company/marketing.html'' @ [39] @ js '' target='' @ [39] @ js ''_blank'' @
    [39] @ js ''>'' @ [24191, 21578, 26381, 21153] @ js ''</a><span>|</span><a href='' @ [39] @
    js ''http://www.csdn.net/company/account.html'' @ [39] @ js '' target='' @ [39] @ js ''_blank'' @
    [39] @ js ''>'' @ [38134, 34892, 27719, 27454, 24080, 21495] @ js ''</a><span>|</span><a href='' @
    [39] @ js ''http://www.csdn.net/company/contact.html'' @ [39] @ js '' target='' @ [39] @
    js ''_blank'' @ [39] @ js ''>'' @ [32852, 31995, 26041, 24335] @
    js ''</a><span>|</span><a href='' @ [39] @ js ''http://www.csdn.net/company/statement.html'' @
    [39] @ js '' target='' @ [39] @ js ''_blank'' @ [39] @ js ''>'' @ [29256, 26435, 22768, 26126] @
    js ''</a><span>|</span><a href='' @ [39] @ js ''http://www.csdn.net/company/layer.html'' @ [39] @
    js '' target='' @ [39] @ js ''_blank'' @ [39] @ js ''>'' @ [27861, 24459, 39038, 38382] @
    js ''</a><span>|</span><a href='' @ [39] @ js ''mailto:webmaster@csdn.net'' @ [39] @ js ''>'' @
    [38382, 39064, 25253, 21578] @ js ''</a><span>|</span><a target='' @ [39] @ js ''_blank'' @ [39] @
    js '' href='' @ [39] @ js ''http://www.csdn.net/friendlink.html'' @ [39] @ js ''>'' @
    [21512, 20316, 20249, 20276] @ js ''</a><span>|</span><a href='' @ [39] @
    js ''http://bbs.csdn.net/forums/Service'' @ [39] @ js '' target='' @ [39] @ js ''_blank'' @ [39] @
    js ''>'' @ [35770, 22363, 21453, 39304] @ js ''</a></dd>''),
     (js ''<dd class='' @ [39] @ js ''foot_contact'' @ [39] @ js ''><a href='' @ [39] @
    js ''javascript:void(0);'' @ [39] @ js '' target='' @ [39] @ js ''_blank'' @ [39] @
    js '' class='' @ [39] @ js ''qq'' @ [39] @ js ''>'' @ [32593, 31449, 23458, 26381] @
    js ''</a><a href='' @ [39] @ js ''http://wpa.qq.com/msgrd?v=3&uin=2251809102&site=qq&menu=yes'' @
    [39] @ js '' target='' @ [39] @ js ''_blank'' @ [39] @ js '' class='' @ [39] @ js ''qq'' @ [39] @
    js ''>'' @ [26434, 24535, 23458, 26381] @ js ''</a><a href='' @ [39] @
    js ''http://e.weibo.com/csdnsupport/profile'' @ [39] @ js '' target='' @ [39] @ js ''_blank'' @
    [39] @ js '' class='' @ [39] @ js ''weibo'' @ [39] @ js ''>'' @ [24494, 21338, 23458, 26381] @
    js ''</a><a href='' @ [39] @ js ''mailto:webmaster@csdn.net'' @ [39] @ js '' class='' @ [39] @
    js ''email'' @ [39] @ js '' title='' @ [39, 32852, 31995, 37038, 31665, 39] @
    js ''>webmaster@csdn.net</a><span class='' @ [39] @ js ''phone'' @ [39] @ js '' title='' @
    [39, 26381, 21153, 28909, 32447, 39] @ js ''>400-600-2320</span><span class='' @ [39] @
    js ''interval'' @ [39] @ js ''>|</span><span>'' @
    [21271, 20140, 21019, 26032, 20048, 30693, 20449, 24687, 25216, 26415, 26377, 38480, 20844, 21496] @
    js '' '' @ [29256, 26435, 25152, 26377] @ js ''</span><span class='' @ [39] @ js ''interval'' @
    [39] @ js ''>|</span><span>'' @
    [27743, 33487, 20048, 30693, 32593, 32476, 25216, 26415, 26377, 38480, 20844, 21496] @ js '' '' @
    [25552, 20379, 21830, 21153, 25903, 25345] @ js ''</span></dd>''),
     (js ''<dd  class='' @ [39] @ js ''foot_copyright'' @ [39] @ js ''><span>'' @ [20140] @
    js ''&nbsp;ICP&nbsp;'' @ [35777] @ js ''&nbsp;09002463&nbsp;'' @ [21495] @
    js ''</span><span class='' @ [39] @ js ''interval'' @ [39] @
    js ''>|</span><span>Copyright &copy; 1999-2016, CSDN.NET, All Rights Reserved&nbsp;</span><a href='' @
    [39] @ js ''http://www.hd315.gov.cn/beian/view.asp?bianhao=010202001032100010'' @ [39] @
    js '' target='' @ [39] @ js ''_blank'' @ [39] @ js ''><img src='' @ [39] @
    js ''http://c.csdnimg.cn/pubfooter/images/gongshang_logos.gif'' @ [39] @ js '' alt='' @ [39] @
    js ''GongshangLogo'' @ [39] @ js '' alt='' @ [39, 39] @ js '' title='' @ [39, 39] @
    js '' /></a></dd>''),
     (js ''</dl>''),
     (js ''</div>''),
     (js ''</div>''),
     (js ''<script id="noticeScript" type="text/javascript"  btnId="header_notice_num" wrapId="note1" count'' @
    js ''="5" subcount="5" src="'') @ protocol @ (js ''//csdnimg.cn/rabbit/notev2/js/notify.js?9d86d94"></script>'')]\<close>

definition footer :: "jstr \<Rightarrow> 'a page_scheme \<Rightarrow> 'a page_scheme" where
  [js_eval]: "footer protocol p = fold (\<lambda>t. emit (Write t)) (footer_writes (footer_protocol protocol)) p"

text \<open>The day of the week counts from Sunday; \<open>rnd\<close> is \<open>Math.floor(Math.random() * 3)\<close>.\<close>

definition footer_qq :: "nat \<Rightarrow> nat \<Rightarrow> jstr" where
  [js_eval]: \<open>footer_qq day rnd =
     (let qqs = [2431299880, 3456678348, 3455921142 :: nat];
          qq = (if day = 0 \<or> day = 6 then qqs ! 0 else qqs ! rnd)
      in (js ''http://wpa.qq.com/msgrd?v=3&uin='') @ num_str qq @ (js ''&site=qq&menu=yes''))\<close>

section \<open>Scripts of one call\<close>

definition counter_script :: "'a page_scheme \<Rightarrow> 'a page_scheme" where
  [js_eval]: \<open>counter_script p =
     emit (Write (js ''<script type="text/javascript" charset="UTF-8" src="http://message.csdn.net/msg.popup.js"></scri'' @
    js ''pt>'')) p\<close>

record medal_item =
  md_src :: jstr
  md_title :: jstr
  md_desc :: jstr
  md_desc2 :: jstr
  md_count :: nat

text \<open>The statements of the function are commented out.\<close>

definition printMedal :: "medal_item list \<Rightarrow> 'a page_scheme \<Rightarrow> 'a page_scheme" where
  [js_eval]: "printMedal m_arr p = p"

definition blog_medals :: "medal_item list" where
  [js_eval]: \<open>blog_medals =
    [\<lparr>md_src = (js ''http://static.blog.csdn.net/images/medal/columnstar_s.gif''), md_title = ([19987, 26639, 36798, 20154]),
      md_desc = ([25480, 20104, 25104, 21151, 21019, 24314, 20010, 20154, 21338, 23458, 19987, 26639, 30340, 29992, 25143, 12290] @
    [19987, 26639, 20013, 28155, 21152, 20116, 31687, 20197, 19978, 21338, 25991, 21363, 21487, 28857, 20142, 65281] @
    [25776, 20889, 21338, 23458, 19987, 26639, 27987, 32553, 25216, 26415, 31934, 21326, 65292, 19987, 26639, 36798] @
    [20154, 23601, 26159, 20320, 65281]),
      md_desc2 = ([21019, 24314, 19987, 26639, 65292, 19988, 28155, 21152, 36229, 36807] @ js ''5'' @
    [31687, 25991, 31456]), md_count = 1\<rparr>,
     \<lparr>md_src = (js ''http://static.blog.csdn.net/images/medal/blogstar13_s.gif''), md_title = ([21338, 23458, 20043, 26143] @ js ''test''),
      md_desc = ([25480, 20104, 36890, 36807] @ js ''"CSDN2013'' @ [21338, 23458, 20043, 26143, 35780, 36873] @
    js ''"'' @
    [27963, 21160, 33073, 39062, 32780, 20986, 30340, 21313, 22823, 21338, 23458, 20043, 26143, 21450, 20113, 35745] @
    [31639] @ js ''/'' @ [24320, 28304] @ js ''/'' @
    [31227, 21160, 24320, 21457, 39046, 22495, 21338, 23458, 20043, 26143, 31216, 21495, 30340, 29992, 25143, 12290]),
      md_desc2 = (js ''CSDN2013'' @ [24180, 24230, 21338, 23458, 20043, 26143]), md_count = 1\<rparr>,
     \<lparr>md_src = (js ''http://static.blog.csdn.net/images/medal/blogstar_s.gif''), md_title = ([21338, 23458, 20043, 26143]),
      md_desc = ([25480, 20104, 36890, 36807] @ js ''"CSDN'' @ [21338, 23458, 20043, 26143, 35780, 36873] @
    js ''"'' @
    [20013, 33073, 39062, 32780, 20986, 30340, 21313, 22823, 21338, 23458, 20043, 26143, 31216, 21495, 30340, 29992] @
    [25143, 12290]),
      md_desc2 = (js ''2014'' @ [21338, 23458, 20043, 26143]), md_count = 1\<rparr>,
     \<lparr>md_src = (js ''http://static.blog.csdn.net/images/medal/holdon_s2.gif''), md_title = ([25345, 20043, 20197, 24658]),
      md_desc = ([25480, 20104, 27599, 20010, 33258, 28982, 26376, 20869, 21457, 24067] @ js ''4'' @
    [31687, 25110] @ js ''4'' @ [31687, 20197, 19978, 21407, 21019, 25110, 32763, 35793] @ js ''IT'' @
    [21338, 25991, 30340, 29992, 25143, 12290, 19981, 31215, 36332, 27493, 26080, 20197, 33267, 21315, 37324, 65292] @
    [19981, 31215, 23567, 27969, 26080, 20197, 25104, 27743, 28023, 65292, 31243, 24207, 20154, 29983, 30340, 31934] @
    [24425, 38656, 35201, 22362, 25345, 19981, 25032, 22320, 31215, 32047, 65281]),
      md_desc2 = (js ''9'' @ [26376, 20221, 21457, 34920] @ js ''4'' @ [31687, 21407, 21019] @ js ''/'' @
    [32763, 35793, 25991, 31456]), md_count = 1\<rparr>]\<close>

definition showblogmedal :: "'a page_scheme \<Rightarrow> 'a page_scheme" where
  [js_eval]: "showblogmedal p = printMedal blog_medals p"

text \<open>The medals of the owner are never shown by this script.\<close>

lemma medals_not_printed: "effects (showblogmedal p) = effects p"
  by (simp add: showblogmedal_def printMedal_def)

end
