(* ===== verification/CPrelude.thy ===== *)
theory CPrelude
  imports JsPrelude
begin

text \<open>
  What the models of the C and C++ programs share: the faults of a program that uses memory it does not have, counters of
  the width of an \<open>int\<close>, and results that are a fault or a value.

  A fault stands for behaviour the language does not define. A model that returns \<open>Inl\<close> says that the program gets there;
  a theorem that the result is \<open>Inr\<close> says that it does not.
\<close>

type_synonym addr = nat

datatype fault = UseAfterFree | DoubleFree | NullPointer | OutOfBounds | Overflow | Undeclared

section \<open>Results\<close>

definition bind_res :: "fault + 'a \<Rightarrow> ('a \<Rightarrow> fault + 'b) \<Rightarrow> fault + 'b" where
  [js_eval]: "bind_res r f = (case r of Inl e \<Rightarrow> Inl e | Inr x \<Rightarrow> f x)"

lemma bind_res_simps [simp]:
  "bind_res (Inl e) f = Inl e"
  "bind_res (Inr x) f = f x"
  by (simp_all add: bind_res_def)

lemma bind_res_cong [fundef_cong]:
  "r = r' \<Longrightarrow> (\<And>x. r' = Inr x \<Longrightarrow> f x = f' x) \<Longrightarrow> bind_res r f = bind_res r' f'"
  by (auto simp: bind_res_def split: sum.split)

lemma bind_res_Inr: "bind_res r f = Inr y \<longleftrightarrow> (\<exists>x. r = Inr x \<and> f x = Inr y)"
  by (cases r) auto

lemma bind_res_Inl: "bind_res r f = Inl e \<longleftrightarrow> r = Inl e \<or> (\<exists>x. r = Inr x \<and> f x = Inl e)"
  by (cases r) auto

text \<open>A sequence of steps, up to the first fault.\<close>

fun run_steps :: "('c \<Rightarrow> 's \<Rightarrow> fault + 's) \<Rightarrow> 'c list \<Rightarrow> 's \<Rightarrow> fault + 's" where
  "run_steps step [] s = Inr s"
| "run_steps step (c # cs) s = bind_res (step c s) (run_steps step cs)"

section \<open>Counters\<close>

definition int_max :: int where
  [js_eval]: "int_max = 2147483647"

definition int_min :: int where
  [js_eval]: "int_min = - 2147483648"

definition count_up :: "int \<Rightarrow> fault + int" where
  [js_eval]: "count_up n = (if n = int_max then Inl Overflow else Inr (n + 1))"

definition count_down :: "int \<Rightarrow> fault + int" where
  [js_eval]: "count_down n = (if n = int_min then Inl Overflow else Inr (n - 1))"

lemma count_up_ok [simp]: "n < int_max \<Longrightarrow> count_up n = Inr (n + 1)"
  by (simp add: count_up_def)

lemma count_down_ok [simp]: "0 \<le> n \<Longrightarrow> count_down n = Inr (n - 1)"
  by (simp add: count_down_def int_min_def)

section \<open>Steps that can fail\<close>

text \<open>A component whose steps may end with a fault. When a step from a state that is well formed either ends with one of
  the faults that are blamed on the caller or in a state that is well formed, so does every sequence of them.\<close>

locale partial_machine =
  fixes step :: "'c \<Rightarrow> 's \<Rightarrow> fault + 's"
    and blamed :: "fault set"
    and inv :: "nat \<Rightarrow> 's \<Rightarrow> bool"
    and room :: nat
  assumes step_ok: "inv k s \<Longrightarrow> k < room \<Longrightarrow>
    (case step c s of Inl e \<Rightarrow> e \<in> blamed | Inr s' \<Rightarrow> inv (Suc k) s')"
begin

lemma run_ok: "inv k s \<Longrightarrow> k + length cs \<le> room \<Longrightarrow>
    (case run_steps step cs s of Inl e \<Rightarrow> e \<in> blamed | Inr s' \<Rightarrow> inv (k + length cs) s')"
proof (induction cs arbitrary: k s)
  case (Cons c cs)
  show ?case
  proof (cases "step c s")
    case (Inr s')
    then have "inv (Suc k) s'" using step_ok[OF Cons.prems(1), of c] Cons.prems(2) by simp
    then show ?thesis using Inr Cons.IH[of "Suc k" s'] Cons.prems(2) by (simp split: sum.splits)
  qed (use step_ok[OF Cons.prems(1), of c] Cons.prems(2) in simp)
qed simp

end

section \<open>Steps that do what a specification says\<close>

text \<open>Steps with answers, which may also never return; a run collects the answers. A specification says which answers and
  states may follow.\<close>

fun run_answers :: "('o \<Rightarrow> 's \<Rightarrow> (fault + 'b \<times> 's) option) \<Rightarrow> 'o list \<Rightarrow> 's \<Rightarrow> (fault + 'b list \<times> 's) option" where
  "run_answers step [] s = Some (Inr ([], s))"
| "run_answers step (c # cs) s =
     (case step c s of
        None \<Rightarrow> None
      | Some (Inl e) \<Rightarrow> Some (Inl e)
      | Some (Inr (b, s1)) \<Rightarrow>
          map_option (\<lambda>r. bind_res r (\<lambda>(bs, s2). Inr (b # bs, s2))) (run_answers step cs s1))"

inductive spec_run :: "('o \<Rightarrow> 'a \<Rightarrow> 'b \<Rightarrow> 'a \<Rightarrow> bool) \<Rightarrow> 'o list \<Rightarrow> 'a \<Rightarrow> 'b list \<Rightarrow> 'a \<Rightarrow> bool"
  for spec where
  spec_end: "spec_run spec [] a [] a"
| spec_step: "spec c a b a1 \<Longrightarrow> spec_run spec cs a1 bs a2 \<Longrightarrow> spec_run spec (c # cs) a (b # bs) a2"

inductive_simps spec_run_simps: "spec_run spec [] a bs a2" "spec_run spec (c # cs) a bs a2"

locale simulated =
  fixes step :: "'o \<Rightarrow> 's \<Rightarrow> (fault + 'b \<times> 's) option"
    and spec :: "'o \<Rightarrow> 'a \<Rightarrow> 'b \<Rightarrow> 'a \<Rightarrow> bool"
    and rel :: "'s \<Rightarrow> 'a \<Rightarrow> bool"
  assumes simulates: "rel s a \<Longrightarrow> \<exists>b s' a'. step c s = Some (Inr (b, s')) \<and> spec c a b a' \<and> rel s' a'"
begin

lemma run_simulates:
  "rel s a \<Longrightarrow> \<exists>bs s' a'. run_answers step cs s = Some (Inr (bs, s')) \<and> spec_run spec cs a bs a' \<and> rel s' a'"
proof (induction cs arbitrary: s a)
  case (Cons c cs)
  obtain b s1 a1 where 1: "step c s = Some (Inr (b, s1))" "spec c a b a1" "rel s1 a1"
    using simulates[OF Cons.prems] by blast
  obtain bs s2 a2 where "run_answers step cs s1 = Some (Inr (bs, s2))" "spec_run spec cs a1 bs a2" "rel s2 a2"
    using Cons.IH[OF 1(3)] by blast
  then show ?case using 1 by (auto intro: spec_step)
qed (auto intro: spec_end)

end

end
