(* ===== verification/SmartPointer.thy ===== *)
theory SmartPointer
  imports CPrelude
begin

text \<open>
  Reference counted objects and the pointers that count them (\<open>SmartPoint/test.cpp\<close>).

  An object and the block with its counts (\<open>weakref_impl\<close>) are allocated together and freed one after the other, so one
  cell holds both, with a flag for each that says whether it is still there. \<open>INITIAL_STRONG_VALUE\<close> is 0 in this program
  and \<open>DEBUG_REFS\<close> is not defined, so the lists of references are not kept and the calls on them do nothing. The calls of
  the empty virtual functions and the destructors are recorded as events.

  The templates \<open>sp<T>\<close> take the two functions of \<open>T\<close> they call as arguments. The program has one thread.
\<close>

section \<open>Objects and their counts\<close>

unbundle bit_operations_syntax

definition INITIAL_STRONG_VALUE :: int where
  [js_eval]: "INITIAL_STRONG_VALUE = 0"

definition OBJECT_LIFETIME_STRONG :: int where
  [js_eval]: "OBJECT_LIFETIME_STRONG = 0"

definition OBJECT_LIFETIME_WEAK :: int where
  [js_eval]: "OBJECT_LIFETIME_WEAK = 1"

definition OBJECT_LIFETIME_MASK :: int where
  [js_eval]: "OBJECT_LIFETIME_MASK = 1"

definition FIRST_INC_STRONG :: int where
  [js_eval]: "FIRST_INC_STRONG = 1"

record counted =
  mStrong :: int
  mWeak :: int
  mFlags :: int
  obj_live :: bool
  impl_live :: bool

datatype ref_event = FirstRef addr | LastStrongRef addr | LastWeakRef addr | CountsDeleted addr | ObjectDeleted addr

record store =
  cells :: "addr \<Rightarrow> counted option"
  fresh :: addr
  events :: "ref_event list"

definition put_cell :: "addr \<Rightarrow> counted \<Rightarrow> store \<Rightarrow> store" where
  [js_eval]: "put_cell a c s = s\<lparr>cells := (cells s)(a := Some c)\<rparr>"

definition happen :: "ref_event \<Rightarrow> store \<Rightarrow> store" where
  [js_eval]: "happen e s = s\<lparr>events := events s @ [e]\<rparr>"

text \<open>The counts of an object by the pointer to them, and by the pointer to the object.\<close>

definition impl_at :: "addr \<Rightarrow> store \<Rightarrow> fault + counted" where
  [js_eval]: "impl_at a s =
     (case cells s a of Some c \<Rightarrow> if impl_live c then Inr c else Inl UseAfterFree | None \<Rightarrow> Inl UseAfterFree)"

definition obj_at :: "addr \<Rightarrow> store \<Rightarrow> fault + counted" where
  [js_eval]: "obj_at a s =
     (case cells s a of Some c \<Rightarrow> if obj_live c then Inr c else Inl UseAfterFree | None \<Rightarrow> Inl UseAfterFree)"

definition new_counts :: counted where
  [js_eval]: "new_counts = \<lparr>mStrong = INITIAL_STRONG_VALUE, mWeak = 0, mFlags = 0, obj_live = True, impl_live = True\<rparr>"

definition new_object :: "store \<Rightarrow> addr \<times> store" where
  [js_eval]: "new_object s = (fresh s, put_cell (fresh s) new_counts (s\<lparr>fresh := Suc (fresh s)\<rparr>))"

text \<open>\<open>delete\<close> of the counts, and of the object with its destructor.\<close>

definition delete_impl :: "addr \<Rightarrow> store \<Rightarrow> fault + store" where
  [js_eval]: "delete_impl a s =
     (case cells s a of
        Some c \<Rightarrow> if impl_live c then Inr (happen (CountsDeleted a) (put_cell a (c\<lparr>impl_live := False\<rparr>) s))
                  else Inl DoubleFree
      | None \<Rightarrow> Inl DoubleFree)"

definition free_object :: "addr \<Rightarrow> store \<Rightarrow> fault + store" where
  [js_eval]: "free_object a s =
     (case cells s a of
        Some c \<Rightarrow> if obj_live c then Inr (happen (ObjectDeleted a) (put_cell a (c\<lparr>obj_live := False\<rparr>) s))
                  else Inl DoubleFree
      | None \<Rightarrow> Inl DoubleFree)"

definition delete_object :: "addr \<Rightarrow> store \<Rightarrow> fault + store" where
  [js_eval]: "delete_object a s =
     bind_res (obj_at a s) (\<lambda>_. bind_res (impl_at a s) (\<lambda>c.
       bind_res
         (if mStrong c = INITIAL_STRONG_VALUE then delete_impl a s
          else if mFlags c AND OBJECT_LIFETIME_MASK \<noteq> OBJECT_LIFETIME_STRONG
          then if mWeak c = 0 then delete_impl a s else Inr s
          else Inr s)
         (free_object a)))"

definition incWeak :: "addr \<Rightarrow> store \<Rightarrow> fault + store" where
  [js_eval]: "incWeak a s =
     bind_res (impl_at a s) (\<lambda>c. bind_res (count_up (mWeak c)) (\<lambda>n. Inr (put_cell a (c\<lparr>mWeak := n\<rparr>) s)))"

definition decWeak :: "addr \<Rightarrow> store \<Rightarrow> fault + store" where
  [js_eval]: "decWeak a s =
     bind_res (impl_at a s) (\<lambda>c. bind_res (count_down (mWeak c)) (\<lambda>n.
       let s1 = put_cell a (c\<lparr>mWeak := n\<rparr>) s in
       if mWeak c \<noteq> 1 then Inr s1
       else if mFlags c AND OBJECT_LIFETIME_WEAK = OBJECT_LIFETIME_STRONG
       then if mStrong c = INITIAL_STRONG_VALUE then delete_object a s1 else delete_impl a s1
       else bind_res (obj_at a s1) (\<lambda>_.
              let s2 = happen (LastWeakRef a) s1 in
              if mFlags c AND OBJECT_LIFETIME_MASK = OBJECT_LIFETIME_WEAK then delete_object a s2 else Inr s2)))"

definition incStrong :: "addr \<Rightarrow> store \<Rightarrow> fault + store" where
  [js_eval]: "incStrong a s =
     bind_res (obj_at a s) (\<lambda>_. bind_res (incWeak a s) (\<lambda>s1. bind_res (impl_at a s1) (\<lambda>c.
       bind_res (count_up (mStrong c)) (\<lambda>n.
         let s2 = put_cell a (c\<lparr>mStrong := n\<rparr>) s1 in
         if mStrong c \<noteq> INITIAL_STRONG_VALUE then Inr s2
         else bind_res (obj_at a s2) (\<lambda>_. Inr (happen (FirstRef a) s2))))))"

definition decStrong :: "addr \<Rightarrow> store \<Rightarrow> fault + store" where
  [js_eval]: "decStrong a s =
     bind_res (obj_at a s) (\<lambda>_. bind_res (impl_at a s) (\<lambda>c. bind_res (count_down (mStrong c)) (\<lambda>n.
       let s1 = put_cell a (c\<lparr>mStrong := n\<rparr>) s in
       bind_res
         (if mStrong c = 0
          then let s2 = happen (LastStrongRef a) s1 in
               if mFlags c AND OBJECT_LIFETIME_MASK = OBJECT_LIFETIME_STRONG then delete_object a s2 else Inr s2
          else Inr s1)
         (decWeak a))))"

definition forceIncStrong :: "addr \<Rightarrow> store \<Rightarrow> fault + store" where
  [js_eval]: "forceIncStrong a s =
     bind_res (obj_at a s) (\<lambda>_. bind_res (incWeak a s) (\<lambda>s1. bind_res (impl_at a s1) (\<lambda>c.
       bind_res (count_up (mStrong c)) (\<lambda>n. Inr (put_cell a (c\<lparr>mStrong := n\<rparr>) s1)))))"

definition getStrongCount :: "addr \<Rightarrow> store \<Rightarrow> fault + int" where
  [js_eval]: "getStrongCount a s = bind_res (obj_at a s) (\<lambda>_. bind_res (impl_at a s) (\<lambda>c. Inr (mStrong c)))"

definition getWeakCount :: "addr \<Rightarrow> store \<Rightarrow> fault + int" where
  [js_eval]: "getWeakCount a s = bind_res (impl_at a s) (\<lambda>c. Inr (mWeak c))"

definition createWeak :: "addr \<Rightarrow> store \<Rightarrow> fault + addr \<times> store" where
  [js_eval]: "createWeak a s = bind_res (obj_at a s) (\<lambda>_. bind_res (incWeak a s) (\<lambda>s1. Inr (a, s1)))"

definition extendObjectLifetime :: "int \<Rightarrow> addr \<Rightarrow> store \<Rightarrow> store" where
  [js_eval]: "extendObjectLifetime mode a s = s"

definition onIncStrongAttempted :: "int \<Rightarrow> bool" where
  [js_eval]: "onIncStrongAttempted flags = (flags AND FIRST_INC_STRONG \<noteq> 0)"

definition attemptIncWeak :: "addr \<Rightarrow> store \<Rightarrow> fault + bool" where
  [js_eval]: "attemptIncWeak a s = bind_res (impl_at a s) (\<lambda>c. Inr (0 < mWeak c))"

text \<open>
  \<open>attemptIncStrong\<close>: the exchange that would leave the loop is commented out, so the loop reads the count again until it
  is no longer positive. \<open>None\<close> stands for a loop without end.
\<close>

partial_function (option) attempt_spin :: "addr \<Rightarrow> store \<Rightarrow> int \<Rightarrow> (fault + int) option" where
  [code]: "attempt_spin a s curCount =
     (if 0 < curCount \<and> curCount \<noteq> INITIAL_STRONG_VALUE
      then case impl_at a s of Inl e \<Rightarrow> Some (Inl e) | Inr c \<Rightarrow> attempt_spin a s (mStrong c)
      else Some (Inr curCount))"

definition attempt_result :: "addr \<Rightarrow> int \<Rightarrow> store \<Rightarrow> fault + bool \<times> store" where
  [js_eval]: "attempt_result a curCount s =
     (let give_up = bind_res (decWeak a s) (\<lambda>s'. Inr (False, s'));
          last_ref = (\<lambda>cur s'. if 0 < cur \<and> cur < INITIAL_STRONG_VALUE then happen (LastStrongRef a) s' else s')
      in if curCount \<le> 0 \<or> curCount = INITIAL_STRONG_VALUE
         then bind_res (impl_at a s) (\<lambda>c.
                if mFlags c AND OBJECT_LIFETIME_WEAK = OBJECT_LIFETIME_STRONG
                then if curCount \<le> 0 then give_up else Inr (True, last_ref curCount s)
                else bind_res (obj_at a s) (\<lambda>_.
                       if \<not> onIncStrongAttempted FIRST_INC_STRONG then give_up
                       else bind_res (count_up (mStrong c)) (\<lambda>n.
                              Inr (True, last_ref (mStrong c) (put_cell a (c\<lparr>mStrong := n\<rparr>) s)))))
         else Inr (True, s))"

definition attemptIncStrong :: "addr \<Rightarrow> store \<Rightarrow> (fault + bool \<times> store) option" where
  [js_eval]: "attemptIncStrong a s =
     (case incWeak a s of
        Inl e \<Rightarrow> Some (Inl e)
      | Inr s1 \<Rightarrow>
          (case impl_at a s1 of
             Inl e \<Rightarrow> Some (Inl e)
           | Inr c \<Rightarrow>
               (case attempt_spin a s1 (mStrong c) of
                  None \<Rightarrow> None
                | Some (Inl e) \<Rightarrow> Some (Inl e)
                | Some (Inr curCount) \<Rightarrow> Some (attempt_result a curCount s1))))"

section \<open>Pointers that count\<close>

text \<open>
  The variables of type \<open>sp<T>\<close> that are in scope, each with its \<open>m_ptr\<close>, and the pointers to counts the client got from
  \<open>createWeak\<close>. A variable that does not exist is \<open>Undeclared\<close>.
\<close>

record 's client =
  m_ptrs :: "addr option list"
  weak_ptrs :: "addr list"
  heap_of :: 's

definition var_at :: "nat \<Rightarrow> 'a list \<Rightarrow> fault + 'a" where
  [js_eval]: "var_at i xs = (if i < length xs then Inr (xs ! i) else Inl Undeclared)"

text \<open>\<open>if (p) p->f(this)\<close>\<close>

definition if_some :: "(addr \<Rightarrow> 's \<Rightarrow> fault + 's) \<Rightarrow> addr option \<Rightarrow> 's \<Rightarrow> fault + 's" where
  [js_eval]: "if_some f p h = (case p of None \<Rightarrow> Inr h | Some a \<Rightarrow> f a h)"

definition remove_at :: "nat \<Rightarrow> 'a list \<Rightarrow> 'a list" where
  [js_eval]: "remove_at i xs = take i xs @ drop (Suc i) xs"

definition sp_default :: "'s client \<Rightarrow> 's client" where
  [js_eval]: "sp_default cl = cl\<lparr>m_ptrs := m_ptrs cl @ [None]\<rparr>"

definition sp_of_ptr :: "(addr \<Rightarrow> 's \<Rightarrow> fault + 's) \<Rightarrow> addr option \<Rightarrow> 's client \<Rightarrow> fault + 's client" where
  [js_eval]: "sp_of_ptr inc other cl =
     bind_res (if_some inc other (heap_of cl)) (\<lambda>h. Inr (cl\<lparr>m_ptrs := m_ptrs cl @ [other], heap_of := h\<rparr>))"

definition sp_copy :: "(addr \<Rightarrow> 's \<Rightarrow> fault + 's) \<Rightarrow> nat \<Rightarrow> 's client \<Rightarrow> fault + 's client" where
  [js_eval]: "sp_copy inc j cl = bind_res (var_at j (m_ptrs cl)) (\<lambda>p.
     bind_res (if_some inc p (heap_of cl)) (\<lambda>h. Inr (cl\<lparr>m_ptrs := m_ptrs cl @ [p], heap_of := h\<rparr>)))"

definition sp_destroy :: "(addr \<Rightarrow> 's \<Rightarrow> fault + 's) \<Rightarrow> nat \<Rightarrow> 's client \<Rightarrow> fault + 's client" where
  [js_eval]: "sp_destroy dec i cl = bind_res (var_at i (m_ptrs cl)) (\<lambda>p.
     bind_res (if_some dec p (heap_of cl)) (\<lambda>h. Inr (cl\<lparr>m_ptrs := remove_at i (m_ptrs cl), heap_of := h\<rparr>)))"

definition sp_assign_ptr :: "(addr \<Rightarrow> 's \<Rightarrow> fault + 's) \<Rightarrow> (addr \<Rightarrow> 's \<Rightarrow> fault + 's) \<Rightarrow> nat \<Rightarrow> addr option \<Rightarrow> 's client
    \<Rightarrow> fault + 's client" where
  [js_eval]: "sp_assign_ptr inc dec i other cl = bind_res (var_at i (m_ptrs cl)) (\<lambda>m_ptr.
     bind_res (if_some inc other (heap_of cl)) (\<lambda>h1. bind_res (if_some dec m_ptr h1) (\<lambda>h2.
       Inr (cl\<lparr>m_ptrs := (m_ptrs cl)[i := other], heap_of := h2\<rparr>))))"

definition sp_assign :: "(addr \<Rightarrow> 's \<Rightarrow> fault + 's) \<Rightarrow> (addr \<Rightarrow> 's \<Rightarrow> fault + 's) \<Rightarrow> nat \<Rightarrow> nat \<Rightarrow> 's client
    \<Rightarrow> fault + 's client" where
  [js_eval]: "sp_assign inc dec i j cl = bind_res (var_at j (m_ptrs cl)) (\<lambda>otherPtr.
     bind_res (var_at i (m_ptrs cl)) (\<lambda>m_ptr.
     bind_res (if_some inc otherPtr (heap_of cl)) (\<lambda>h1. bind_res (if_some dec m_ptr h1) (\<lambda>h2.
       Inr (cl\<lparr>m_ptrs := (m_ptrs cl)[i := otherPtr], heap_of := h2\<rparr>)))))"

definition sp_force_set :: "(addr \<Rightarrow> 's \<Rightarrow> fault + 's) \<Rightarrow> nat \<Rightarrow> addr option \<Rightarrow> 's client \<Rightarrow> fault + 's client" where
  [js_eval]: "sp_force_set force i other cl = bind_res (var_at i (m_ptrs cl)) (\<lambda>_.
     case other of None \<Rightarrow> Inl NullPointer
     | Some a \<Rightarrow> bind_res (force a (heap_of cl)) (\<lambda>h. Inr (cl\<lparr>m_ptrs := (m_ptrs cl)[i := other], heap_of := h\<rparr>)))"

definition sp_clear :: "(addr \<Rightarrow> 's \<Rightarrow> fault + 's) \<Rightarrow> nat \<Rightarrow> 's client \<Rightarrow> fault + 's client" where
  [js_eval]: "sp_clear dec i cl = bind_res (var_at i (m_ptrs cl)) (\<lambda>m_ptr.
     case m_ptr of None \<Rightarrow> Inr cl
     | Some a \<Rightarrow> bind_res (dec a (heap_of cl)) (\<lambda>h. Inr (cl\<lparr>m_ptrs := (m_ptrs cl)[i := None], heap_of := h\<rparr>)))"

definition sp_get :: "nat \<Rightarrow> 's client \<Rightarrow> fault + addr option" where
  [js_eval]: "sp_get i cl = var_at i (m_ptrs cl)"

definition sp_deref :: "nat \<Rightarrow> 's client \<Rightarrow> fault + addr" where
  [js_eval]: "sp_deref i cl =
     bind_res (sp_get i cl) (\<lambda>p. case p of None \<Rightarrow> Inl NullPointer | Some a \<Rightarrow> Inr a)"

section \<open>A client\<close>

text \<open>
  What a program does with its variables: \<open>sp<test> t; sp<test> t(u); t = u; t = new test(); t = u.get(); t.clear();\<close>
  the end of a scope, \<open>testFunction(t)\<close>, a call through a pointer, and the weak counts it takes and gives back.
\<close>

datatype command =
    Declare
  | Copy nat
  | EndScope nat
  | Assign nat nat
  | AssignNew nat
  | AssignRaw nat nat
  | Clear nat
  | CallTest nat
  | Deref nat
  | TakeWeak nat
  | DropWeak nat

definition testFunction :: "nat \<Rightarrow> store client \<Rightarrow> fault + store client" where
  [js_eval]: "testFunction i cl =
     bind_res (sp_copy incStrong i cl) (\<lambda>cl1. sp_destroy decStrong (length (m_ptrs cl)) cl1)"

definition client_step :: "command \<Rightarrow> store client \<Rightarrow> fault + store client" where
  [js_eval]: "client_step c cl =
     (case c of
        Declare \<Rightarrow> Inr (sp_default cl)
      | Copy j \<Rightarrow> sp_copy incStrong j cl
      | EndScope i \<Rightarrow> sp_destroy decStrong i cl
      | Assign i j \<Rightarrow> sp_assign incStrong decStrong i j cl
      | AssignNew i \<Rightarrow> (let (a, h) = new_object (heap_of cl) in
                        sp_assign_ptr incStrong decStrong i (Some a) (cl\<lparr>heap_of := h\<rparr>))
      | AssignRaw i j \<Rightarrow> bind_res (sp_get j cl) (\<lambda>p. sp_assign_ptr incStrong decStrong i p cl)
      | Clear i \<Rightarrow> sp_clear decStrong i cl
      | CallTest i \<Rightarrow> testFunction i cl
      | Deref i \<Rightarrow> bind_res (sp_deref i cl) (\<lambda>a. bind_res (obj_at a (heap_of cl)) (\<lambda>_. Inr cl))
      | TakeWeak i \<Rightarrow> bind_res (sp_deref i cl) (\<lambda>a. bind_res (createWeak a (heap_of cl)) (\<lambda>(w, h).
                        Inr (cl\<lparr>weak_ptrs := weak_ptrs cl @ [w], heap_of := h\<rparr>)))
      | DropWeak k \<Rightarrow> bind_res (var_at k (weak_ptrs cl)) (\<lambda>w. bind_res (decWeak w (heap_of cl)) (\<lambda>h.
                        Inr (cl\<lparr>weak_ptrs := remove_at k (weak_ptrs cl), heap_of := h\<rparr>))))"

definition start_client :: "store client" where
  [js_eval]: "start_client = \<lparr>m_ptrs = [], weak_ptrs = [], heap_of = \<lparr>cells = \<lambda>_. None, fresh = 0, events = []\<rparr>\<rparr>"

section \<open>The contract between the pointers and the objects\<close>

text \<open>How often each object is held, and how taking and giving back a pointer changes it.\<close>

definition held :: "addr option list \<Rightarrow> addr \<Rightarrow> nat" where
  "held ps a = count_list ps (Some a)"

definition one_more :: "addr option \<Rightarrow> (addr \<Rightarrow> nat) \<Rightarrow> addr \<Rightarrow> nat" where
  "one_more p n = (case p of None \<Rightarrow> n | Some a \<Rightarrow> n(a := Suc (n a)))"

definition one_less :: "addr option \<Rightarrow> (addr \<Rightarrow> nat) \<Rightarrow> addr \<Rightarrow> nat" where
  "one_less p n = (case p of None \<Rightarrow> n | Some a \<Rightarrow> n(a := n a - 1))"

lemma held_append [simp]: "held (ps @ [p]) = one_more p (held ps)"
  by (auto simp: held_def one_more_def fun_eq_iff split: option.split)

lemma held_at: "i < length ps \<Longrightarrow> ps ! i = Some a \<Longrightarrow> 0 < held ps a"
  by (metis held_def count_list_0_iff nth_mem gr0I)

lemma count_list_split: "i < length xs \<Longrightarrow>
    count_list xs x = count_list (take i xs) x + (if xs ! i = x then 1 else 0) + count_list (drop (Suc i) xs) x"
  by (subst id_take_nth_drop[of i xs]) (auto simp: count_list_append)

lemma held_remove [simp]: "i < length ps \<Longrightarrow> held (remove_at i ps) = one_less (ps ! i) (held ps)"
  by (auto simp: held_def one_less_def remove_at_def fun_eq_iff count_list_append count_list_split[of i ps] split: option.split)

lemma held_update [simp]: "i < length ps \<Longrightarrow> held (ps[i := p]) = one_less (ps ! i) (one_more p (held ps))"
  by (auto simp: held_def one_less_def one_more_def fun_eq_iff count_list_append upd_conv_take_nth_drop
      count_list_split[of i ps] split: option.split)

lemma held_le: "held ps a \<le> length ps"
  by (simp add: held_def count_le_length)

text \<open>
  A type of objects that count their holders: \<open>right s n\<close> says that the store \<open>s\<close> is right when each object \<open>a\<close> is held
  \<open>n a\<close> times. Taking a pointer to an object that is there, and giving one back, keeps this.
\<close>

locale counted_objects =
  fixes inc dec :: "addr \<Rightarrow> 's \<Rightarrow> fault + 's"
    and right :: "'s \<Rightarrow> (addr \<Rightarrow> nat) \<Rightarrow> bool"
    and usable :: "addr \<Rightarrow> 's \<Rightarrow> bool"
    and room :: "addr \<Rightarrow> nat"
  assumes inc_law: "right s n \<Longrightarrow> usable a s \<Longrightarrow> n a < room a \<Longrightarrow> \<exists>s'. inc a s = Inr s' \<and> right s' (n(a := Suc (n a)))"
    and dec_law: "right s n \<Longrightarrow> 0 < n a \<Longrightarrow> \<exists>s'. dec a s = Inr s' \<and> right s' (n(a := n a - 1))"
    and held_usable: "right s n \<Longrightarrow> 0 < n a \<Longrightarrow> usable a s"
begin

definition ok :: "'s client \<Rightarrow> bool" where
  "ok cl \<longleftrightarrow> right (heap_of cl) (held (m_ptrs cl))"

definition may_take :: "addr option \<Rightarrow> 's client \<Rightarrow> bool" where
  "may_take p cl \<longleftrightarrow> (\<forall>a. p = Some a \<longrightarrow> usable a (heap_of cl) \<and> held (m_ptrs cl) a < room a)"

lemma take_one: "right s n \<Longrightarrow> \<forall>a. p = Some a \<longrightarrow> usable a s \<and> n a < room a \<Longrightarrow>
    \<exists>s'. if_some inc p s = Inr s' \<and> right s' (one_more p n)"
  using inc_law by (cases p) (auto simp: if_some_def one_more_def)

lemma give_back: "right s n \<Longrightarrow> \<forall>a. p = Some a \<longrightarrow> 0 < n a \<Longrightarrow>
    \<exists>s'. if_some dec p s = Inr s' \<and> right s' (one_less p n)"
  using dec_law by (cases p) (auto simp: if_some_def one_less_def)

lemma var_may_take:
  "ok cl \<Longrightarrow> j < length (m_ptrs cl) \<Longrightarrow> \<forall>a. held (m_ptrs cl) a < room a \<Longrightarrow> may_take (m_ptrs cl ! j) cl"
  using held_usable held_at[of j "m_ptrs cl"] by (auto simp: may_take_def ok_def)

lemma of_ptr_ok: "ok cl \<Longrightarrow> may_take p cl \<Longrightarrow>
    \<exists>h. sp_of_ptr inc p cl = Inr (cl\<lparr>m_ptrs := m_ptrs cl @ [p], heap_of := h\<rparr>) \<and> right h (held (m_ptrs cl @ [p]))"
  using take_one[of "heap_of cl" "held (m_ptrs cl)" p] by (auto simp: ok_def may_take_def sp_of_ptr_def)

lemma copy_ok: "ok cl \<Longrightarrow> j < length (m_ptrs cl) \<Longrightarrow> \<forall>a. held (m_ptrs cl) a < room a \<Longrightarrow>
    \<exists>h. sp_copy inc j cl = Inr (cl\<lparr>m_ptrs := m_ptrs cl @ [m_ptrs cl ! j], heap_of := h\<rparr>)
      \<and> right h (held (m_ptrs cl @ [m_ptrs cl ! j]))"
  using of_ptr_ok[OF _ var_may_take, of cl j] by (simp add: sp_copy_def sp_of_ptr_def var_at_def)

lemma destroy_ok: "ok cl \<Longrightarrow> i < length (m_ptrs cl) \<Longrightarrow>
    \<exists>h. sp_destroy dec i cl = Inr (cl\<lparr>m_ptrs := remove_at i (m_ptrs cl), heap_of := h\<rparr>)
      \<and> right h (held (remove_at i (m_ptrs cl)))"
  using give_back[of "heap_of cl" "held (m_ptrs cl)" "m_ptrs cl ! i"] held_at[of i "m_ptrs cl"]
  by (auto simp: ok_def sp_destroy_def var_at_def)

text \<open>The new object is taken before the old one is given back, so a pointer can be assigned to itself.\<close>

lemma assign_ptr_ok:
  assumes "ok cl" "i < length (m_ptrs cl)" "may_take p cl"
  shows "\<exists>h. sp_assign_ptr inc dec i p cl = Inr (cl\<lparr>m_ptrs := (m_ptrs cl)[i := p], heap_of := h\<rparr>)
      \<and> right h (held ((m_ptrs cl)[i := p]))"
proof -
  let ?n = "held (m_ptrs cl)"
  obtain h1 where h1: "if_some inc p (heap_of cl) = Inr h1" "right h1 (one_more p ?n)"
    using take_one[of "heap_of cl" ?n p] assms(1,3) by (auto simp: ok_def may_take_def)
  have "\<forall>a. m_ptrs cl ! i = Some a \<longrightarrow> 0 < one_more p ?n a"
    using held_at[OF assms(2)] by (auto simp: one_more_def split: option.split)
  then obtain h2 where "if_some dec (m_ptrs cl ! i) h1 = Inr h2" "right h2 (one_less (m_ptrs cl ! i) (one_more p ?n))"
    using give_back[OF h1(2)] by blast
  then show ?thesis using h1(1) assms(2) by (intro exI[of _ h2]) (simp add: sp_assign_ptr_def var_at_def)
qed

lemma assign_ok:
  assumes "ok cl" "i < length (m_ptrs cl)" "j < length (m_ptrs cl)" "\<forall>a. held (m_ptrs cl) a < room a"
  shows "\<exists>h. sp_assign inc dec i j cl = Inr (cl\<lparr>m_ptrs := (m_ptrs cl)[i := m_ptrs cl ! j], heap_of := h\<rparr>)
      \<and> right h (held ((m_ptrs cl)[i := m_ptrs cl ! j]))"
  using assign_ptr_ok[OF assms(1,2) var_may_take[OF assms(1,3,4)]] assms(2,3)
  by (simp add: sp_assign_def sp_assign_ptr_def var_at_def)

lemma clear_ok: "ok cl \<Longrightarrow> i < length (m_ptrs cl) \<Longrightarrow>
    \<exists>h. sp_clear dec i cl = Inr (cl\<lparr>m_ptrs := (m_ptrs cl)[i := None], heap_of := h\<rparr>)
      \<and> right h (held ((m_ptrs cl)[i := None]))"
proof (cases "m_ptrs cl ! i")
  case None
  assume "ok cl" "i < length (m_ptrs cl)"
  moreover have "(m_ptrs cl)[i := None] = m_ptrs cl" using None by (metis list_update_id)
  ultimately show ?thesis using None by (intro exI[of _ "heap_of cl"]) (auto simp: sp_clear_def var_at_def ok_def)
next
  case (Some a)
  assume "ok cl" "i < length (m_ptrs cl)"
  then show ?thesis
    using Some give_back[of "heap_of cl" "held (m_ptrs cl)" "Some a"] held_at[of i "m_ptrs cl" a]
    by (auto simp: ok_def sp_clear_def var_at_def if_some_def one_more_def)
qed

end

section \<open>The objects keep the contract\<close>

text \<open>An object held by \<open>n\<close> pointers and \<open>w\<close> weak ones.\<close>

definition cell_of :: "nat \<Rightarrow> nat \<Rightarrow> counted" where
  "cell_of n w = \<lparr>mStrong = int n, mWeak = int (n + w), mFlags = 0, obj_live = True, impl_live = True\<rparr>"

definition dead_cell :: counted where
  "dead_cell = \<lparr>mStrong = 0, mWeak = 0, mFlags = 0, obj_live = False, impl_live = False\<rparr>"

lemmas ref_defs = put_cell_def happen_def impl_at_def obj_at_def INITIAL_STRONG_VALUE_def OBJECT_LIFETIME_STRONG_def
  OBJECT_LIFETIME_WEAK_def OBJECT_LIFETIME_MASK_def FIRST_INC_STRONG_def cell_of_def dead_cell_def Let_def

lemma incStrong_spec:
  assumes "cells s a = Some (cell_of n w)" "int (n + w) < int_max"
  shows "incStrong a s = Inr ((if n = 0 then happen (FirstRef a) else id) (put_cell a (cell_of (Suc n) w) s))"
proof -
  have "int n < int_max" "int n + int w < int_max" using assms(2) by simp_all
  then show ?thesis using assms(1) by (auto simp: incStrong_def incWeak_def ref_defs add.commute)
qed

lemma incWeak_spec:
  assumes "cells s a = Some (cell_of n w)" "int (n + w) < int_max"
  shows "incWeak a s = Inr (put_cell a (cell_of n (Suc w)) s)"
  using assms by (simp add: incWeak_def ref_defs add.commute)

definition gone :: "addr \<Rightarrow> store \<Rightarrow> store" where
  "gone a s = happen (ObjectDeleted a) (happen (CountsDeleted a) (put_cell a dead_cell s))"

lemma decStrong_spec:
  assumes "cells s a = Some (cell_of n w)" "0 < n"
  shows "decStrong a s = Inr (if n = 1 \<and> w = 0 then gone a s else put_cell a (cell_of (n - 1) w) s)"
proof -
  have "int n - 1 = int (n - 1)" "int (n + w) - 1 = int (n - 1 + w)" using assms(2) by simp_all
  then show ?thesis using assms
    by (auto simp: decStrong_def decWeak_def delete_object_def delete_impl_def free_object_def gone_def ref_defs)
qed

lemma decWeak_spec:
  assumes "cells s a = Some (cell_of n w)" "0 < w"
  shows "decWeak a s = Inr (if n = 0 \<and> w = 1 then gone a s else put_cell a (cell_of n (w - 1)) s)"
proof -
  have "int (n + w) - 1 = int (n + (w - 1))" using assms(2) by simp
  then show ?thesis using assms
    by (auto simp: decWeak_def delete_object_def delete_impl_def free_object_def gone_def ref_defs)
qed

text \<open>
  The store counts rightly: an object that is there has the counts of the pointers to it, and apart from the objects
  \<open>raw\<close>, which are new, there is a pointer to it; to an object that is gone there is none.
\<close>

fun cell_right :: "bool \<Rightarrow> nat \<Rightarrow> nat \<Rightarrow> counted option \<Rightarrow> bool" where
  "cell_right is_raw n w None = (n = 0 \<and> w = 0)"
| "cell_right is_raw n w (Some c) =
     (if obj_live c then c = cell_of n w \<and> (0 < n + w \<or> is_raw) else c = dead_cell \<and> n = 0 \<and> w = 0)"

definition tracks :: "addr set \<Rightarrow> (addr \<Rightarrow> nat) \<Rightarrow> store \<Rightarrow> (addr \<Rightarrow> nat) \<Rightarrow> bool" where
  "tracks raw w s n \<longleftrightarrow>
     (\<forall>a. cell_right (a \<in> raw) (n a) (w a) (cells s a)) \<and> (\<forall>a \<ge> fresh s. cells s a = None)"

definition obj_usable :: "addr \<Rightarrow> store \<Rightarrow> bool" where
  [js_eval]: "obj_usable a s = (case cells s a of Some c \<Rightarrow> obj_live c | None \<Rightarrow> False)"

lemma tracks_cell: "tracks raw w s n \<Longrightarrow> obj_usable a s \<Longrightarrow> cells s a = Some (cell_of (n a) (w a))"
  by (auto simp: tracks_def obj_usable_def dest!: spec[of _ a] split: option.splits)

lemma tracks_referenced: "tracks raw w s n \<Longrightarrow> 0 < n a + w a \<Longrightarrow> obj_usable a s"
  unfolding tracks_def obj_usable_def by (cases "cells s a") (auto dest!: spec[of _ a] split: if_splits)

lemma tracks_change:
  assumes "tracks raw w s n" "obj_usable a s" "cell_right (a \<in> raw) m v (Some c)"
  shows "tracks raw (w(a := v)) (put_cell a c s) (n(a := m))"
proof -
  have "a < fresh s" using assms(1,2) by (auto simp: tracks_def obj_usable_def not_le[symmetric] split: option.splits)
  then show ?thesis using assms by (simp add: tracks_def put_cell_def)
qed

lemma tracks_put:
  "tracks raw w s n \<Longrightarrow> obj_usable a s \<Longrightarrow> 0 < m + v \<or> a \<in> raw \<Longrightarrow>
    tracks raw (w(a := v)) (put_cell a (cell_of m v) s) (n(a := m))"
  by (rule tracks_change) (auto simp: cell_of_def)

lemma tracks_happen [simp]: "tracks raw w (happen e s) n = tracks raw w s n"
  by (simp add: tracks_def happen_def)

lemma tracks_gone: "tracks raw w s n \<Longrightarrow> obj_usable a s \<Longrightarrow> tracks raw (w(a := 0)) (gone a s) (n(a := 0))"
  by (simp add: gone_def tracks_change dead_cell_def)

interpretation refs: counted_objects incStrong decStrong "tracks raw w" obj_usable "\<lambda>a. nat int_max - w a" for raw w
proof
  fix s n a
  assume t: "tracks raw w s n"
  show "0 < n a \<Longrightarrow> obj_usable a s" using tracks_referenced[OF t, of a] by simp
  assume u: "0 < n a"
  then have "obj_usable a s" using tracks_referenced[OF t, of a] by simp
  note c = tracks_cell[OF t this] and p = tracks_put[OF t this] and g = tracks_gone[OF t this]
  show "\<exists>s'. decStrong a s = Inr s' \<and> tracks raw w s' (n(a := n a - 1))"
    using decStrong_spec[OF c u] p[of "n a - 1" "w a"] g u by (auto simp: fun_upd_idem)
next
  fix s n a
  assume t: "tracks raw w s n" and u: "obj_usable a s" and r: "n a < nat int_max - w a"
  have "int (n a + w a) < int_max" using r by linarith
  then show "\<exists>s'. incStrong a s = Inr s' \<and> tracks raw w s' (n(a := Suc (n a)))"
    using incStrong_spec[OF tracks_cell[OF t u]] tracks_put[OF t u, of "Suc (n a)" "w a"] by (auto simp: fun_upd_idem)
qed

section \<open>Clients\<close>

definition well_counted :: "store client \<Rightarrow> bool" where
  "well_counted cl \<longleftrightarrow> tracks {} (count_list (weak_ptrs cl)) (heap_of cl) (held (m_ptrs cl))"

definition client_inv :: "nat \<Rightarrow> store client \<Rightarrow> bool" where
  "client_inv k cl \<longleftrightarrow> well_counted cl \<and> length (m_ptrs cl) + length (weak_ptrs cl) \<le> k"

lemma client_room:
  assumes "client_inv k cl" "k < nat int_max"
  shows "held (m_ptrs cl) a < nat int_max - count_list (weak_ptrs cl) a"
proof -
  have "length (m_ptrs cl) + length (weak_ptrs cl) \<le> k" using assms(1) by (simp add: client_inv_def)
  then show ?thesis using held_le[of "m_ptrs cl" a] count_le_length[of "weak_ptrs cl" a] assms(2) by linarith
qed

lemma tracks_new:
  "tracks {} w s n \<Longrightarrow> new_object s = (a, s') \<Longrightarrow> tracks {a} w s' n \<and> obj_usable a s' \<and> n a = 0 \<and> w a = 0"
proof -
  assume t: "tracks {} w s n" and "new_object s = (a, s')"
  then have a: "a = fresh s" "s' = put_cell a (cell_of 0 0) (s\<lparr>fresh := Suc a\<rparr>)"
    by (auto simp: new_object_def new_counts_def cell_of_def INITIAL_STRONG_VALUE_def)
  have none: "cells s a = None" using t a(1) by (simp add: tracks_def)
  have "cell_right False (n a) (w a) (cells s a)" using t by (simp add: tracks_def)
  then have "n a = 0" "w a = 0" using none by simp_all
  then show ?thesis using t a by (auto simp: tracks_def put_cell_def obj_usable_def cell_of_def)
qed

lemma tracks_unraw: "tracks {a} w s n \<Longrightarrow> 0 < n a \<Longrightarrow> tracks {} w s n"
  unfolding tracks_def
proof (intro conjI allI, goal_cases)
  case (1 b)
  then show ?case by (cases "cells s b") (auto dest!: spec[of _ b] split: if_splits)
qed simp

lemma count_remove_at: "k < length xs \<Longrightarrow> count_list (remove_at k xs) = (count_list xs)(xs ! k := count_list xs (xs ! k) - 1)"
  by (auto simp: remove_at_def fun_eq_iff count_list_append count_list_split[of k xs])

lemma length_remove_at [simp]: "k < length xs \<Longrightarrow> length (remove_at k xs) = length xs - 1"
  by (auto simp: remove_at_def)

lemma client_step_ok:
  assumes inv: "client_inv k cl" and room: "k < nat int_max"
  shows "case client_step c cl of Inl e \<Rightarrow> e \<in> {NullPointer, Undeclared} | Inr cl' \<Rightarrow> client_inv (Suc k) cl'"
proof -
  let ?w = "count_list (weak_ptrs cl)"
  have t: "tracks {} ?w (heap_of cl) (held (m_ptrs cl))" and le: "length (m_ptrs cl) + length (weak_ptrs cl) \<le> k"
    using inv by (simp_all add: client_inv_def well_counted_def)
  have ok: "refs.ok {} ?w cl" using t by (simp add: refs.ok_def)
  have rm: "\<forall>a. held (m_ptrs cl) a < nat int_max - ?w a" using client_room[OF inv room] by simp
  have fine: "client_inv (Suc k) (cl\<lparr>m_ptrs := ps, heap_of := h\<rparr>)"
    if "tracks {} ?w h (held ps)" "length ps \<le> Suc (length (m_ptrs cl))" for ps h
    using that le by (simp add: client_inv_def well_counted_def)
  show ?thesis
  proof (cases c)
    case Declare
    then show ?thesis using t le
      by (simp add: client_step_def sp_default_def client_inv_def well_counted_def one_more_def)
  next
    case (Copy j)
    show ?thesis
    proof (cases "j < length (m_ptrs cl)")
      case True
      then show ?thesis using refs.copy_ok[OF ok True rm] Copy by (auto simp: client_step_def intro!: fine)
    qed (use Copy in \<open>simp add: client_step_def sp_copy_def var_at_def\<close>)
  next
    case (EndScope i)
    show ?thesis
    proof (cases "i < length (m_ptrs cl)")
      case True
      then show ?thesis using refs.destroy_ok[OF ok True] EndScope by (auto simp: client_step_def intro!: fine)
    qed (use EndScope in \<open>simp add: client_step_def sp_destroy_def var_at_def\<close>)
  next
    case (Assign i j)
    show ?thesis
    proof (cases "i < length (m_ptrs cl) \<and> j < length (m_ptrs cl)")
      case True
      then show ?thesis using refs.assign_ok[OF ok _ _ rm, of i j] Assign by (auto simp: client_step_def intro!: fine)
    qed (use Assign in \<open>auto simp: client_step_def sp_assign_def var_at_def\<close>)
  next
    case (AssignRaw i j)
    show ?thesis
    proof (cases "i < length (m_ptrs cl) \<and> j < length (m_ptrs cl)")
      case True
      then show ?thesis using refs.assign_ptr_ok[OF ok _ refs.var_may_take[OF ok _ rm], of i j] AssignRaw
        by (auto simp: client_step_def sp_get_def var_at_def intro!: fine)
    qed (use AssignRaw in \<open>auto simp: client_step_def sp_get_def sp_assign_ptr_def var_at_def\<close>)
  next
    case (Clear i)
    show ?thesis
    proof (cases "i < length (m_ptrs cl)")
      case True
      then show ?thesis using refs.clear_ok[OF ok True] Clear by (auto simp: client_step_def intro!: fine)
    qed (use Clear in \<open>simp add: client_step_def sp_clear_def var_at_def\<close>)
  next
    case (AssignNew i)
    obtain a h where new: "new_object (heap_of cl) = (a, h)" by (metis surj_pair)
    note n = tracks_new[OF t new]
    show ?thesis
    proof (cases "i < length (m_ptrs cl)")
      case True
      let ?cl = "cl\<lparr>heap_of := h\<rparr>"
      have "refs.ok {a} ?w ?cl" "refs.may_take ?w (Some a) ?cl"
        using n rm by (auto simp: refs.ok_def refs.may_take_def)
      then obtain h2 where h2: "sp_assign_ptr incStrong decStrong i (Some a) ?cl =
            Inr (?cl\<lparr>m_ptrs := (m_ptrs ?cl)[i := Some a], heap_of := h2\<rparr>)"
          "tracks {a} ?w h2 (held ((m_ptrs cl)[i := Some a]))"
        using refs.assign_ptr_ok[of "{a}" ?w ?cl i "Some a"] True by auto
      have "0 < held ((m_ptrs cl)[i := Some a]) a" using True by (intro held_at[of i]) simp_all
      then show ?thesis using AssignNew new h2 tracks_unraw[OF h2(2)]
        by (auto simp: client_step_def simp del: held_update intro!: fine)
    qed (use AssignNew new in \<open>simp add: client_step_def sp_assign_ptr_def var_at_def\<close>)
  next
    case (CallTest i)
    show ?thesis
    proof (cases "i < length (m_ptrs cl)")
      case True
      obtain h where h: "sp_copy incStrong i cl = Inr (cl\<lparr>m_ptrs := m_ptrs cl @ [m_ptrs cl ! i], heap_of := h\<rparr>)"
          "tracks {} ?w h (held (m_ptrs cl @ [m_ptrs cl ! i]))"
        using refs.copy_ok[OF ok True rm] by blast
      let ?cl = "cl\<lparr>m_ptrs := m_ptrs cl @ [m_ptrs cl ! i], heap_of := h\<rparr>"
      have "refs.ok {} ?w ?cl" using h(2) by (simp add: refs.ok_def)
      from refs.destroy_ok[OF this, of "length (m_ptrs cl)"] obtain h2 where
        "sp_destroy decStrong (length (m_ptrs cl)) ?cl =
           Inr (?cl\<lparr>m_ptrs := remove_at (length (m_ptrs cl)) (m_ptrs ?cl), heap_of := h2\<rparr>)"
        "tracks {} ?w h2 (held (remove_at (length (m_ptrs cl)) (m_ptrs ?cl)))" by auto
      then show ?thesis using CallTest h(1)
        using fine[of h2 "m_ptrs cl"] by (auto simp: client_step_def testFunction_def remove_at_def)
    qed (use CallTest in \<open>simp add: client_step_def testFunction_def sp_copy_def var_at_def\<close>)
  next
    case (Deref i)
    have "i < length (m_ptrs cl) \<Longrightarrow> m_ptrs cl ! i = Some a \<Longrightarrow> obj_at a (heap_of cl) = Inr (cell_of (held (m_ptrs cl) a) (?w a))" for a
      using tracks_cell[OF t tracks_referenced[OF t, of a]] held_at[of i "m_ptrs cl" a]
      by (simp add: obj_at_def cell_of_def)
    then show ?thesis using Deref inv
      by (auto simp: client_step_def sp_deref_def sp_get_def var_at_def client_inv_def split: option.split)
  next
    case (TakeWeak i)
    show ?thesis
    proof (cases "i < length (m_ptrs cl) \<and> m_ptrs cl ! i \<noteq> None")
      case True
      then obtain a where a: "i < length (m_ptrs cl)" "m_ptrs cl ! i = Some a" by auto
      have u: "obj_usable a (heap_of cl)" using tracks_referenced[OF t, of a] held_at[OF a] by simp
      have "int (held (m_ptrs cl) a + ?w a) < int_max" using rm[rule_format, of a] by linarith
      then have "incWeak a (heap_of cl) = Inr (put_cell a (cell_of (held (m_ptrs cl) a) (Suc (?w a))) (heap_of cl))"
        using incWeak_spec[OF tracks_cell[OF t u]] by simp
      moreover have "tracks {} (?w(a := Suc (?w a))) (put_cell a (cell_of (held (m_ptrs cl) a) (Suc (?w a))) (heap_of cl))
          (held (m_ptrs cl))"
        using tracks_put[OF t u, of "held (m_ptrs cl) a" "Suc (?w a)"] by (simp add: fun_upd_idem)
      moreover have "count_list (weak_ptrs cl @ [a]) = ?w(a := Suc (?w a))" by (auto simp: fun_eq_iff)
      ultimately show ?thesis using TakeWeak a le tracks_cell[OF t u]
        by (simp add: client_step_def sp_deref_def sp_get_def var_at_def createWeak_def obj_at_def cell_of_def
            client_inv_def well_counted_def)
    qed (use TakeWeak in \<open>auto simp: client_step_def sp_deref_def sp_get_def var_at_def\<close>)
  next
    case (DropWeak i)
    show ?thesis
    proof (cases "i < length (weak_ptrs cl)")
      case True
      let ?a = "weak_ptrs cl ! i"
      have w: "0 < ?w ?a" using True by (metis count_list_0_iff nth_mem gr0I)
      then have u: "obj_usable ?a (heap_of cl)" using tracks_referenced[OF t, of ?a] by simp
      have "\<exists>h. decWeak ?a (heap_of cl) = Inr h \<and> tracks {} (?w(?a := ?w ?a - 1)) h (held (m_ptrs cl))"
        using decWeak_spec[OF tracks_cell[OF t u] w] tracks_gone[OF t u]
          tracks_put[OF t u, of "held (m_ptrs cl) ?a" "?w ?a - 1"] w by (auto simp: fun_upd_idem)
      then show ?thesis using DropWeak True le
        by (auto simp: client_step_def var_at_def client_inv_def well_counted_def count_remove_at)
    qed (use DropWeak in \<open>simp add: client_step_def var_at_def\<close>)
  qed
qed

interpretation clients: partial_machine client_step "{NullPointer, Undeclared}" client_inv "nat int_max"
  by unfold_locales (rule client_step_ok)

text \<open>C11: a program that works with the pointers only through their operations never uses an object
  that is gone and never frees one twice, in whatever order it copies, assigns, clears and drops them; the only faults are those of
  its own, a null pointer or a variable that does not exist. At the end the objects that are left are exactly those
  some pointer or some weak count refers to, with the right counts, and all others have been freed.\<close>

theorem references_never_dangle:
  assumes "length cs \<le> 2147483647"
  shows "case run_steps client_step cs start_client of
      Inl e \<Rightarrow> e = NullPointer \<or> e = Undeclared
    | Inr cl \<Rightarrow> \<forall>a.
        if Some a \<in> set (m_ptrs cl) \<or> a \<in> set (weak_ptrs cl)
        then getStrongCount a (heap_of cl) = Inr (int (count_list (m_ptrs cl) (Some a)))
           \<and> getWeakCount a (heap_of cl) = Inr (int (count_list (m_ptrs cl) (Some a) + count_list (weak_ptrs cl) a))
        else \<not> obj_usable a (heap_of cl)"
proof -
  have "client_inv 0 start_client"
    by (simp add: client_inv_def well_counted_def start_client_def tracks_def held_def)
  then have r: "case run_steps client_step cs start_client of
      Inl e \<Rightarrow> e \<in> {NullPointer, Undeclared} | Inr cl \<Rightarrow> client_inv (0 + length cs) cl"
    by (rule clients.run_ok) (use assms in \<open>simp add: int_max_def\<close>)
  have "if Some a \<in> set (m_ptrs cl) \<or> a \<in> set (weak_ptrs cl)
        then getStrongCount a (heap_of cl) = Inr (int (held (m_ptrs cl) a))
           \<and> getWeakCount a (heap_of cl) = Inr (int (held (m_ptrs cl) a + count_list (weak_ptrs cl) a))
        else \<not> obj_usable a (heap_of cl)" if "well_counted cl" for cl a
  proof -
    have t: "tracks {} (count_list (weak_ptrs cl)) (heap_of cl) (held (m_ptrs cl))"
      using that by (simp add: well_counted_def)
    have "Some a \<in> set (m_ptrs cl) \<or> a \<in> set (weak_ptrs cl) \<longleftrightarrow> 0 < held (m_ptrs cl) a + count_list (weak_ptrs cl) a"
      by (metis held_def count_list_0_iff add_gr_0 neq0_conv)
    moreover have "obj_usable a (heap_of cl) \<Longrightarrow> 0 < held (m_ptrs cl) a + count_list (weak_ptrs cl) a"
      using t by (auto simp: tracks_def obj_usable_def split: option.splits dest!: spec[of _ a])
    ultimately show ?thesis using tracks_cell[OF t tracks_referenced[OF t, of a]]
      by (auto simp: getStrongCount_def getWeakCount_def obj_at_def impl_at_def cell_of_def)
  qed
  then show ?thesis using r by (auto simp: client_inv_def held_def split: sum.splits)
qed

definition sample_program :: "command list" where
  [js_eval]: "sample_program = [Declare, AssignNew 0, Copy 0, CallTest 1, TakeWeak 1, Assign 0 0, EndScope 1, Clear 0]"

text \<open>The object of the sample outlives its last pointer, because a weak count is left.\<close>

lemma references_never_dangle_witness:
  "\<exists>cl. run_steps client_step sample_program start_client = Inr cl
     \<and> getStrongCount 0 (heap_of cl) = Inr 0 \<and> getWeakCount 0 (heap_of cl) = Inr 1"
proof -
  have "(case run_steps client_step sample_program start_client of Inl e \<Rightarrow> False
      | Inr cl \<Rightarrow> m_ptrs cl = [None] \<and> weak_ptrs cl = [0])" by code_simp
  then obtain cl where cl: "run_steps client_step sample_program start_client = Inr cl"
      "m_ptrs cl = [None]" "weak_ptrs cl = [0]" by (auto split: sum.splits)
  have "length sample_program \<le> 2147483647" by (simp add: sample_program_def)
  from references_never_dangle[OF this] cl show ?thesis by (auto dest!: spec[of _ 0])
qed

text \<open>C34: giving back a pointer to an object that is held \<open>n\<close> times, with \<open>w\<close> weak counts, frees the
  object and its counts when it was the last reference of both kinds, and otherwise lowers the two counts. So the object
  outlives its last pointer as long as there is a weak count, while the comments of the code say that it goes with the
  last pointer, and \<open>onLastStrongRef\<close> is never called: it waits for a pointer that is given back when there is none.\<close>

theorem freed_with_last_reference:
  assumes "cells s a = Some \<lparr>mStrong = int n, mWeak = int (n + w), mFlags = 0, obj_live = True, impl_live = True\<rparr>" "0 < n"
  shows "decStrong a s = Inr
    (if n = 1 \<and> w = 0
     then s\<lparr>cells := (cells s)(a \<mapsto> \<lparr>mStrong = 0, mWeak = 0, mFlags = 0, obj_live = False, impl_live = False\<rparr>),
            events := events s @ [CountsDeleted a, ObjectDeleted a]\<rparr>
     else s\<lparr>cells := (cells s)(a \<mapsto> \<lparr>mStrong = int n - 1, mWeak = int (n + w) - 1, mFlags = 0, obj_live = True, impl_live = True\<rparr>)\<rparr>)"
proof -
  have "cells s a = Some (cell_of n w)" using assms(1) by (simp add: cell_of_def)
  from decStrong_spec[OF this assms(2)] assms(2) show ?thesis
    by (auto simp: gone_def happen_def put_cell_def cell_of_def dead_cell_def of_nat_diff)
qed

definition one_object :: "int \<Rightarrow> int \<Rightarrow> store" where
  [js_eval]: "one_object n m =
     \<lparr>cells = [7 \<mapsto> \<lparr>mStrong = n, mWeak = m, mFlags = 0, obj_live = True, impl_live = True\<rparr>], fresh = 8, events = []\<rparr>"

lemma freed_with_last_reference_witness:
  "\<exists>s. decStrong 7 (one_object 1 1) = Inr s \<and> events s = [CountsDeleted 7, ObjectDeleted 7]
    \<and> (\<exists>s'. decStrong 7 (one_object 1 2) = Inr s' \<and> events s' = [] \<and> obj_usable 7 s')"
  using freed_with_last_reference[of "one_object 1 1" 7 1 0] freed_with_last_reference[of "one_object 1 2" 7 1 1]
  by (auto simp: one_object_def obj_usable_def)

text \<open>One \<open>decStrong\<close> too many is what the test in \<open>decStrong\<close> waits for: when weak counts keep the object it is deleted under them.\<close>

lemma one_too_many:
  assumes "cells s a = Some (cell_of 0 w)" "1 < w"
  shows "\<exists>s'. decStrong a s = Inr s' \<and> \<not> obj_usable a s'
    \<and> events s' = events s @ [LastStrongRef a, ObjectDeleted a]"
  using assms by (simp add: decStrong_def decWeak_def delete_object_def free_object_def obj_usable_def ref_defs)

section \<open>Promotion of weak counts\<close>

lemma spin_forever:
  "attempt_spin a s cur = Some r \<Longrightarrow> impl_at a s = Inr c \<longrightarrow> 0 < mStrong c \<longrightarrow> cur \<le> 0"
proof (erule attempt_spin.raw_induct[where P = "\<lambda>a s cur _. impl_at a s = Inr c \<longrightarrow> 0 < mStrong c \<longrightarrow> cur \<le> 0", rotated])
  fix spin a s cur r
  assume "\<And>a s cur r. spin a s cur = Some r \<Longrightarrow> impl_at a s = Inr c \<longrightarrow> 0 < mStrong c \<longrightarrow> cur \<le> 0"
    and "(if 0 < cur \<and> cur \<noteq> INITIAL_STRONG_VALUE
       then case impl_at a s of Inl e \<Rightarrow> Some (Inl e) | Inr c \<Rightarrow> spin a s (mStrong c) else Some (Inr cur)) = Some r"
  then show "impl_at a s = Inr c \<longrightarrow> 0 < mStrong c \<longrightarrow> cur \<le> 0"
    by (force simp: INITIAL_STRONG_VALUE_def split: if_splits)
qed

text \<open>C36: the attempt to get a pointer from a weak count never succeeds. As long as there is a pointer it
  never returns, since the exchange that would leave the loop is commented out; afterwards it gives its weak count back and
  refuses.\<close>

theorem promotion_never_granted:
  assumes "cells s a = Some \<lparr>mStrong = int n, mWeak = int (n + w), mFlags = 0, obj_live = True, impl_live = True\<rparr>"
    "0 < n + w" "n + w < 2147483647"
  shows "attemptIncStrong a s = (if 0 < n then None else Some (Inr (False, s)))"
proof -
  let ?s = "put_cell a (cell_of n (Suc w)) s"
  have c: "cells s a = Some (cell_of n w)" using assms(1) by (simp add: cell_of_def)
  have "int (n + w) < int_max" using assms(3) by (simp add: int_max_def)
  note inc = incWeak_spec[OF c this]
  have at: "impl_at a ?s = Inr (cell_of n (Suc w))" by (simp add: ref_defs)
  show ?thesis
  proof (cases n)
    case 0
    have "decWeak a ?s = Inr s"
      using decWeak_spec[of ?s a 0 "Suc w"] c assms(2) 0 by (simp add: put_cell_def fun_upd_idem)
    then show ?thesis using inc at 0
      by (simp add: attemptIncStrong_def attempt_spin.simps attempt_result_def ref_defs)
  next
    case (Suc m)
    then have "attempt_spin a ?s (int n) = None"
      using spin_forever[of a ?s "int n" _ "cell_of n (Suc w)"] at by (cases "attempt_spin a ?s (int n)") (auto simp: cell_of_def)
    then show ?thesis using inc at Suc by (simp add: attemptIncStrong_def cell_of_def)
  qed
qed

lemma promotion_never_granted_witness:
  "attemptIncStrong 7 (one_object 1 2) = None \<and> attemptIncStrong 7 (one_object 0 1) = Some (Inr (False, one_object 0 1))"
  using promotion_never_granted[of "one_object 1 2" 7 1 1] promotion_never_granted[of "one_object 0 1" 7 0 1]
  by (simp add: one_object_def)

text \<open>
  \<open>attemptIncWeak\<close> says yes and counts nothing, so a client that gives the count back takes one of somebody else's: the
  counts are freed while a pointer is left, and the next operation on it uses them.
\<close>

lemma uncounted_weak:
  "attemptIncWeak 7 (one_object 1 1) = Inr True
   \<and> map_sum id events (bind_res (decWeak 7 (one_object 1 1)) (decStrong 7)) = Inl UseAfterFree"
  by code_simp

text \<open>On a new object without any count the attempt deletes the object.\<close>

lemma attempt_deletes_new:
  "map_option (map_sum id (\<lambda>(b, s). (b, events s))) (attemptIncStrong 7 (one_object 0 0))
   = Some (Inr (False, [CountsDeleted 7, ObjectDeleted 7]))"
  by code_simp

section \<open>The other demonstrations\<close>

text \<open>
  \<open>makeArray\<close> allocates room for \<open>row\<close> numbers of four bytes and stores \<open>row\<close> pointers there; how large a pointer is depends
  on the machine. \<open>makepointer\<close>, which \<open>main\<close> does not call, allocates one byte and writes four.
\<close>

primrec make_rows :: "nat \<Rightarrow> nat \<Rightarrow> nat \<Rightarrow> nat \<Rightarrow> fault + nat list list" where
  "make_rows ptr_size row clo 0 = Inr []"
| "make_rows ptr_size row clo (Suc i) =
     bind_res (make_rows ptr_size row clo i) (\<lambda>A.
       if Suc i * ptr_size \<le> row * 4 then Inr (A @ [replicate clo 0]) else Inl OutOfBounds)"

definition makeArray :: "nat \<Rightarrow> nat \<Rightarrow> nat \<Rightarrow> fault + nat list list" where
  [js_eval]: "makeArray ptr_size row clo =
     bind_res (make_rows ptr_size row clo row) (\<lambda>A.
       Inr (fold (\<lambda>i A. fold (\<lambda>j A. A[i := (A ! i)[j := 2]]) [0..<clo] A) [0..<row] A))"

lemma makeArray_main: "makeArray 4 3 2 = Inr [[2, 2], [2, 2], [2, 2]]"
  by code_simp

lemma make_rows_too_wide:
  assumes "\<not> Suc m * ptr_size \<le> r * 4"
  shows "make_rows ptr_size r clo (Suc m) = Inl OutOfBounds"
proof -
  have "make_rows ptr_size r clo m = Inl OutOfBounds \<or> (\<exists>A. make_rows ptr_size r clo m = Inr A)"
    by (induction m) auto
  then show ?thesis using assms by auto
qed

lemma makeArray_wide_pointers: "4 < ptr_size \<Longrightarrow> 0 < row \<Longrightarrow> makeArray ptr_size row clo = Inl OutOfBounds"
proof -
  assume s: "4 < ptr_size" "0 < row"
  then obtain m where m: "row = Suc m" by (cases row) auto
  have "row * 4 < row * ptr_size" using s by (rule mult_strict_left_mono)
  then have "make_rows ptr_size row clo (Suc m) = Inl OutOfBounds"
    using m by (intro make_rows_too_wide) simp
  then show ?thesis unfolding makeArray_def m[symmetric] by simp
qed

definition set_byte :: "nat \<Rightarrow> nat \<Rightarrow> nat \<Rightarrow> nat" where
  [js_eval]: "set_byte k v i = i - (i div 256 ^ k mod 256) * 256 ^ k + v * 256 ^ k"

definition write_block :: "nat list \<Rightarrow> nat list \<Rightarrow> fault + nat list" where
  [js_eval]: "write_block bs block =
     (if length bs \<le> length block then Inr (bs @ drop (length bs) block) else Inl OutOfBounds)"

definition makepointer :: "nat \<times> (fault + nat list)" where
  [js_eval]: "makepointer =
     (set_byte 1 10 260,
      bind_res (write_block (replicate 4 1) (replicate 1 0)) (write_block (js ''abcde'')))"

lemma makepointer_overruns: "makepointer = (2564, Inl OutOfBounds)"
  by code_simp

end
