(* ===== verification/GList.thy ===== *)
theory GList
  imports CPrelude "HOL-Library.Multiset"
begin

text \<open>
  The linked list of the kernel log reader (\<open>klogcat/glist.c\<close>): nodes in a heap, linked by addresses, with a head the caller
  keeps. The abstract lists they stand for, and the proof that every operation on the heap does what the
  operation on the list says, ends, uses no node that is not there and loses none.

  \<open>malloc\<close> is a parameter: it may fail, and when it does not it gives an address that is not in use. The pointer value
  \<open>(void * ) -1\<close> that stands for an error is \<open>None\<close>.
\<close>

section \<open>Nodes\<close>

record 'm node =
  nnext :: "addr option"
  member :: 'm

type_synonym 'm nodes = "addr \<Rightarrow> 'm node option"

text \<open>The head of a list, the heap and the members that were given to \<open>free_func\<close>.\<close>

record 'm glist =
  head :: "addr option"
  nodes :: "'m nodes"
  freed :: "'m list"

section \<open>Operations\<close>

text \<open>
  A loop along the list: the body ends it with \<open>Inl\<close> or goes on with \<open>Inr\<close>. \<open>None\<close> is a loop that does not end.
\<close>

partial_function (option) walk ::
  "'m nodes \<Rightarrow> (addr \<Rightarrow> 'm node \<Rightarrow> 's \<Rightarrow> 'r + 's) \<Rightarrow> addr option \<Rightarrow> 's \<Rightarrow> (fault + ('r + 's)) option" where
  [code]: "walk h body p s =
     (case p of
        None \<Rightarrow> Some (Inr (Inr s))
      | Some a \<Rightarrow>
          (case h a of
             None \<Rightarrow> Some (Inl UseAfterFree)
           | Some n \<Rightarrow> (case body a n s of Inl r \<Rightarrow> Some (Inr (Inl r)) | Inr s' \<Rightarrow> walk h body (nnext n) s')))"

definition on_walk :: "(fault + ('r + 's)) option \<Rightarrow> ('r \<Rightarrow> fault + 'x) \<Rightarrow> ('s \<Rightarrow> fault + 'x) \<Rightarrow> (fault + 'x) option" where
  [js_eval]: "on_walk w at_break at_end =
     map_option (\<lambda>r. bind_res r (\<lambda>x. case x of Inl b \<Rightarrow> at_break b | Inr s \<Rightarrow> at_end s)) w"

definition glist_length :: "'m glist \<Rightarrow> (fault + int) option" where
  [js_eval]: "glist_length l =
     on_walk (walk (nodes l) (\<lambda>a n len. Inr (len + 1)) (head l) 0) (\<lambda>r::unit. Inr 0) Inr"

partial_function (option) glist_clear :: "bool \<Rightarrow> 'm glist \<Rightarrow> (fault + int \<times> 'm glist) option" where
  [code]: "glist_clear free_func l =
     (case head l of
        None \<Rightarrow> Some (Inr (0, l))
      | Some p \<Rightarrow>
          (case nodes l p of
             None \<Rightarrow> Some (Inl UseAfterFree)
           | Some n \<Rightarrow>
               glist_clear free_func
                 (l\<lparr>head := nnext n, nodes := (nodes l)(p := None),
                    freed := (if free_func then freed l @ [member n] else freed l)\<rparr>)))"

definition glist_add :: "('m nodes \<Rightarrow> addr option) \<Rightarrow> 'm \<Rightarrow> 'm glist \<Rightarrow> int \<times> 'm glist" where
  [js_eval]: "glist_add malloc m l =
     (case malloc (nodes l) of
        None \<Rightarrow> (-1, l)
      | Some p \<Rightarrow> (0, l\<lparr>nodes := (nodes l)(p \<mapsto> \<lparr>nnext = head l, member = m\<rparr>), head := Some p\<rparr>))"

definition set_next :: "addr \<Rightarrow> addr option \<Rightarrow> 'm nodes \<Rightarrow> fault + 'm nodes" where
  [js_eval]: "set_next a q h = (case h a of None \<Rightarrow> Inl UseAfterFree | Some n \<Rightarrow> Inr (h(a \<mapsto> n\<lparr>nnext := q\<rparr>)))"

definition set_member :: "addr \<Rightarrow> 'm \<Rightarrow> 'm nodes \<Rightarrow> fault + 'm nodes" where
  [js_eval]: "set_member a m h = (case h a of None \<Rightarrow> Inl UseAfterFree | Some n \<Rightarrow> Inr (h(a \<mapsto> n\<lparr>member := m\<rparr>)))"

definition node_at :: "addr \<Rightarrow> 'm nodes \<Rightarrow> fault + 'm node" where
  [js_eval]: "node_at a h = (case h a of None \<Rightarrow> Inl UseAfterFree | Some n \<Rightarrow> Inr n)"

text \<open>\<open>glist_append\<close> puts the node in front and then moves it behind the last one.\<close>

definition move_to_end :: "addr \<Rightarrow> 'm glist \<Rightarrow> fault + 'm glist" where
  [js_eval]: "move_to_end p l =
     (if Some p \<noteq> head l
      then case head l of
             None \<Rightarrow> Inl NullPointer
           | Some front \<Rightarrow> bind_res (set_next p (Some front) (nodes l)) (\<lambda>h1.
                          bind_res (node_at front h1) (\<lambda>n. bind_res (set_next front None h1) (\<lambda>h2.
                            Inr (l\<lparr>head := nnext n, nodes := h2\<rparr>))))
      else Inr l)"

definition glist_append :: "('m nodes \<Rightarrow> addr option) \<Rightarrow> 'm \<Rightarrow> 'm glist \<Rightarrow> (fault + int \<times> 'm glist) option" where
  [js_eval]: "glist_append malloc m l =
     (let (r, l1) = glist_add malloc m l
      in if r < 0 then Some (Inr (-1, l))
         else on_walk (walk (nodes l1) (\<lambda>a n s. if nnext n \<noteq> None then Inr s else Inl a) (head l1) ())
                (\<lambda>p. bind_res (move_to_end p l1) (\<lambda>l2. Inr (0, l2))) (\<lambda>_. Inl NullPointer))"

text \<open>The node at an index: the loop that \<open>glist_get\<close> and \<open>glist_set\<close> share.\<close>

definition seek :: "int \<Rightarrow> 'm glist \<Rightarrow> (fault + (addr + int)) option" where
  [js_eval]: "seek index l = walk (nodes l) (\<lambda>a n i. if i < index then Inr (i + 1) else Inl a) (head l) 0"

definition glist_get :: "int \<Rightarrow> 'm glist \<Rightarrow> (fault + 'm option) option" where
  [js_eval]: "glist_get index l =
     (if index < 0 then Some (Inr None)
      else on_walk (seek index l) (\<lambda>a. bind_res (node_at a (nodes l)) (\<lambda>n. Inr (Some (member n)))) (\<lambda>_. Inr None))"

definition glist_set :: "int \<Rightarrow> 'm \<Rightarrow> 'm glist \<Rightarrow> (fault + 'm option \<times> 'm glist) option" where
  [js_eval]: "glist_set index m l =
     (if index < 0 then Some (Inr (None, l))
      else on_walk (seek index l)
             (\<lambda>a. bind_res (node_at a (nodes l)) (\<lambda>n. bind_res (set_member a m (nodes l)) (\<lambda>h.
                    Inr (Some (member n), l\<lparr>nodes := h\<rparr>))))
             (\<lambda>_. Inr (None, l)))"

definition glist_find :: "'m \<Rightarrow> 'm glist \<Rightarrow> (fault + int) option" where
  [js_eval]: "glist_find m l =
     on_walk (walk (nodes l) (\<lambda>a n i. if member n = m then Inl i else Inr (i + 1)) (head l) 0) Inr (\<lambda>_. Inr (-1))"

definition glist_find_ex :: "'m \<Rightarrow> ('m \<Rightarrow> 'm \<Rightarrow> int) option \<Rightarrow> 'm glist \<Rightarrow> (fault + int) option" where
  [js_eval]: "glist_find_ex m compare_func l =
     (case compare_func of
        None \<Rightarrow> glist_find m l
      | Some cmp \<Rightarrow>
          on_walk (walk (nodes l) (\<lambda>a n i. if cmp m (member n) = 0 then Inl i else Inr (i + 1)) (head l) 0)
            Inr (\<lambda>_. Inr (-1)))"

definition swap_members :: "addr \<Rightarrow> addr \<Rightarrow> 'm nodes \<Rightarrow> fault + 'm nodes" where
  [js_eval]: "swap_members p1 p2 h =
     bind_res (node_at p1 h) (\<lambda>n1. bind_res (node_at p2 h) (\<lambda>n2.
       bind_res (set_member p1 (member n2) h) (set_member p2 (member n1))))"

partial_function (option) sort_inner ::
  "('m \<Rightarrow> 'm \<Rightarrow> int) \<Rightarrow> addr \<Rightarrow> addr option \<Rightarrow> 'm nodes \<Rightarrow> (fault + 'm nodes) option" where
  [code]: "sort_inner cmp p1 p2 h =
     (case p2 of
        None \<Rightarrow> Some (Inr h)
      | Some b \<Rightarrow>
          (case bind_res (node_at p1 h) (\<lambda>n1. bind_res (node_at b h) (\<lambda>n2.
                  bind_res (if cmp (member n1) (member n2) > 0 then swap_members p1 b h else Inr h) (\<lambda>h'.
                    Inr (nnext n2, h')))) of
             Inl e \<Rightarrow> Some (Inl e)
           | Inr (q, h') \<Rightarrow> sort_inner cmp p1 q h'))"

partial_function (option) sort_outer ::
  "('m \<Rightarrow> 'm \<Rightarrow> int) \<Rightarrow> addr option \<Rightarrow> 'm nodes \<Rightarrow> (fault + 'm nodes) option" where
  [code]: "sort_outer cmp p1 h =
     (case p1 of
        None \<Rightarrow> Some (Inr h)
      | Some a \<Rightarrow>
          (case sort_inner cmp a (Some a) h of
             None \<Rightarrow> None
           | Some (Inl e) \<Rightarrow> Some (Inl e)
           | Some (Inr h') \<Rightarrow>
               (case h' a of None \<Rightarrow> Some (Inl UseAfterFree) | Some n \<Rightarrow> sort_outer cmp (nnext n) h')))"

definition glist_sort :: "('m \<Rightarrow> 'm \<Rightarrow> int) option \<Rightarrow> 'm glist \<Rightarrow> (fault + int \<times> 'm glist) option" where
  [js_eval]: "glist_sort compare_func l =
     (case compare_func of
        None \<Rightarrow> Some (Inr (-1, l))
      | Some cmp \<Rightarrow> map_option (\<lambda>r. bind_res r (\<lambda>h. Inr (0, l\<lparr>nodes := h\<rparr>))) (sort_outer cmp (head l) (nodes l)))"

definition unlink :: "addr option \<Rightarrow> addr option \<Rightarrow> 'm glist \<Rightarrow> fault + 'm glist" where
  [js_eval]: "unlink pp q l =
     (case pp of
        Some a \<Rightarrow> bind_res (set_next a q (nodes l)) (\<lambda>h. Inr (l\<lparr>nodes := h\<rparr>))
      | None \<Rightarrow> Inr (l\<lparr>head := q\<rparr>))"

definition glist_delete :: "int \<Rightarrow> bool \<Rightarrow> 'm glist \<Rightarrow> (fault + int \<times> 'm glist) option" where
  [js_eval]: "glist_delete index free_func l =
     on_walk (walk (nodes l) (\<lambda>a n (pp, i). if i < index then Inr (Some a, i + 1) else Inl (a, pp)) (head l) (None, 0))
       (\<lambda>(p, pp). bind_res (node_at p (nodes l)) (\<lambda>n.
          bind_res (unlink pp (nnext n) l) (\<lambda>l1.
            Inr (0, l1\<lparr>nodes := (nodes l1)(p := None),
                       freed := (if free_func then freed l @ [member n] else freed l)\<rparr>))))
       (\<lambda>_. Inr (-1, l))"

definition glist_dump :: "'m glist \<Rightarrow> (fault + 'm list) option" where
  [js_eval]: "glist_dump l =
     on_walk (walk (nodes l) (\<lambda>a n out. Inr (out @ [member n])) (head l) []) (\<lambda>r::unit. Inr []) Inr"

section \<open>Lists in the heap\<close>

text \<open>The nodes of a list with their members; \<open>start\<close> is the address a list begins with.\<close>

type_synonym 'm cellist = "(addr \<times> 'm) list"

fun start :: "'m cellist \<Rightarrow> addr option" where
  "start [] = None"
| "start ((a, m) # ps) = Some a"

fun chain :: "'m nodes \<Rightarrow> 'm cellist \<Rightarrow> addr option \<Rightarrow> bool" where
  "chain h [] q = True"
| "chain h ((a, m) # ps) q = (h a = Some \<lparr>nnext = (if ps = [] then q else start ps), member = m\<rparr> \<and> chain h ps q)"

definition heap_list :: "'m glist \<Rightarrow> 'm cellist \<Rightarrow> bool" where
  "heap_list l ps \<longleftrightarrow> head l = start ps \<and> chain (nodes l) ps None \<and> distinct (map fst ps)
     \<and> dom (nodes l) = fst ` set ps"

lemma start_append: "start (ps @ qs) = (if ps = [] then start qs else start ps)"
  by (cases ps rule: start.cases) auto

lemma start_None [simp]: "start ps = None \<longleftrightarrow> ps = []"
  by (cases ps rule: start.cases) auto

lemma chain_append: "chain h (ps @ qs) q \<longleftrightarrow> chain h ps (if qs = [] then q else start qs) \<and> chain h qs q"
  by (induction h ps q rule: chain.induct) (auto simp: start_append)

lemma chain_cong: "(\<And>a. a \<in> fst ` set ps \<Longrightarrow> h a = h' a) \<Longrightarrow> chain h ps q = chain h' ps q"
  by (induction h ps q rule: chain.induct) auto

lemma chain_upd [simp]: "a \<notin> fst ` set ps \<Longrightarrow> chain (h(a := v)) ps q = chain h ps q"
  by (rule chain_cong) auto

lemma chain_at: "chain h ps q \<Longrightarrow> (a, m) \<in> set ps \<Longrightarrow> \<exists>n. h a = Some n \<and> member n = m"
  by (induction h ps q rule: chain.induct) auto

lemma chain_None [simp]:
  "chain h ((a, m) # ps) None \<longleftrightarrow> h a = Some \<lparr>nnext = start ps, member = m\<rparr> \<and> chain h ps None"
  by auto

declare chain.simps(2) [simp del]

lemma start_zip [simp]: "length ms = length ps \<Longrightarrow> start (zip (map fst ps) ms) = start ps"
  by (cases ps; cases ms) auto

text \<open>A loop along a list that is in the heap ends, and is a loop over the list.\<close>

fun walk_list :: "(addr \<Rightarrow> 'm node \<Rightarrow> 's \<Rightarrow> 'r + 's) \<Rightarrow> 'm cellist \<Rightarrow> 's \<Rightarrow> 'r + 's" where
  "walk_list body [] s = Inr s"
| "walk_list body ((a, m) # ps) s =
     (case body a \<lparr>nnext = start ps, member = m\<rparr> s of Inl r \<Rightarrow> Inl r | Inr s' \<Rightarrow> walk_list body ps s')"

lemma walk_chain: "chain h ps None \<Longrightarrow> walk h body (start ps) s = Some (Inr (walk_list body ps s))"
proof (induction body ps s rule: walk_list.induct)
  case (2 body a m ps s)
  then show ?case by (subst walk.simps) (auto split: sum.split)
qed (simp add: walk.simps)

lemma walk_head: "heap_list l ps \<Longrightarrow> walk (nodes l) body (head l) s = Some (Inr (walk_list body ps s))"
  by (simp add: heap_list_def walk_chain)

lemma walk_length: "walk_list (\<lambda>a n len. Inr (len + 1)) ps k = (Inr (k + int (length ps)) :: unit + int)"
  by (induction ps arbitrary: k) auto

lemma walk_dump: "walk_list (\<lambda>a n out. Inr (out @ [member n])) ps out = (Inr (out @ map snd ps) :: unit + 'm list)"
  by (induction ps arbitrary: out) auto

lemma walk_seek: "k \<le> index \<Longrightarrow>
    walk_list (\<lambda>a n i. if i < index then Inr (i + 1) else Inl a) ps k =
      (if index - k < int (length ps) then Inl (fst (ps ! nat (index - k))) else Inr (k + int (length ps)))"
proof (induction ps arbitrary: k)
  case (Cons p ps)
  obtain a m where p: "p = (a, m)" by (cases p)
  show ?case
  proof (cases "k < index")
    case True
    then have "nat (index - k) = Suc (nat (index - (k + 1)))" by simp
    then show ?thesis using True p Cons.IH[of "k + 1"] by simp
  qed (use p Cons.prems in simp)
qed simp

lemma walk_last: "walk_list (\<lambda>a n s. if nnext n \<noteq> None then Inr s else Inl a) (ps @ [(b, m)]) () = Inl b"
  by (induction ps) (auto simp: start_append)

text \<open>The index of the first member with a property.\<close>

definition first_index :: "('m \<Rightarrow> bool) \<Rightarrow> 'm list \<Rightarrow> int \<Rightarrow> bool" where
  "first_index P xs r \<longleftrightarrow>
     (if r < 0 then r = -1 \<and> (\<forall>x \<in> set xs. \<not> P x)
      else nat r < length xs \<and> P (xs ! nat r) \<and> (\<forall>x \<in> set (take (nat r) xs). \<not> P x))"

lemma first_index_Cons: "first_index P (x # xs) r \<longleftrightarrow>
    (if P x then r = 0 else if r < 0 then first_index P xs r else 0 < r \<and> first_index P xs (r - 1))"
proof (cases "r \<le> 0")
  case False
  then have "nat r = Suc (nat (r - 1))" by simp
  then show ?thesis using False by (auto simp: first_index_def)
qed (auto simp: first_index_def)

lemma walk_find:
  "(case walk_list (\<lambda>a n i. if P (member n) then Inl i else Inr (i + 1)) ps k of
      Inl r \<Rightarrow> k \<le> r \<and> first_index P (map snd ps) (r - k)
    | Inr _ \<Rightarrow> first_index P (map snd ps) (-1))"
proof (induction ps arbitrary: k)
  case (Cons p ps)
  obtain a m where p: "p = (a, m)" by (cases p)
  show ?case using Cons.IH[of "k + 1"] p
    by (auto simp: first_index_Cons algebra_simps split: sum.splits)
qed (simp add: first_index_def)

lemma walk_delete: "0 \<le> k \<Longrightarrow>
    walk_list (\<lambda>a n (pp, i). if i < index then Inr (Some a, i + 1) else Inl (a, pp)) ps (pp, k) =
      (let j = nat (index - k)
       in if j < length ps then Inl (fst (ps ! j), if j = 0 then pp else Some (fst (ps ! (j - 1))))
          else Inr (if ps = [] then pp else Some (fst (last ps)), k + int (length ps)))"
proof (induction ps arbitrary: k pp)
  case (Cons p ps)
  obtain a m where p: "p = (a, m)" by (cases p)
  show ?case
  proof (cases "k < index")
    case True
    then have j: "nat (index - k) = Suc (nat (index - (k + 1)))" by simp
    show ?thesis using True p Cons.IH[of "k + 1"] Cons.prems
      by (auto simp: j Let_def nth_Cons' split: if_splits)
  qed (use p Cons.prems in \<open>simp add: Let_def\<close>)
qed (simp add: Let_def)

section \<open>Sorting\<close>

text \<open>The inner loop puts the least member in front, by exchanges; the outer loop does this for every node.\<close>

fun select_min :: "('m \<Rightarrow> 'm \<Rightarrow> int) \<Rightarrow> 'm \<Rightarrow> 'm list \<Rightarrow> 'm \<times> 'm list" where
  "select_min cmp x [] = (x, [])"
| "select_min cmp x (y # ys) =
     (if cmp x y > 0 then let (m, zs) = select_min cmp y ys in (m, x # zs)
      else let (m, zs) = select_min cmp x ys in (m, y # zs))"

lemma select_min_length: "length (snd (select_min cmp x ys)) = length ys"
  by (induction cmp x ys rule: select_min.induct) (auto split: prod.splits)

function exchange_sort :: "('m \<Rightarrow> 'm \<Rightarrow> int) \<Rightarrow> 'm list \<Rightarrow> 'm list" where
  "exchange_sort cmp [] = []"
| "exchange_sort cmp (x # xs) = (let (m, ys) = select_min cmp x xs in m # exchange_sort cmp ys)"
  by pat_completeness auto

termination
  by (relation "measure (length \<circ> snd)") (auto simp: select_min_length dest: arg_cong[where f = "\<lambda>p. length (snd p)"])

definition orderly :: "('m \<Rightarrow> 'm \<Rightarrow> int) \<Rightarrow> bool" where
  "orderly cmp \<longleftrightarrow> (\<forall>x y. cmp x y \<le> 0 \<or> cmp y x \<le> 0) \<and> (\<forall>x y z. cmp x y \<le> 0 \<longrightarrow> cmp y z \<le> 0 \<longrightarrow> cmp x z \<le> 0)"

lemma select_min_mset: "select_min cmp x ys = (m, zs) \<Longrightarrow> mset (m # zs) = mset (x # ys)"
  by (induction cmp x ys arbitrary: m zs rule: select_min.induct) (fastforce split: if_splits prod.splits)+

lemma select_min_least:
  "orderly cmp \<Longrightarrow> select_min cmp x ys = (m, zs) \<Longrightarrow> cmp m x \<le> 0 \<and> (\<forall>z \<in> set zs. cmp m z \<le> 0)"
proof (induction cmp x ys arbitrary: m zs rule: select_min.induct)
  case (1 cmp x)
  then show ?case by (auto simp: orderly_def)
next
  case (2 cmp x y ys)
  then have o: "cmp u v \<le> 0 \<Longrightarrow> cmp v w \<le> 0 \<Longrightarrow> cmp u w \<le> 0" "\<not> cmp u v \<le> 0 \<Longrightarrow> cmp v u \<le> 0" for u v w
    unfolding orderly_def by blast+
  show ?case
  proof (cases "cmp x y > 0")
    case True
    then obtain zs' where z: "select_min cmp y ys = (m, zs')" "zs = x # zs'" using 2(4) by (auto split: prod.splits)
    then show ?thesis using 2(1)[OF True 2(3)] o(1)[of m y x] o(2)[of x y] True by auto
  next
    case False
    then obtain zs' where z: "select_min cmp x ys = (m, zs')" "zs = y # zs'" using 2(4) by (auto split: prod.splits)
    then show ?thesis using 2(2)[OF False 2(3)] o(1)[of m x y] False by auto
  qed
qed

lemma exchange_sort_mset: "mset (exchange_sort cmp xs) = mset xs"
proof (induction cmp xs rule: exchange_sort.induct)
  case (2 cmp x xs)
  obtain m ys where "select_min cmp x xs = (m, ys)" by (metis surj_pair)
  then show ?case using 2 select_min_mset[of cmp x xs m ys] by simp
qed simp

lemma exchange_sort_sorted: "orderly cmp \<Longrightarrow> sorted_wrt (\<lambda>x y. cmp x y \<le> 0) (exchange_sort cmp xs)"
proof (induction cmp xs rule: exchange_sort.induct)
  case (2 cmp x xs)
  obtain m ys where m: "select_min cmp x xs = (m, ys)" by (metis surj_pair)
  have "set (exchange_sort cmp ys) = set ys" by (metis exchange_sort_mset set_mset_mset)
  then show ?case using 2 m select_min_least[OF 2(2) m] by simp
qed simp

lemma exchange_sort_length [simp]: "length (exchange_sort cmp xs) = length xs"
  by (metis exchange_sort_mset size_mset)

text \<open>The loops in the heap do the same with the members and leave the links.\<close>

lemma inner_loop:
  assumes "h a = Some \<lparr>nnext = q, member = x\<rparr>" "chain h ps None" "a \<notin> fst ` set ps" "distinct (map fst ps)"
  shows "\<exists>h'. sort_inner cmp a (start ps) h = Some (Inr h')
    \<and> h' a = Some \<lparr>nnext = q, member = fst (select_min cmp x (map snd ps))\<rparr>
    \<and> chain h' (zip (map fst ps) (snd (select_min cmp x (map snd ps)))) None
    \<and> (\<forall>b. b \<noteq> a \<longrightarrow> b \<notin> fst ` set ps \<longrightarrow> h' b = h b)"
  using assms
proof (induction ps arbitrary: h x)
  case Nil
  then show ?case by (simp add: sort_inner.simps)
next
  case (Cons p ps)
  obtain b y where p: "p = (b, y)" by (cases p)
  let ?h = "if cmp x y > 0 then h(a \<mapsto> \<lparr>nnext = q, member = y\<rparr>, b \<mapsto> \<lparr>nnext = start ps, member = x\<rparr>) else h"
  let ?x = "if cmp x y > 0 then y else x" and ?y = "if cmp x y > 0 then x else y"
  have hb: "h b = Some \<lparr>nnext = start ps, member = y\<rparr>" "a \<noteq> b" "b \<notin> fst ` set ps"
    using Cons.prems p by auto
  have step: "sort_inner cmp a (start (p # ps)) h = sort_inner cmp a (start ps) ?h"
    using Cons.prems(1) hb p
    by (subst sort_inner.simps) (auto simp: node_at_def swap_members_def set_member_def)
  have "?h a = Some \<lparr>nnext = q, member = ?x\<rparr>" "chain ?h ps None" "a \<notin> fst ` set ps" "distinct (map fst ps)"
    using Cons.prems hb p by (auto simp: fun_upd_other)
  from Cons.IH[OF this] obtain h' where h': "sort_inner cmp a (start ps) ?h = Some (Inr h')"
    "h' a = Some \<lparr>nnext = q, member = fst (select_min cmp ?x (map snd ps))\<rparr>"
    "chain h' (zip (map fst ps) (snd (select_min cmp ?x (map snd ps)))) None"
    "\<forall>c. c \<noteq> a \<longrightarrow> c \<notin> fst ` set ps \<longrightarrow> h' c = ?h c" by blast
  obtain m ms where m: "select_min cmp ?x (map snd ps) = (m, ms)" by (metis surj_pair)
  have sel: "select_min cmp x (map snd (p # ps)) = (m, ?y # ms)" using m p by auto
  have len: "length ms = length ps" using select_min_length[of cmp ?x "map snd ps"] m by simp
  have "h' b = Some \<lparr>nnext = start ps, member = ?y\<rparr>" using h'(4) hb by auto
  then have "chain h' (zip (map fst (p # ps)) (?y # ms)) None" using h'(3) m len p by simp
  moreover have "\<forall>c. c \<noteq> a \<longrightarrow> c \<notin> fst ` set (p # ps) \<longrightarrow> h' c = h c" using h'(4) p by simp
  ultimately show ?case using h'(1,2) m step unfolding sel by (intro exI[of _ h']) simp
qed

lemma outer_loop:
  "chain h ps None \<Longrightarrow> distinct (map fst ps) \<Longrightarrow>
    \<exists>h'. sort_outer cmp (start ps) h = Some (Inr h')
      \<and> chain h' (zip (map fst ps) (exchange_sort cmp (map snd ps))) None
      \<and> (\<forall>b. b \<notin> fst ` set ps \<longrightarrow> h' b = h b)"
proof (induction "length ps" arbitrary: ps h)
  case 0
  then show ?case by (simp add: sort_outer.simps)
next
  case (Suc k)
  then obtain a x qs where ps: "ps = (a, x) # qs" "k = length qs" by (metis length_Suc_conv surj_pair)
  have a: "h a = Some \<lparr>nnext = start qs, member = x\<rparr>" "chain h qs None" "a \<notin> fst ` set qs" "distinct (map fst qs)"
    using Suc.prems ps by auto
  obtain m ms where m: "select_min cmp x (map snd qs) = (m, ms)" by (metis surj_pair)
  have len: "length ms = length qs" using select_min_length[of cmp x "map snd qs"] m by simp
  obtain h1 where h1: "sort_inner cmp a (start qs) h = Some (Inr h1)"
    "h1 a = Some \<lparr>nnext = start qs, member = m\<rparr>" "chain h1 (zip (map fst qs) ms) None"
    "\<forall>b. b \<noteq> a \<longrightarrow> b \<notin> fst ` set qs \<longrightarrow> h1 b = h b"
    using inner_loop[OF a, of cmp] unfolding m by auto
  have self: "sort_inner cmp a (Some a) h = sort_inner cmp a (start qs) h"
    using a(1) by (subst sort_inner.simps) (auto simp: node_at_def swap_members_def set_member_def fun_upd_idem)
  have fst_zip: "map fst (zip (map fst qs) ms) = map fst qs" "map snd (zip (map fst qs) ms) = ms" using len by simp_all
  then have set_zip: "fst ` set (zip (map fst qs) ms) = fst ` set qs" by (metis list.set_map)
  obtain h2 where h2: "sort_outer cmp (start qs) h1 = Some (Inr h2)"
    "chain h2 (zip (map fst qs) (exchange_sort cmp ms)) None" "\<forall>b. b \<notin> fst ` set qs \<longrightarrow> h2 b = h1 b"
    using Suc.hyps(1)[of "zip (map fst qs) ms" h1] h1(3) a(4) ps(2) len by (auto simp: fst_zip set_zip)
  have "sort_outer cmp (start ps) h = Some (Inr h2)"
    using ps h1(1,2) h2(1) self by (subst sort_outer.simps) simp
  moreover have "h2 a = Some \<lparr>nnext = start qs, member = m\<rparr>" using h2(3) h1(2) a(3) by simp
  then have "chain h2 (zip (map fst ps) (exchange_sort cmp (map snd ps))) None"
    using h2(2) ps m len by simp
  moreover have "\<forall>b. b \<notin> fst ` set ps \<longrightarrow> h2 b = h b" using h2(3) h1(4) ps by simp
  ultimately show ?case by blast
qed

lemma chain_dom: "chain h ps q \<Longrightarrow> fst ` set ps \<subseteq> dom h"
  by (induction h ps q rule: chain.induct) (auto simp: chain.simps)

lemma sort_heap_list:
  assumes "heap_list l ps"
  shows "\<exists>l'. glist_sort (Some cmp) l = Some (Inr (0, l')) \<and> freed l' = freed l
    \<and> heap_list l' (zip (map fst ps) (exchange_sort cmp (map snd ps)))"
proof -
  let ?qs = "zip (map fst ps) (exchange_sort cmp (map snd ps))"
  have l: "head l = start ps" "chain (nodes l) ps None" "distinct (map fst ps)" "dom (nodes l) = fst ` set ps"
    using assms by (simp_all add: heap_list_def)
  obtain h where h: "sort_outer cmp (start ps) (nodes l) = Some (Inr h)" "chain h ?qs None"
    "\<forall>b. b \<notin> fst ` set ps \<longrightarrow> h b = nodes l b"
    using outer_loop[OF l(2,3)] by blast
  have fst: "map fst ?qs = map fst ps" by simp
  then have set: "fst ` set ?qs = fst ` set ps" by (metis list.set_map)
  have "b \<in> dom h \<longleftrightarrow> b \<in> fst ` set ps" for b
  proof (cases "b \<in> fst ` set ps")
    case True
    then show ?thesis using chain_dom[OF h(2)] unfolding set by blast
  next
    case False
    then have "nodes l b = None" unfolding l(4)[symmetric] by (simp add: domIff)
    then show ?thesis using False h(3) by (simp add: domIff)
  qed
  then have "dom h = fst ` set ps" by blast
  then have "heap_list (l\<lparr>nodes := h\<rparr>) ?qs" using h(2) l fst set by (simp add: heap_list_def)
  then show ?thesis using h(1) l(1) by (auto simp: glist_sort_def)
qed

section \<open>The abstract lists\<close>

datatype 'm gop =
    OLength | OGet int | OSet int 'm | OFind 'm | OFindBy 'm | OAdd 'm | OAppend 'm | ODelete int | OSort | OClear | ODump

datatype 'm answer = Code int | Ptr "'m option" | Members "'m list"

definition with_code :: "(fault + int) option \<Rightarrow> 'm glist \<Rightarrow> (fault + 'm answer \<times> 'm glist) option" where
  [js_eval]: "with_code r l = map_option (\<lambda>r. bind_res r (\<lambda>i. Inr (Code i, l))) r"

definition code_and :: "(fault + int \<times> 'm glist) option \<Rightarrow> (fault + 'm answer \<times> 'm glist) option" where
  [js_eval]: "code_and r = map_option (\<lambda>r. bind_res r (\<lambda>(i, l). Inr (Code i, l))) r"

text \<open>One call of the interface \<open>headers/glist.h\<close>.\<close>

definition glist_step :: "('m nodes \<Rightarrow> addr option) \<Rightarrow> ('m \<Rightarrow> 'm \<Rightarrow> int) option \<Rightarrow> bool \<Rightarrow> 'm gop \<Rightarrow> 'm glist
    \<Rightarrow> (fault + 'm answer \<times> 'm glist) option" where
  [js_eval]: "glist_step malloc compare_func free_func c l =
     (case c of
        OLength \<Rightarrow> with_code (glist_length l) l
      | OGet i \<Rightarrow> map_option (\<lambda>r. bind_res r (\<lambda>m. Inr (Ptr m, l))) (glist_get i l)
      | OSet i m \<Rightarrow> map_option (\<lambda>r. bind_res r (\<lambda>(old, l'). Inr (Ptr old, l'))) (glist_set i m l)
      | OFind m \<Rightarrow> with_code (glist_find m l) l
      | OFindBy m \<Rightarrow> with_code (glist_find_ex m compare_func l) l
      | OAdd m \<Rightarrow> code_and (Some (Inr (glist_add malloc m l)))
      | OAppend m \<Rightarrow> code_and (glist_append malloc m l)
      | ODelete i \<Rightarrow> code_and (glist_delete i free_func l)
      | OSort \<Rightarrow> code_and (glist_sort compare_func l)
      | OClear \<Rightarrow> code_and (glist_clear free_func l)
      | ODump \<Rightarrow> map_option (\<lambda>r. bind_res r (\<lambda>ms. Inr (Members ms, l))) (glist_dump l))"

text \<open>
  What a call does to the list \<open>xs\<close> and to the members \<open>out\<close> that were freed. An index below zero is an error for \<open>glist_get\<close> and
  \<open>glist_set\<close>, but stands for the first node in \<open>glist_delete\<close>.
\<close>

definition in_range :: "int \<Rightarrow> 'm list \<Rightarrow> bool" where
  "in_range i xs \<longleftrightarrow> 0 \<le> i \<and> i < int (length xs)"

text \<open>The memory may refuse a node when there are \<open>n\<close> of them.\<close>

definition may_refuse :: "('m nodes \<Rightarrow> addr option) \<Rightarrow> nat \<Rightarrow> bool" where
  "may_refuse malloc n \<longleftrightarrow> (\<exists>h. finite (dom h) \<and> card (dom h) = n \<and> malloc h = None)"

fun list_spec :: "('m nodes \<Rightarrow> addr option) \<Rightarrow> ('m \<Rightarrow> 'm \<Rightarrow> int) option \<Rightarrow> bool \<Rightarrow> 'm gop \<Rightarrow> 'm list \<times> 'm list \<Rightarrow> 'm answer
    \<Rightarrow> 'm list \<times> 'm list \<Rightarrow> bool" where
  "list_spec malloc cmp fr OLength (xs, out) b s \<longleftrightarrow> b = Code (int (length xs)) \<and> s = (xs, out)"
| "list_spec malloc cmp fr (OGet i) (xs, out) b s \<longleftrightarrow>
     b = Ptr (if in_range i xs then Some (xs ! nat i) else None) \<and> s = (xs, out)"
| "list_spec malloc cmp fr (OSet i m) (xs, out) b s \<longleftrightarrow>
     b = Ptr (if in_range i xs then Some (xs ! nat i) else None)
     \<and> s = (if in_range i xs then xs[nat i := m] else xs, out)"
| "list_spec malloc cmp fr (OFind m) (xs, out) b s \<longleftrightarrow> (\<exists>r. b = Code r \<and> first_index (\<lambda>x. x = m) xs r) \<and> s = (xs, out)"
| "list_spec malloc cmp fr (OFindBy m) (xs, out) b s \<longleftrightarrow>
     (\<exists>r. b = Code r \<and> first_index (case cmp of None \<Rightarrow> \<lambda>x. x = m | Some c \<Rightarrow> \<lambda>x. c m x = 0) xs r) \<and> s = (xs, out)"
| "list_spec malloc cmp fr (OAdd m) (xs, out) b s \<longleftrightarrow> b = Code 0 \<and> s = (m # xs, out)
     \<or> b = Code (-1) \<and> s = (xs, out) \<and> may_refuse malloc (length xs)"
| "list_spec malloc cmp fr (OAppend m) (xs, out) b s \<longleftrightarrow> b = Code 0 \<and> s = (xs @ [m], out)
     \<or> b = Code (-1) \<and> s = (xs, out) \<and> may_refuse malloc (length xs)"
| "list_spec malloc cmp fr (ODelete i) (xs, out) b s \<longleftrightarrow>
     (if nat i < length xs
      then b = Code 0 \<and> s = (take (nat i) xs @ drop (Suc (nat i)) xs, out @ (if fr then [xs ! nat i] else []))
      else b = Code (-1) \<and> s = (xs, out))"
| "list_spec malloc cmp fr OSort (xs, out) b s \<longleftrightarrow>
     (case cmp of None \<Rightarrow> b = Code (-1) \<and> s = (xs, out) | Some c \<Rightarrow> b = Code 0 \<and> s = (exchange_sort c xs, out))"
| "list_spec malloc cmp fr OClear (xs, out) b s \<longleftrightarrow> b = Code 0 \<and> s = ([], out @ (if fr then xs else []))"
| "list_spec malloc cmp fr ODump (xs, out) b s \<longleftrightarrow> b = Members xs \<and> s = (xs, out)"

definition stands_for :: "'m glist \<Rightarrow> 'm list \<times> 'm list \<Rightarrow> bool" where
  "stands_for l s \<longleftrightarrow> (\<exists>ps. heap_list l ps \<and> map snd ps = fst s) \<and> freed l = snd s"

section \<open>Every operation does what it says\<close>

lemma clear_heap_list:
  "heap_list l ps \<Longrightarrow> \<exists>l'. glist_clear fr l = Some (Inr (0, l')) \<and> heap_list l' []
     \<and> freed l' = freed l @ (if fr then map snd ps else [])"
proof (induction ps arbitrary: l)
  case Nil
  then show ?case by (subst glist_clear.simps) (auto simp: heap_list_def)
next
  case (Cons p ps)
  obtain a m where p: "p = (a, m)" by (cases p)
  let ?l = "l\<lparr>head := start ps, nodes := (nodes l)(a := None), freed := (if fr then freed l @ [m] else freed l)\<rparr>"
  have "nodes l a = Some \<lparr>nnext = start ps, member = m\<rparr>" "head l = Some a" "heap_list ?l ps"
    using Cons.prems p by (auto simp: heap_list_def)
  then show ?case using Cons.IH[of ?l] p by (subst glist_clear.simps) auto
qed

lemma seek_heap_list: "heap_list l ps \<Longrightarrow> 0 \<le> i \<Longrightarrow>
    seek i l = Some (Inr (if i < int (length ps) then Inl (fst (ps ! nat i)) else Inr (int (length ps))))"
  by (simp add: seek_def walk_head walk_seek)

lemma split_at: "i < length ps \<Longrightarrow> ps = take i ps @ (fst (ps ! i), snd (ps ! i)) # drop (Suc i) ps"
  by (simp add: id_take_nth_drop)

lemma node_in: "heap_list l (as @ (a, m) # bs) \<Longrightarrow> nodes l a = Some \<lparr>nnext = start bs, member = m\<rparr>"
  by (simp add: heap_list_def chain_append)

lemma set_heap_list:
  assumes "heap_list l (as @ (a, m) # bs)"
  shows "heap_list (l\<lparr>nodes := (nodes l)(a \<mapsto> \<lparr>nnext = start bs, member = m'\<rparr>)\<rparr>) (as @ (a, m') # bs)"
  using assms by (auto simp: heap_list_def chain_append start_append)

lemma add_heap_list:
  assumes "heap_list l ps" "malloc (nodes l) = Some p" "nodes l p = None"
  shows "\<exists>l'. glist_add malloc m l = (0, l') \<and> heap_list l' ((p, m) # ps) \<and> freed l' = freed l"
proof -
  have "p \<notin> dom (nodes l)" using assms(3) by (simp add: domIff)
  then have "p \<notin> fst ` set ps" using assms(1) by (simp add: heap_list_def)
  then show ?thesis using assms by (auto simp: glist_add_def heap_list_def)
qed

lemma move_heap_list:
  assumes "heap_list l ((p, m) # as @ [(b, y)])"
  shows "\<exists>l'. move_to_end b l = Inr l' \<and> heap_list l' (as @ [(b, y), (p, m)]) \<and> freed l' = freed l"
proof -
  let ?h = "(nodes l)(b \<mapsto> \<lparr>nnext = Some p, member = y\<rparr>, p \<mapsto> \<lparr>nnext = None, member = m\<rparr>)"
  have l: "head l = Some p" "nodes l p = Some \<lparr>nnext = start (as @ [(b, y)]), member = m\<rparr>"
    "nodes l b = Some \<lparr>nnext = None, member = y\<rparr>" "b \<noteq> p" "p \<notin> fst ` set as" "b \<notin> fst ` set as"
    "chain (nodes l) as (Some b)" "distinct (map fst as)" "dom (nodes l) = insert p (insert b (fst ` set as))"
    using assms by (auto simp: heap_list_def chain_append)
  have "heap_list (l\<lparr>head := start (as @ [(b, y)]), nodes := ?h\<rparr>) (as @ [(b, y), (p, m)])"
    using l by (auto simp: heap_list_def chain_append start_append)
  then show ?thesis using l(1-4) by (auto simp: move_to_end_def set_next_def node_at_def)
qed

lemma append_heap_list:
  assumes "heap_list l ps" "malloc (nodes l) = Some p" "nodes l p = None"
  shows "\<exists>l'. glist_append malloc m l = Some (Inr (0, l')) \<and> heap_list l' (ps @ [(p, m)]) \<and> freed l' = freed l"
proof -
  obtain l1 where l1: "glist_add malloc m l = (0, l1)" "heap_list l1 ((p, m) # ps)" "freed l1 = freed l"
    using add_heap_list[of l ps malloc p m] assms by blast
  show ?thesis
  proof (cases ps rule: rev_cases)
    case Nil
    then have "head l1 = Some p" "move_to_end p l1 = Inr l1" using l1(2) by (simp_all add: heap_list_def move_to_end_def)
    moreover have "walk (nodes l1) (\<lambda>a n s. if nnext n \<noteq> None then Inr s else Inl a) (head l1) () = Some (Inr (Inl p))"
      using Nil by (simp add: walk_head[OF l1(2)])
    ultimately show ?thesis using l1 Nil by (simp add: glist_append_def on_walk_def)
  next
    case (snoc as qy)
    obtain b y where b: "qy = (b, y)" by (cases qy)
    obtain l2 where "move_to_end b l1 = Inr l2" "heap_list l2 (as @ [(b, y), (p, m)])" "freed l2 = freed l1"
      using move_heap_list[of l1 p m as b y] l1(2) snoc b by auto
    then show ?thesis using l1 snoc b walk_last[of "(p, m) # as" b y]
      by (simp add: glist_append_def on_walk_def walk_head[OF l1(2)])
  qed
qed

lemma delete_node:
  assumes "heap_list l (as @ (a, m) # bs)"
  shows "\<exists>l1. unlink (if as = [] then None else Some (fst (last as))) (start bs) l = Inr l1
    \<and> heap_list (l1\<lparr>nodes := (nodes l1)(a := None), freed := out\<rparr>) (as @ bs)"
proof (cases as rule: rev_cases)
  case Nil
  then show ?thesis using assms by (auto simp: heap_list_def unlink_def)
next
  case (snoc cs qy)
  obtain q y where q: "qy = (q, y)" by (cases qy)
  have l: "head l = start (cs @ [(q, y)])" "nodes l q = Some \<lparr>nnext = Some a, member = y\<rparr>" "chain (nodes l) bs None"
    "chain (nodes l) cs (Some q)" "distinct (map fst cs @ q # a # map fst bs)"
    "dom (nodes l) = insert a (insert q (fst ` set cs \<union> fst ` set bs))"
    using assms snoc q by (auto simp: heap_list_def chain_append start_append)
  have "heap_list (l\<lparr>nodes := (nodes l)(q \<mapsto> \<lparr>nnext = start bs, member = y\<rparr>, a := None), freed := out\<rparr>)
      (cs @ (q, y) # bs)"
    using l by (auto simp: heap_list_def chain_append start_append)
  then show ?thesis using snoc q l(2) by (simp add: unlink_def set_next_def)
qed

lemma delete_heap_list:
  assumes "heap_list l ps"
  shows "\<exists>l'. glist_delete i fr l = Some (Inr (if nat i < length ps then 0 else -1, l'))
    \<and> (if nat i < length ps
       then heap_list l' (take (nat i) ps @ drop (Suc (nat i)) ps)
         \<and> freed l' = freed l @ (if fr then [snd (ps ! nat i)] else [])
       else l' = l)"
proof (cases "nat i < length ps")
  case True
  define as bs a m where "as = take (nat i) ps" and "bs = drop (Suc (nat i)) ps"
    and "a = fst (ps ! nat i)" and "m = snd (ps ! nat i)"
  note d = this
  have ps: "ps = as @ (a, m) # bs" using split_at[OF True] by (simp add: d)
  have pp: "(if nat i = 0 then None else Some (fst (ps ! (nat i - 1)))) = (if as = [] then None else Some (fst (last as)))"
    using True by (auto simp: d last_conv_nth min_def nth_append)
  have l: "heap_list l (as @ (a, m) # bs)" using assms ps by simp
  obtain l1 where l1: "unlink (if as = [] then None else Some (fst (last as))) (start bs) l = Inr l1"
    "heap_list (l1\<lparr>nodes := (nodes l1)(a := None), freed := (if fr then freed l @ [m] else freed l)\<rparr>) (as @ bs)"
    using delete_node[OF l] by blast
  have "glist_delete i fr l =
      Some (Inr (0, l1\<lparr>nodes := (nodes l1)(a := None), freed := (if fr then freed l @ [m] else freed l)\<rparr>))"
    using True l1(1) pp node_in[OF l]
    by (simp add: glist_delete_def walk_head[OF assms] walk_delete on_walk_def Let_def node_at_def d(3,4)[symmetric])
  then show ?thesis using True l1(2) d by auto
next
  case False
  then show ?thesis by (simp add: glist_delete_def walk_head[OF assms] walk_delete on_walk_def Let_def)
qed

lemma get_heap_list:
  "heap_list l ps \<Longrightarrow> glist_get i l = Some (Inr (if in_range i ps then Some (map snd ps ! nat i) else None))"
proof -
  assume l: "heap_list l ps"
  have "node_at (fst (ps ! nat i)) (nodes l) = Inr \<lparr>nnext = start (drop (Suc (nat i)) ps), member = snd (ps ! nat i)\<rparr>"
    if "in_range i ps"
  proof -
    have "nat i < length ps" using that by (auto simp: in_range_def nat_less_iff)
    then show ?thesis using node_in[of l] l by (metis split_at node_at_def option.simps(5))
  qed
  then show ?thesis using seek_heap_list[OF l, of i]
    by (auto simp: glist_get_def on_walk_def in_range_def)
qed

lemma set_at_heap_list:
  assumes "heap_list l ps"
  shows "\<exists>l'. glist_set i m l = Some (Inr (if in_range i ps then Some (map snd ps ! nat i) else None, l'))
    \<and> freed l' = freed l
    \<and> (if in_range i ps then \<exists>qs. heap_list l' qs \<and> map snd qs = (map snd ps)[nat i := m] else l' = l)"
proof (cases "in_range i ps")
  case True
  then have i: "nat i < length ps" "0 \<le> i" "i < int (length ps)" by (auto simp: in_range_def nat_less_iff)
  define as bs a x where d: "as = take (nat i) ps" "bs = drop (Suc (nat i)) ps" "a = fst (ps ! nat i)" "x = snd (ps ! nat i)"
  have ps: "ps = as @ (a, x) # bs" using split_at[OF i(1)] by (simp add: d)
  then have l: "heap_list l (as @ (a, x) # bs)" using assms by simp
  let ?l = "l\<lparr>nodes := (nodes l)(a \<mapsto> \<lparr>nnext = start bs, member = m\<rparr>)\<rparr>"
  have "glist_set i m l = Some (Inr (Some x, ?l))"
    using i seek_heap_list[OF assms, of i] node_in[OF l]
    by (simp add: glist_set_def on_walk_def node_at_def set_member_def d(3)[symmetric])
  moreover have "map snd (as @ (a, m) # bs) = (map snd ps)[nat i := m]"
    using i(1) by (simp add: d upd_conv_take_nth_drop take_map drop_map)
  then have "\<exists>qs. heap_list ?l qs \<and> map snd qs = (map snd ps)[nat i := m]" using set_heap_list[OF l, of m] by blast
  ultimately show ?thesis using True i(1) by (auto simp: d(4))
next
  case False
  then show ?thesis using seek_heap_list[OF assms, of i] by (auto simp: glist_set_def on_walk_def in_range_def)
qed

lemma find_heap_list:
  assumes "heap_list l ps"
  shows "\<exists>r. on_walk (walk (nodes l) (\<lambda>a n i. if P (member n) then Inl i else Inr (i + 1)) (head l) 0) Inr (\<lambda>_. Inr (-1))
      = Some (Inr r) \<and> first_index P (map snd ps) r"
  using walk_find[where P = P and ps = ps and k = 0] unfolding walk_head[OF assms] on_walk_def by (auto split: sum.splits)

text \<open>An allocator gives addresses that are not in use. A pool of \<open>n\<close> nodes is one.\<close>

locale allocator =
  fixes malloc :: "'m nodes \<Rightarrow> addr option"
  assumes fresh: "malloc h = Some a \<Longrightarrow> h a = None"

definition pool :: "nat \<Rightarrow> 'm nodes \<Rightarrow> addr option" where
  [js_eval]: "pool n h = List.find (\<lambda>a. h a = None) [0..<n]"

interpretation pools: allocator "pool n" for n
  by unfold_locales (auto simp: pool_def find_Some_iff)

context allocator begin

lemma step_simulates:
  assumes "stands_for l s"
  shows "\<exists>b l' s'. glist_step malloc cmp fr c l = Some (Inr (b, l')) \<and> list_spec malloc cmp fr c s b s' \<and> stands_for l' s'"
proof -
  obtain ps out where s: "s = (map snd ps, out)" "heap_list l ps" "freed l = out"
    using assms by (cases s) (auto simp: stands_for_def)
  have keep: "stands_for l s" by fact
  have refuse: "may_refuse malloc (length ps)" if "malloc (nodes l) = None"
  proof -
    have "dom (nodes l) = set (map fst ps)" "distinct (map fst ps)" using s(2) by (simp_all add: heap_list_def)
    then have "finite (dom (nodes l))" "card (dom (nodes l)) = length ps" using distinct_card[of "map fst ps"] by simp_all
    then show ?thesis using that by (auto simp: may_refuse_def)
  qed
  have len [simp]: "in_range i (map snd ps) = in_range i ps" for i by (simp add: in_range_def)
  show ?thesis
  proof (cases c)
    case OLength
    then show ?thesis using s keep
      by (auto simp: glist_step_def with_code_def glist_length_def on_walk_def walk_head walk_length)
  next
    case (OGet i)
    then show ?thesis using s keep by (auto simp: glist_step_def get_heap_list)
  next
    case (OSet i m)
    obtain l' where l': "glist_set i m l = Some (Inr (if in_range i ps then Some (map snd ps ! nat i) else None, l'))"
      "freed l' = freed l"
      "if in_range i ps then \<exists>qs. heap_list l' qs \<and> map snd qs = (map snd ps)[nat i := m] else l' = l"
      using set_at_heap_list[OF s(2)] by blast
    then show ?thesis using OSet s keep by (auto simp: glist_step_def stands_for_def split: if_splits)
  next
    case (OFind m)
    obtain r where "glist_find m l = Some (Inr r)" "first_index (\<lambda>x. x = m) (map snd ps) r"
      using find_heap_list[OF s(2), of "\<lambda>x. x = m"] by (auto simp: glist_find_def)
    then show ?thesis using OFind s(1) keep by (simp add: glist_step_def with_code_def)
  next
    case (OFindBy m)
    have "\<exists>r. glist_find_ex m cmp l = Some (Inr r)
        \<and> first_index (case cmp of None \<Rightarrow> \<lambda>x. x = m | Some c \<Rightarrow> \<lambda>x. c m x = 0) (map snd ps) r"
      using find_heap_list[OF s(2), of "\<lambda>x. x = m"] find_heap_list[OF s(2), of "\<lambda>x. the cmp m x = 0"]
      by (cases cmp) (auto simp: glist_find_ex_def glist_find_def)
    then show ?thesis using OFindBy s(1) keep by (auto simp: glist_step_def with_code_def)
  next
    case (OAdd m)
    show ?thesis
    proof (cases "malloc (nodes l)")
      case None
      then show ?thesis using OAdd s(1) keep refuse by (auto simp: glist_step_def code_and_def glist_add_def)
    next
      case (Some p)
      obtain l' where "glist_add malloc m l = (0, l')" "heap_list l' ((p, m) # ps)" "freed l' = freed l"
        using add_heap_list[of l ps malloc p m] s(2) Some fresh[OF Some] by blast
      then show ?thesis using OAdd s
        by (auto simp: glist_step_def code_and_def stands_for_def intro!: exI[of _ "(p, m) # ps"])
    qed
  next
    case (OAppend m)
    show ?thesis
    proof (cases "malloc (nodes l)")
      case None
      then show ?thesis using OAppend s(1) keep refuse
        by (auto simp: glist_step_def code_and_def glist_append_def glist_add_def)
    next
      case (Some p)
      obtain l' where "glist_append malloc m l = Some (Inr (0, l'))" "heap_list l' (ps @ [(p, m)])" "freed l' = freed l"
        using append_heap_list[of l ps malloc p m] s(2) Some fresh[OF Some] by blast
      then show ?thesis using OAppend s
        by (auto simp: glist_step_def code_and_def stands_for_def intro!: exI[of _ "ps @ [(p, m)]"])
    qed
  next
    case (ODelete i)
    obtain l' where l': "glist_delete i fr l = Some (Inr (if nat i < length ps then 0 else -1, l'))"
      "if nat i < length ps
       then heap_list l' (take (nat i) ps @ drop (Suc (nat i)) ps)
         \<and> freed l' = freed l @ (if fr then [snd (ps ! nat i)] else [])
       else l' = l"
      using delete_heap_list[OF s(2)] by blast
    show ?thesis
    proof (cases "nat i < length ps")
      case True
      then have "stands_for l' (map snd (take (nat i) ps @ drop (Suc (nat i)) ps), out @ (if fr then [snd (ps ! nat i)] else []))"
        using l'(2) s(3) unfolding stands_for_def by auto
      then show ?thesis using True l'(1) ODelete s(1)
        by (cases fr) (simp_all add: glist_step_def code_and_def take_map drop_map)
    next
      case False
      then show ?thesis using l' ODelete s(1) keep by (simp add: glist_step_def code_and_def)
    qed
  next
    case OSort
    show ?thesis
    proof (cases cmp)
      case None
      then show ?thesis using OSort s(1) keep by (simp add: glist_step_def code_and_def glist_sort_def)
    next
      case (Some f)
      obtain l' where l': "glist_sort (Some f) l = Some (Inr (0, l'))" "freed l' = freed l"
        "heap_list l' (zip (map fst ps) (exchange_sort f (map snd ps)))"
        using sort_heap_list[OF s(2)] by blast
      have "stands_for l' (exchange_sort f (map snd ps), out)"
        unfolding stands_for_def using l'(2,3) s(3) by (intro conjI exI[of _ "zip (map fst ps) (exchange_sort f (map snd ps))"]) simp_all
      then show ?thesis using l'(1) OSort Some s(1) by (simp add: glist_step_def code_and_def)
    qed
  next
    case OClear
    obtain l' where "glist_clear fr l = Some (Inr (0, l'))" "heap_list l' []"
      "freed l' = freed l @ (if fr then map snd ps else [])"
      using clear_heap_list[OF s(2)] by blast
    then show ?thesis using OClear s
      by (auto simp: glist_step_def code_and_def stands_for_def intro!: exI[of _ "[]"])
  next
    case ODump
    then show ?thesis using s keep
      by (auto simp: glist_step_def glist_dump_def on_walk_def walk_head walk_dump)
  qed
qed

end

sublocale allocator \<subseteq> in_heap: simulated "glist_step malloc cmp fr" "list_spec malloc cmp fr" stands_for for cmp fr
  by unfold_locales (rule step_simulates)

context allocator begin

lemmas calls_simulate = in_heap.run_simulates

end

definition no_list :: "'m glist" where
  [js_eval]: "no_list = \<lparr>head = None, nodes = (\<lambda>_. None), freed = []\<rparr>"

text \<open>C8: every sequence of calls on a list that starts empty returns, never follows a dangling pointer, gives
  the answers of the operations on abstract lists, and leaves in the heap exactly the nodes of the list: nothing is
  lost and the list has no cycle. \<open>malloc\<close> may fail, which is answered by -1 and changes nothing; without
  this no call to add a node fails.\<close>

theorem glist_refines_list:
  assumes "\<And>h a. malloc h = Some a \<Longrightarrow> h a = None"
  shows "\<exists>answers l xs out ps.
    run_answers (glist_step malloc compare_func free_func) calls no_list = Some (Inr (answers, l))
    \<and> spec_run (list_spec malloc compare_func free_func) calls ([], []) answers (xs, out)
    \<and> heap_list l ps \<and> map snd ps = xs \<and> freed l = out"
proof -
  have "allocator malloc" using assms by unfold_locales
  moreover have "stands_for no_list ([], [])" by (auto simp: stands_for_def no_list_def heap_list_def)
  ultimately obtain answers l s where
    "run_answers (glist_step malloc compare_func free_func) calls no_list = Some (Inr (answers, l))"
    "spec_run (list_spec malloc compare_func free_func) calls ([], []) answers s" "stands_for l s"
    using allocator.calls_simulate[of malloc no_list "([], [])" compare_func free_func calls] by blast
  then show ?thesis by (cases s) (auto simp: stands_for_def)
qed

definition sample_calls :: "int gop list" where
  [js_eval]: "sample_calls =
     [OAppend 5, OAdd 8, OAppend 6, OAppend 7, OSet 1 9, OSort, ODump, OFind 9, OGet (-1), ODelete (-1), OLength, OClear]"

lemma glist_refines_list_witness:
  "\<exists>l s. run_answers (glist_step (pool 3) (Some (\<lambda>x y. x - y)) True) sample_calls no_list
      = Some (Inr ([Code 0, Code 0, Code 0, Code (-1), Ptr (Some 5), Code 0, Members [6, 8, 9], Code 2, Ptr None, Code 0,
          Code 2, Code 0], l))
    \<and> spec_run (list_spec (pool 3) (Some (\<lambda>x y. x - y)) True) sample_calls ([], [])
        [Code 0, Code 0, Code 0, Code (-1), Ptr (Some 5), Code 0, Members [6, 8, 9], Code 2, Ptr None, Code 0, Code 2, Code 0] s"
proof -
  have "map_option (map_sum id fst) (run_answers (glist_step (pool 3) (Some (\<lambda>x y. x - y)) True) sample_calls no_list)
      = Some (Inr [Code 0, Code 0, Code 0, Code (-1), Ptr (Some 5), Code 0, Members [6, 8, 9], Code 2, Ptr None, Code 0,
          Code 2, Code 0])" by code_simp
  moreover have "pool 3 h = Some a \<Longrightarrow> h a = None" for h :: "int nodes" and a by (rule pools.fresh)
  then obtain answers l xs out where
    "run_answers (glist_step (pool 3) (Some (\<lambda>x y. x - y)) True) sample_calls no_list = Some (Inr (answers, l))"
    "spec_run (list_spec (pool 3) (Some (\<lambda>x y. x - y)) True) sample_calls ([], []) answers (xs, out)"
    using glist_refines_list[of "pool 3" "Some (\<lambda>x y. x - y)" True sample_calls] by blast
  ultimately show ?thesis by auto
qed

text \<open>C33: sorting a list in the heap with an order returns, keeps every node at its place in the list, and leaves the same
  members in order.\<close>

theorem glist_sorts:
  assumes "heap_list l ps" "orderly cmp"
  shows "\<exists>l' qs. glist_sort (Some cmp) l = Some (Inr (0, l')) \<and> heap_list l' qs \<and> map fst qs = map fst ps
    \<and> mset (map snd qs) = mset (map snd ps) \<and> sorted_wrt (\<lambda>x y. cmp x y \<le> 0) (map snd qs)"
proof -
  obtain l' where "glist_sort (Some cmp) l = Some (Inr (0, l'))"
    "heap_list l' (zip (map fst ps) (exchange_sort cmp (map snd ps)))"
    using sort_heap_list[OF assms(1)] by blast
  then show ?thesis using exchange_sort_sorted[OF assms(2)]
    by (intro exI[of _ l'] exI[of _ "zip (map fst ps) (exchange_sort cmp (map snd ps))"]) (simp add: exchange_sort_mset)
qed

definition three_nodes :: "int glist" where
  "three_nodes = \<lparr>head = Some 4, nodes = [4 \<mapsto> \<lparr>nnext = Some 1, member = 30\<rparr>, 1 \<mapsto> \<lparr>nnext = Some 2, member = 10\<rparr>,
     2 \<mapsto> \<lparr>nnext = None, member = 20\<rparr>], freed = []\<rparr>"

lemma glist_sorts_witness:
  "\<exists>l' qs. glist_sort (Some (\<lambda>x y. x - y)) three_nodes = Some (Inr (0, l')) \<and> heap_list l' qs
     \<and> map snd qs = [10, 20, 30 :: int]"
proof -
  have "heap_list three_nodes [(4, 30), (1, 10), (2, 20)]"
    by (auto simp: heap_list_def three_nodes_def dom_def)
  moreover have "orderly (\<lambda>x y. x - y :: int)" by (auto simp: orderly_def)
  ultimately obtain l' qs where q: "glist_sort (Some (\<lambda>x y. x - y)) three_nodes = Some (Inr (0, l'))" "heap_list l' qs"
    "mset (map snd qs) = mset (map snd [(4 :: addr, 30), (1, 10), (2, 20)])" "sorted_wrt (\<lambda>x y. x - y \<le> 0) (map snd qs)"
    using glist_sorts[of three_nodes "[(4, 30), (1, 10), (2, 20)]" "\<lambda>x y. x - y"] by blast
  have "sort (map snd qs) = map snd qs" using q(4) by (intro sorted_sort_id) simp
  moreover have "sort (map snd qs) = sort [30, 10, 20]" using q(3) by (intro properties_for_sort) auto
  ultimately show ?thesis using q(1,2) by auto
qed

text \<open>\<open>glist_get\<close> refuses an index below zero, \<open>glist_delete\<close> takes it for that of the first node.\<close>

lemma delete_below_zero:
  assumes "heap_list l ((a, m) # ps)" "i < 0"
  shows "glist_get i l = Some (Inr None) \<and>
    (\<exists>l'. glist_delete i fr l = Some (Inr (0, l')) \<and> heap_list l' ps)"
  using delete_heap_list[OF assms(1), of i fr] assms(2) by (auto simp: glist_get_def)

end
