(* ===== verification/LogFiles.thy ===== *)
theory LogFiles
  imports CPrelude "HOL-Library.Sublist"
begin

text \<open>
  The log files of the kernel log reader and their rotation (\<open>klogcat/logkmsg.c\<close>, \<open>logkmsg_rotate_logs\<close>).

  A file system is a map from names to contents; reading a file that is there and renaming do not fail. \<open>PATH_MAX\<close>,
  which the platform sets, is a parameter: names are cut to it.
\<close>

type_synonym files = "jstr \<Rightarrow> jstr option"

definition snprintf :: "nat \<Rightarrow> jstr \<Rightarrow> jstr" where
  [js_eval]: "snprintf n s = take (n - 1) s"

text \<open>\<open>rename\<close> of a file that is not there changes nothing (\<open>ENOENT\<close>); otherwise the target is replaced.\<close>

definition rename_file :: "jstr \<Rightarrow> jstr \<Rightarrow> files \<Rightarrow> files" where
  [js_eval]: "rename_file a b fs = (case fs a of None \<Rightarrow> fs | Some c \<Rightarrow> (fs(a := None))(b \<mapsto> c))"

section \<open>Rotation\<close>

definition numbered :: "nat \<Rightarrow> jstr \<Rightarrow> nat \<Rightarrow> jstr" where
  [js_eval]: "numbered path_max name i = snprintf path_max (name @ 46 # num_str i)"

definition rotate_step :: "nat \<Rightarrow> jstr \<Rightarrow> nat \<Rightarrow> files \<Rightarrow> files" where
  [js_eval]: "rotate_step path_max name i fs =
     (let bufferfile2 = numbered path_max name i
      in if i - 1 = 0
         then rename_file (snprintf path_max name) bufferfile2 fs
         else let bufferfile1 = numbered path_max name (i - 1)
              in if fs bufferfile1 = None then fs else rename_file bufferfile1 bufferfile2 fs)"

primrec rotate_down :: "nat \<Rightarrow> jstr \<Rightarrow> nat \<Rightarrow> files \<Rightarrow> files" where
  "rotate_down path_max name 0 fs = fs"
| "rotate_down path_max name (Suc i) fs = rotate_down path_max name i (rotate_step path_max name (Suc i) fs)"

definition logkmsg_rotate_logs :: "nat \<Rightarrow> jstr \<Rightarrow> int \<Rightarrow> files \<Rightarrow> files" where
  [js_eval]: "logkmsg_rotate_logs path_max m_szLogFilename m_nCount fs =
     rotate_down path_max m_szLogFilename (nat m_nCount) fs"

section \<open>The names of the files\<close>

lemma length_num_str: "n < 10 ^ Suc k \<Longrightarrow> length (num_str n) \<le> Suc k"
proof (induction k arbitrary: n)
  case 0
  then have "num_str n = [48 + n]" by (subst num_str.simps) simp
  then show ?case by simp
next
  case (Suc k)
  have "n < 10 ^ Suc k * 10" using Suc.prems by (simp only: power_Suc mult.commute)
  then have "length (num_str (n div 10)) \<le> Suc k" by (intro Suc.IH less_mult_imp_div_less)
  moreover have "length (num_str n) \<le> Suc (length (num_str (n div 10)))" by (subst num_str.simps) simp
  ultimately show ?case by simp
qed

text \<open>\<open>slot 0\<close> is the file that is written, \<open>slot i\<close> the \<open>i\<close>-th old one.\<close>

definition slot :: "nat \<Rightarrow> jstr \<Rightarrow> nat \<Rightarrow> jstr" where
  [js_eval]: "slot path_max name i = (if i = 0 then snprintf path_max name else numbered path_max name i)"

definition name_fits :: "nat \<Rightarrow> jstr \<Rightarrow> bool" where
  [js_eval]: "name_fits path_max name \<longleftrightarrow> length name + 12 \<le> path_max"

lemma slot_fits: "name_fits path_max name \<Longrightarrow> i < 10000000000 \<Longrightarrow>
    slot path_max name i = (if i = 0 then name else name @ 46 # num_str i)"
  using length_num_str[of i 9] by (auto simp: slot_def numbered_def snprintf_def name_fits_def)

lemma num_str_eq: "num_str i = num_str j \<longleftrightarrow> i = j"
  using digits_val_num_str[of i] digits_val_num_str[of j] by metis

lemma slot_eq:
  assumes "name_fits path_max name" "i < 10000000000" "j < 10000000000"
  shows "slot path_max name i = slot path_max name j \<longleftrightarrow> i = j"
  unfolding slot_fits[OF assms(1,2)] slot_fits[OF assms(1,3)] by (simp add: num_str_eq)

text \<open>A step moves a file one slot up, if it is there.\<close>

lemma step_slots: "rotate_step path_max name (Suc i) fs =
    (case fs (slot path_max name i) of None \<Rightarrow> fs
     | Some c \<Rightarrow> (fs(slot path_max name i := None))(slot path_max name (Suc i) \<mapsto> c))"
  by (auto simp: rotate_step_def slot_def rename_file_def Let_def split: option.split)

lemma rotate_other:
  "\<forall>i \<le> n. x \<noteq> slot path_max name i \<Longrightarrow> rotate_down path_max name n fs x = fs x"
proof (induction n arbitrary: fs)
  case (Suc n)
  have "rotate_step path_max name (Suc n) fs x = fs x" using Suc.prems by (auto simp: step_slots split: option.split)
  then show ?case using Suc by simp
qed simp

lemma rotate_slot:
  assumes "name_fits path_max name" "n < 10000000000" "i \<le> n"
  shows "rotate_down path_max name n fs (slot path_max name i) =
    (if n = 0 then fs (slot path_max name 0)
     else if i = 0 then None
     else case fs (slot path_max name (i - 1)) of
            Some c \<Rightarrow> Some c
          | None \<Rightarrow> if i = n then fs (slot path_max name n) else None)"
  using assms(2,3)
proof (induction n arbitrary: fs i)
  case (Suc n)
  let ?s = "slot path_max name" and ?fs = "rotate_step path_max name (Suc n) fs"
  have eq: "?s a = ?s b \<longleftrightarrow> a = b" if "a \<le> Suc n" "b \<le> Suc n" for a b
    using slot_eq[OF assms(1), of a b] that Suc.prems(1) by simp
  have step: "?fs (?s j) = (if j = Suc n then (case fs (?s n) of Some c \<Rightarrow> Some c | None \<Rightarrow> fs (?s (Suc n)))
      else if j = n then None else fs (?s j))" if "j \<le> Suc n" for j
    by (cases "fs (?s n)") (simp_all add: step_slots eq that)
  show ?case
  proof (cases "i = Suc n")
    case True
    have "rotate_down path_max name n ?fs (?s (Suc n)) = ?fs (?s (Suc n))"
      using eq by (intro rotate_other) force
    then show ?thesis using True step[of "Suc n"] by simp
  next
    case False
    then have i: "i \<le> n" using Suc.prems by simp
    show ?thesis
    proof (cases "n = 0")
      case True
      then show ?thesis using i step[of 0] by simp
    next
      case n: False
      have "rotate_down path_max name n ?fs (?s i) = (if i = 0 then None else case ?fs (?s (i - 1)) of
            Some c \<Rightarrow> Some c | None \<Rightarrow> if i = n then ?fs (?s n) else None)"
        using Suc.IH[of i ?fs] Suc.prems i n by simp
      then show ?thesis using i n False step[of "i - 1"] step[of n] by (auto split: option.split)
    qed
  qed
qed simp

section \<open>What rotation does to the logs\<close>

definition content :: "jstr option \<Rightarrow> jstr" where
  [js_eval]: "content c = (case c of None \<Rightarrow> [] | Some s \<Rightarrow> s)"

lemma content_simps [simp]: "content None = []" "content (Some s) = s"
  by (simp_all add: content_def)

text \<open>The contents of the log files, from the oldest to the one that is written.\<close>

definition all_logs :: "nat \<Rightarrow> jstr \<Rightarrow> nat \<Rightarrow> files \<Rightarrow> jstr" where
  [js_eval]: "all_logs path_max name n fs = concat (map (\<lambda>i. content (fs (slot path_max name i))) (rev [0..<Suc n]))"

text \<open>There is no gap: when an old file is there, the newer ones are.\<close>

definition no_gap :: "nat \<Rightarrow> jstr \<Rightarrow> nat \<Rightarrow> files \<Rightarrow> bool" where
  [js_eval]: "no_gap path_max name n fs \<longleftrightarrow>
     (\<forall>i < n. fs (slot path_max name (Suc i)) \<noteq> None \<longrightarrow> fs (slot path_max name i) \<noteq> None)"

lemma rotate_no_gap:
  assumes "name_fits path_max name" "Suc m < 10000000000" "no_gap path_max name (Suc m) fs" "i \<le> Suc m"
  shows "rotate_down path_max name (Suc m) fs (slot path_max name i) =
    (case i of 0 \<Rightarrow> None | Suc j \<Rightarrow> fs (slot path_max name j))"
proof (cases i)
  case (Suc j)
  have "fs (slot path_max name (Suc m)) = None" if "fs (slot path_max name m) = None"
    using assms(3) that by (auto simp: no_gap_def)
  then show ?thesis using rotate_slot[OF assms(1,2,4), of fs] Suc by (auto split: option.split)
qed (use rotate_slot[OF assms(1,2), of 0 fs] in simp)

lemma rotate_all_logs:
  assumes "name_fits path_max name" "Suc m < 10000000000" "no_gap path_max name (Suc m) fs"
  shows "content (fs (slot path_max name (Suc m))) @ all_logs path_max name (Suc m) (rotate_down path_max name (Suc m) fs)
    = all_logs path_max name (Suc m) fs"
proof -
  let ?f = "\<lambda>i. content (fs (slot path_max name i))"
  let ?g = "\<lambda>i. content (rotate_down path_max name (Suc m) fs (slot path_max name i))"
  have g: "?g 0 = []" "\<And>i. i < Suc m \<Longrightarrow> ?g (Suc i) = ?f i"
    using rotate_no_gap[OF assms, of 0] rotate_no_gap[OF assms, of "Suc i" for i] by auto
  have split: "[0..<Suc (Suc m)] = 0 # map Suc [0..<Suc m]" by (subst upt_conv_Cons) (simp_all add: map_Suc_upt del: upt_Suc)
  have "map (?g \<circ> Suc) (rev [0..<Suc m]) = map ?f (rev [0..<Suc m])"
    by (rule map_cong) (use g(2) in \<open>simp_all del: upt_Suc\<close>)
  then have c: "concat (map (?g \<circ> Suc) (rev [0..<Suc m])) = concat (map ?f (rev [0..<Suc m]))" by (rule arg_cong)
  have "concat (map ?g (rev [0..<Suc (Suc m)])) = concat (map ?f (rev [0..<Suc m]))"
    unfolding split by (simp add: rev_map g(1) c del: upt_Suc rotate_down.simps)
  moreover have "concat (map ?f (rev [0..<Suc (Suc m)])) = ?f (Suc m) @ concat (map ?f (rev [0..<Suc m]))"
    by (simp only: upt_Suc_append rev_append rev.simps append.simps list.map concat.simps le0)
  ultimately show ?thesis by (simp only: all_logs_def)
qed

text \<open>C38: rotation moves every log file one place on, the oldest making room, wherever files are missing in
  between, and touches no other file.\<close>

theorem rotation_shifts:
  assumes "length name + 12 \<le> path_max" "0 < n" "n < 2147483648"
  shows "let fs' = logkmsg_rotate_logs path_max name (int n) fs; slot = (\<lambda>i. if i = 0 then name else name @ 46 # num_str i) in
    fs' name = None
    \<and> (\<forall>i < n. fs (slot i) \<noteq> None \<longrightarrow> fs' (slot (Suc i)) = fs (slot i))
    \<and> (\<forall>i < n. fs (slot i) = None \<longrightarrow> fs' (slot (Suc i)) = (if Suc i = n then fs (slot n) else None))
    \<and> (\<forall>x. (\<forall>i \<le> n. x \<noteq> slot i) \<longrightarrow> fs' x = fs x)"
proof -
  let ?s = "slot path_max name" and ?t = "\<lambda>i. if i = 0 then name else name @ 46 # num_str i"
  have f: "name_fits path_max name" using assms(1) by (simp add: name_fits_def)
  have s: "?s i = ?t i" if "i \<le> n" for i using slot_fits[OF f, of i] that assms(3) by simp
  have n: "n < 10000000000" using assms(3) by simp
  let ?fs = "logkmsg_rotate_logs path_max name (int n) fs"
  have r: "?fs = rotate_down path_max name n fs" by (simp add: logkmsg_rotate_logs_def)
  have "?fs name = None" using rotate_slot[OF f n, of 0 fs] s[of 0] assms(2) by (simp add: r)
  moreover have "?fs (?t (Suc i)) = (case fs (?t i) of Some c \<Rightarrow> Some c | None \<Rightarrow> if Suc i = n then fs (?t n) else None)"
    if "i < n" for i
    using rotate_slot[OF f n, of "Suc i" fs] s[of "Suc i"] s[of i] s[of n] that assms(2)
    by (simp add: r split: option.split)
  moreover have "?fs x = fs x" if "\<forall>i \<le> n. x \<noteq> ?t i" for x
    using rotate_other[of n x path_max name fs] s that by (simp add: r)
  ultimately show ?thesis by (auto simp: Let_def)
qed

definition sample_logs :: files where
  [js_eval]: "sample_logs = [js ''log'' \<mapsto> js ''c'', js ''log.1'' \<mapsto> js ''b'', js ''log.2'' \<mapsto> js ''a'', js ''x'' \<mapsto> js ''y'']"

lemma rotation_shifts_witness:
  "logkmsg_rotate_logs 4096 (js ''log'') 2 sample_logs (js ''log.1'') = Some (js ''c'')
   \<and> logkmsg_rotate_logs 4096 (js ''log'') 2 sample_logs (js ''log.2'') = Some (js ''b'')
   \<and> logkmsg_rotate_logs 4096 (js ''log'') 2 sample_logs (js ''log'') = None"
proof -
  have n: "js ''log'' @ 46 # num_str 1 = js ''log.1''" "js ''log'' @ 46 # num_str (Suc (Suc 0)) = js ''log.2''" by code_simp+
  have f: "sample_logs (js ''log'') = Some (js ''c'')" "sample_logs (js ''log.1'') = Some (js ''b'')" by code_simp+
  have "length (js ''log'') + 12 \<le> 4096" "(0::nat) < 2" "(2::nat) < 2147483648" by simp_all
  note r = rotation_shifts[OF this, of sample_logs, unfolded Let_def]
  have "Suc 0 = 1" "Suc 1 = 2" by simp_all
  then show ?thesis
    using r[THEN conjunct1] r[THEN conjunct2, THEN conjunct1, rule_format, of 0]
      r[THEN conjunct2, THEN conjunct1, rule_format, of 1] f n by simp
qed

end
