(* ===== verification/KernelLog.thy ===== *)
theory KernelLog
  imports LogFiles
begin

text \<open>
  The thread of klogcat that reads the kernel log and writes what is new (\<open>klogcat/logkmsg.c\<close>, \<open>thread_main\<close>,
  \<open>klogcat/str.c\<close>, \<open>strtrim\<close>).

  The kernel gives its whole buffer with every read. The thread keeps the last line it has seen, looks for it in the next
  buffer, and writes what follows. The events of the model are the reads, with what they return, and the removal of the log
  file by somebody else. Opening and writing the log file succeed.
\<close>

section \<open>Strings of C\<close>

definition c_str :: "jstr \<Rightarrow> jstr" where
  [js_eval]: "c_str s = takeWhile (\<lambda>c. c \<noteq> 0) s"

definition isspace :: "nat \<Rightarrow> bool" where
  [js_eval]: "isspace c \<longleftrightarrow> (9 \<le> c \<and> c \<le> 13) \<or> c = 32"

definition is_nl :: "nat \<Rightarrow> bool" where
  [js_eval]: "is_nl c \<longleftrightarrow> c = 10 \<or> c = 13"

text \<open>A pointer that goes back as long as it is not at the start and what it points to has a property.\<close>

fun ptr_back :: "(nat \<Rightarrow> bool) \<Rightarrow> jstr \<Rightarrow> nat \<Rightarrow> nat" where
  "ptr_back P s 0 = 0"
| "ptr_back P s (Suc i) = (if P (s ! Suc i) then ptr_back P s i else Suc i)"

text \<open>For the empty string \<open>strtrim\<close> starts before its first character.\<close>

definition strtrim :: "jstr \<Rightarrow> fault + jstr" where
  [js_eval]: "strtrim str =
     (if str = [] then Inl OutOfBounds
      else let e = ptr_back isspace str (length str - 1);
               s1 = (if isspace (str ! e) then take e str else take (e + 1) str);
               s2 = dropWhile isspace s1
           in Inr (if s2 \<noteq> [] then s2 else s1))"

section \<open>New records\<close>

datatype scan = NoNews | News jstr

definition find_news :: "jstr \<Rightarrow> jstr \<Rightarrow> scan" where
  [js_eval]: "find_news last_line kbuf =
     (if last_line \<noteq> []
      then case find_sub last_line (c_str kbuf) of
             Some i \<Rightarrow>
               (let ptr = dropWhile is_nl (dropWhile (\<lambda>c. \<not> is_nl c) (drop i (c_str kbuf)))
                in if ptr = [] then NoNews else News (drop (length (c_str kbuf) - length ptr) kbuf))
           | None \<Rightarrow> if kbuf = [] then NoNews else News kbuf
      else News kbuf)"

text \<open>The last line of what was read; in an empty buffer the pointer would start before it.\<close>

definition last_line_of :: "jstr \<Rightarrow> fault + jstr" where
  [js_eval]: "last_line_of head =
     (if head = [] then Inl OutOfBounds
      else let i1 = ptr_back is_nl head (length head - 1);
               i2 = ptr_back (\<lambda>c. \<not> is_nl c) head i1;
               i3 = (if i2 \<noteq> 0 then i2 + 1 else i2)
           in strtrim (take 1023 (c_str (drop i3 head))))"

section \<open>The thread\<close>

record klog_conf =
  m_nFileToSave :: bool
  m_nKBytes :: int
  m_nCount :: int
  m_nDumpAndExit :: bool
  m_szLogFilename :: jstr
  path_max :: nat

text \<open>The last line, whether the log file is open, the files, what was printed, and whether the thread goes on.\<close>

record reader =
  last_seen :: jstr
  fd_open :: bool
  logs :: files
  printed :: jstr
  working :: bool

datatype klog_event = ReadLog jstr | ReadError | LogRemoved

text \<open>\<open>kbuf\<close> has room for 192000 characters, and a zero is written behind the ones that were read.\<close>

definition kbuf_size :: nat where
  [js_eval]: "kbuf_size = 192000"

definition open_log :: "klog_conf \<Rightarrow> reader \<Rightarrow> reader" where
  [js_eval]: "open_log conf r =
     (if m_nFileToSave conf \<and> \<not> fd_open r
      then r\<lparr>fd_open := True,
             logs := (case logs r (m_szLogFilename conf) of
                        None \<Rightarrow> (logs r)(m_szLogFilename conf \<mapsto> []) | Some _ \<Rightarrow> logs r)\<rparr>
      else r)"

definition write_news :: "klog_conf \<Rightarrow> jstr \<Rightarrow> reader \<Rightarrow> fault + reader" where
  [js_eval]: "write_news conf head r =
     (if m_nFileToSave conf
      then case logs r (m_szLogFilename conf) of
             None \<Rightarrow> Inr (r\<lparr>fd_open := False\<rparr>)
           | Some c \<Rightarrow>
               (let r1 = r\<lparr>logs := (logs r)(m_szLogFilename conf \<mapsto> c @ head)\<rparr>
                in if m_nKBytes conf * 1024 < int_min \<or> int_max < m_nKBytes conf * 1024 then Inl Overflow
                   else if m_nKBytes conf * 1024 \<le> int (length (c @ head))
                   then Inr (r1\<lparr>fd_open := False,
                                logs := logkmsg_rotate_logs (path_max conf) (m_szLogFilename conf) (m_nCount conf) (logs r1)\<rparr>)
                   else Inr r1)
      else let r1 = r\<lparr>printed := printed r @ c_str head\<rparr>
           in Inr (if m_nDumpAndExit conf then r1\<lparr>working := False\<rparr> else r1))"

definition thread_main :: "klog_conf \<Rightarrow> klog_event \<Rightarrow> reader \<Rightarrow> fault + reader" where
  [js_eval]: "thread_main conf e r =
     (case e of
        LogRemoved \<Rightarrow> Inr (r\<lparr>logs := (logs r)(m_szLogFilename conf := None)\<rparr>)
      | ReadError \<Rightarrow> Inr (if working r then (open_log conf r)\<lparr>working := False, fd_open := False\<rparr> else r)
      | ReadLog kbuf \<Rightarrow>
          (if \<not> working r then Inr r
           else if kbuf_size \<le> length kbuf then Inl OutOfBounds
           else let r1 = open_log conf r
                in case find_news (last_seen r1) kbuf of
                     NoNews \<Rightarrow> Inr r1
                   | News head \<Rightarrow>
                       bind_res (last_line_of head) (\<lambda>l. write_news conf head (r1\<lparr>last_seen := l\<rparr>))))"

section \<open>Pointers that go back\<close>

lemma back_stop: "j \<le> i \<Longrightarrow> \<forall>k. j < k \<longrightarrow> k \<le> i \<longrightarrow> P (s ! k) \<Longrightarrow> j = 0 \<or> \<not> P (s ! j) \<Longrightarrow> ptr_back P s i = j"
proof (induction i)
  case (Suc i)
  show ?case
  proof (cases "j = Suc i")
    case False
    then show ?thesis using Suc by simp
  qed (use Suc.prems in auto)
qed simp

lemma strtrim_plain: "s \<noteq> [] \<Longrightarrow> \<not> isspace (hd s) \<Longrightarrow> \<not> isspace (last s) \<Longrightarrow> strtrim s = Inr s"
proof -
  assume s: "s \<noteq> []" "\<not> isspace (hd s)" "\<not> isspace (last s)"
  have "ptr_back isspace s (length s - 1) = length s - 1"
    using s by (intro back_stop) (auto simp: last_conv_nth)
  moreover have "dropWhile isspace s = s" using s(1,2) by (cases s) auto
  ultimately show ?thesis using s by (simp add: strtrim_def Let_def last_conv_nth)
qed

lemma strtrim_newline: "s \<noteq> [] \<Longrightarrow> \<not> isspace (hd s) \<Longrightarrow> \<not> isspace (last s) \<Longrightarrow> strtrim (s @ [10]) = Inr s"
proof -
  assume s: "s \<noteq> []" "\<not> isspace (hd s)" "\<not> isspace (last s)"
  have "ptr_back isspace (s @ [10]) (length s) = length s - 1"
    using s by (intro back_stop) (auto simp: last_conv_nth nth_append isspace_def)
  moreover have "dropWhile isspace s = s" using s(1,2) by (cases s) auto
  ultimately show ?thesis using s by (auto simp: strtrim_def Let_def last_conv_nth nth_append)
qed

section \<open>Logs of lines\<close>

text \<open>A line of the kernel log: not empty, at most 1023 characters, no line end or zero inside, no white space at its ends.\<close>

definition log_line :: "jstr \<Rightarrow> bool" where
  [js_eval]: "log_line l \<longleftrightarrow> l \<noteq> [] \<and> length l \<le> 1023 \<and> 0 \<notin> set l \<and> 10 \<notin> set l \<and> 13 \<notin> set l
     \<and> \<not> isspace (hd l) \<and> \<not> isspace (last l)"

definition log_text :: "jstr list \<Rightarrow> jstr" where
  [js_eval]: "log_text ls = concat (map (\<lambda>l. l @ [10]) ls)"

lemma log_text_simps [simp]:
  "log_text [] = []"
  "log_text (l # ls) = l @ 10 # log_text ls"
  "log_text (ks @ ls) = log_text ks @ log_text ls"
  by (simp_all add: log_text_def)

lemma log_text_Nil [simp]: "log_text ls = [] \<longleftrightarrow> ls = []"
  by (cases ls) auto

lemma c_str_text: "list_all log_line ls \<Longrightarrow> c_str (log_text ls) = log_text ls"
  by (induction ls) (auto simp: c_str_def log_line_def takeWhile_append2 takeWhile_eq_all_conv intro!: gr0I)

text \<open>A line without line ends that is no part of an earlier line is first found where it stands.\<close>

lemma starts_before: "10 \<notin> set p \<Longrightarrow> starts_with p (x @ 10 # s) \<Longrightarrow> starts_with p x"
  by (induction p x rule: starts_with.induct) auto

lemma find_sub_line: "p \<noteq> [] \<Longrightarrow> 10 \<notin> set p \<Longrightarrow> find_sub p u = None \<Longrightarrow>
    find_sub p (u @ 10 # s) = map_option ((+) (Suc (length u))) (find_sub p s)"
proof (induction u)
  case Nil
  then have "\<not> starts_with p (10 # s)" by (cases p) auto
  then show ?case by (auto simp: option.map_comp split: option.split)
next
  case (Cons c u)
  have "\<not> starts_with p (c # u)" "find_sub p u = None" using Cons.prems(3) by (auto split: if_splits)
  then have "\<not> starts_with p (c # u @ 10 # s)" using starts_before[of p "c # u" s] Cons.prems(2) by auto
  then show ?case using Cons.IH Cons.prems(1,2) \<open>find_sub p u = None\<close>
    by (cases "find_sub p s") auto
qed

lemma find_line: "p \<noteq> [] \<Longrightarrow> 10 \<notin> set p \<Longrightarrow> \<forall>u \<in> set us. find_sub p u = None \<Longrightarrow>
    find_sub p (log_text us @ p @ s) = Some (length (log_text us))"
proof (induction us)
  case Nil
  have "starts_with p (p @ s)" by simp
  then show ?case using Nil(1) by (cases "p @ s") auto
next
  case (Cons u us)
  then show ?case by (simp add: find_sub_line)
qed

lemma skip_line: "log_line l \<Longrightarrow> list_all log_line vs \<Longrightarrow>
    dropWhile is_nl (dropWhile (\<lambda>c. \<not> is_nl c) (l @ 10 # log_text vs)) = log_text vs"
proof -
  assume l: "log_line l" "list_all log_line vs"
  have "dropWhile (\<lambda>c. \<not> is_nl c) (l @ 10 # log_text vs) = 10 # log_text vs"
    using l(1) by (subst dropWhile_append2) (auto simp: log_line_def is_nl_def)
  moreover have "dropWhile is_nl (log_text vs) = log_text vs"
  proof (cases vs)
    case (Cons v ws)
    then obtain c t where "v = c # t" "\<not> is_nl c"
      using l(2) by (cases v) (auto simp: log_line_def is_nl_def isspace_def)
    then show ?thesis using Cons by simp
  qed simp
  ultimately show ?thesis by (simp add: is_nl_def)
qed

text \<open>After a line that was seen, exactly the lines behind it are new.\<close>

lemma find_news_lines:
  assumes "list_all log_line us" "log_line l" "list_all log_line vs" "\<forall>u \<in> set us. find_sub l u = None"
  shows "find_news l (log_text (us @ l # vs)) = (if vs = [] then NoNews else News (log_text vs))"
proof -
  have c: "c_str (log_text (us @ l # vs)) = log_text us @ l @ 10 # log_text vs"
    using assms(1-3) by (subst c_str_text) auto
  have l: "l \<noteq> []" "10 \<notin> set l" using assms(2) by (auto simp: log_line_def)
  have "find_sub l (log_text us @ l @ 10 # log_text vs) = Some (length (log_text us))"
    using l assms(4) by (rule find_line)
  then show ?thesis using l skip_line[OF assms(2,3)] unfolding find_news_def c by simp
qed

lemma last_line_lines:
  assumes "list_all log_line us" "log_line l"
  shows "last_line_of (log_text (us @ [l])) = Inr l"
proof -
  let ?s = "log_text us @ l @ [10]" and ?n = "length (log_text us)"
  have l: "l \<noteq> []" "length l \<le> 1023" "0 \<notin> set l" "\<not> isspace (hd l)" "\<not> isspace (last l)" "\<forall>c \<in> set l. \<not> is_nl c"
    using assms(2) by (auto simp: log_line_def is_nl_def)
  have at: "\<not> is_nl (?s ! k)" if "?n \<le> k" "k \<le> ?n + length l - 1" for k
  proof -
    have "k - ?n < length l" using that l(1) by (cases l) auto
    then show ?thesis using l(6) that(1) by (simp add: nth_append)
  qed
  have i1: "ptr_back is_nl ?s (?n + length l) = ?n + length l - 1"
  proof (rule back_stop)
    have "?n \<le> ?n + length l - 1" using l(1) by (cases l) auto
    then show "?n + length l - 1 = 0 \<or> \<not> is_nl (?s ! (?n + length l - 1))" using at by blast
    have "k = ?n + length l" if "?n + length l - 1 < k" "k \<le> ?n + length l" for k using that by linarith
    then show "\<forall>k. ?n + length l - 1 < k \<longrightarrow> k \<le> ?n + length l \<longrightarrow> is_nl (?s ! k)"
      by (auto simp: nth_append is_nl_def)
  qed simp
  have i3: "(let i2 = ptr_back (\<lambda>c. \<not> is_nl c) ?s (?n + length l - 1) in if i2 \<noteq> 0 then i2 + 1 else i2) = ?n"
  proof (cases us rule: rev_cases)
    case Nil
    then have "ptr_back (\<lambda>c. \<not> is_nl c) ?s (?n + length l - 1) = 0" using at by (intro back_stop) auto
    then show ?thesis using Nil by (simp add: Let_def)
  next
    case (snoc vs v)
    then have v: "v \<noteq> []" using assms(1) by (auto simp: log_line_def)
    have n: "?n - 1 < ?n" "?s ! (?n - 1) = 10" "0 < ?n - 1"
      using snoc v by (auto simp: nth_append)
    then have "ptr_back (\<lambda>c. \<not> is_nl c) ?s (?n + length l - 1) = ?n - 1"
      using at l(1) by (intro back_stop) (auto simp: is_nl_def)
    then show ?thesis using n by (simp add: Let_def)
  qed
  have "c_str (drop ?n ?s) = l @ [10]" using l(3) by (auto simp: c_str_def takeWhile_eq_all_conv intro!: gr0I)
  moreover have "strtrim (take 1023 (l @ [10])) = Inr l"
  proof (cases "length l = 1023")
    case True
    then show ?thesis using strtrim_plain[OF l(1,4,5)] by simp
  next
    case False
    then show ?thesis using strtrim_newline[OF l(1,4,5)] l(2) by simp
  qed
  ultimately show ?thesis using i1 i3 by (simp add: last_line_of_def Let_def)
qed

section \<open>Files that are written and rotated\<close>

text \<open>What holds between two reads when \<open>done\<close> has been written: what is not in the files any more, \<open>lost\<close>, is the oldest part,
  every old file has the size that made it old, and something was lost only when all the old files are there.\<close>

definition log_limit :: "klog_conf \<Rightarrow> int" where
  [js_eval]: "log_limit conf = m_nKBytes conf * 1024"

definition log_slot :: "klog_conf \<Rightarrow> nat \<Rightarrow> jstr" where
  [js_eval]: "log_slot conf i = slot (path_max conf) (m_szLogFilename conf) i"

definition log_count :: "klog_conf \<Rightarrow> nat" where
  [js_eval]: "log_count conf = nat (m_nCount conf)"

definition written :: "klog_conf \<Rightarrow> files \<Rightarrow> jstr" where
  [js_eval]: "written conf fs = all_logs (path_max conf) (m_szLogFilename conf) (log_count conf) fs"

definition conf_ok :: "klog_conf \<Rightarrow> bool" where
  [js_eval]: "conf_ok conf \<longleftrightarrow> m_nFileToSave conf \<and> name_fits (path_max conf) (m_szLogFilename conf)
     \<and> m_nCount conf < 2147483648 \<and> 0 \<le> m_nKBytes conf \<and> m_nKBytes conf * 1024 \<le> int_max"

definition kept :: "klog_conf \<Rightarrow> jstr \<Rightarrow> jstr \<Rightarrow> files \<Rightarrow> bool" where
  "kept conf lost done fs \<longleftrightarrow>
     lost @ written conf fs = done
     \<and> (\<forall>i. 0 < i \<longrightarrow> i < log_count conf \<longrightarrow> fs (log_slot conf (Suc i)) \<noteq> None \<longrightarrow> fs (log_slot conf i) \<noteq> None)
     \<and> (\<forall>i c. 0 < i \<longrightarrow> i \<le> log_count conf \<longrightarrow> fs (log_slot conf i) = Some c \<longrightarrow> log_limit conf \<le> int (length c))
     \<and> (lost \<noteq> [] \<longrightarrow> 0 < log_count conf \<and> fs (log_slot conf (log_count conf)) \<noteq> None)"

lemma written_split: "written conf fs =
    concat (map (\<lambda>i. content (fs (log_slot conf i))) (rev [1..<Suc (log_count conf)])) @ content (fs (log_slot conf 0))"
proof -
  have "[0..<Suc n] = 0 # [1..<Suc n]" for n by (subst upt_conv_Cons) simp_all
  then show ?thesis by (simp add: written_def all_logs_def log_slot_def del: upt_Suc)
qed

lemma count_bound: "conf_ok conf \<Longrightarrow> log_count conf < 10000000000"
  unfolding conf_ok_def log_count_def by linarith

lemma conf_slots:
  assumes "conf_ok conf" "i \<le> log_count conf" "j \<le> log_count conf"
  shows "log_slot conf i = log_slot conf j \<longleftrightarrow> i = j"
proof -
  show ?thesis using assms count_bound[OF assms(1)] slot_eq[of "path_max conf" "m_szLogFilename conf" i j]
    by (simp add: conf_ok_def log_slot_def)
qed

lemma slot_0: "conf_ok conf \<Longrightarrow> log_slot conf 0 = m_szLogFilename conf"
  by (simp add: conf_ok_def log_slot_def slot_fits)

lemma kept_write:
  assumes "conf_ok conf" "kept conf lost done fs" "content (fs (log_slot conf 0)) = c"
  shows "kept conf lost (done @ h) (fs(log_slot conf 0 \<mapsto> c @ h))"
proof -
  let ?fs = "fs(log_slot conf 0 \<mapsto> c @ h)"
  have same: "?fs (log_slot conf i) = fs (log_slot conf i)" if "0 < i" "i \<le> log_count conf" for i
    using conf_slots[OF assms(1), of i 0] that by simp
  have m: "map (\<lambda>i. content (?fs (log_slot conf i))) (rev [1..<Suc (log_count conf)])
      = map (\<lambda>i. content (fs (log_slot conf i))) (rev [1..<Suc (log_count conf)])"
    by (rule map_cong) (simp_all add: same del: fun_upd_apply upt_Suc)
  have "written conf ?fs = written conf fs @ h" unfolding written_split m using assms(3) by simp
  then show ?thesis using assms(2) same unfolding kept_def by (auto simp del: fun_upd_apply)
qed

lemma kept_rotate:
  assumes ok: "conf_ok conf" and k: "kept conf lost done fs" and c: "fs (log_slot conf 0) = Some c"
    and big: "log_limit conf \<le> int (length c)"
  shows "\<exists>lost'. kept conf lost' done (logkmsg_rotate_logs (path_max conf) (m_szLogFilename conf) (m_nCount conf) fs)"
proof (cases "log_count conf")
  case 0
  then show ?thesis using k by (auto simp: logkmsg_rotate_logs_def log_count_def)
next
  case (Suc m)
  let ?fs = "logkmsg_rotate_logs (path_max conf) (m_szLogFilename conf) (m_nCount conf) fs"
  have f: "name_fits (path_max conf) (m_szLogFilename conf)" and m: "Suc m < 10000000000"
    using ok count_bound[OF ok] Suc by (simp_all add: conf_ok_def)
  have r: "?fs = rotate_down (path_max conf) (m_szLogFilename conf) (Suc m) fs"
    using Suc by (simp add: logkmsg_rotate_logs_def log_count_def)
  have "fs (log_slot conf i) \<noteq> None" if "i < Suc m" "fs (log_slot conf (Suc i)) \<noteq> None" for i
    using k c that Suc unfolding kept_def by (cases "i = 0") auto
  then have g: "no_gap (path_max conf) (m_szLogFilename conf) (Suc m) fs"
    by (auto simp: no_gap_def log_slot_def)
  have at: "?fs (log_slot conf i) = (case i of 0 \<Rightarrow> None | Suc j \<Rightarrow> fs (log_slot conf j))" if "i \<le> Suc m" for i
    using rotate_no_gap[OF f m g that] unfolding r log_slot_def .
  let ?old = "content (fs (log_slot conf (Suc m)))"
  have "?old @ written conf ?fs = written conf fs"
    using rotate_all_logs[OF f m g] Suc by (simp add: r written_def log_slot_def)
  then have "(lost @ ?old) @ written conf ?fs = done" using k by (simp add: kept_def)
  moreover have "?fs (log_slot conf i) \<noteq> None" if "0 < i" "i < Suc m" "?fs (log_slot conf (Suc i)) \<noteq> None" for i
  proof -
    obtain j where j: "i = Suc j" using \<open>0 < i\<close> gr0_conv_Suc by blast
    have "fs (log_slot conf i) \<noteq> None" using at[of "Suc i"] that(2,3) by simp
    then have "fs (log_slot conf j) \<noteq> None" using g j that(2) by (auto simp: no_gap_def log_slot_def)
    then show ?thesis using at[of i] that(2) j by simp
  qed
  moreover have "log_limit conf \<le> int (length d)" if "0 < i" "i \<le> Suc m" "?fs (log_slot conf i) = Some d" for i d
  proof -
    obtain j where j: "i = Suc j" using \<open>0 < i\<close> gr0_conv_Suc by blast
    then have "fs (log_slot conf j) = Some d" using at[of i] that(2,3) by simp
    then show ?thesis using k c big j that(2) Suc unfolding kept_def by (cases "j = 0") auto
  qed
  moreover have "?fs (log_slot conf (Suc m)) \<noteq> None" if "lost @ ?old \<noteq> []"
  proof -
    have "fs (log_slot conf (Suc m)) \<noteq> None" using that k Suc by (cases "lost = []"; cases "fs (log_slot conf (Suc m))") (auto simp: kept_def)
    then have "fs (log_slot conf m) \<noteq> None" using g by (auto simp: no_gap_def log_slot_def)
    then show ?thesis using at[of "Suc m"] by simp
  qed
  ultimately have "kept conf (lost @ ?old) done ?fs" unfolding kept_def Suc by simp
  then show ?thesis by blast
qed

text \<open>When something was lost, the files hold at least as much as all the old files must have.\<close>

lemma kept_size:
  assumes "kept conf lost done fs" "lost \<noteq> []" "0 \<le> log_limit conf"
  shows "int (log_count conf) * log_limit conf \<le> int (length (written conf fs))"
proof -
  have all: "\<exists>c. fs (log_slot conf i) = Some c" if "0 < i" "i \<le> log_count conf" for i
    using that(2,1)
  proof (induction rule: inc_induct)
    case base
    then show ?case using assms(1,2) by (auto simp: kept_def)
  next
    case (step i)
    then show ?case using assms(1) by (force simp: kept_def)
  qed
  have "int k * log_limit conf \<le> int (length (concat (map (\<lambda>i. content (fs (log_slot conf i))) (rev [1..<Suc k]))))"
    if "k \<le> log_count conf" for k
    using that
  proof (induction k)
    case (Suc k)
    obtain c where c: "fs (log_slot conf (Suc k)) = Some c" using all[of "Suc k"] Suc.prems by auto
    then have "log_limit conf \<le> int (length c)" using assms(1) Suc.prems by (auto simp: kept_def)
    then show ?case using Suc c by (simp add: algebra_simps)
  qed simp
  from this[of "log_count conf"] show ?thesis unfolding written_split by simp
qed

section \<open>The whole log\<close>

text \<open>What a read gives: the lines from \<open>a\<close> to \<open>b\<close>. The reads that follow the first still have the last line that was seen.\<close>

definition window :: "jstr list \<Rightarrow> nat \<times> nat \<Rightarrow> jstr" where
  [js_eval]: "window ls ab = log_text (take (snd ab - fst ab) (drop (fst ab) ls))"

fun windows_ok :: "nat \<Rightarrow> nat \<Rightarrow> (nat \<times> nat) list \<Rightarrow> bool" where
  "windows_ok len p [] = True"
| "windows_ok len p ((a, b) # ws) = (a < p \<and> p \<le> b \<and> b \<le> len \<and> windows_ok len b ws)"

fun last_end :: "nat \<Rightarrow> (nat \<times> nat) list \<Rightarrow> nat" where
  "last_end p [] = p"
| "last_end p ((a, b) # ws) = last_end b ws"

definition all_different :: "jstr list \<Rightarrow> bool" where
  [js_eval]: "all_different ls \<longleftrightarrow> (\<forall>j < length ls. \<forall>i < j. find_sub (ls ! j) (ls ! i) = None)"

definition start_reader :: "files \<Rightarrow> reader" where
  [js_eval]: "start_reader fs = \<lparr>last_seen = [], fd_open = False, logs = fs, printed = [], working = True\<rparr>"

definition reading :: "klog_conf \<Rightarrow> jstr list \<Rightarrow> nat \<Rightarrow> nat \<Rightarrow> reader \<Rightarrow> bool" where
  "reading conf ls a p r \<longleftrightarrow> working r \<and> last_seen r = ls ! (p - 1)
     \<and> (fd_open r \<longrightarrow> logs r (log_slot conf 0) \<noteq> None)
     \<and> (\<exists>lost. kept conf lost (window ls (a, p)) (logs r))"

lemma write_news_ok:
  assumes ok: "conf_ok conf" and k: "kept conf lost done (logs r)" and c: "logs r (log_slot conf 0) = Some c"
  shows "\<exists>r'. write_news conf h r = Inr r' \<and> working r' = working r \<and> last_seen r' = last_seen r
    \<and> (fd_open r' \<longrightarrow> logs r' (log_slot conf 0) \<noteq> None) \<and> (\<exists>lost. kept conf lost (done @ h) (logs r'))"
proof -
  let ?fs = "(logs r)(log_slot conf 0 \<mapsto> c @ h)"
  have w: "kept conf lost (done @ h) ?fs" by (rule kept_write[OF ok k]) (simp add: c)
  have o: "m_nFileToSave conf" "log_slot conf 0 = m_szLogFilename conf" "\<not> m_nKBytes conf * 1024 < int_min"
    "\<not> int_max < m_nKBytes conf * 1024"
    using ok slot_0[OF ok] by (auto simp: conf_ok_def int_min_def)
  show ?thesis
  proof (cases "log_limit conf \<le> int (length (c @ h))")
    case True
    then obtain lost' where
      "kept conf lost' (done @ h) (logkmsg_rotate_logs (path_max conf) (m_szLogFilename conf) (m_nCount conf) ?fs)"
      using kept_rotate[OF ok w] by auto
    then show ?thesis using o c True by (auto simp: write_news_def log_limit_def Let_def)
  next
    case False
    then show ?thesis using o c w by (auto simp: write_news_def log_limit_def Let_def)
  qed
qed

text \<open>One read: exactly the lines behind the last one that was seen are written.\<close>

lemma window_split:
  assumes "a < p" "p \<le> b" "b \<le> length ls"
  shows "window ls (a, b) = log_text (take (p - 1 - a) (drop a ls) @ ls ! (p - 1) # take (b - p) (drop p ls))"
proof -
  have "take (b - a) (drop a ls) = take (p - 1 - a) (drop a ls) @ take (b - (p - 1)) (drop (p - 1) ls)"
    using assms take_add[of "p - 1 - a" "b - (p - 1)" "drop a ls"] by simp
  also have "take (b - (p - 1)) (drop (p - 1) ls) = ls ! (p - 1) # take (b - p) (drop p ls)"
  proof -
    have "drop (p - 1) ls = ls ! (p - 1) # drop p ls" using assms Cons_nth_drop_Suc[of "p - 1" ls] by simp
    moreover have "b - (p - 1) = Suc (b - p)" using assms by simp
    ultimately show ?thesis by simp
  qed
  finally show ?thesis by (simp add: window_def)
qed

lemma window_join: "a \<le> p \<Longrightarrow> p \<le> b \<Longrightarrow> window ls (a, p) @ log_text (take (b - p) (drop p ls)) = window ls (a, b)"
  using take_add[of "p - a" "b - p" "drop a ls"] by (simp add: window_def flip: log_text_simps(3))

lemma lines_of: "list_all log_line ls \<Longrightarrow> list_all log_line (take n (drop m ls))"
  by (auto simp: list_all_iff dest: in_set_takeD in_set_dropD)

lemma last_of_lines:
  assumes "list_all log_line ls" "a < b" "b \<le> length ls"
  shows "last_line_of (window ls (a, b)) = Inr (ls ! (b - 1))"
proof -
  have "window ls (a, b) = log_text (take (b - 1 - a) (drop a ls) @ [ls ! (b - 1)])"
    using window_split[of a b b ls] assms by simp
  moreover have "log_line (ls ! (b - 1))" using assms by (simp add: list_all_length)
  ultimately show ?thesis using last_line_lines[OF lines_of[OF assms(1)]] by simp
qed

lemma open_log_ok:
  assumes "conf_ok conf" "kept conf lost done (logs r)" "fd_open r \<longrightarrow> logs r (log_slot conf 0) \<noteq> None"
  shows "kept conf lost done (logs (open_log conf r))" "\<exists>c. logs (open_log conf r) (log_slot conf 0) = Some c"
    "working (open_log conf r) = working r" "last_seen (open_log conf r) = last_seen r"
    "fd_open (open_log conf r)"
proof -
  have o: "m_nFileToSave conf" "m_szLogFilename conf = log_slot conf 0"
    using assms(1) slot_0[OF assms(1)] by (simp_all add: conf_ok_def)
  show "kept conf lost done (logs (open_log conf r))"
    using o assms(2) kept_write[OF assms(1,2), of "[]" "[]"] by (auto simp: open_log_def split: option.split)
  show "\<exists>c. logs (open_log conf r) (log_slot conf 0) = Some c"
    using o assms(3) by (auto simp: open_log_def split: option.split)
qed (use assms(1) in \<open>simp_all add: open_log_def conf_ok_def\<close>)

lemma read_ok:
  assumes ok: "conf_ok conf" and ls: "list_all log_line ls" "all_different ls" and r: "reading conf ls a0 p r"
    and ab: "a0 < p" "a < p" "p \<le> b" "b \<le> length ls" and size: "length (window ls (a, b)) < kbuf_size"
  shows "\<exists>r'. thread_main conf (ReadLog (window ls (a, b))) r = Inr r' \<and> reading conf ls a0 b r'"
proof -
  let ?us = "take (p - 1 - a) (drop a ls)" and ?l = "ls ! (p - 1)" and ?vs = "take (b - p) (drop p ls)"
  obtain lost where k: "kept conf lost (window ls (a0, p)) (logs r)" and w: "working r" "last_seen r = ?l"
    "fd_open r \<longrightarrow> logs r (log_slot conf 0) \<noteq> None" using r by (auto simp: reading_def)
  note o = open_log_ok[OF ok k w(3)]
  have l: "log_line ?l" using ls(1) ab by (simp add: list_all_length)
  have "find_sub ?l u = None" if u: "u \<in> set ?us" for u
  proof -
    obtain i where "i < p - 1 - a" "u = ls ! (a + i)" using u ab by (auto simp: in_set_conv_nth)
    then show ?thesis using ls(2) ab by (simp add: all_different_def)
  qed
  then have news: "find_news ?l (window ls (a, b)) = (if ?vs = [] then NoNews else News (log_text ?vs))"
    using find_news_lines[OF lines_of[OF ls(1)] l lines_of[OF ls(1)]] window_split[OF ab(2-4)] by simp
  show ?thesis
  proof (cases "?vs = []")
    case True
    then have "b = p \<or> length ls \<le> p" using ab by simp
    then have "b = p" using ab by linarith
    then show ?thesis using \<open>?vs = []\<close> news size w o k ab by (auto simp: thread_main_def reading_def)
  next
    case False
    then have pb: "p < b" using ab by auto
    have "log_text ?vs = window ls (p, b)" by (simp add: window_def)
    then have last: "last_line_of (log_text ?vs) = Inr (ls ! (b - 1))" using last_of_lines[OF ls(1) pb ab(4)] by simp
    let ?r = "open_log conf r\<lparr>last_seen := ls ! (b - 1)\<rparr>"
    obtain c where "logs ?r (log_slot conf 0) = Some c" using o(2) by auto
    moreover have "kept conf lost (window ls (a0, p)) (logs ?r)" using o(1) by simp
    ultimately obtain r' lost' where r': "write_news conf (log_text ?vs) ?r = Inr r'" "working r'"
      "last_seen r' = ls ! (b - 1)" "fd_open r' \<longrightarrow> logs r' (log_slot conf 0) \<noteq> None"
      "kept conf lost' (window ls (a0, p) @ log_text ?vs) (logs r')"
      using write_news_ok[OF ok, of lost "window ls (a0, p)" ?r c "log_text ?vs"] o(3) w(1) by auto
    have "thread_main conf (ReadLog (window ls (a, b))) r = Inr r'"
      using False news size w o(4) last r'(1) by (simp add: thread_main_def)
    moreover have "window ls (a0, p) @ log_text ?vs = window ls (a0, b)" using ab by (intro window_join) simp_all
    ultimately show ?thesis using r' by (auto simp: reading_def)
  qed
qed

lemma reads_ok:
  assumes ok: "conf_ok conf" and ls: "list_all log_line ls" "all_different ls"
  shows "reading conf ls a0 p r \<Longrightarrow> a0 < p \<Longrightarrow> windows_ok (length ls) p ws \<Longrightarrow>
    \<forall>w \<in> set ws. length (window ls w) < kbuf_size \<Longrightarrow>
    \<exists>r'. run_steps (thread_main conf) (map (\<lambda>w. ReadLog (window ls w)) ws) r = Inr r' \<and> reading conf ls a0 (last_end p ws) r'"
proof (induction p ws arbitrary: r rule: last_end.induct)
  case (2 p a b ws)
  then obtain r1 where "thread_main conf (ReadLog (window ls (a, b))) r = Inr r1" "reading conf ls a0 b r1"
    using read_ok[OF ok ls, of a0 p r a b] by auto
  then show ?case using 2 by simp
qed simp

lemma first_read_ok:
  assumes ok: "conf_ok conf" and ls: "list_all log_line ls" and ab: "a < b" "b \<le> length ls"
    and size: "length (window ls (a, b)) < kbuf_size" and fs: "\<forall>i \<le> log_count conf. fs (log_slot conf i) = None"
  shows "\<exists>r. thread_main conf (ReadLog (window ls (a, b))) (start_reader fs) = Inr r \<and> reading conf ls a b r"
proof -
  let ?r = "start_reader fs" and ?h = "window ls (a, b)"
  have "written conf fs = []" unfolding written_split using fs by auto
  then have k: "kept conf [] [] (logs ?r)" using fs by (auto simp: kept_def start_reader_def)
  have "fd_open ?r \<longrightarrow> logs ?r (log_slot conf 0) \<noteq> None" by (simp add: start_reader_def)
  note o = open_log_ok[OF ok k this]
  let ?r1 = "open_log conf ?r\<lparr>last_seen := ls ! (b - 1)\<rparr>"
  obtain c where "logs ?r1 (log_slot conf 0) = Some c" using o(2) by auto
  moreover have "kept conf [] [] (logs ?r1)" using o(1) by simp
  ultimately obtain r' lost' where r': "write_news conf ?h ?r1 = Inr r'" "working r'"
    "last_seen r' = ls ! (b - 1)" "fd_open r' \<longrightarrow> logs r' (log_slot conf 0) \<noteq> None" "kept conf lost' ?h (logs r')"
    using write_news_ok[OF ok, of "[]" "[]" ?r1 c ?h] o(3) by (auto simp: start_reader_def)
  have "find_news (last_seen (open_log conf ?r)) ?h = News ?h" using o(4) by (simp add: find_news_def start_reader_def)
  then have "thread_main conf (ReadLog ?h) ?r = Inr r'"
    using size last_of_lines[OF ls ab] r'(1) by (simp add: thread_main_def start_reader_def)
  then show ?thesis using r' by (auto simp: reading_def)
qed


definition sample_lines :: "jstr list" where
  [js_eval]: "sample_lines = [js ''<6>[1.0] usb'', js ''<6>[2.0] net'', js ''<4>[3.5] oom'']"

definition klog_sample :: klog_conf where
  [js_eval]: "klog_sample = \<lparr>m_nFileToSave = True, m_nKBytes = 0, m_nCount = 4, m_nDumpAndExit = False,
     m_szLogFilename = js ''/data/k.txt'', path_max = 4096\<rparr>"


text \<open>
  What the hypotheses exclude. A line that is repeated is found where it stands first, so everything behind it is written
  again with every read. An empty first read makes the thread look for the last line before the buffer. When the
  log file is removed, the records of the next read are taken as seen before they would be written, and are lost.
\<close>

lemma repeated_line_written_again:
  assumes "log_line l" "log_line m" "find_sub m l = None" "find_sub l m = None"
  shows "find_news l (log_text [l, m, l]) = News (log_text [m, l])"
  using find_news_lines[of "[]" l "[m, l]"] assms(1,2) by simp

lemma empty_first_read: "working r \<Longrightarrow> last_seen r = [] \<Longrightarrow> thread_main conf (ReadLog []) r = Inl OutOfBounds"
  by (simp add: thread_main_def kbuf_size_def open_log_def find_news_def last_line_of_def Let_def)

lemma removed_log_loses:
  "map_sum id (\<lambda>r. logs r (js ''/data/k.txt'') = None \<and> last_seen r = js ''b'')
     (run_steps (thread_main (klog_sample\<lparr>m_nKBytes := 1\<rparr>)) [ReadLog (log_text [js ''a'']), LogRemoved, ReadLog (log_text [js ''a'', js ''b''])]
       (start_reader (\<lambda>_. None)))
   = Inr True"
  by code_simp

text \<open>A read that fills the buffer is followed by a zero behind it: the old log is read with room for the whole buffer.\<close>

lemma full_read: "working r \<Longrightarrow> kbuf_size \<le> length kbuf \<Longrightarrow> thread_main conf (ReadLog kbuf) r = Inl OutOfBounds"
  by (simp add: thread_main_def)

section \<open>The services\<close>

text \<open>
  When the kernel log can not be read a service gives it, in pieces; \<open>None\<close> is a piece that could not be read. Afterwards
  an incomplete last line is cut, and of several line ends at the end only one is kept. \<open>mem\<close> is the buffer with
  what it holds behind the \<open>count\<close> characters.
\<close>

fun read_pieces :: "nat \<Rightarrow> jstr option list \<Rightarrow> jstr \<Rightarrow> jstr option" where
  "read_pieces len [] buffer = Some buffer"
| "read_pieces len (None # ps) buffer = None"
| "read_pieces len (Some p # ps) buffer =
     (if p = [] then Some buffer
      else let buffer' = buffer @ take (len - length buffer) p
           in if len \<le> length buffer' then Some buffer' else read_pieces len ps buffer')"

definition fix_count :: "jstr \<Rightarrow> nat \<Rightarrow> fault + nat" where
  [js_eval]: "fix_count mem count =
     (if count = 0 then Inr 0
      else if mem ! (count - 1) = 10
      then let e = ptr_back is_nl mem (count - 1); rlen = count - 1 - e
           in if length mem \<le> e + 2 then Inl OutOfBounds
              else if mem ! (e + 1) = 10 \<and> is_nl (mem ! (e + 2)) then Inr (count + 1 - rlen) else Inr count
      else let e = ptr_back (\<lambda>c. c \<noteq> 10) mem (count - 1)
           in if mem ! e = 10 then Inr (count - (count - 1 - e)) else Inr count)"

lemma read_pieces_bound: "read_pieces len ps buffer = Some s \<Longrightarrow> length buffer \<le> len \<Longrightarrow> length s \<le> len"
  by (induction len ps buffer rule: read_pieces.induct) (auto simp: Let_def split: if_splits)

text \<open>An incomplete line at the end is cut.\<close>

lemma fix_count_partial:
  assumes "ls \<noteq> []" "part \<noteq> []" "10 \<notin> set part"
  shows "fix_count (log_text ls @ part @ rest) (length (log_text ls @ part)) = Inr (length (log_text ls))"
proof -
  let ?n = "length (log_text ls)" and ?mem = "log_text ls @ part @ rest"
  obtain k where k: "?n = Suc k" using assms(1) by (cases "log_text ls") auto
  have end': "?mem ! k = 10"
  proof (cases ls rule: rev_cases)
    case (snoc us u)
    then have "k = length (log_text us) + length u" using k by simp
    then show ?thesis using snoc by (simp add: nth_append)
  qed (use assms(1) in simp)
  have part: "?mem ! j \<noteq> 10" if "?n \<le> j" "j < ?n + length part" for j
  proof -
    have "?mem ! j = part ! (j - ?n)" "j - ?n < length part" using that by (auto simp: nth_append)
    then show ?thesis using assms(3) by (metis nth_mem)
  qed
  have "0 < length part" using assms(2) by simp
  then have "?n \<le> ?n + length part - 1" "?n + length part - 1 < ?n + length part" by linarith+
  then have "?mem ! (?n + length part - 1) \<noteq> 10" by (rule part)
  moreover have "ptr_back (\<lambda>c. c \<noteq> 10) ?mem (?n + length part - 1) = k"
    by (rule back_stop) (use k end' part in auto)
  ultimately show ?thesis using end' k by (simp add: fix_count_def)
qed

section \<open>Starting\<close>

text \<open>
  The options as \<open>getopt_long\<close> gives them. Its last result, -1, is kept in a \<open>char\<close>: where that type has no sign the
  comparison with -1 fails, the \<open>default\<close> case runs the reader and the program ends there; where it has a sign the loop
  ends and the program ends without doing anything.
\<close>

record klog_opts =
  m_nHelp :: bool
  o_conf :: klog_conf
  m_nDumpType :: nat
  m_nEnableDebug :: bool

datatype klog_run = EndAtOnce | ShowUsage | RunReader

fun strcmp :: "jstr \<Rightarrow> jstr \<Rightarrow> int" where
  "strcmp [] [] = 0"
| "strcmp [] (d # t) = - int d"
| "strcmp (c # s) [] = int c"
| "strcmp (c # s) (d # t) = (if c = d then strcmp s t else int c - int d)"

definition atoi :: "jstr \<Rightarrow> int" where
  [js_eval]: "atoi s = (case parse_int s of None \<Rightarrow> 0 | Some n \<Rightarrow> n)"

definition set_option :: "nat \<Rightarrow> jstr \<Rightarrow> klog_opts \<Rightarrow> klog_opts option" where
  [js_eval]: "set_option command optarg st =
     (if command = 104 then Some (st\<lparr>m_nHelp := True\<rparr>)
      else if command = 102 then
        Some (st\<lparr>o_conf := (o_conf st)\<lparr>m_szLogFilename := snprintf (path_max (o_conf st)) optarg, m_nFileToSave := True\<rparr>\<rparr>)
      else if command = 114 then Some (st\<lparr>o_conf := (o_conf st)\<lparr>m_nKBytes := atoi optarg\<rparr>\<rparr>)
      else if command = 110 then Some (st\<lparr>o_conf := (o_conf st)\<lparr>m_nCount := atoi optarg\<rparr>\<rparr>)
      else if command = 100 then Some (st\<lparr>o_conf := (o_conf st)\<lparr>m_nDumpAndExit := True\<rparr>\<rparr>)
      else if command = 98 then
        Some (if 0 \<le> strcmp optarg (js ''lastkmsg'') then st\<lparr>m_nDumpType := 1\<rparr> else st)
      else if command = 101 then Some (st\<lparr>m_nEnableDebug := True\<rparr>)
      else None)"

fun parse_args :: "bool \<Rightarrow> (nat \<times> jstr) list \<Rightarrow> klog_opts \<Rightarrow> klog_opts \<times> klog_run" where
  "parse_args char_signed [] st =
     (st, if char_signed then EndAtOnce else if m_nHelp st then ShowUsage else RunReader)"
| "parse_args char_signed ((command, optarg) # opts) st =
     (case set_option command optarg st of
        Some st' \<Rightarrow> parse_args char_signed opts st'
      | None \<Rightarrow> (st, if m_nHelp st then ShowUsage else RunReader))"

lemma signed_char_does_nothing:
  "\<forall>(c, a) \<in> set opts. c \<in> {104, 102, 114, 110, 100, 98, 101} \<Longrightarrow> snd (parse_args True opts st) = EndAtOnce"
  by (induction opts arbitrary: st) (auto simp: set_option_def)

lemma any_later_type: "0 \<le> strcmp (js ''radio'') (js ''lastkmsg'')" "strcmp (js ''kmsg'') (js ''lastkmsg'') < 0"
  by code_simp+

text \<open>Where the log is read from; the two flags for the services are never taken back.\<close>

datatype log_source = KmsgBuffer | LastKmsg jstr | DkService | DlkService

definition logkmsg_start :: "bool \<Rightarrow> (jstr \<Rightarrow> bool) \<Rightarrow> nat \<Rightarrow> log_source" where
  [js_eval]: "logkmsg_start klogctl_works can_open dump_type =
     (if dump_type = 0 then if klogctl_works then KmsgBuffer else DkService
      else if can_open (js ''/proc/last_kmsg'') then LastKmsg (js ''/proc/last_kmsg'')
      else if can_open (js ''/sys/fs/pstore/console-ramoops'') then LastKmsg (js ''/sys/fs/pstore/console-ramoops'')
      else DlkService)"

end
