(* ===== verification/LogData.thy ===== *)
theory LogData
  imports LogFiles
begin

text \<open>
  The list of log files klogcat keeps beside them (\<open>klogcat/logkmsg.c\<close>, \<open>logger_common_logdata_open\<close> and
  \<open>logger_common_logdata_add_file\<close>): a file with a header and 5000 entries that are used as a ring. When the ring is
  full the oldest entry makes room and the file it names is deleted.

  The file is its header, its entries and the number of bytes behind the last whole entry. Reads beyond its end fail as they
  do in the code; writes succeed. What a directory holds and how long files are comes from the file system
  and is an argument.
\<close>

section \<open>The file\<close>

record ld_header =
  magic :: nat
  entry_count :: nat
  entry_size :: nat
  index_head :: nat
  index_tail :: nat
  total_size :: nat
  header_size :: nat

record ld_entry =
  efile :: jstr
  esize :: nat

record ld_file =
  header :: "ld_header option"
  entries :: "ld_entry list"
  extra :: nat

definition LOGDATA_MAGIC :: nat where
  [js_eval]: "LOGDATA_MAGIC = 2299674936"

definition LOGDATA_COUNT :: nat where
  [js_eval]: "LOGDATA_COUNT = 5000"

definition LOGDATA_FILE_BUFLEN :: nat where
  [js_eval]: "LOGDATA_FILE_BUFLEN = 96"

text \<open>The sizes of the two structures on a machine with 32 bits.\<close>

definition sizeof_header :: nat where
  [js_eval]: "sizeof_header = 40"

definition sizeof_entry :: nat where
  [js_eval]: "sizeof_entry = 104"

definition no_entry :: ld_entry where
  [js_eval]: "no_entry = \<lparr>efile = [], esize = 0\<rparr>"

text \<open>\<open>total_size\<close> has 64 bits.\<close>

definition add64 :: "nat \<Rightarrow> nat \<Rightarrow> nat" where
  [js_eval]: "add64 a b = (a + b) mod 2 ^ 64"

section \<open>Opening\<close>

definition logdata_valid :: "ld_file \<Rightarrow> bool" where
  [js_eval]: "logdata_valid f =
     (case header f of
        None \<Rightarrow> False
      | Some h \<Rightarrow> magic h = LOGDATA_MAGIC \<and> entry_count h = LOGDATA_COUNT \<and> entry_size h = sizeof_entry
          \<and> header_size h = sizeof_header \<and> index_head h < entry_count h
          \<and> entry_count h * entry_size h + header_size h = sizeof_header + sizeof_entry * length (entries f) + extra f)"

definition new_header :: ld_header where
  [js_eval]: "new_header =
     \<lparr>magic = LOGDATA_MAGIC, entry_count = LOGDATA_COUNT, entry_size = sizeof_entry, index_head = 0, index_tail = 0,
      total_size = 0, header_size = sizeof_header\<rparr>"

definition IS_STORAGE_CODE :: "nat \<Rightarrow> bool" where
  [js_eval]: "IS_STORAGE_CODE c \<longleftrightarrow> c = 117 \<or> c = 101 \<or> c = 112 \<or> c = 105 \<or> c = 120"

definition is_log_name :: "jstr \<Rightarrow> jstr \<Rightarrow> bool" where
  [js_eval]: "is_log_name file_prefix d_name \<longleftrightarrow> d_name \<noteq> js ''.'' \<and> d_name \<noteq> js ''..'' \<and> starts_with file_prefix d_name
     \<and> length file_prefix < length d_name \<and> IS_STORAGE_CODE (d_name ! length file_prefix)"

text \<open>The files of the directory, in the order \<open>readdir\<close> gives them, with their sizes; those that have no place are deleted.\<close>

fun scan_dir :: "jstr \<Rightarrow> jstr \<Rightarrow> (jstr \<times> nat) list \<Rightarrow> ld_header \<Rightarrow> ld_entry list \<Rightarrow> jstr list
    \<Rightarrow> ld_header \<times> ld_entry list \<times> jstr list" where
  "scan_dir path_with_slash file_prefix [] hdr es unlinked = (hdr, es, unlinked)"
| "scan_dir path_with_slash file_prefix ((d_name, sz) # ds) hdr es unlinked =
     (if \<not> is_log_name file_prefix d_name then scan_dir path_with_slash file_prefix ds hdr es unlinked
      else if entry_count hdr \<le> index_head hdr
      then scan_dir path_with_slash file_prefix ds hdr es (unlinked @ [path_with_slash @ d_name])
      else scan_dir path_with_slash file_prefix ds
             (hdr\<lparr>total_size := add64 (total_size hdr) sz, index_head := Suc (index_head hdr)\<rparr>)
             (es @ [\<lparr>efile = snprintf LOGDATA_FILE_BUFLEN d_name, esize = sz\<rparr>]) unlinked)"

definition logger_common_logdata_open :: "jstr \<Rightarrow> jstr option \<Rightarrow> (jstr \<times> nat) list \<Rightarrow> ld_file \<Rightarrow> ld_file \<times> jstr list" where
  [js_eval]: "logger_common_logdata_open path_with_slash file_prefix directory f =
     (if logdata_valid f then (f, [])
      else let (hdr, es, unlinked) =
                 (case file_prefix of None \<Rightarrow> (new_header, [], [])
                  | Some file_pre \<Rightarrow> scan_dir path_with_slash file_pre directory new_header [] []);
               all = es @ replicate (entry_count hdr - length es) no_entry;
               hdr1 = (if entry_count hdr \<le> index_head hdr then hdr\<lparr>index_head := entry_count hdr - 1\<rparr> else hdr)
           in (\<lparr>header = Some hdr1, entries = all, extra = 0\<rparr>, unlinked))"

section \<open>Adding a file\<close>

text \<open>What follows the last slash, if there is one.\<close>

fun after_slash :: "jstr \<Rightarrow> jstr option" where
  "after_slash [] = None"
| "after_slash (c # s) = (case after_slash s of Some t \<Rightarrow> Some t | None \<Rightarrow> if c = 47 then Some s else None)"

definition advance :: "ld_header \<Rightarrow> ld_header" where
  [js_eval]: "advance hdr =
     (let head = (if entry_count hdr \<le> index_head hdr + 1 then 0 else index_head hdr + 1);
          tail = (if head = index_tail hdr then index_tail hdr + 1 else index_tail hdr)
      in hdr\<lparr>index_head := head, index_tail := (if entry_count hdr \<le> tail then 0 else tail)\<rparr>)"

text \<open>\<open>there\<close> tells which files exist, \<open>sz\<close> is the size of the new one. The result is the code, the list and the files that were deleted.\<close>

definition logger_common_logdata_add_file ::
  "(jstr \<Rightarrow> bool) \<Rightarrow> jstr \<Rightarrow> jstr \<Rightarrow> nat \<Rightarrow> ld_file \<Rightarrow> int \<times> ld_file \<times> jstr list" where
  [js_eval]: "logger_common_logdata_add_file there path_with_slash log_filename sz f =
     (case after_slash log_filename of
        None \<Rightarrow> (-1, f, [])
      | Some ptr \<Rightarrow>
          (case header f of
             None \<Rightarrow> (-1, f, [])
           | Some hdr \<Rightarrow>
               if magic hdr \<noteq> LOGDATA_MAGIC then (-1, f, [])
               else if length (entries f) \<le> index_head hdr then (-1, f, [])
               else let new = \<lparr>efile = snprintf LOGDATA_FILE_BUFLEN ptr, esize = sz\<rparr>
                    in if efile (entries f ! index_head hdr) = []
                       then (0, f\<lparr>header := Some (hdr\<lparr>total_size := add64 (total_size hdr) sz\<rparr>),
                                  entries := (entries f)[index_head hdr := new]\<rparr>, [])
                       else let hdr1 = advance hdr
                            in if length (entries f) \<le> index_head hdr1 then (-1, f, [])
                               else let data = entries f ! index_head hdr1;
                                        logfile = path_with_slash @ efile data;
                                        hdr2 = (if efile data = [] then hdr1
                                                else hdr1\<lparr>total_size := (if esize data < total_size hdr1
                                                                          then total_size hdr1 - esize data else 0)\<rparr>)
                                    in (0, f\<lparr>header := Some (hdr2\<lparr>total_size := add64 (total_size hdr2) sz\<rparr>),
                                             entries := (entries f)[index_head hdr1 := new]\<rparr>,
                                        if efile data \<noteq> [] \<and> there logfile then [logfile] else [])))"

section \<open>The list as a queue\<close>

text \<open>The entries from the oldest to the newest.\<close>

definition log_queue :: "ld_file \<Rightarrow> ld_entry list" where
  "log_queue f = (case header f of None \<Rightarrow> [] | Some h \<Rightarrow> filter (\<lambda>e. efile e \<noteq> []) (rotate (Suc (index_head h)) (entries f)))"

definition entry_sum :: "ld_entry list \<Rightarrow> nat" where
  "entry_sum es = sum_list (map esize es)"

text \<open>The list in order: it fills from the front and then goes round.\<close>

definition ring_ok :: "ld_file \<Rightarrow> bool" where
  "ring_ok f \<longleftrightarrow> (\<exists>h es. header f = Some h \<and> magic h = LOGDATA_MAGIC \<and> 0 < entry_count h
     \<and> entries f = es @ replicate (entry_count h - length es) no_entry \<and> length es \<le> entry_count h
     \<and> (\<forall>e \<in> set es. efile e \<noteq> [])
     \<and> (if length es < entry_count h then index_head h = length es - 1 else index_head h < entry_count h)
     \<and> index_tail h = (if length es < entry_count h then 0 else Suc (index_head h) mod entry_count h)
     \<and> total_size h = entry_sum es)"

lemma queue_filling:
  assumes "header f = Some h" "entries f = es @ replicate k no_entry" "\<forall>e \<in> set es. efile e \<noteq> []" "0 < k"
    "index_head h = length es - 1"
  shows "log_queue f = es"
proof -
  have none: "filter (\<lambda>e. efile e \<noteq> []) (replicate j no_entry) = []" for j by (simp add: no_entry_def)
  have es: "filter (\<lambda>e. efile e \<noteq> []) es = es" using assms(3) by (simp add: filter_id_conv)
  show ?thesis
  proof (cases es)
    case Nil
    then show ?thesis using assms(1,2) by (simp add: log_queue_def filter_empty_conv no_entry_def)
  next
    case (Cons e es')
    then have "Suc (index_head h) = length es" using assms(5) by simp
    then have "rotate (Suc (index_head h)) (entries f) = replicate k no_entry @ es"
      using assms(2) rotate_append[of es "replicate k no_entry"] by simp
    then show ?thesis using assms(1) none es by (simp add: log_queue_def)
  qed
qed

lemma queue_full:
  assumes "header f = Some h" "\<forall>e \<in> set (entries f). efile e \<noteq> []"
  shows "log_queue f = rotate (Suc (index_head h)) (entries f)"
  using assms by (simp add: log_queue_def filter_id_conv)

text \<open>Going round: the next place holds the oldest entry.\<close>

lemma rotate_put:
  assumes "j < length xs"
  shows "rotate (Suc j) (xs[j := x]) = tl (rotate j xs) @ [x]"
    "hd (rotate j xs) = xs ! j"
proof -
  have r: "rotate j xs = drop j xs @ take j xs" "rotate j (xs[j := x]) = drop j (xs[j := x]) @ take j xs"
    using assms rotate_append[of "take j xs" "drop j xs"] rotate_append[of "take j xs" "drop j (xs[j := x])"]
    by (simp_all add: min_def) (metis append_take_drop_id length_take min.absorb4 take_update_cancel le_refl)
  have d: "drop j xs = xs ! j # drop (Suc j) xs" "drop j (xs[j := x]) = x # drop (Suc j) xs"
    using assms by (simp_all add: Cons_nth_drop_Suc drop_update_swap upd_conv_take_nth_drop)
  show "hd (rotate j xs) = xs ! j" using r(1) d(1) by simp
  show "rotate (Suc j) (xs[j := x]) = tl (rotate j xs) @ [x]" using r d by (simp add: rotate1_hd_tl)
qed

lemma sum_list_update:
  "j < length es \<Longrightarrow> entry_sum (es[j := e]) + esize (es ! j) = entry_sum es + esize e"
  by (induction es arbitrary: j) (auto simp: entry_sum_def split: nat.split)

lemma add64_small: "a + b < 2 ^ 64 \<Longrightarrow> add64 a b = a + b"
  by (simp add: add64_def)

text \<open>A file is added behind the others; when there is no room the oldest makes place.\<close>

lemma add_file_ok:
  assumes ok: "ring_ok f" and h: "header f = Some h" and ptr: "after_slash log_filename = Some ptr" "ptr \<noteq> []"
    and small: "total_size h + sz < 2 ^ 64"
  shows "\<exists>f' u h'. logger_common_logdata_add_file there path log_filename sz f = (0, f', u) \<and> ring_ok f'
    \<and> header f' = Some h' \<and> entry_count h' = entry_count h \<and> total_size h' \<le> total_size h + sz
    \<and> log_queue f' = (if length (log_queue f) < entry_count h then log_queue f else tl (log_queue f))
        @ [\<lparr>efile = snprintf LOGDATA_FILE_BUFLEN ptr, esize = sz\<rparr>]
    \<and> u = (if length (log_queue f) < entry_count h then []
           else filter there [path @ efile (hd (log_queue f))])"
proof -
  let ?new = "\<lparr>efile = snprintf LOGDATA_FILE_BUFLEN ptr, esize = sz\<rparr>" and ?n = "entry_count h"
  have new: "efile ?new \<noteq> []" using ptr(2) by (simp add: snprintf_def LOGDATA_FILE_BUFLEN_def)
  obtain es where r: "magic h = LOGDATA_MAGIC" "0 < ?n" "entries f = es @ replicate (?n - length es) no_entry"
    "length es \<le> ?n" "\<forall>e \<in> set es. efile e \<noteq> []"
    "if length es < ?n then index_head h = length es - 1 else index_head h < ?n" "total_size h = entry_sum es"
    "index_tail h = (if length es < ?n then 0 else Suc (index_head h) mod ?n)"
    using ok h by (auto simp: ring_ok_def)
  have len: "length (entries f) = ?n" using r(3,4) by simp
  show ?thesis
  proof (cases "length es < ?n")
    case True
    then obtain k where k: "?n - length es = Suc k" by (metis Suc_diff_Suc)
    have q: "log_queue f = es" using queue_filling[OF h r(3,5)] True r(6) by simp
    let ?h = "(if es = [] then h else advance h)"
    let ?h' = "?h\<lparr>total_size := total_size h + sz\<rparr>" and ?es = "es @ ?new # replicate k no_entry"
    have head: "index_head ?h = length es" "entry_count ?h = ?n" "magic ?h = LOGDATA_MAGIC" "total_size ?h = total_size h"
      "index_tail ?h = 0"
      using r(1,6,8) True by (auto simp: advance_def Let_def neq_Nil_conv)
    have put: "(entries f)[length es := ?new] = ?es" "entries f ! length es = no_entry"
      unfolding r(3) k by (simp_all add: list_update_append)
    let ?f = "f\<lparr>header := Some ?h', entries := ?es\<rparr>"
    have add: "logger_common_logdata_add_file there path log_filename sz f = (0, ?f, [])"
    proof (cases es rule: rev_cases)
      case Nil
      then show ?thesis using ptr h r(1,2,6) True put len small
        by (simp add: logger_common_logdata_add_file_def no_entry_def add64_small)
    next
      case (snoc es' e)
      then have "entries f ! index_head h = e" "efile e \<noteq> []" using r(3,5,6) True by (simp_all add: nth_append)
      then show ?thesis using ptr h r(1,6) True put len small head snoc
        by (simp add: logger_common_logdata_add_file_def no_entry_def add64_small Let_def)
    qed
    have wrap: "Suc (length es) mod ?n = 0" if "\<not> Suc (length es) < ?n"
      using True that by (metis Suc_lessI mod_self)
    have k': "replicate k no_entry = replicate (?n - length (es @ [?new])) no_entry" using k by simp
    have ring: "ring_ok ?f"
      unfolding ring_ok_def using r(2,4,5,7) new head True k' wrap
      by (intro exI[of _ ?h'] exI[of _ "es @ [?new]"]) (auto simp: entry_sum_def)
    have "log_queue ?f = es @ [?new]"
    proof (cases k)
      case 0
      then have "rotate (Suc (index_head ?h')) (entries ?f) = es @ [?new]"
        using head(1) by (simp add: rotate_append)
      then show ?thesis using r(5) new by (simp add: log_queue_def filter_id_conv)
    next
      case (Suc j)
      then show ?thesis using head r(5) new
        by (intro queue_filling[of ?f ?h' "es @ [?new]" k]) auto
    qed
    then show ?thesis using add ring q True head by auto
  next
    case False
    then have es: "entries f = es" "length es = ?n" using r(3,4) by simp_all
    have ih: "index_head h < ?n" using r(6) False by simp
    let ?h = "advance h" and ?j = "index_head (advance h)"
    have j: "?j < ?n" "?j = Suc (index_head h) mod ?n" "entry_count ?h = ?n" "magic ?h = LOGDATA_MAGIC"
      "total_size ?h = total_size h"
      using ih r(1,2) by (cases "Suc (index_head h) = ?n"; simp add: advance_def Let_def)+
    have "index_tail h = ?j" using r(8) False j(2) by simp
    then have tail: "index_tail ?h = Suc ?j mod ?n"
      using j(1,2) mod_Suc[of ?j ?n] by (cases "Suc (index_head h) = ?n") (auto simp: advance_def Let_def)
    have q: "log_queue f = rotate ?j es"
      using queue_full[OF h] r(5) es j(2) rotate_conv_mod[of "Suc (index_head h)" es] by (simp del: rotate_Suc)
    then have lq: "length (log_queue f) = ?n" "hd (log_queue f) = es ! ?j" using es rotate_put(2)[of ?j es] j(1) by simp_all
    have old: "efile (es ! ?j) \<noteq> []" "efile (es ! index_head h) \<noteq> []" using r(5) es j(1) ih by simp_all
    have sum: "entry_sum (es[?j := ?new]) + esize (es ! ?j) = entry_sum es + sz"
      using sum_list_update[of ?j es ?new] es j(1) by simp
    then have tot: "add64 (if esize (es ! ?j) < total_size h then total_size h - esize (es ! ?j) else 0) sz = entry_sum (es[?j := ?new])"
    proof -
      have "esize (es ! ?j) \<le> entry_sum es"
        using es j(1) by (simp add: entry_sum_def member_le_sum_list)
      then show ?thesis using sum small r(7) by (simp add: add64_small) linarith
    qed
    let ?h' = "?h\<lparr>total_size := entry_sum (es[?j := ?new])\<rparr>" and ?f = "f\<lparr>header := Some (?h\<lparr>total_size := entry_sum (es[?j := ?new])\<rparr>), entries := es[?j := ?new]\<rparr>"
    have add: "logger_common_logdata_add_file there path log_filename sz f = (0, ?f, filter there [path @ efile (es ! ?j)])"
      unfolding tot[symmetric] using ptr h r(1) es ih j(1,3-5) old
      by (auto simp: logger_common_logdata_add_file_def Let_def)
    have all: "\<forall>e \<in> set (es[?j := ?new]). efile e \<noteq> []" using r(5) new by (auto dest!: set_update_subset_insert[THEN subsetD])
    then have ring: "ring_ok ?f"
      unfolding ring_ok_def using r(2) es j tail by (intro exI[of _ ?h'] exI[of _ "es[?j := ?new]"]) simp
    have "log_queue ?f = tl (log_queue f) @ [?new]"
      using queue_full[of ?f ?h'] all rotate_put(1)[of ?j es ?new] es j(1) q by simp
    then show ?thesis using add ring lq j sum r(7) by auto
  qed
qed

text \<open>The two ends of the list, and its size.\<close>

lemma entry_sum_rotate1: "entry_sum (rotate1 es) = entry_sum es"
  by (cases es) (simp_all add: entry_sum_def)

lemma ring_ends:
  assumes "ring_ok f" "header f = Some h"
  shows "total_size h = entry_sum (log_queue f)"
    "log_queue f \<noteq> [] \<Longrightarrow> entries f ! index_tail h = hd (log_queue f) \<and> entries f ! index_head h = last (log_queue f)"
proof -
  let ?n = "entry_count h"
  obtain es where r: "0 < ?n" "entries f = es @ replicate (?n - length es) no_entry" "length es \<le> ?n"
    "\<forall>e \<in> set es. efile e \<noteq> []" "if length es < ?n then index_head h = length es - 1 else index_head h < ?n"
    "index_tail h = (if length es < ?n then 0 else Suc (index_head h) mod ?n)" "total_size h = entry_sum es"
    using assms by (auto simp: ring_ok_def)
  have "total_size h = entry_sum (log_queue f) \<and> (log_queue f \<noteq> [] \<longrightarrow>
    entries f ! index_tail h = hd (log_queue f) \<and> entries f ! index_head h = last (log_queue f))"
  proof (cases "length es < ?n")
    case True
    then have "log_queue f = es" using queue_filling[OF assms(2) r(2,4)] r(5) by simp
    then show ?thesis using True r by (simp add: nth_append hd_conv_nth last_conv_nth)
  next
    case False
    then have es: "entries f = es" "length es = ?n" "index_head h < ?n" using r by simp_all
    then have q: "log_queue f = rotate (Suc (index_head h)) es" using queue_full[OF assms(2)] r(4) by simp
    have "entry_sum (rotate k es) = entry_sum es" for k
      by (induction k) (simp_all add: entry_sum_rotate1)
    moreover have "hd (rotate (Suc (index_head h)) es) = es ! (Suc (index_head h) mod ?n)"
      using es(2) r(1) hd_rotate_conv_nth[of es "Suc (index_head h)"] by (cases es) (simp_all del: rotate_Suc)
    moreover have "last (rotate (Suc (index_head h)) es) = es ! index_head h"
      using rotate_put(1)[of "index_head h" es "es ! index_head h"] es(2,3) by simp
    ultimately show ?thesis using q r(6,7) False es(1) by (simp del: rotate_Suc)
  qed
  then show "total_size h = entry_sum (log_queue f)"
    "log_queue f \<noteq> [] \<Longrightarrow> entries f ! index_tail h = hd (log_queue f) \<and> entries f ! index_head h = last (log_queue f)"
    by blast+
qed

text \<open>Files that are added one after the other.\<close>

definition add_file_step :: "(jstr \<Rightarrow> bool) \<Rightarrow> jstr \<Rightarrow> jstr \<times> nat \<Rightarrow> ld_file \<times> jstr list \<Rightarrow> ld_file \<times> jstr list" where
  [js_eval]: "add_file_step there path p s =
     (let (r, f, u) = logger_common_logdata_add_file there path (fst p) (snd p) (fst s) in (f, snd s @ u))"

definition entry_for :: "jstr \<times> nat \<Rightarrow> ld_entry" where
  [js_eval]: "entry_for p = \<lparr>efile = snprintf LOGDATA_FILE_BUFLEN (the (after_slash (fst p))), esize = snd p\<rparr>"

text \<open>The abstract list: the last entries, as many as there is room for.\<close>

definition latest :: "nat \<Rightarrow> ld_entry list \<Rightarrow> ld_entry list" where
  [js_eval]: "latest n es = drop (length es - n) es"

lemma latest_snoc: "0 < n \<Longrightarrow> latest n (es @ [e]) =
    (if length (latest n es) < n then latest n es else tl (latest n es)) @ [e]"
proof (cases "length es < n")
  case False
  assume "0 < n"
  then have "length es - n < length es" "length (es @ [e]) - n = Suc (length es - n)" using False by auto
  then show ?thesis using False by (simp add: latest_def tl_drop flip: drop_Suc)
qed (auto simp: latest_def)

lemma add_files_ok:
  assumes "ring_ok f" "header f = Some h" "log_queue f = []" "entry_count h = n"
    "\<forall>p \<in> set ps. \<exists>t. after_slash (fst p) = Some t \<and> t \<noteq> []" "sum_list (map snd ps) < 2 ^ 64" "total_size h = 0"
  shows "\<exists>f' h'. fold (add_file_step there path) ps (f, []) =
      (f', filter there (map (\<lambda>e. path @ efile e) (take (length ps - n) (map entry_for ps))))
    \<and> ring_ok f' \<and> header f' = Some h' \<and> entry_count h' = n \<and> total_size h' \<le> sum_list (map snd ps)
    \<and> log_queue f' = latest n (map entry_for ps)"
  using assms(5,6)
proof (induction ps rule: rev_induct)
  case Nil
  then show ?case using assms by (simp add: latest_def)
next
  case (snoc p ps)
  obtain t where t: "after_slash (fst p) = Some t" "t \<noteq> []" using snoc.prems(1) by auto
  have "0 < n" using assms(1,2,4) by (auto simp: ring_ok_def)
  let ?es = "map entry_for ps"
  obtain f1 h1 where 1: "fold (add_file_step there path) ps (f, []) =
      (f1, filter there (map (\<lambda>e. path @ efile e) (take (length ps - n) ?es)))" "ring_ok f1" "header f1 = Some h1"
    "entry_count h1 = n" "total_size h1 \<le> sum_list (map snd ps)" "log_queue f1 = latest n ?es"
    using snoc by auto
  have "total_size h1 + snd p < 2 ^ 64" using 1(5) snoc.prems(2) by simp
  from add_file_ok[OF 1(2,3) t this, of there path] obtain f2 u h2 where
    2: "logger_common_logdata_add_file there path (fst p) (snd p) f1 = (0, f2, u)" "ring_ok f2" "header f2 = Some h2"
      "entry_count h2 = n" "total_size h2 \<le> total_size h1 + snd p"
      "log_queue f2 = (if length (latest n ?es) < n then latest n ?es else tl (latest n ?es)) @ [entry_for p]"
      "u = (if length (latest n ?es) < n then [] else filter there [path @ efile (hd (latest n ?es))])"
    using 1(4,6) t by (auto simp: entry_for_def)
  have q: "log_queue f2 = latest n (map entry_for (ps @ [p]))" using 2(6) latest_snoc[OF \<open>0 < n\<close>, of ?es "entry_for p"] by simp
  have step: "take (length ps - n) ?es @ (if length (latest n ?es) < n then [] else [hd (latest n ?es)])
      = take (Suc (length ps) - n) (?es @ [entry_for p])"
  proof (cases "length ps < n")
    case False
    then have "length ps - n < length ?es" "Suc (length ps) - n = Suc (length ps - n)" using \<open>0 < n\<close> by simp_all
    then show ?thesis using False by (simp add: latest_def take_Suc_conv_app_nth hd_drop_conv_nth)
  qed (simp add: latest_def)
  have "u = filter there (map (\<lambda>e. path @ efile e) (if length (latest n ?es) < n then [] else [hd (latest n ?es)]))"
    using 2(7) by simp
  then have "filter there (map (\<lambda>e. path @ efile e) (take (length ps - n) ?es)) @ u
      = filter there (map (\<lambda>e. path @ efile e) (take (length (ps @ [p]) - n) (map entry_for (ps @ [p]))))"
    by (simp only: filter_append[symmetric] map_append[symmetric] step) simp
  then have "fold (add_file_step there path) (ps @ [p]) (f, []) =
      (f2, filter there (map (\<lambda>e. path @ efile e) (take (length (ps @ [p]) - n) (map entry_for (ps @ [p])))))"
    using 1(1) 2(1) by (simp add: add_file_step_def)
  moreover have "total_size h2 \<le> sum_list (map snd (ps @ [p]))" using 2(5) 1(5) by simp
  ultimately show ?case using 2(2-4) q by blast
qed

text \<open>C40: a list that is made anew and then given files names the last 5000 of them, in the order in which they were added,
  and the files that were deleted are the ones before these. Its header has their size, the place of the oldest as the tail and that of the
  newest as the head.\<close>

theorem ring_keeps_latest:
  assumes "\<not> logdata_valid f" "\<forall>p \<in> set ps. \<exists>t. after_slash (fst p) = Some t \<and> t \<noteq> []" "sum_list (map snd ps) < 2 ^ 64"
  shows "case fold (add_file_step there path) ps (fst (logger_common_logdata_open path None directory f), []) of
    (f', unlinked) \<Rightarrow>
      log_queue f' = drop (length ps - 5000) (map entry_for ps)
      \<and> unlinked = filter there (map (\<lambda>e. path @ efile e) (take (length ps - 5000) (map entry_for ps)))
      \<and> (\<exists>h. header f' = Some h \<and> total_size h = entry_sum (log_queue f')
           \<and> (log_queue f' \<noteq> [] \<longrightarrow>
                entries f' ! index_tail h = hd (log_queue f') \<and> entries f' ! index_head h = last (log_queue f')))"
proof -
  let ?f = "\<lparr>header = Some new_header, entries = replicate 5000 no_entry, extra = 0\<rparr>"
  have h: "entry_count new_header = 5000" "index_head new_header = 0" "total_size new_header = 0" "magic new_header = LOGDATA_MAGIC"
      "index_tail new_header = 0"
    by (simp_all add: new_header_def LOGDATA_COUNT_def)
  have f: "fst (logger_common_logdata_open path None directory f) = ?f"
    using assms(1) h by (simp add: logger_common_logdata_open_def)
  have "ring_ok ?f" unfolding ring_ok_def
    by (intro exI[of _ new_header] exI[of _ "[]"]) (simp add: h entry_sum_def)
  moreover have "log_queue ?f = []"
    by (rule queue_filling[where h = new_header and k = 5000]) (simp_all add: h)
  ultimately show ?thesis
    using add_files_ok[of ?f new_header 5000 ps there path] h assms(2,3) ring_ends unfolding f
    by (fastforce simp: latest_def)
qed

lemma ring_keeps_latest_witness:
  "log_queue (fst (fold (add_file_step (\<lambda>_. True) (js ''/l/'')) [(js ''/l/a'', 3), (js ''/l/b'', 4)]
     (fst (logger_common_logdata_open (js ''/l/'') None [] \<lparr>header = None, entries = [], extra = 7\<rparr>), [])))
   = [\<lparr>efile = js ''a'', esize = 3\<rparr>, \<lparr>efile = js ''b'', esize = 4\<rparr>]"
proof -
  let ?ps = "[(js ''/l/a'', 3 :: nat), (js ''/l/b'', 4)]"
  have a: "after_slash (js ''/l/a'') = Some (js ''a'')" "after_slash (js ''/l/b'') = Some (js ''b'')" by code_simp+
  then have e: "map entry_for ?ps = [\<lparr>efile = js ''a'', esize = 3\<rparr>, \<lparr>efile = js ''b'', esize = 4\<rparr>]"
    by (simp add: entry_for_def snprintf_def LOGDATA_FILE_BUFLEN_def)
  have "\<not> logdata_valid \<lparr>header = None, entries = [], extra = 7\<rparr>" by (simp add: logdata_valid_def)
  moreover have "\<forall>p \<in> set ?ps. \<exists>t. after_slash (fst p) = Some t \<and> t \<noteq> []" using a by (simp add: js_def)
  ultimately show ?thesis
    using ring_keeps_latest[of "\<lparr>header = None, entries = [], extra = 7\<rparr>" ?ps "\<lambda>_. True" "js ''/l/''" "[]"] e
    by (simp split: prod.splits)
qed

section \<open>The file of a session\<close>

definition dirname :: "jstr \<Rightarrow> jstr" where
  [js_eval]: "dirname s =
     (case after_slash s of
        None \<Rightarrow> js ''.''
      | Some t \<Rightarrow> let d = take (length s - length t - 1) s in if d = [] then js ''/'' else d)"

definition unlink_all :: "jstr list \<Rightarrow> files \<Rightarrow> files" where
  [js_eval]: "unlink_all us fs = (\<lambda>x. if x \<in> set us then None else fs x)"

text \<open>Every session adds the file it writes, which has the name the user gave, to the list.\<close>

definition logger_common_generate_new_file ::
  "(files \<Rightarrow> jstr \<Rightarrow> jstr list) \<Rightarrow> jstr \<Rightarrow> files \<times> ld_file \<Rightarrow> files \<times> ld_file" where
  [js_eval]: "logger_common_generate_new_file readdir m_szPath st =
     (let fs1 = (if fst st m_szPath = None then (fst st)(m_szPath \<mapsto> []) else fst st);
          path_with_slash = dirname m_szPath @ js ''/'';
          sizes = map (\<lambda>n. (n, length (content (fs1 (path_with_slash @ n))))) (readdir fs1 path_with_slash);
          (ld1, u1) = logger_common_logdata_open path_with_slash (Some (js ''kernel_'')) sizes (snd st);
          fs2 = unlink_all u1 fs1;
          (r, ld2, u2) = logger_common_logdata_add_file (\<lambda>f. fs2 f \<noteq> None) path_with_slash m_szPath
                           (length (content (fs2 m_szPath))) ld1
      in (unlink_all u2 fs2, ld2))"

text \<open>So when the list is full of it, the next session deletes its own log, with all that the sessions before wrote.\<close>

lemma full_list_deletes_log:
  assumes "logdata_valid ld" "length (entries ld) = LOGDATA_COUNT" "\<forall>e \<in> set (entries ld). efile e = t"
    "after_slash p = Some t" "t \<noteq> []" "dirname p @ js ''/'' @ t = p"
  shows "fst (logger_common_generate_new_file readdir p (fs, ld)) p = None"
proof -
  let ?dir = "dirname p @ js ''/''"
  obtain h where h: "header ld = Some h" "magic h = LOGDATA_MAGIC" "index_head h < LOGDATA_COUNT" "entry_count h = LOGDATA_COUNT"
    using assms(1) by (auto simp: logdata_valid_def split: option.splits)
  let ?j = "index_head (advance h)"
  have j: "index_head h < length (entries ld)" "?j < length (entries ld)"
    using h assms(2) by (auto simp: advance_def Let_def LOGDATA_COUNT_def)
  then have e: "efile (entries ld ! index_head h) = t" "efile (entries ld ! ?j) = t" using assms(3) by simp_all
  have add: "snd (snd (logger_common_logdata_add_file there ?dir p sz ld)) = [p]" if "there p" for there sz
    using h j e assms(4-6) that by (simp add: logger_common_logdata_add_file_def Let_def)
  have open': "logger_common_logdata_open ?dir pre sizes ld = (ld, [])" for pre sizes
    using assms(1) by (simp add: logger_common_logdata_open_def)
  show ?thesis
    by (simp add: logger_common_generate_new_file_def Let_def case_prod_beta open' unlink_all_def add)
qed

end
