(* ===== verification/LogDirs.thy ===== *)
theory LogDirs
  imports KernelLog
begin

text \<open>
  The directories of the kernel log reader (\<open>klogcat/dir.c\<close>): the paths of the storages, whether they are mounted, the creation of
  directories, and the choice of the directory for the log.

  What the system answers is a parameter (\<open>os\<close>): links, files that exist, variables of the environment, the table of the
  mounted file systems. Directories and files that are created are a map from paths to their kinds, where a path is the list of
  its names; \<open>.\<close> and \<open>..\<close> are not resolved, and links are resolved only where the code does it.
\<close>

record os =
  readlink :: "jstr \<Rightarrow> jstr option"
  there :: "jstr \<Rightarrow> bool"
  may_write :: "jstr \<Rightarrow> bool"
  getenv :: "jstr \<Rightarrow> jstr option"
  getenv_later :: "jstr \<Rightarrow> jstr option"
  proc_mounts :: "jstr option"
  statfs :: "jstr \<Rightarrow> (nat \<times> nat) option"
  os_path_max :: nat

section \<open>Calls that may not return or fail\<close>

definition then_do :: "(fault + 'a) option \<Rightarrow> ('a \<Rightarrow> (fault + 'b) option) \<Rightarrow> (fault + 'b) option" where
  [js_eval]: "then_do r f = (case r of None \<Rightarrow> None | Some (Inl e) \<Rightarrow> Some (Inl e) | Some (Inr x) \<Rightarrow> f x)"

lemma then_do_simps [simp]:
  "then_do None f = None" "then_do (Some (Inl e)) f = Some (Inl e)" "then_do (Some (Inr x)) f = f x"
  by (simp_all add: then_do_def)

definition buf :: "os \<Rightarrow> jstr \<Rightarrow> jstr" where
  [js_eval]: "buf os s = take (os_path_max os - 1) (c_str s)"

section \<open>The paths of the storages\<close>

text \<open>The paths that have been found; an empty one has not been looked for.\<close>

record dirs =
  path_usb :: jstr
  path_external :: jstr
  path_phone :: jstr
  active_fuse_storage :: "jstr option"

definition htc_fuse_storages :: "jstr list" where
  [js_eval]: "htc_fuse_storages = [js ''/storage/emulated/legacy'']"

definition fuse_mountpoint :: jstr where
  [js_eval]: "fuse_mountpoint = js ''/mnt/shell/emulated''"

definition htc_phone_storages :: "jstr list" where
  [js_eval]: "htc_phone_storages = [js ''/sdcard'']"

definition htc_external_storages :: "jstr list" where
  [js_eval]: "htc_external_storages = [js ''/sdcard2'', js ''/sdcard'']"

definition htc_usb_storages :: "jstr list" where
  [js_eval]: "htc_usb_storages = [js ''/mnt/usb'']"

definition path_internal :: jstr where
  [js_eval]: "path_internal = js ''/data''"

definition path_char :: "nat \<Rightarrow> bool" where
  [js_eval]: "path_char c \<longleftrightarrow> (48 \<le> c \<and> c \<le> 57) \<or> (65 \<le> c \<and> c \<le> 90) \<or> (97 \<le> c \<and> c \<le> 122)
     \<or> c = 47 \<or> c = 45 \<or> c = 95 \<or> c = 32"

definition correct_path :: "jstr \<Rightarrow> jstr" where
  [js_eval]: "correct_path s = takeWhile path_char s"

text \<open>A link is followed to its end; \<open>None\<close> is a loop that does not end.\<close>

partial_function (option) follow :: "os \<Rightarrow> jstr option \<Rightarrow> jstr \<Rightarrow> jstr option" where
  [code]: "follow os fuse realpath =
     (let linkpath = buf os realpath
      in if fuse = Some realpath then Some linkpath
         else case readlink os linkpath of
                None \<Rightarrow> Some linkpath
              | Some r \<Rightarrow> follow os fuse (buf os r))"

text \<open>The first of the storages that is a link or exists; nothing found is the empty path.\<close>

fun dir_get_storage :: "os \<Rightarrow> jstr option \<Rightarrow> jstr list \<Rightarrow> jstr option" where
  "dir_get_storage os fuse [] = Some []"
| "dir_get_storage os fuse (s # storages) =
     (case readlink os (buf os s) of
        Some r \<Rightarrow> follow os fuse (buf os r)
      | None \<Rightarrow> if there os s then Some (buf os s) else dir_get_storage os fuse storages)"

definition detect_multi_user_fuse_storage_nolock :: "os \<Rightarrow> dirs \<Rightarrow> dirs" where
  [js_eval]: "detect_multi_user_fuse_storage_nolock os d =
     (if active_fuse_storage d = None then d\<lparr>active_fuse_storage := List.find (there os) htc_fuse_storages\<rparr> else d)"

text \<open>What a variable of the environment says; an empty one is asked for again after a tenth of a second, and then it may be gone.\<close>

definition from_env :: "os \<Rightarrow> jstr \<Rightarrow> jstr \<Rightarrow> fault + jstr" where
  [js_eval]: "from_env os env dflt =
     (case getenv os env of
        None \<Rightarrow> Inr (buf os dflt)
      | Some ext \<Rightarrow>
          if ext = []
          then case getenv_later os env of None \<Rightarrow> Inl NullPointer | Some e \<Rightarrow> Inr (buf os e)
          else Inr (buf os ext))"

definition found_path :: "os \<Rightarrow> jstr option \<Rightarrow> (jstr \<Rightarrow> bool) \<Rightarrow> jstr \<Rightarrow> jstr \<Rightarrow> (fault + jstr) option" where
  [js_eval]: "found_path os found unusable env dflt =
     (case found of
        None \<Rightarrow> None
      | Some p \<Rightarrow> Some (bind_res (if p = [] \<or> unusable p then from_env os env dflt else Inr p) (\<lambda>q. Inr (correct_path q))))"

definition dir_get_usb_storage :: "os \<Rightarrow> dirs \<Rightarrow> (fault + dirs) option" where
  [js_eval]: "dir_get_usb_storage os d =
     (if path_usb d \<noteq> [] then Some (Inr d)
      else then_do (found_path os (dir_get_storage os (active_fuse_storage d) htc_usb_storages) (\<lambda>_. False)
                      (js ''USB_STORAGE'') (js ''/mnt/usb''))
             (\<lambda>p. Some (Inr (d\<lparr>path_usb := p\<rparr>))))"

definition dir_get_external_storage :: "os \<Rightarrow> dirs \<Rightarrow> (fault + dirs) option" where
  [js_eval]: "dir_get_external_storage os d =
     (if path_external d \<noteq> [] then Some (Inr d)
      else let d1 = detect_multi_user_fuse_storage_nolock os d
           in then_do (found_path os (dir_get_storage os (active_fuse_storage d1) htc_external_storages) (\<lambda>_. False)
                         (js ''EXTERNAL_STORAGE'') (js ''/sdcard''))
                (\<lambda>p. Some (Inr (d1\<lparr>path_external := p\<rparr>))))"

definition dir_get_phone_storage :: "os \<Rightarrow> dirs \<Rightarrow> (fault + dirs) option" where
  [js_eval]: "dir_get_phone_storage os d =
     (if path_phone d \<noteq> [] then Some (Inr d)
      else then_do (dir_get_external_storage os (detect_multi_user_fuse_storage_nolock os d)) (\<lambda>d1.
             then_do (found_path os (dir_get_storage os (active_fuse_storage d1) htc_phone_storages) (\<lambda>p. p = path_external d1)
                        (js ''PHONE_STORAGE'') (js ''/emmc''))
               (\<lambda>p. Some (Inr (d1\<lparr>path_phone := p\<rparr>)))))"

definition dir_get_known_storage :: "os \<Rightarrow> jstr option \<Rightarrow> dirs \<Rightarrow> (fault + jstr option \<times> dirs) option" where
  [js_eval]: "dir_get_known_storage os storage_name d =
     (if storage_name = Some (js ''usb'') then then_do (dir_get_usb_storage os d) (\<lambda>d. Some (Inr (Some (path_usb d), d)))
      else if storage_name = Some (js ''external'')
      then then_do (dir_get_external_storage os d) (\<lambda>d. Some (Inr (Some (path_external d), d)))
      else if storage_name = Some (js ''phone'')
      then then_do (dir_get_phone_storage os d) (\<lambda>d. Some (Inr (Some (path_phone d), d)))
      else if storage_name = Some (js ''internal'') then Some (Inr (Some path_internal, d))
      else Some (Inr (None, d)))"

text \<open>The letter for the storage a path begins with.\<close>

definition dir_get_storage_code :: "os \<Rightarrow> jstr option \<Rightarrow> dirs \<Rightarrow> (fault + nat \<times> dirs) option" where
  [js_eval]: "dir_get_storage_code os path d =
     (case path of
        None \<Rightarrow> Some (Inr (120, d))
      | Some p \<Rightarrow>
          then_do (if path_usb d = [] then dir_get_usb_storage os d else Some (Inr d)) (\<lambda>d1.
          then_do (if path_external d1 = [] then dir_get_external_storage os d1 else Some (Inr d1)) (\<lambda>d2.
          then_do (if path_phone d2 = [] then dir_get_phone_storage os d2 else Some (Inr d2)) (\<lambda>d3.
            Some (Inr
              (if path_usb d3 \<noteq> [] \<and> starts_with (path_usb d3) p then 117
               else if path_external d3 \<noteq> [] \<and> starts_with (path_external d3) p then 101
               else if path_phone d3 \<noteq> [] \<and> starts_with (path_phone d3) p then 112
               else if starts_with (js ''/data/'') p then 105
               else 120, d3))))))"

section \<open>Mounted file systems\<close>

text \<open>The table is read one character at a time into a buffer that holds the start of a line; the end of the file ends a line.\<close>

fun scan_mounts :: "nat \<Rightarrow> jstr \<Rightarrow> jstr \<Rightarrow> jstr \<Rightarrow> jstr option" where
  "scan_mounts n mounts data [] = (if contains mounts (c_str data) then Some data else None)"
| "scan_mounts n mounts data (ch # rest) =
     (if ch = 10
      then if contains mounts (c_str data) then Some data else scan_mounts n mounts [] rest
      else scan_mounts n mounts (if length data < n - 1 then data @ [ch] else data) rest)"

text \<open>Splitting an entry at its first three blanks; a field that is not there is \<open>None\<close>, as are those after it, which the code
  leaves as they were.\<close>

fun strchr_split :: "jstr \<Rightarrow> jstr \<times> jstr option" where
  "strchr_split [] = ([], None)"
| "strchr_split (c # s) = (if c = 32 then ([], Some s) else let (a, b) = strchr_split s in (c # a, b))"

definition next_field :: "jstr option \<Rightarrow> jstr option \<times> jstr option" where
  [js_eval]: "next_field s = (case s of None \<Rightarrow> (None, None) | Some t \<Rightarrow> (Some (fst (strchr_split t)), snd (strchr_split t)))"

definition mount_fields :: "jstr \<Rightarrow> jstr option \<times> jstr option \<times> jstr option \<times> jstr option" where
  [js_eval]: "mount_fields entry =
     (let (device, s1) = next_field (Some (c_str entry)); (mountpoint, s2) = next_field s1; (type, options) = next_field s2
      in (device, mountpoint, type, options))"

definition mount_name :: "dirs \<Rightarrow> jstr \<Rightarrow> jstr" where
  [js_eval]: "mount_name d mountpoint =
     snprintf 64 (js '' '' @ (if active_fuse_storage d = Some mountpoint then fuse_mountpoint else mountpoint) @ js '' '')"

definition dir_get_mount_entry :: "os \<Rightarrow> dirs \<Rightarrow> jstr option
    \<Rightarrow> int \<times> (jstr option \<times> jstr option \<times> jstr option \<times> jstr option) option" where
  [js_eval]: "dir_get_mount_entry os d mountpoint =
     (case (mountpoint, proc_mounts os) of
        (Some p, Some table) \<Rightarrow>
          (case scan_mounts (os_path_max os) (mount_name d p) [] table of
             None \<Rightarrow> (0, None) | Some line \<Rightarrow> (1, Some (mount_fields line)))
      | _ \<Rightarrow> (0, None))"

definition dir_storage_state :: "os \<Rightarrow> dirs \<Rightarrow> jstr \<Rightarrow> int" where
  [js_eval]: "dir_storage_state os d storage_path = fst (dir_get_mount_entry os d (Some storage_path))"

definition dir_fuse_state :: "os \<Rightarrow> dirs \<Rightarrow> int" where
  [js_eval]: "dir_fuse_state os d = fst (dir_get_mount_entry os d (Some fuse_mountpoint))"

section \<open>Directories\<close>

datatype kind = Dir | File

type_synonym disk = "jstr list \<Rightarrow> kind option"

text \<open>The names of a path.\<close>

definition comps :: "jstr \<Rightarrow> jstr list" where
  [js_eval]: "comps p = filter (\<lambda>s. s \<noteq> []) (split_cu 47 p)"

datatype made = Made | Exists | Failed

text \<open>\<open>mkdir\<close> makes one directory in one that is there, and \<open>unlink\<close> removes a file; \<open>may\<close> tells where the system lets them.\<close>

definition mkdir :: "(jstr list \<Rightarrow> bool) \<Rightarrow> jstr \<Rightarrow> disk \<Rightarrow> made \<times> disk" where
  [js_eval]: "mkdir may p fs =
     (if fs (comps p) \<noteq> None then (Exists, fs)
      else if fs (butlast (comps p)) = Some Dir \<and> may (comps p) then (Made, fs(comps p \<mapsto> Dir)) else (Failed, fs))"

definition unlink_path :: "(jstr list \<Rightarrow> bool) \<Rightarrow> jstr \<Rightarrow> disk \<Rightarrow> disk" where
  [js_eval]: "unlink_path may p fs = (if fs (comps p) = Some File \<and> may (comps p) then fs(comps p := None) else fs)"

definition dir_exists :: "jstr \<Rightarrow> disk \<Rightarrow> bool" where
  [js_eval]: "dir_exists p fs \<longleftrightarrow> p \<noteq> [] \<and> fs (comps p) = Some Dir"

text \<open>Slashes at the end of the name of a file are cut off before it is removed; without memory for that the path is taken as it is.\<close>

definition unlink_file :: "bool \<Rightarrow> (jstr list \<Rightarrow> bool) \<Rightarrow> jstr \<Rightarrow> disk \<Rightarrow> disk" where
  [js_eval]: "unlink_file room may path fs =
     (if last path \<noteq> 47 then unlink_path may path fs
      else if \<not> room then fs
      else unlink_path may (hd path # rev (dropWhile (\<lambda>c. c = 47) (rev (tl path)))) fs)"

definition make_one :: "bool \<Rightarrow> (jstr list \<Rightarrow> bool) \<Rightarrow> jstr \<Rightarrow> disk \<Rightarrow> disk" where
  [js_eval]: "make_one room may p fs =
     (case mkdir may p fs of
        (Exists, _) \<Rightarrow> if dir_exists p fs then fs else snd (mkdir may p (unlink_file room may p fs))
      | (_, fs') \<Rightarrow> fs')"

text \<open>The paths that end before a slash of the text, after the first part \<open>pre\<close>.\<close>

fun slash_prefixes :: "jstr \<Rightarrow> jstr \<Rightarrow> jstr list" where
  "slash_prefixes pre [] = []"
| "slash_prefixes pre (c # s) =
     (if c = 47 then pre # slash_prefixes (pre @ [c]) s else slash_prefixes (pre @ [c]) s)"

definition dir_create_recursive :: "bool \<Rightarrow> (jstr list \<Rightarrow> bool) \<Rightarrow> jstr \<Rightarrow> disk \<Rightarrow> fault + int \<times> disk" where
  [js_eval]: "dir_create_recursive room may path fs =
     (if dir_exists path fs then Inr (0, fs)
      else if path = [] then (if room then Inl OutOfBounds else Inr (-1, fs))
      else let pbuf = (if last path = 47 then butlast path else path);
               ps = (case pbuf of c # s \<Rightarrow> if c = 47 then slash_prefixes [c] s else slash_prefixes [] pbuf | [] \<Rightarrow> []);
               fs1 = (if room then fold (make_one room may) ps fs else fs);
               fs2 = make_one room may path fs1
           in Inr (if dir_exists path fs2 then 0 else -1, fs2))"

text \<open>The result of \<open>access\<close> is 0 or -1, and so the comparison that is returned is 1 or 0.\<close>

definition dir_write_test :: "os \<Rightarrow> jstr \<Rightarrow> int" where
  [js_eval]: "dir_write_test os path = (if may_write os path then 1 else 0)"

definition dir_no_media :: "os \<Rightarrow> (jstr list \<Rightarrow> bool) \<Rightarrow> jstr option \<Rightarrow> disk \<Rightarrow> disk" where
  [js_eval]: "dir_no_media os may path fs =
     (case path of
        None \<Rightarrow> fs
      | Some p \<Rightarrow>
          let f = comps (snprintf (os_path_max os) (p @ js ''.nomedia''))
          in if fs f = None \<and> fs (butlast f) = Some Dir \<and> may f then fs(f \<mapsto> File) else fs)"

section \<open>The directory for the log\<close>

text \<open>The keywords: whether the storage is chosen automatically, and which of usb, external and phone are tried.\<close>

definition log_keyword :: "jstr \<Rightarrow> (bool \<times> bool \<times> bool \<times> bool) option" where
  [js_eval]: "log_keyword buffer =
     (if starts_with (js ''auto'') buffer \<or> buffer = []
      then if starts_with (js ''auto:'') buffer
           then Some (True, contains (js '':usb'') buffer, contains (js '':external'') buffer, contains (js '':phone'') buffer)
           else Some (True, True, True, True)
      else if buffer = js ''internal'' then Some (False, False, False, False)
      else if buffer = js ''external'' then Some (False, False, True, False)
      else if buffer = js ''phone'' then Some (False, False, False, True)
      else if buffer = js ''usb'' then Some (False, True, False, False)
      else None)"

type_synonym place = "jstr \<times> dirs \<times> disk"

text \<open>Trying one storage: the folder for the log on it, and whether it can be used.\<close>

definition try_storage :: "os \<Rightarrow> bool \<Rightarrow> (jstr list \<Rightarrow> bool) \<Rightarrow> nat \<Rightarrow> (dirs \<Rightarrow> (fault + dirs) option) \<Rightarrow> (dirs \<Rightarrow> jstr)
    \<Rightarrow> dirs \<times> disk \<Rightarrow> (fault + bool \<times> place) option" where
  [js_eval]: "try_storage os room may len getter path = (\<lambda>(d, fs).
     then_do (getter d) (\<lambda>d1.
       let buffer = snprintf len (path d1 @ js ''/htclog/'')
       in then_do (getter d1) (\<lambda>d2.
            if dir_storage_state os d2 (path d2) = 0 then Some (Inr (False, buffer, d2, fs))
            else Some (bind_res (dir_create_recursive room may buffer fs) (\<lambda>(r, fs').
                   Inr (\<not> (r < 0 \<or> dir_write_test os buffer < 0), buffer, d2, fs'))))))"

definition use_internal :: "os \<Rightarrow> bool \<Rightarrow> (jstr list \<Rightarrow> bool) \<Rightarrow> nat \<Rightarrow> place \<Rightarrow> (fault + int \<times> place) option" where
  [js_eval]: "use_internal os room may len = (\<lambda>(buffer, d, fs).
     let buffer = snprintf len (js ''/data/htclog/'')
     in Some (bind_res (dir_create_recursive room may buffer fs) (\<lambda>(r, fs').
          Inr (if r < 0 \<or> dir_write_test os buffer < 0 then -1 else 0, buffer, d, fs'))))"

text \<open>
  The storages one after the other. The first that can be used ends the search; one that can not ends it with an error unless
  the choice is automatic, and when all have been given up the internal one is left.
\<close>

fun try_all :: "os \<Rightarrow> bool \<Rightarrow> (jstr list \<Rightarrow> bool) \<Rightarrow> nat \<Rightarrow> bool \<Rightarrow> ((dirs \<Rightarrow> (fault + dirs) option) \<times> (dirs \<Rightarrow> jstr)) list
    \<Rightarrow> place \<Rightarrow> (fault + int \<times> place) option" where
  "try_all os room may len auto_select [] place = use_internal os room may len place"
| "try_all os room may len auto_select ((getter, path) # gs) (buffer, d, fs) =
     then_do (try_storage os room may len getter path (d, fs)) (\<lambda>(ok, place).
       if ok then Some (Inr (0, place))
       else if \<not> auto_select then Some (Inr (-1, place))
       else try_all os room may len auto_select gs place)"

definition dir_select_log_path :: "os \<Rightarrow> bool \<Rightarrow> (jstr list \<Rightarrow> bool) \<Rightarrow> nat \<Rightarrow> place \<Rightarrow> (fault + int \<times> place) option" where
  [js_eval]: "dir_select_log_path os room may len = (\<lambda>(buffer, d, fs).
     if len = 0 then Some (Inr (-1, buffer, d, fs))
     else if starts_with [47] buffer
     then let b = (if length buffer < len - 1 \<and> last buffer \<noteq> 47 then buffer @ [47] else buffer)
          in Some (bind_res (dir_create_recursive room may b fs) (\<lambda>(r, fs').
               Inr (if r < 0 \<or> dir_write_test os b < 0 then -1 else 0, b, d, fs')))
     else case log_keyword buffer of
            None \<Rightarrow> Some (Inr (-1, buffer, d, fs))
          | Some (auto_select, to_usb, to_external, to_phone) \<Rightarrow>
              try_all os room may len auto_select
                ((if to_usb then [(dir_get_usb_storage os, path_usb)] else [])
                 @ (if to_external then [(dir_get_external_storage os, path_external)] else [])
                 @ (if to_phone then [(dir_get_phone_storage os, path_phone)] else []))
                (buffer, d, fs))"

section \<open>The larger storage\<close>

text \<open>Free space in megabytes: a product of 64 bits, kept in 32 as on the devices the program is for.\<close>

definition free_mb :: "nat \<times> nat \<Rightarrow> nat" where
  [js_eval]: "free_mb st = (fst st * snd st mod 2 ^ 64) div (1024 * 1024) mod 2 ^ 32"

definition dir_get_larger_storage :: "os \<Rightarrow> dirs \<Rightarrow> (fault + jstr option \<times> dirs) option" where
  [js_eval]: "dir_get_larger_storage os d =
     then_do (dir_get_external_storage os d) (\<lambda>d1. then_do (dir_get_phone_storage os d1) (\<lambda>d2.
       let ext_path = path_external d2; phone_path = path_phone d2
       in Some (Inr
            (if dir_storage_state os d2 ext_path = 1
             then if dir_storage_state os d2 phone_path = 1
                  then case statfs os ext_path of
                         None \<Rightarrow> Some phone_path
                       | Some st_ext \<Rightarrow>
                           (case statfs os phone_path of
                              None \<Rightarrow> Some ext_path
                            | Some st_phone \<Rightarrow> Some (if free_mb st_phone < free_mb st_ext then ext_path else phone_path))
                  else Some ext_path
             else if dir_storage_state os d2 phone_path = 1 then Some phone_path else None, d2))))"

section \<open>Clearing a directory\<close>

text \<open>A directory with its entries in the order in which they are read. With patterns, only entries whose name begins with one
  of them are cleared; a directory is removed when nothing is left in it. The system removes what it is asked to.\<close>

datatype tree = Leaf | Node "(jstr \<times> tree) list"

definition selected :: "jstr list \<Rightarrow> jstr \<Rightarrow> bool" where
  [js_eval]: "selected patterns name \<longleftrightarrow> patterns = [] \<or> (\<exists>s \<in> set patterns. starts_with s name)"

fun clear_entries :: "jstr list \<Rightarrow> (jstr \<times> tree) list \<Rightarrow> (jstr \<times> tree) list" where
  "clear_entries patterns [] = []"
| "clear_entries patterns ((name, t) # es) =
     (if \<not> selected patterns name then (name, t) # clear_entries patterns es
      else case t of
             Leaf \<Rightarrow> clear_entries patterns es
           | Node sub \<Rightarrow>
               (let left = clear_entries patterns sub
                in if left = [] then clear_entries patterns es else (name, Node left) # clear_entries patterns es))"

definition dir_clear :: "jstr list \<Rightarrow> tree option \<Rightarrow> int \<times> tree option" where
  [js_eval]: "dir_clear patterns t =
     (case t of
        None \<Rightarrow> (-1, None)
      | Some Leaf \<Rightarrow> (0, None)
      | Some (Node es) \<Rightarrow> (0, Some (Node (clear_entries patterns es))))"

lemma clear_all: "clear_entries [] es = []"
  by (induction "[] :: jstr list" es rule: clear_entries.induct) (auto simp: selected_def split: tree.split)

section \<open>Paths and their names\<close>

lemma split_cu_at: "split_cu c (a @ c # b) = split_cu c a @ split_cu c b"
  by (induction a) (auto split: list.splits)

lemma comps_at: "comps (a @ 47 # b) = comps a @ comps b"
  by (simp add: comps_def split_cu_at)

lemma comps_Nil [simp]: "comps [] = []"
  by (simp add: comps_def)

lemma comps_slash [simp]: "comps (a @ [47]) = comps a"
  using comps_at[of a "[]"] by simp

lemma comps_name: "47 \<notin> set w \<Longrightarrow> comps w = (if w = [] then [] else [w])"
  by (simp add: comps_def split_cu_no_sep)

lemma comps_butlast: "last p = 47 \<Longrightarrow> comps (butlast p) = comps p"
  by (cases p rule: rev_cases) auto

lemma comps_strip: "comps (x # rev (dropWhile (\<lambda>c. c = 47) (rev s))) = comps (x # s)"
proof (induction s rule: rev_induct)
  case (snoc c s)
  show ?case
  proof (cases "c = 47")
    case True
    then show ?thesis using snoc comps_slash[of "x # s"] by simp
  qed simp
qed simp

text \<open>A path is given by its last slash and the name behind it.\<close>

lemma last_name:
  assumes "p \<noteq> []" "last p \<noteq> 47"
  obtains q w where "comps p = q @ [w]" "\<And>c. c \<noteq> 47 \<Longrightarrow> comps (p @ [c]) = q @ [w @ [c]]"
proof (cases "47 \<in> set p")
  case False
  then have "comps p = [] @ [p]" "\<And>c. c \<noteq> 47 \<Longrightarrow> comps (p @ [c]) = [] @ [p @ [c]]"
    using assms(1) by (auto simp: comps_name)
  then show ?thesis using that by blast
next
  case True
  then obtain a w where p: "p = a @ 47 # w" "47 \<notin> set w" using split_list_last by metis
  then have "w \<noteq> []" using assms(2) by auto
  then have "comps p = comps a @ [w]" "\<And>c. c \<noteq> 47 \<Longrightarrow> comps (p @ [c]) = comps a @ [w @ [c]]"
    using p comps_at[of a w] comps_at[of a "w @ [_]"] by (auto simp: comps_name)
  then show ?thesis using that by blast
qed

text \<open>What of a path has been made when it has been read up to here: a name counts when it ends with a slash.\<close>

definition made_of :: "jstr \<Rightarrow> jstr list" where
  "made_of p = (if last p = 47 then comps p else butlast (comps p))"

lemma made_of_snoc: "p \<noteq> [] \<Longrightarrow> c \<noteq> 47 \<Longrightarrow> made_of (p @ [c]) = made_of p"
proof -
  assume p: "p \<noteq> []" "c \<noteq> 47"
  show ?thesis
  proof (cases "last p = 47")
    case True
    then have "p = butlast p @ [47]" using append_butlast_last_id[OF p(1)] by simp
    then have "comps (p @ [c]) = comps p @ [[c]]"
      using comps_at[of "butlast p" "[c]"] comps_slash[of "butlast p"] p(2) by (metis append.assoc append_Cons append_Nil comps_name list.distinct(1) list.set(1,2) singletonD)
    then show ?thesis using True p(2) by (simp add: made_of_def)
  next
    case False
    from last_name[OF p(1) this] p(2) show ?thesis using False by (metis made_of_def butlast_snoc last_snoc)
  qed
qed

section \<open>Making directories\<close>

definition disk_ok :: "disk \<Rightarrow> bool" where
  "disk_ok fs \<longleftrightarrow> fs [] = Some Dir \<and> (\<forall>ks. ks \<noteq> [] \<longrightarrow> fs ks \<noteq> None \<longrightarrow> fs (butlast ks) = Some Dir)"

definition with_dirs :: "jstr list \<Rightarrow> disk \<Rightarrow> disk" where
  "with_dirs ks fs = (\<lambda>qs. if prefix qs ks then Some Dir else fs qs)"

lemma parents_dirs: "disk_ok fs \<Longrightarrow> fs (qs @ xs) \<noteq> None \<Longrightarrow> xs \<noteq> [] \<Longrightarrow> fs qs = Some Dir"
proof (induction xs rule: rev_induct)
  case (snoc x xs)
  have "qs @ xs @ [x] \<noteq> []" "fs (qs @ xs @ [x]) \<noteq> None" using snoc.prems by simp_all
  then have "fs (butlast (qs @ xs @ [x])) = Some Dir" using snoc.prems(1) unfolding disk_ok_def by blast
  then have "fs (qs @ xs) = Some Dir" by (simp add: butlast_append)
  then show ?case using snoc by (cases xs) auto
qed simp

lemma with_dirs_there: "disk_ok fs \<Longrightarrow> fs ks = Some Dir \<Longrightarrow> with_dirs ks fs = fs"
proof -
  assume fs: "disk_ok fs" "fs ks = Some Dir"
  have "fs qs = Some Dir" if p: "prefix qs ks" for qs
  proof -
    obtain xs where "ks = qs @ xs" using p by (auto simp: prefix_def)
    then show ?thesis using parents_dirs[OF fs(1), of qs xs] fs(2) by (cases "xs = []") auto
  qed
  then show ?thesis by (auto simp: with_dirs_def fun_eq_iff)
qed

lemma prefix_of_butlast: "ks \<noteq> [] \<Longrightarrow> prefix qs ks \<longleftrightarrow> qs = ks \<or> prefix qs (butlast ks)"
  by (metis append_butlast_last_id prefix_snoc)

lemma with_dirs_snoc: "ks \<noteq> [] \<Longrightarrow> with_dirs ks fs = (with_dirs (butlast ks) fs)(ks \<mapsto> Dir)"
  by (auto simp: with_dirs_def fun_eq_iff prefix_of_butlast)

lemma unlink_file_ok:
  assumes "p \<noteq> []" "fs (comps p) = Some File" "may (comps p)"
  shows "unlink_file True may p fs = fs(comps p := None)"
proof -
  have "comps (hd p # rev (dropWhile (\<lambda>c. c = 47) (rev (tl p)))) = comps p"
    using comps_strip[of "hd p" "tl p"] assms(1) by simp
  then show ?thesis using assms by (simp add: unlink_file_def unlink_path_def)
qed

lemma make_one_ok:
  assumes "disk_ok fs" "p \<noteq> []" "may (comps p)" "ks = comps p \<or> ks = butlast (comps p)"
  shows "make_one True may p (with_dirs ks fs) = with_dirs (comps p) fs"
proof (cases "ks = comps p")
  case True
  then have "with_dirs ks fs (comps p) = Some Dir" by (simp add: with_dirs_def)
  then show ?thesis using True assms(2) by (simp add: make_one_def mkdir_def dir_exists_def)
next
  case False
  let ?cs = "comps p" and ?fs = "with_dirs (butlast (comps p)) fs"
  have ks: "ks = butlast ?cs" "?cs \<noteq> []" using False assms(4) by auto
  have "\<not> prefix ?cs (butlast ?cs)" using ks(2) by (metis prefix_length_le length_butlast diff_less length_greater_0_conv less_one not_le)
  then have here: "?fs ?cs = fs ?cs" by (simp add: with_dirs_def)
  have up: "?fs (butlast ?cs) = Some Dir" "butlast ?cs \<noteq> ?cs" using ks(2) by (simp add: with_dirs_def, metis length_butlast diff_less length_greater_0_conv less_one less_not_refl)
  show ?thesis
  proof (cases "fs ?cs")
    case None
    then show ?thesis using here up assms(3) ks with_dirs_snoc[OF ks(2)] by (simp add: make_one_def mkdir_def)
  next
    case (Some k)
    show ?thesis
    proof (cases k)
      case Dir
      then have "?fs = with_dirs ?cs fs" using Some here with_dirs_snoc[OF ks(2), of fs] by (metis fun_upd_triv)
      then show ?thesis using Some Dir here ks assms(2) by (simp add: make_one_def mkdir_def dir_exists_def)
    next
      case File
      then have "unlink_file True may p ?fs = ?fs(?cs := None)" using unlink_file_ok[of p ?fs may] Some here assms(2,3) by simp
      then show ?thesis using Some File here up ks assms(3) with_dirs_snoc[OF ks(2)]
        by (simp add: make_one_def mkdir_def dir_exists_def)
    qed
  qed
qed

lemma make_loop:
  "disk_ok fs \<Longrightarrow> pre \<noteq> [] \<Longrightarrow>
    fold (make_one True (\<lambda>_. True)) (slash_prefixes pre s) (with_dirs (made_of pre) fs) = with_dirs (made_of (pre @ s)) fs"
proof (induction s arbitrary: pre)
  case (Cons c s)
  show ?case
  proof (cases "c = 47")
    case True
    have "make_one True (\<lambda>_. True) pre (with_dirs (made_of pre) fs) = with_dirs (comps pre) fs"
      using Cons.prems by (intro make_one_ok) (auto simp: made_of_def)
    moreover have "made_of (pre @ [47]) = comps pre" by (simp add: made_of_def)
    ultimately show ?thesis using Cons.IH[of "pre @ [47]"] Cons.prems True by simp
  next
    case False
    then show ?thesis using Cons.IH[of "pre @ [c]"] Cons.prems made_of_snoc[of pre c] by simp
  qed
qed simp

text \<open>When the system lets every directory be made, all directories of the path are there afterwards, files in their places are gone, and
  everything else is as before.\<close>

lemma create_recursive_ok:
  assumes "disk_ok fs" "path \<noteq> []" "\<forall>qs. may qs"
  shows "dir_create_recursive True may path fs = Inr (0, with_dirs (comps path) fs)"
proof (cases "dir_exists path fs")
  case True
  then show ?thesis using with_dirs_there[OF assms(1)] by (simp add: dir_create_recursive_def dir_exists_def)
next
  case False
  have m: "may = (\<lambda>_. True)" using assms(3) by auto
  let ?b = "if last path = 47 then butlast path else path"
  have cb: "comps ?b = comps path" by (simp add: comps_butlast)
  have "comps path \<noteq> []" using False assms(1,2) by (auto simp: dir_exists_def disk_ok_def)
  then have "?b \<noteq> []" using cb by (metis comps_Nil)
  then obtain c s where b: "?b = c # s" by (meson neq_Nil_conv)
  have w0: "with_dirs (made_of [c]) fs = fs"
    using assms(1) by (cases "c = 47") (auto simp: made_of_def comps_name with_dirs_def disk_ok_def fun_eq_iff comps_slash[of "[]", simplified])
  have "fold (make_one True may) (slash_prefixes [c] s) fs = with_dirs (made_of ?b) fs"
    using make_loop[OF assms(1), of "[c]" s] unfolding w0 b m by simp
  moreover have "(case ?b of c # s \<Rightarrow> if c = 47 then slash_prefixes [c] s else slash_prefixes [] ?b | [] \<Rightarrow> []) = slash_prefixes [c] s"
    unfolding b by simp
  moreover have "make_one True may path (with_dirs (made_of ?b) fs) = with_dirs (comps path) fs"
    using assms cb by (intro make_one_ok) (auto simp: made_of_def)
  moreover have "dir_exists path (with_dirs (comps path) fs)" using assms(2) by (simp add: dir_exists_def with_dirs_def)
  ultimately show ?thesis using False assms(2) unfolding dir_create_recursive_def Let_def by (simp only: if_True if_False)
qed

section \<open>The table of mounted file systems\<close>

lemma scan_mounts_find:
  assumes "length data \<le> n - 1"
  shows "scan_mounts n m data s = (case split_cu 10 s of
      l # ls \<Rightarrow> List.find (\<lambda>x. contains m (c_str x)) (map (take (n - 1)) ((data @ l) # ls)) | [] \<Rightarrow> None)"
  using assms
proof (induction s arbitrary: data)
  case (Cons ch s)
  obtain l ls where l: "split_cu 10 s = l # ls" by (meson neq_Nil_conv split_cu_nonempty)
  show ?case
  proof (cases "ch = 10")
    case True
    then show ?thesis using Cons.IH[of "[]"] Cons.prems l by simp
  next
    case False
    then have "take (n - 1) ((if length data < n - 1 then data @ [ch] else data) @ l) = take (n - 1) (data @ ch # l)"
    proof (cases "length data < n - 1")
      case True
      then have "n - Suc (length data) = Suc (n - Suc (Suc (length data)))" by simp
      then show ?thesis using True by simp
    qed (use Cons.prems in simp)
    then show ?thesis using False Cons.IH[of "if length data < n - 1 then data @ [ch] else data"] Cons.prems l by simp
  qed
qed simp

text \<open>C26: reading the table of mounted file systems one character at a time gives what a search over its
  lines would: the fields of the first line that contains the mount point between two blanks, where only the part of a line that fits
  into the buffer counts, and 0 when there is none.\<close>

theorem mount_entry_is_first_line:
  "dir_get_mount_entry os d (Some p) =
     (case proc_mounts os of
        None \<Rightarrow> (0, None)
      | Some table \<Rightarrow>
          (case List.find (\<lambda>l. contains (mount_name d p) (c_str l)) (map (take (os_path_max os - 1)) (split_cu 10 table)) of
             None \<Rightarrow> (0, None) | Some l \<Rightarrow> (1, Some (mount_fields l))))"
proof -
  have "scan_mounts n m [] s = List.find (\<lambda>x. contains m (c_str x)) (map (take (n - 1)) (split_cu 10 s))" for n m s
    using scan_mounts_find[of "[]" n m s] by (cases "split_cu 10 s") auto
  then show ?thesis by (simp add: dir_get_mount_entry_def split: option.splits)
qed

lemma storage_state_cases: "dir_storage_state os d p = 0 \<or> dir_storage_state os d p = 1"
  by (auto simp: dir_storage_state_def dir_get_mount_entry_def split: option.splits)

section \<open>The choice of the directory\<close>

lemma folder_fits: "length p + 8 < len \<Longrightarrow> snprintf len (p @ js ''/htclog/'') = p @ js ''/htclog/''"
  by (simp add: snprintf_def js_def)

lemma js_nonempty: "js ''/htclog/'' \<noteq> []" "js ''/data/htclog/'' \<noteq> []"
  by (simp_all add: js_def)

lemma try_known_storage:
  assumes "disk_ok fs" "\<forall>qs. may qs" "getter d = Some (Inr d)" "length (path d) + 8 < len"
  shows "try_storage os True may len getter path (d, fs) =
    Some (Inr (dir_storage_state os d (path d) = 1, path d @ js ''/htclog/'', d,
      if dir_storage_state os d (path d) = 1 then with_dirs (comps (path d @ js ''/htclog/'')) fs else fs))"
  using create_recursive_ok[OF assms(1) _ assms(2), of "path d @ js ''/htclog/''"] assms(3,4) js_nonempty(1)
    storage_state_cases[of os d "path d"]
  by (auto simp: try_storage_def folder_fits dir_write_test_def Let_def)

lemma use_internal_ok:
  assumes "disk_ok fs" "\<forall>qs. may qs" "13 < len"
  shows "use_internal os True may len (b, d, fs) = Some (Inr (0, js ''/data/htclog/'', d, with_dirs (comps (js ''/data/htclog/'')) fs))"
proof -
  have "snprintf len (js ''/data/htclog/'') = js ''/data/htclog/''" using assms(3) by (simp add: snprintf_def js_def)
  then show ?thesis using create_recursive_ok[OF assms(1) js_nonempty(2) assms(2)]
    by (simp add: use_internal_def dir_write_test_def Let_def)
qed

text \<open>Storages that are known are tried in their order, and the first that is mounted is taken.\<close>

definition log_folder :: "jstr option \<Rightarrow> jstr" where
  "log_folder p = (case p of Some p \<Rightarrow> p @ js ''/htclog/'' | None \<Rightarrow> js ''/data/htclog/'')"

lemma try_all_known:
  assumes "disk_ok fs" "\<forall>qs. may qs" "13 < len"
  shows "\<forall>(getter, path) \<in> set gs. getter d = Some (Inr d) \<and> length (path d) + 8 < len \<Longrightarrow>
    try_all os True may len True gs (b, d, fs) =
      (let log = log_folder (List.find (\<lambda>p. dir_storage_state os d p = 1) (map (\<lambda>(getter, path). path d) gs))
       in Some (Inr (0, log, d, with_dirs (comps log) fs)))"
proof (induction gs arbitrary: b)
  case Nil
  show ?case using use_internal_ok[OF assms] by (simp add: log_folder_def Let_def)
next
  case (Cons g gs)
  obtain getter path where g: "g = (getter, path)" by (cases g)
  then have "getter d = Some (Inr d)" "length (path d) + 8 < len" using Cons.prems by auto
  note this_one = try_known_storage[OF assms(1,2), of getter d path len os, OF this]
  show ?case
  proof (cases "dir_storage_state os d (path d) = 1")
    case True
    then show ?thesis using this_one g by (simp add: log_folder_def Let_def)
  next
    case False
    then show ?thesis using this_one g Cons by (simp add: Let_def)
  qed
qed

lemma keyword_auto: "log_keyword [] = Some (True, True, True, True)" "log_keyword (js ''auto'') = Some (True, True, True, True)"
  "\<not> starts_with [47] []" "\<not> starts_with [47] (js ''auto'')"
  by code_simp+


definition sample_os :: os where
  [js_eval]: "sample_os = \<lparr>readlink = (\<lambda>_. None), there = (\<lambda>_. False), may_write = (\<lambda>_. False), getenv = (\<lambda>_. None),
     getenv_later = (\<lambda>_. None), proc_mounts = Some (js ''/dev/a /data ext4 rw'' @ 10 # js ''/dev/b /sdcard vfat ro''),
     statfs = (\<lambda>_. None), os_path_max = 4096\<rparr>"

definition sample_dirs :: dirs where
  [js_eval]: "sample_dirs = \<lparr>path_usb = js ''/mnt/usb'', path_external = js ''/sdcard'', path_phone = js ''/emmc'', active_fuse_storage = None\<rparr>"


section \<open>What goes wrong\<close>

text \<open>The test whether a directory can be written to compares 1 or 0 with a negative number, so it never fails.\<close>

lemma write_test_never_fails: "\<not> dir_write_test os path < 0"
  by (simp add: dir_write_test_def)

text \<open>A link that leads to itself is followed for ever.\<close>

lemma follow_ends: "follow os fuse p = Some r \<Longrightarrow> fuse \<noteq> Some a \<longrightarrow> buf os a = a \<longrightarrow> readlink os a = Some a \<longrightarrow> p \<noteq> a"
proof (erule follow.raw_induct[where P = "\<lambda>os fuse p _. fuse \<noteq> Some a \<longrightarrow> buf os a = a \<longrightarrow> readlink os a = Some a \<longrightarrow> p \<noteq> a", rotated])
  fix go os fuse p r
  assume "\<And>os fuse p r. go os fuse p = Some r \<Longrightarrow> fuse \<noteq> Some a \<longrightarrow> buf os a = a \<longrightarrow> readlink os a = Some a \<longrightarrow> p \<noteq> a"
    and "(let linkpath = buf os p in if fuse = Some p then Some linkpath
      else case readlink os linkpath of None \<Rightarrow> Some linkpath | Some r \<Rightarrow> go os fuse (buf os r)) = Some r"
  then show "fuse \<noteq> Some a \<longrightarrow> buf os a = a \<longrightarrow> readlink os a = Some a \<longrightarrow> p \<noteq> a"
    by (fastforce simp: Let_def split: if_splits)
qed

lemma link_to_itself:
  assumes "buf os (js ''/sdcard2'') = js ''/sdcard2''" "readlink os (js ''/sdcard2'') = Some (js ''/sdcard2'')"
    "fuse \<noteq> Some (js ''/sdcard2'')"
  shows "dir_get_storage os fuse htc_external_storages = None"
proof -
  have "follow os fuse (js ''/sdcard2'') = None"
    using follow_ends[of os fuse "js ''/sdcard2''" _ "js ''/sdcard2''"] assms by (cases "follow os fuse (js ''/sdcard2'')") auto
  then show ?thesis using assms by (simp add: htc_external_storages_def)
qed

text \<open>A storage whose path begins with that of another one.\<close>

lemma code_of_longer_path:
  "map_option (map_sum id fst) (dir_get_storage_code sample_os (Some (js ''/sdcard2/htclog/'')) sample_dirs) = Some (Inr 101)"
  by code_simp

text \<open>A path is cut at a character that is not expected, such as a dot.\<close>

lemma path_cut_at_dot: "correct_path (js ''/mnt/media.usb'') = js ''/mnt/media''"
  by code_simp

text \<open>A variable that is empty and gone when it is asked for again.\<close>

lemma variable_gone: "getenv os v = Some [] \<Longrightarrow> getenv_later os v = None \<Longrightarrow> from_env os v p = Inl NullPointer"
  by (simp add: from_env_def)

text \<open>Every word that begins with \<open>auto\<close> is the keyword.\<close>

lemma auto_prefix: "log_keyword (js ''autumn'') = None" "log_keyword (js ''automobile'') = Some (True, True, True, True)"
  by code_simp+

text \<open>Creating the directory of the empty path looks before its first character.\<close>

lemma create_empty_path: "dir_create_recursive True may [] fs = Inl OutOfBounds"
  by (simp add: dir_create_recursive_def dir_exists_def)

end
