(* ===== verification/Conf.thy ===== *)
theory Conf
  imports GList KernelLog
begin

text \<open>
  The configuration of the log service (\<open>ZflTestTool/service/lib/src/conf.c\<close>): pairs of names and values in a linked list,
  which \<open>GList\<close> models, each pair with two strings of its own in the heap, and the file they are saved to and loaded from.

  The memory has three parts, for the nodes of the list, the pairs and the strings. Every allocation may fail, at any call;
  which addresses are given is the choice of the caller of the model (\<open>memory\<close>), and an address in use is never given. A
  string that is passed to a function is what stands at the pointer; it ends at the first zero (\<open>c_str\<close>). The lock is not modelled: a call is one step.
\<close>

section \<open>Memory\<close>

record conf_pair =
  pname :: "addr option"
  pvalue :: "addr option"

type_synonym strings = "addr \<Rightarrow> jstr option"

text \<open>A \<open>CONF\<close> with the memory its pairs are in, and the comparison that \<open>conf_sort\<close> keeps in the static variable \<open>_compare\<close>.\<close>

record conf =
  path :: jstr
  pair_list :: "addr glist"
  pairs :: "addr \<Rightarrow> conf_pair option"
  strs :: strings
  kept_compare :: "(jstr \<Rightarrow> jstr \<Rightarrow> int) option"

record memory =
  for_node :: "addr nodes \<Rightarrow> addr option"
  for_pair :: "(addr \<Rightarrow> conf_pair option) \<Rightarrow> addr option"
  for_str :: "strings \<Rightarrow> addr option"

definition alloc :: "(('a \<Rightarrow> 'b option) \<Rightarrow> 'a option) \<Rightarrow> ('a \<Rightarrow> 'b option) \<Rightarrow> 'a option" where
  [js_eval]: "alloc pick h = (case pick h of None \<Rightarrow> None | Some a \<Rightarrow> if h a = None then Some a else None)"

definition strdup :: "memory \<Rightarrow> jstr \<Rightarrow> conf \<Rightarrow> addr option \<times> conf" where
  [js_eval]: "strdup mem s c =
     (case alloc (for_str mem) (strs c) of None \<Rightarrow> (None, c) | Some a \<Rightarrow> (Some a, c\<lparr>strs := (strs c)(a \<mapsto> c_str s)\<rparr>))"

text \<open>\<open>free\<close> of a string; of a null pointer it does nothing.\<close>

definition free_str :: "addr option \<Rightarrow> strings \<Rightarrow> fault + strings" where
  [js_eval]: "free_str p h =
     (case p of None \<Rightarrow> Inr h | Some a \<Rightarrow> if h a = None then Inl DoubleFree else Inr (h(a := None)))"

definition pair_at :: "addr \<Rightarrow> conf \<Rightarrow> fault + conf_pair" where
  [js_eval]: "pair_at p c = (case pairs c p of None \<Rightarrow> Inl UseAfterFree | Some q \<Rightarrow> Inr q)"

definition str_at :: "addr option \<Rightarrow> conf \<Rightarrow> fault + jstr" where
  [js_eval]: "str_at p c =
     (case p of None \<Rightarrow> Inl NullPointer | Some a \<Rightarrow> (case strs c a of None \<Rightarrow> Inl UseAfterFree | Some s \<Rightarrow> Inr s))"

section \<open>Pairs\<close>

definition free_pair :: "addr option \<Rightarrow> conf \<Rightarrow> fault + conf" where
  [js_eval]: "free_pair pair c =
     (case pair of
        None \<Rightarrow> Inr c
      | Some p \<Rightarrow> bind_res (pair_at p c) (\<lambda>q. bind_res (free_str (pname q) (strs c)) (\<lambda>h.
                    bind_res (free_str (pvalue q) h) (\<lambda>h'. Inr (c\<lparr>strs := h', pairs := (pairs c)(p := None)\<rparr>)))))"

definition alloc_pair :: "memory \<Rightarrow> jstr \<Rightarrow> jstr \<Rightarrow> conf \<Rightarrow> fault + addr option \<times> conf" where
  [js_eval]: "alloc_pair mem name value c =
     (case alloc (for_pair mem) (pairs c) of
        None \<Rightarrow> Inr (None, c)
      | Some p \<Rightarrow>
          let (a, c1) = strdup mem name c; (b, c2) = strdup mem value c1;
              c3 = c2\<lparr>pairs := (pairs c2)(p \<mapsto> \<lparr>pname = a, pvalue = b\<rparr>)\<rparr>
          in if a = None \<or> b = None then bind_res (free_pair (Some p) c3) (\<lambda>c4. Inr (None, c4)) else Inr (Some p, c3))"

definition compare_data_with_pair :: "jstr \<Rightarrow> addr \<Rightarrow> conf \<Rightarrow> fault + int" where
  [js_eval]: "compare_data_with_pair name p c =
     bind_res (pair_at p c) (\<lambda>q.
       if pname q \<noteq> None then bind_res (str_at (pname q) c) (\<lambda>s. Inr (strcmp (c_str name) s)) else Inr (-1))"

text \<open>The pairs that \<open>glist_clear\<close> and \<open>glist_delete\<close> have handed to \<open>_free_pair\<close>, in their order.\<close>

primrec free_members :: "addr list \<Rightarrow> conf \<Rightarrow> fault + conf" where
  "free_members [] c = Inr c"
| "free_members (p # ps) c = bind_res (free_pair (Some p) c) (free_members ps)"

definition after_free :: "(fault + int \<times> addr glist) option \<Rightarrow> conf \<Rightarrow> (fault + conf) option" where
  [js_eval]: "after_free r c =
     map_option (\<lambda>r. bind_res r (\<lambda>(i, l). free_members (freed l) (c\<lparr>pair_list := l\<lparr>freed := []\<rparr>\<rparr>))) r"

section \<open>Looking up and setting\<close>

text \<open>\<open>glist_find_ex\<close> with a comparison that reads the memory.\<close>

definition find_pair :: "jstr \<Rightarrow> conf \<Rightarrow> (fault + int) option" where
  [js_eval]: "find_pair name c =
     on_walk
       (walk (nodes (pair_list c))
          (\<lambda>a n i. case compare_data_with_pair name (member n) c of
                     Inl e \<Rightarrow> Inl (Inl e) | Inr r \<Rightarrow> if r = 0 then Inl (Inr i) else Inr (i + 1))
          (head (pair_list c)) 0)
       id (\<lambda>_. Inr (-1))"

text \<open>\<open>None\<close> is the pointer -1.\<close>

definition lookup_pair :: "jstr \<Rightarrow> conf \<Rightarrow> (fault + addr option) option" where
  [js_eval]: "lookup_pair name c =
     (case find_pair name c of
        None \<Rightarrow> None
      | Some (Inl e) \<Rightarrow> Some (Inl e)
      | Some (Inr idx) \<Rightarrow> glist_get idx (pair_list c))"

text \<open>The result of \<open>conf_get\<close>: the default value, or the pointer the pair has to its value.\<close>

datatype got = Default | Pointer "addr option"

definition conf_get :: "conf \<Rightarrow> jstr option \<Rightarrow> (fault + got) option" where
  [js_eval]: "conf_get c name =
     (case name of
        None \<Rightarrow> Some (Inr Default)
      | Some s \<Rightarrow> map_option (\<lambda>r. bind_res r (\<lambda>p. case p of
          None \<Rightarrow> Inr Default | Some p \<Rightarrow> bind_res (pair_at p c) (\<lambda>q. Inr (Pointer (pvalue q))))) (lookup_pair s c))"

definition set_value :: "memory \<Rightarrow> addr \<Rightarrow> jstr \<Rightarrow> conf \<Rightarrow> fault + int \<times> conf" where
  [js_eval]: "set_value mem p value c =
     (case strdup mem value c of
        (None, _) \<Rightarrow> Inr (-1, c)
      | (Some new, c1) \<Rightarrow>
          bind_res (pair_at p c1) (\<lambda>q. bind_res (free_str (pvalue q) (strs c1)) (\<lambda>h.
            Inr (0, c1\<lparr>strs := h, pairs := (pairs c1)(p \<mapsto> q\<lparr>pvalue := Some new\<rparr>)\<rparr>))))"

definition add_pair :: "memory \<Rightarrow> jstr \<Rightarrow> jstr \<Rightarrow> conf \<Rightarrow> fault + int \<times> conf" where
  [js_eval]: "add_pair mem name value c =
     bind_res (alloc_pair mem name value c) (\<lambda>(p, c1). case p of
        None \<Rightarrow> Inr (-1, c1)
      | Some a \<Rightarrow>
          (let (r, l) = glist_add (alloc (for_node mem)) a (pair_list c1)
           in if r < 0 then bind_res (free_pair p c1) (\<lambda>c2. Inr (-1, c2)) else Inr (0, c1\<lparr>pair_list := l\<rparr>)))"

definition conf_set :: "memory \<Rightarrow> conf \<Rightarrow> jstr option \<Rightarrow> jstr option \<Rightarrow> (fault + int \<times> conf) option" where
  [js_eval]: "conf_set mem c name value =
     (case (name, value) of
        (Some n, Some v) \<Rightarrow>
          map_option (\<lambda>r. bind_res r (\<lambda>p. case p of
            Some p \<Rightarrow> set_value mem p v c | None \<Rightarrow> add_pair mem n v c)) (lookup_pair n c)
      | _ \<Rightarrow> Some (Inr (-1, c)))"

definition conf_remove :: "conf \<Rightarrow> jstr option \<Rightarrow> (fault + int \<times> conf) option" where
  [js_eval]: "conf_remove c name =
     (case name of
        None \<Rightarrow> Some (Inr (-1, c))
      | Some n \<Rightarrow>
          (case find_pair n c of
             None \<Rightarrow> None
           | Some (Inl e) \<Rightarrow> Some (Inl e)
           | Some (Inr idx) \<Rightarrow>
               if idx < 0 then Some (Inr (-1, c))
               else map_option (\<lambda>r. bind_res r (\<lambda>c'. Inr (0, c'))) (after_free (glist_delete idx True (pair_list c)) c)))"

definition conf_remove_all :: "conf \<Rightarrow> (fault + conf) option" where
  [js_eval]: "conf_remove_all c =
     map_option (\<lambda>r. bind_res r (\<lambda>c'. Inr (c'\<lparr>pair_list := (pair_list c')\<lparr>head := None\<rparr>\<rparr>)))
       (after_free (glist_clear True (pair_list c)) c)"

section \<open>Sorting\<close>

text \<open>\<open>conf_compare\<close> with two names; a name that is missing comes first. A pair that is gone is a fault.\<close>

definition conf_compare :: "(jstr \<Rightarrow> jstr \<Rightarrow> int) option \<Rightarrow> jstr option \<Rightarrow> jstr option \<Rightarrow> int" where
  [js_eval]: "conf_compare compare n1 n2 =
     (case compare of
        None \<Rightarrow> 0
      | Some f \<Rightarrow>
          (case (n1, n2) of
             (Some s1, Some s2) \<Rightarrow> f s1 s2 | (None, None) \<Rightarrow> 0 | (Some _, None) \<Rightarrow> 1 | (None, Some _) \<Rightarrow> -1))"

definition name_of :: "conf \<Rightarrow> addr \<Rightarrow> jstr option" where
  [js_eval]: "name_of c p = (case pairs c p of None \<Rightarrow> None | Some q \<Rightarrow> (case pname q of None \<Rightarrow> None | Some a \<Rightarrow> strs c a))"

text \<open>
  Every member of a list is compared at least with itself, so when one of them or its name is gone the sorting reads freed
  memory; without a comparison function the names are not looked at.
\<close>

definition readable :: "conf \<Rightarrow> addr \<Rightarrow> bool" where
  [js_eval]: "readable c p = (case pairs c p of None \<Rightarrow> False
     | Some q \<Rightarrow> (case pname q of None \<Rightarrow> True | Some a \<Rightarrow> strs c a \<noteq> None))"

definition sort_pairs :: "conf \<Rightarrow> (fault + conf) option" where
  [js_eval]: "sort_pairs c =
     (case glist_dump (pair_list c) of
        None \<Rightarrow> None
      | Some (Inl e) \<Rightarrow> Some (Inl e)
      | Some (Inr ms) \<Rightarrow>
          if kept_compare c \<noteq> None \<and> \<not> list_all (readable c) ms then Some (Inl UseAfterFree)
          else map_option (\<lambda>r. bind_res r (\<lambda>(_, l). Inr (c\<lparr>pair_list := l\<rparr>)))
                 (glist_sort (Some (\<lambda>p1 p2. conf_compare (kept_compare c) (name_of c p1) (name_of c p2))) (pair_list c)))"

definition conf_sort :: "conf \<Rightarrow> (jstr \<Rightarrow> jstr \<Rightarrow> int) option \<Rightarrow> (fault + conf) option" where
  [js_eval]: "conf_sort c compare_func = sort_pairs (if compare_func \<noteq> None then c\<lparr>kept_compare := compare_func\<rparr> else c)"

section \<open>The file\<close>

text \<open>One line for each pair.\<close>

primrec save_lines :: "conf \<Rightarrow> addr list \<Rightarrow> fault + jstr" where
  "save_lines c [] = Inr []"
| "save_lines c (p # ps) =
     bind_res (pair_at p c) (\<lambda>q. bind_res (str_at (pname q) c) (\<lambda>n. bind_res (str_at (pvalue q) c) (\<lambda>v.
       bind_res (save_lines c ps) (\<lambda>rest. Inr (n @ js '' = '' @ v @ 10 # rest)))))"

text \<open>The code that is returned and what is in the file, unless it can not be opened.\<close>

definition conf_save_to_file :: "bool \<Rightarrow> conf \<Rightarrow> (fault + int \<times> jstr option) option" where
  [js_eval]: "conf_save_to_file can_open c =
     (if \<not> can_open then Some (Inr (-1, None))
      else map_option (\<lambda>r. bind_res r (\<lambda>ps. bind_res (save_lines c ps) (\<lambda>f. Inr (0, Some f)))) (glist_dump (pair_list c)))"

text \<open>\<open>fgets\<close> with a buffer of \<open>n\<close> characters: at most \<open>n - 1\<close> of them, up to the end of the line and with it.\<close>

fun line_end :: "nat \<Rightarrow> jstr \<Rightarrow> nat" where
  "line_end 0 s = 0"
| "line_end (Suc n) [] = 0"
| "line_end (Suc n) (c # s) = (if c = 10 then 1 else Suc (line_end n s))"

lemma line_end_bounds: "line_end n s \<le> n \<and> line_end n s \<le> length s \<and> (0 < n \<longrightarrow> s \<noteq> [] \<longrightarrow> 0 < line_end n s)"
  by (induction n s rule: line_end.induct) auto

function fgets_lines :: "nat \<Rightarrow> jstr \<Rightarrow> jstr list" where
  "fgets_lines n s =
     (if s = [] \<or> n < 2 then [] else take (line_end (n - 1) s) s # fgets_lines n (drop (line_end (n - 1) s) s))"
  by pat_completeness auto

termination
  by (relation "measure (length \<circ> snd)") (use line_end_bounds in \<open>auto simp: Suc_le_eq\<close>)

declare fgets_lines.simps [simp del]

text \<open>
  What a line of the file says: nothing, or a name and a value. Trimming an empty value looks at the character before it, where
  the equals sign has been replaced by a zero, and does nothing; trimming an empty name looks before the buffer.
\<close>

definition read_line :: "jstr \<Rightarrow> fault + (jstr \<times> jstr) option" where
  [js_eval]: "read_line buffer =
     bind_res (strtrim (c_str buffer)) (\<lambda>s.
       if s = [] \<or> hd s = 35 then Inr None
       else if 61 \<notin> set s then Inr None
       else let name = takeWhile (\<lambda>c. c \<noteq> 61) s; ptr = tl (dropWhile (\<lambda>c. c \<noteq> 61) s)
            in bind_res (if ptr = [] then Inr [] else strtrim ptr) (\<lambda>v. bind_res (strtrim name) (\<lambda>n. Inr (Some (n, v)))))"

fun load_lines :: "memory \<Rightarrow> jstr list \<Rightarrow> conf \<Rightarrow> (fault + conf) option" where
  "load_lines mem [] c = Some (Inr c)"
| "load_lines mem (b # bs) c =
     (case read_line b of
        Inl e \<Rightarrow> Some (Inl e)
      | Inr None \<Rightarrow> load_lines mem bs c
      | Inr (Some (n, v)) \<Rightarrow>
          (case conf_set mem c (Some n) (Some v) of
             None \<Rightarrow> None
           | Some (Inl e) \<Rightarrow> Some (Inl e)
           | Some (Inr (_, c')) \<Rightarrow> load_lines mem bs c'))"

text \<open>A new \<open>CONF\<close>; the two conditions are whether there is memory for it and for its path.\<close>

definition conf_new :: "bool \<Rightarrow> bool \<Rightarrow> jstr \<Rightarrow> conf option" where
  [js_eval]: "conf_new room_conf room_path filepath =
     (if room_conf \<and> room_path
      then Some \<lparr>path = filepath, pair_list = no_list, pairs = (\<lambda>_. None), strs = (\<lambda>_. None), kept_compare = None\<rparr>
      else None)"

text \<open>Destroying gives back all pairs before the rest.\<close>

definition conf_destroy :: "conf \<Rightarrow> (fault + conf) option" where
  [js_eval]: "conf_destroy c =
     map_option (\<lambda>r. bind_res r (\<lambda>c'. Inr (c'\<lparr>path := [], pair_list := (pair_list c')\<lparr>head := None\<rparr>\<rparr>)))
       (after_free (glist_clear True (pair_list c)) c)"

definition conf_load_from_file :: "memory \<Rightarrow> bool \<Rightarrow> bool \<Rightarrow> jstr \<Rightarrow> jstr option \<Rightarrow> (fault + conf option) option" where
  [js_eval]: "conf_load_from_file mem room_conf room_path filepath file =
     (case conf_new room_conf room_path filepath of
        None \<Rightarrow> Some (Inr None)
      | Some c \<Rightarrow>
          (case file of
             None \<Rightarrow> map_option (\<lambda>r. bind_res r (\<lambda>_. Inr None)) (conf_destroy c)
           | Some s \<Rightarrow> map_option (\<lambda>r. bind_res r (\<lambda>c'. Inr (Some c'))) (load_lines mem (fgets_lines 512 s) c)))"

section \<open>Counting and listing\<close>

definition count_pairs :: "conf \<Rightarrow> (fault + int) option" where
  [js_eval]: "count_pairs c = glist_length (pair_list c)"

text \<open>The length that is returned has room for the zero at the end; \<open>None\<close> is no buffer.\<close>

definition conf_get_pair :: "conf \<Rightarrow> int \<Rightarrow> int option \<Rightarrow> (fault + int \<times> jstr option) option" where
  [js_eval]: "conf_get_pair c index len =
     map_option (\<lambda>r. bind_res r (\<lambda>p. case p of
         None \<Rightarrow> Inr (-1, None)
       | Some p \<Rightarrow> bind_res (pair_at p c) (\<lambda>q.
           bind_res (if pname q = None then Inr [] else str_at (pname q) c) (\<lambda>n.
           bind_res (if pvalue q = None then Inr [] else str_at (pvalue q) c) (\<lambda>v.
             Inr (int (length n) + int (length v) + 2,
                  case len of None \<Rightarrow> None
                  | Some k \<Rightarrow> if 0 < k then Some (snprintf (nat k) (n @ 61 # v)) else None))))))
       (glist_get index (pair_list c))"

section \<open>Key holders\<close>

text \<open>
  Names with default values, copied from an array: a null pointer is \<open>None\<close>. A missing default becomes the empty text, also in the
  array of the caller, which is the second result. \<open>dup i\<close> tells for which of the two strings of pair \<open>i\<close> there is memory; a
  string without memory stays a null pointer.
\<close>

type_synonym key_pair = "jstr option \<times> jstr option"

fun copy_pairs :: "(nat \<Rightarrow> bool \<times> bool) \<Rightarrow> nat \<Rightarrow> key_pair list \<Rightarrow> key_pair list option \<times> key_pair list" where
  "copy_pairs dup i [] = (Some [], [])"
| "copy_pairs dup i ((None, v) # ps) = (None, (None, v) # ps)"
| "copy_pairs dup i ((Some n, v) # ps) =
     (let d = (case v of None \<Rightarrow> [] | Some w \<Rightarrow> w);
          (rest, ps') = copy_pairs dup (Suc i) ps
      in (map_option (Cons (if fst (dup i) then Some (c_str n) else None, if snd (dup i) then Some (c_str d) else None)) rest,
          (Some n, Some d) # ps'))"

definition keyholder_new :: "bool \<Rightarrow> bool \<Rightarrow> (nat \<Rightarrow> bool \<times> bool) \<Rightarrow> key_pair list \<Rightarrow> key_pair list option \<times> key_pair list" where
  [js_eval]: "keyholder_new room_kh room_pairs dup ps =
     (if ps = [] \<or> \<not> room_kh \<or> \<not> room_pairs then (None, ps) else copy_pairs dup 0 ps)"

definition key_at :: "key_pair list option \<Rightarrow> int \<Rightarrow> key_pair option" where
  [js_eval]: "key_at kh index =
     (case kh of None \<Rightarrow> None
      | Some ps \<Rightarrow> if 0 \<le> index \<and> index < int (length ps) then Some (ps ! nat index) else None)"

text \<open>The second result is the default value that \<open>Default\<close> stands for.\<close>

definition keyholder_conf_get :: "key_pair list option \<Rightarrow> conf \<Rightarrow> int \<Rightarrow> jstr option \<Rightarrow> (fault + got \<times> jstr option) option" where
  [js_eval]: "keyholder_conf_get kh c index default_value =
     (case key_at kh index of
        None \<Rightarrow> Some (Inr (Default, default_value))
      | Some (n, v) \<Rightarrow>
          map_option (\<lambda>r. bind_res r (\<lambda>g. Inr (g, if default_value \<noteq> None then default_value else v))) (conf_get c n))"

definition keyholder_conf_set :: "memory \<Rightarrow> key_pair list option \<Rightarrow> conf \<Rightarrow> int \<Rightarrow> jstr option \<Rightarrow> (fault + int \<times> conf) option" where
  [js_eval]: "keyholder_conf_set mem kh c index value =
     (case key_at kh index of None \<Rightarrow> Some (Inr (-1, c)) | Some (n, v) \<Rightarrow> conf_set mem c n value)"

text \<open>The code is -1 whatever happens.\<close>

primrec keyholder_conf_set_default :: "memory \<Rightarrow> key_pair list \<Rightarrow> conf \<Rightarrow> (fault + int \<times> conf) option" where
  "keyholder_conf_set_default mem [] c = Some (Inr (-1, c))"
| "keyholder_conf_set_default mem (p # ps) c =
     (case conf_set mem c (fst p) (snd p) of
        None \<Rightarrow> None
      | Some (Inl e) \<Rightarrow> Some (Inl e)
      | Some (Inr (_, c')) \<Rightarrow> keyholder_conf_set_default mem ps c')"

section \<open>What the memory holds\<close>

text \<open>
  The list with its memory, as cells: the address of the pair, those of its strings, and the strings. \<open>holds\<close> says that the memory
  has the pairs and strings of the cells and nothing else, and that the list has the pairs in their order.
\<close>

record cell =
  c_pair :: addr
  c_naddr :: addr
  c_name :: jstr
  c_vaddr :: addr
  c_value :: jstr

definition pair_cells :: "cell list \<Rightarrow> (addr \<times> conf_pair) list" where
  "pair_cells cs = map (\<lambda>x. (c_pair x, \<lparr>pname = Some (c_naddr x), pvalue = Some (c_vaddr x)\<rparr>)) cs"

definition str_cells :: "cell list \<Rightarrow> (addr \<times> jstr) list" where
  "str_cells cs = concat (map (\<lambda>x. [(c_naddr x, c_name x), (c_vaddr x, c_value x)]) cs)"

definition kvs :: "cell list \<Rightarrow> (jstr \<times> jstr) list" where
  "kvs cs = map (\<lambda>x. (c_name x, c_value x)) cs"

definition listed :: "addr glist \<Rightarrow> addr list \<Rightarrow> bool" where
  "listed l ms \<longleftrightarrow> (\<exists>ps. heap_list l ps \<and> map snd ps = ms) \<and> freed l = []"

definition in_memory :: "conf \<Rightarrow> cell list \<Rightarrow> bool" where
  "in_memory c cs \<longleftrightarrow> pairs c = map_of (pair_cells cs) \<and> distinct (map c_pair cs)
     \<and> strs c = map_of (str_cells cs) \<and> distinct (map fst (str_cells cs))"

definition holds :: "conf \<Rightarrow> cell list \<Rightarrow> bool" where
  "holds c cs \<longleftrightarrow> listed (pair_list c) (map c_pair cs) \<and> in_memory c cs
     \<and> distinct (map c_name cs) \<and> (\<forall>x \<in> set cs. 0 \<notin> set (c_name x))"

lemma cells_simps [simp]:
  "pair_cells [] = []" "str_cells [] = []" "kvs [] = []"
  "pair_cells (x # cs) = (c_pair x, \<lparr>pname = Some (c_naddr x), pvalue = Some (c_vaddr x)\<rparr>) # pair_cells cs"
  "str_cells (x # cs) = (c_naddr x, c_name x) # (c_vaddr x, c_value x) # str_cells cs"
  "kvs (x # cs) = (c_name x, c_value x) # kvs cs"
  "pair_cells (cs @ ds) = pair_cells cs @ pair_cells ds"
  "str_cells (cs @ ds) = str_cells cs @ str_cells ds"
  "kvs (cs @ ds) = kvs cs @ kvs ds"
  by (simp_all add: pair_cells_def str_cells_def kvs_def)

lemma fst_pair_cells [simp]: "map fst (pair_cells cs) = map c_pair cs" "fst ` set (pair_cells cs) = c_pair ` set cs"
  by (induction cs) auto

lemma length_kvs [simp]: "length (kvs cs) = length cs" "map fst (kvs cs) = map c_name cs"
  by (simp_all add: kvs_def)

text \<open>A heap as a list of cells: changing, exchanging and removing one of them.\<close>

lemma heap_upd: "distinct (map fst (xs @ (k, v) # ys)) \<Longrightarrow> (map_of (xs @ (k, v) # ys))(k \<mapsto> w) = map_of (xs @ (k, w) # ys)"
  by (induction xs) (auto simp: fun_upd_twist)

lemma heap_del: "distinct (map fst (xs @ (k, v) # ys)) \<Longrightarrow> (map_of (xs @ (k, v) # ys))(k := None) = map_of (xs @ ys)"
proof (induction xs)
  case Nil
  then have "map_of ys k = None" by (simp add: map_of_eq_None_iff)
  then show ?case by (auto simp: fun_eq_iff)
qed (auto simp: fun_upd_twist)

lemma heap_new: "k \<notin> fst ` set (xs @ ys) \<Longrightarrow> (map_of (xs @ ys))(k \<mapsto> w) = map_of (xs @ (k, w) # ys)"
proof (induction xs)
  case (Cons x xs)
  obtain a b where x: "x = (a, b)" by (cases x)
  then have "(map_of ((x # xs) @ ys))(k \<mapsto> w) = ((map_of (xs @ ys))(k \<mapsto> w))(a \<mapsto> b)"
    using Cons.prems by (simp add: fun_upd_twist)
  also have "(map_of (xs @ ys))(k \<mapsto> w) = map_of (xs @ (k, w) # ys)" using Cons.prems by (intro Cons.IH) simp
  finally show ?case using x by simp
qed simp

lemma heap_at: "distinct (map fst (xs @ (k, v) # ys)) \<Longrightarrow> map_of (xs @ (k, v) # ys) k = Some v"
  by (induction xs) auto

lemma heap_move:
  assumes "distinct (map fst (xs @ (k, v) # ys))" "map_of (xs @ (k, v) # ys) k' = None"
  shows "((map_of (xs @ (k, v) # ys))(k' \<mapsto> w))(k := None) = map_of (xs @ (k', w) # ys)"
    "distinct (map fst (xs @ (k', w) # ys))"
proof -
  have k': "k' \<notin> fst ` set (xs @ (k, v) # ys)" using assms(2) by (simp only: map_of_eq_None_iff not_False_eq_True)
  then show "distinct (map fst (xs @ (k', w) # ys))" using assms(1) by auto
  have "k \<noteq> k'" using k' by auto
  then have "((map_of (xs @ (k, v) # ys))(k' \<mapsto> w))(k := None) = ((map_of (xs @ (k, v) # ys))(k := None))(k' \<mapsto> w)"
    by (rule fun_upd_twist[symmetric])
  also have "\<dots> = map_of (xs @ (k', w) # ys)"
    unfolding heap_del[OF assms(1)] using k' by (intro heap_new) auto
  finally show "((map_of (xs @ (k, v) # ys))(k' \<mapsto> w))(k := None) = map_of (xs @ (k', w) # ys)" .
qed

section \<open>The parts of the calls\<close>

lemma strcmp_zero: "0 \<notin> set s \<Longrightarrow> 0 \<notin> set t \<Longrightarrow> strcmp s t = 0 \<longleftrightarrow> s = t"
  by (induction s t rule: strcmp.induct) auto

lemma c_str_no_zero [simp]: "0 \<notin> set (c_str s)"
  by (auto simp: c_str_def dest: set_takeWhileD)

lemma alloc_fresh: "alloc pick h = Some a \<Longrightarrow> h a = None"
  by (auto simp: alloc_def split: option.splits if_splits)

interpretation guarded: allocator "alloc pick" for pick
  by unfold_locales (rule alloc_fresh)

lemma cell_at:
  assumes "in_memory c (us @ x # vs)"
  shows "pairs c (c_pair x) = Some \<lparr>pname = Some (c_naddr x), pvalue = Some (c_vaddr x)\<rparr>"
    "strs c (c_naddr x) = Some (c_name x)" "strs c (c_vaddr x) = Some (c_value x)"
proof -
  have "distinct (map fst (pair_cells us @ (c_pair x, \<lparr>pname = Some (c_naddr x), pvalue = Some (c_vaddr x)\<rparr>) # pair_cells vs))"
    using assms by (simp add: in_memory_def)
  from heap_at[OF this] show "pairs c (c_pair x) = Some \<lparr>pname = Some (c_naddr x), pvalue = Some (c_vaddr x)\<rparr>"
    using assms by (simp add: in_memory_def)
  have "distinct (map fst (str_cells us @ (c_naddr x, c_name x) # (c_vaddr x, c_value x) # str_cells vs))"
    using assms by (simp add: in_memory_def)
  from heap_at[OF this] show "strs c (c_naddr x) = Some (c_name x)" using assms by (simp add: in_memory_def)
  have "distinct (map fst ((str_cells us @ [(c_naddr x, c_name x)]) @ (c_vaddr x, c_value x) # str_cells vs))"
    using assms by (simp add: in_memory_def)
  from heap_at[OF this] show "strs c (c_vaddr x) = Some (c_value x)" using assms by (simp add: in_memory_def)
qed

lemma cell_in: "in_memory c cs \<Longrightarrow> x \<in> set cs \<Longrightarrow>
    pairs c (c_pair x) = Some \<lparr>pname = Some (c_naddr x), pvalue = Some (c_vaddr x)\<rparr>
    \<and> strs c (c_naddr x) = Some (c_name x) \<and> strs c (c_vaddr x) = Some (c_value x)"
  using cell_at[of c _ x] by (auto dest!: split_list)

lemma compare_cell: "holds c cs \<Longrightarrow> x \<in> set cs \<Longrightarrow>
    \<exists>r. compare_data_with_pair name (c_pair x) c = Inr r \<and> (r = 0 \<longleftrightarrow> c_name x = c_str name)"
  using cell_in[of c cs x]
  by (auto simp: holds_def compare_data_with_pair_def pair_at_def str_at_def strcmp_zero)

fun find_from :: "('a \<Rightarrow> bool) \<Rightarrow> 'a list \<Rightarrow> int \<Rightarrow> int" where
  "find_from P [] k = -1"
| "find_from P (x # xs) k = (if P x then k else find_from P xs (k + 1))"

lemma find_from_none: "\<forall>x \<in> set xs. \<not> P x \<Longrightarrow> find_from P xs k = -1"
  by (induction xs arbitrary: k) auto

lemma find_from_first: "\<forall>x \<in> set us. \<not> P x \<Longrightarrow> P x \<Longrightarrow> find_from P (us @ x # vs) k = k + int (length us)"
  by (induction us arbitrary: k) auto

lemma find_pair_ok:
  assumes "holds c cs"
  shows "find_pair name c = Some (Inr (find_from (\<lambda>s. s = c_str name) (map c_name cs) 0))"
proof -
  let ?body = "\<lambda>a n i. case compare_data_with_pair name (member n) c of
      Inl e \<Rightarrow> Inl (Inl e) | Inr r \<Rightarrow> if r = 0 then Inl (Inr i) else Inr (i + 1)"
  obtain ps where ps: "heap_list (pair_list c) ps" "map snd ps = map c_pair cs"
    using assms by (auto simp: holds_def listed_def)
  have "on_walk (Some (Inr (walk_list ?body qs k))) id (\<lambda>_. Inr (-1))
      = Some (Inr (find_from (\<lambda>s. s = c_str name) (map c_name ds) k))"
    if "map snd qs = map c_pair ds" "set ds \<subseteq> set cs" for qs ds k
    using that
  proof (induction qs arbitrary: ds k)
    case Nil
    then show ?case by (simp add: on_walk_def)
  next
    case (Cons q qs)
    then obtain x es where ds: "ds = x # es" "snd q = c_pair x" "map snd qs = map c_pair es" by (cases ds) auto
    obtain r where r: "compare_data_with_pair name (c_pair x) c = Inr r" "r = 0 \<longleftrightarrow> c_name x = c_str name"
      using compare_cell[OF assms] Cons.prems(2) ds(1) by fastforce
    have "set es \<subseteq> set cs" using Cons.prems(2) ds(1) by simp
    from Cons.IH[OF ds(3) this, of "k + 1"] show ?case using ds r
      by (cases q) (auto simp: on_walk_def)
  qed
  from this[OF ps(2) order_refl] show ?thesis unfolding find_pair_def walk_head[OF ps(1)] .
qed

lemma get_listed: "listed l ms \<Longrightarrow> glist_get i l = Some (Inr (if in_range i ms then Some (ms ! nat i) else None))"
  using get_heap_list[of l _ i] by (fastforce simp: listed_def in_range_def)

lemma find_absent: "holds c cs \<Longrightarrow> c_str name \<notin> c_name ` set cs \<Longrightarrow> find_pair name c = Some (Inr (-1))"
  by (simp add: find_pair_ok) (rule find_from_none, auto simp: image_iff)

lemma find_present:
  assumes "holds c (us @ x # vs)" "c_name x = c_str name"
  shows "find_pair name c = Some (Inr (int (length us)))"
proof -
  have "\<forall>s \<in> set (map c_name us). s \<noteq> c_str name" using assms by (auto simp: holds_def image_iff)
  then show ?thesis using find_pair_ok[OF assms(1)] find_from_first[of "map c_name us" "\<lambda>s. s = c_str name" "c_name x" "map c_name vs" 0]
    using assms(2) by simp
qed

lemma lookup_absent: "holds c cs \<Longrightarrow> c_str name \<notin> c_name ` set cs \<Longrightarrow> lookup_pair name c = Some (Inr None)"
  using get_listed[of "pair_list c" "map c_pair cs" "-1"] by (simp add: lookup_pair_def find_absent holds_def in_range_def)

lemma lookup_present:
  assumes "holds c (us @ x # vs)" "c_name x = c_str name"
  shows "lookup_pair name c = Some (Inr (Some (c_pair x)))"
  using get_listed[of "pair_list c" "map c_pair (us @ x # vs)" "int (length us)"] assms find_present[OF assms]
  by (simp add: lookup_pair_def holds_def in_range_def nth_append)

text \<open>Two ways for a name: it is in the list, at one place, or not.\<close>

lemma name_cases:
  obtains (absent) "s \<notin> c_name ` set cs" | (present) us x vs where "cs = us @ x # vs" "c_name x = s"
  by (metis imageE split_list)

text \<open>Freeing a pair takes its cell out of the memory.\<close>

lemma free_cell:
  assumes "in_memory c (us @ x # vs)"
  shows "\<exists>c'. free_pair (Some (c_pair x)) c = Inr c' \<and> in_memory c' (us @ vs)
    \<and> pair_list c' = pair_list c \<and> kept_compare c' = kept_compare c"
proof -
  let ?P = "pair_cells us" and ?Q = "pair_cells vs" and ?S = "str_cells us" and ?T = "str_cells vs"
  have m: "pairs c = map_of (?P @ (c_pair x, \<lparr>pname = Some (c_naddr x), pvalue = Some (c_vaddr x)\<rparr>) # ?Q)"
    "distinct (map fst (?P @ (c_pair x, \<lparr>pname = Some (c_naddr x), pvalue = Some (c_vaddr x)\<rparr>) # ?Q))"
    "strs c = map_of (?S @ (c_naddr x, c_name x) # (c_vaddr x, c_value x) # ?T)"
    "distinct (map fst (?S @ (c_naddr x, c_name x) # (c_vaddr x, c_value x) # ?T))"
    using assms by (simp_all add: in_memory_def)
  have p: "(pairs c)(c_pair x := None) = map_of (?P @ ?Q)" unfolding m(1) by (rule heap_del[OF m(2)])
  have s1: "(strs c)(c_naddr x := None) = map_of (?S @ (c_vaddr x, c_value x) # ?T)"
    unfolding m(3) by (rule heap_del[OF m(4)])
  have d1: "distinct (map fst (?S @ (c_vaddr x, c_value x) # ?T))" using m(4) by auto
  have s2: "((strs c)(c_naddr x := None))(c_vaddr x := None) = map_of (?S @ ?T)" unfolding s1 by (rule heap_del[OF d1])
  have a: "pairs c (c_pair x) = Some \<lparr>pname = Some (c_naddr x), pvalue = Some (c_vaddr x)\<rparr>"
    "strs c (c_naddr x) \<noteq> None" "((strs c)(c_naddr x := None)) (c_vaddr x) \<noteq> None"
    using cell_at[OF assms] heap_at[OF d1] unfolding s1 by simp_all
  let ?c = "c\<lparr>strs := map_of (?S @ ?T), pairs := map_of (?P @ ?Q)\<rparr>"
  have "free_pair (Some (c_pair x)) c = Inr ?c"
    unfolding s2[symmetric] p[symmetric] using a by (simp add: free_pair_def pair_at_def free_str_def)
  moreover have "in_memory ?c (us @ vs)" using assms by (auto simp: in_memory_def)
  ultimately show ?thesis by auto
qed

lemma free_cells:
  "in_memory c cs \<Longrightarrow> \<exists>c'. free_members (map c_pair cs) c = Inr c' \<and> in_memory c' []
    \<and> pair_list c' = pair_list c \<and> kept_compare c' = kept_compare c"
proof (induction cs arbitrary: c)
  case (Cons x cs)
  then show ?case using free_cell[of c "[]" x cs] by fastforce
qed auto

text \<open>A pair that has been taken out of the list.\<close>

lemma listed_clean: "heap_list l ps \<Longrightarrow> map snd ps = ms \<Longrightarrow> listed (l\<lparr>freed := []\<rparr>) ms"
  unfolding listed_def by (intro conjI exI[of _ ps]) (simp_all add: heap_list_def)

lemma remove_cell:
  assumes "holds c (us @ x # vs)"
  shows "\<exists>c'. after_free (glist_delete (int (length us)) True (pair_list c)) c = Some (Inr c') \<and> holds c' (us @ vs)
    \<and> kept_compare c' = kept_compare c"
proof -
  obtain ps where ps: "heap_list (pair_list c) ps" "map snd ps = map c_pair (us @ x # vs)" "freed (pair_list c) = []"
    using assms by (auto simp: holds_def listed_def)
  have len: "length us < length ps" using arg_cong[OF ps(2), of length] by simp
  obtain l where l: "glist_delete (int (length us)) True (pair_list c) = Some (Inr (0, l))"
    "heap_list l (take (length us) ps @ drop (Suc (length us)) ps)" "freed l = [snd (ps ! length us)]"
    using delete_heap_list[OF ps(1), of "int (length us)" True] len ps(3) by auto
  have "map snd ps ! length us = c_pair x" unfolding ps(2) by (simp add: nth_append)
  then have "snd (ps ! length us) = c_pair x" using len by simp
  then have fr: "freed l = [c_pair x]" using l(3) by simp
  have "map snd (take (length us) ps @ drop (Suc (length us)) ps) = map c_pair (us @ vs)"
    using ps(2) by (simp add: take_map[symmetric] drop_map[symmetric])
  then have li: "listed (l\<lparr>freed := []\<rparr>) (map c_pair (us @ vs))"
    by (rule listed_clean[OF l(2)])
  have "in_memory (c\<lparr>pair_list := l\<lparr>freed := []\<rparr>\<rparr>) (us @ x # vs)" using assms by (simp add: holds_def in_memory_def)
  from free_cell[OF this] obtain c' where "free_pair (Some (c_pair x)) (c\<lparr>pair_list := l\<lparr>freed := []\<rparr>\<rparr>) = Inr c'"
    "in_memory c' (us @ vs)" "pair_list c' = l\<lparr>freed := []\<rparr>" "kept_compare c' = kept_compare c" by auto
  then show ?thesis using l(1) fr li assms by (auto simp: after_free_def holds_def)
qed

lemma clear_cells:
  assumes "holds c cs"
  shows "\<exists>c'. after_free (glist_clear True (pair_list c)) c = Some (Inr c') \<and> holds c' [] \<and> kept_compare c' = kept_compare c"
proof -
  obtain ps where ps: "heap_list (pair_list c) ps" "map snd ps = map c_pair cs" "freed (pair_list c) = []"
    using assms by (auto simp: holds_def listed_def)
  obtain l where l: "glist_clear True (pair_list c) = Some (Inr (0, l))" "heap_list l []" "freed l = map c_pair cs"
    using clear_heap_list[OF ps(1), of True] ps(2,3) by auto
  have "in_memory (c\<lparr>pair_list := l\<lparr>freed := []\<rparr>\<rparr>) cs" using assms by (simp add: holds_def in_memory_def)
  from free_cells[OF this] obtain c' where "free_members (map c_pair cs) (c\<lparr>pair_list := l\<lparr>freed := []\<rparr>\<rparr>) = Inr c'"
    "in_memory c' []" "pair_list c' = l\<lparr>freed := []\<rparr>" "kept_compare c' = kept_compare c" by auto
  moreover have "listed (l\<lparr>freed := []\<rparr>) []" using listed_clean[OF l(2)] by simp
  ultimately show ?thesis using l(1,3) by (auto simp: after_free_def holds_def)
qed

text \<open>A new value for a pair, and a new pair; without memory nothing changes.\<close>

lemma set_cell:
  assumes "holds c (us @ x # vs)"
  shows "set_value mem (c_pair x) v c = Inr (-1, c) \<and> alloc (for_str mem) (strs c) = None
    \<or> (\<exists>c' b. set_value mem (c_pair x) v c = Inr (0, c') \<and> holds c' (us @ x\<lparr>c_vaddr := b, c_value := c_str v\<rparr> # vs)
        \<and> kept_compare c' = kept_compare c)"
proof (cases "alloc (for_str mem) (strs c)")
  case None
  then show ?thesis by (simp add: set_value_def strdup_def)
next
  case (Some b)
  let ?y = "x\<lparr>c_vaddr := b, c_value := c_str v\<rparr>"
  let ?P = "pair_cells us" and ?Q = "pair_cells vs" and ?S = "str_cells us @ [(c_naddr x, c_name x)]" and ?T = "str_cells vs"
  let ?q = "\<lparr>pname = Some (c_naddr x), pvalue = Some (c_vaddr x)\<rparr>"
  have m: "pairs c = map_of (?P @ (c_pair x, ?q) # ?Q)" "distinct (map fst (?P @ (c_pair x, ?q) # ?Q))"
    "strs c = map_of (?S @ (c_vaddr x, c_value x) # ?T)" "distinct (map fst (?S @ (c_vaddr x, c_value x) # ?T))"
    using assms by (simp_all add: holds_def in_memory_def)
  have b: "map_of (?S @ (c_vaddr x, c_value x) # ?T) b = None" using alloc_fresh[OF Some] unfolding m(3) .
  note mv = heap_move[OF m(4) b, of "c_str v"]
  have old: "((strs c)(b \<mapsto> c_str v)) (c_vaddr x) \<noteq> None"
    using heap_at[OF m(4)] unfolding m(3)[symmetric] by simp
  let ?c = "c\<lparr>strs := map_of (?S @ (b, c_str v) # ?T),
    pairs := map_of (?P @ (c_pair x, ?q\<lparr>pvalue := Some b\<rparr>) # ?Q)\<rparr>"
  have st: "((strs c)(b \<mapsto> c_str v))(c_vaddr x := None) = map_of (?S @ (b, c_str v) # ?T)"
    unfolding m(3) by (rule mv(1))
  have pr: "(pairs c)(c_pair x \<mapsto> ?q\<lparr>pvalue := Some b\<rparr>) = map_of (?P @ (c_pair x, ?q\<lparr>pvalue := Some b\<rparr>) # ?Q)"
    unfolding m(1) by (rule heap_upd[OF m(2)])
  have q: "pairs c (c_pair x) = Some ?q" using cell_at[of c us x vs] assms by (simp add: holds_def)
  have "set_value mem (c_pair x) v c = Inr (0, ?c)"
    unfolding st[symmetric] pr[symmetric] using Some old q
    by (simp add: set_value_def strdup_def pair_at_def free_str_def)
  moreover have "holds ?c (us @ ?y # vs)"
    using assms mv(2) by (simp add: holds_def in_memory_def)
  ultimately show ?thesis by auto
qed

lemma alloc_pair_ok:
  "alloc_pair mem n v c = Inr (None, c)
   \<or> (\<exists>p a b. pairs c p = None \<and> strs c a = None \<and> strs c b = None \<and> a \<noteq> b
        \<and> alloc_pair mem n v c = Inr (Some p, c\<lparr>strs := (strs c)(a \<mapsto> c_str n, b \<mapsto> c_str v),
             pairs := (pairs c)(p \<mapsto> \<lparr>pname = Some a, pvalue = Some b\<rparr>)\<rparr>))"
proof (cases "alloc (for_pair mem) (pairs c)")
  case None
  then show ?thesis by (simp add: alloc_pair_def)
next
  case (Some p)
  note p = Some alloc_fresh[OF Some]
  show ?thesis
  proof (cases "alloc (for_str mem) (strs c)")
    case None
    then have "alloc_pair mem n v c = Inr (None, c)"
      using p by (simp add: alloc_pair_def strdup_def free_pair_def pair_at_def free_str_def fun_upd_idem)
    then show ?thesis ..
  next
    case (Some a)
    note a = Some alloc_fresh[OF Some]
    show ?thesis
    proof (cases "alloc (for_str mem) ((strs c)(a \<mapsto> c_str n))")
      case None
      then have "alloc_pair mem n v c = Inr (None, c)"
        using p a by (simp add: alloc_pair_def strdup_def free_pair_def pair_at_def free_str_def fun_upd_idem)
      then show ?thesis ..
    next
      case (Some b)
      note b = Some alloc_fresh[OF Some]
      then have "strs c b = None" "a \<noteq> b" by (auto split: if_splits)
      moreover have "alloc_pair mem n v c = Inr (Some p, c\<lparr>strs := (strs c)(a \<mapsto> c_str n, b \<mapsto> c_str v),
             pairs := (pairs c)(p \<mapsto> \<lparr>pname = Some a, pvalue = Some b\<rparr>)\<rparr>)"
        using p a b by (simp add: alloc_pair_def strdup_def)
      ultimately show ?thesis using p(2) a(2) by blast
    qed
  qed
qed

lemma add_cell:
  assumes "holds c cs" "c_str n \<notin> c_name ` set cs"
  shows "add_pair mem n v c = Inr (-1, c)
    \<or> (\<exists>c' x. add_pair mem n v c = Inr (0, c') \<and> holds c' (x # cs) \<and> c_name x = c_str n \<and> c_value x = c_str v
        \<and> kept_compare c' = kept_compare c)"
  using alloc_pair_ok[of mem n v c]
proof
  assume "alloc_pair mem n v c = Inr (None, c)"
  then show ?thesis by (simp add: add_pair_def)
next
  assume "\<exists>p a b. pairs c p = None \<and> strs c a = None \<and> strs c b = None \<and> a \<noteq> b
        \<and> alloc_pair mem n v c = Inr (Some p, c\<lparr>strs := (strs c)(a \<mapsto> c_str n, b \<mapsto> c_str v),
             pairs := (pairs c)(p \<mapsto> \<lparr>pname = Some a, pvalue = Some b\<rparr>)\<rparr>)"
  then obtain p a b where n: "pairs c p = None" "strs c a = None" "strs c b = None" "a \<noteq> b"
    and al: "alloc_pair mem n v c = Inr (Some p, c\<lparr>strs := (strs c)(a \<mapsto> c_str n, b \<mapsto> c_str v),
             pairs := (pairs c)(p \<mapsto> \<lparr>pname = Some a, pvalue = Some b\<rparr>)\<rparr>)" by blast
  let ?c = "c\<lparr>strs := (strs c)(a \<mapsto> c_str n, b \<mapsto> c_str v), pairs := (pairs c)(p \<mapsto> \<lparr>pname = Some a, pvalue = Some b\<rparr>)\<rparr>"
  show ?thesis
  proof (cases "alloc (for_node mem) (nodes (pair_list c))")
    case None
    have "((strs c)(a \<mapsto> c_str n, b \<mapsto> c_str v))(a := None, b := None) = strs c" using n by (auto simp: fun_eq_iff)
    then have "free_pair (Some p) ?c = Inr c"
      using n by (simp add: free_pair_def pair_at_def free_str_def fun_upd_idem)
    then show ?thesis using None al by (simp add: add_pair_def glist_add_def)
  next
    case (Some k)
    obtain ps where ps: "heap_list (pair_list c) ps" "map snd ps = map c_pair cs" "freed (pair_list c) = []"
      using assms(1) by (auto simp: holds_def listed_def)
    obtain l where l: "glist_add (alloc (for_node mem)) p (pair_list c) = (0, l)" "heap_list l ((k, p) # ps)" "freed l = []"
      using add_heap_list[of "pair_list c" ps "alloc (for_node mem)" k p] ps(1,3) Some alloc_fresh[OF Some] by auto
    let ?x = "\<lparr>c_pair = p, c_naddr = a, c_name = c_str n, c_vaddr = b, c_value = c_str v\<rparr>"
    have m: "pairs c = map_of (pair_cells cs)" "strs c = map_of (str_cells cs)"
      using assms(1) by (simp_all add: holds_def in_memory_def)
    have fresh: "p \<notin> c_pair ` set cs" "a \<notin> fst ` set (str_cells cs)" "b \<notin> fst ` set (str_cells cs)"
      using n(1-3) unfolding m by (simp_all add: map_of_eq_None_iff)
    have li: "listed l (map c_pair (?x # cs))"
      unfolding listed_def using l(2,3) ps(2) by (intro conjI exI[of _ "(k, p) # ps"]) simp_all
    have "holds (?c\<lparr>pair_list := l\<rparr>) (?x # cs)"
      using assms li fresh n(4) m by (auto simp: holds_def in_memory_def fun_upd_twist)
    then show ?thesis using l(1) al by (auto simp: add_pair_def)
  qed
qed

section \<open>Sorting the cells\<close>

lemma select_min_map:
  "\<forall>y \<in> insert x (set xs). \<forall>z \<in> insert x (set xs). cmp (f y) (f z) = cmp' y z \<Longrightarrow>
    select_min cmp (f x) (map f xs) = (let (m, ys) = select_min cmp' x xs in (f m, map f ys))"
  by (induction xs arbitrary: x) (auto split: prod.splits)

lemma select_min_set: "select_min cmp x xs = (m, ys) \<Longrightarrow> insert m (set ys) = insert x (set xs)"
  using select_min_mset[of cmp x xs m ys] by (metis list.simps(15) set_mset_mset)

lemma exchange_sort_map:
  "\<forall>y \<in> set xs. \<forall>z \<in> set xs. cmp (f y) (f z) = cmp' y z \<Longrightarrow> exchange_sort cmp (map f xs) = map f (exchange_sort cmp' xs)"
proof (induction "length xs" arbitrary: xs)
  case (Suc k)
  then obtain x zs where xs: "xs = x # zs" by (cases xs) auto
  obtain m ys where m: "select_min cmp' x zs = (m, ys)" by (metis surj_pair)
  have "select_min cmp (f x) (map f zs) = (f m, map f ys)" using select_min_map[of x zs cmp f cmp'] Suc.prems xs m by simp
  moreover have "length ys = k" using select_min_length[of cmp' x zs] m Suc.hyps(2) xs by simp
  moreover have "set ys \<subseteq> set xs" using select_min_set[OF m] xs by auto
  then have "\<forall>y \<in> set ys. \<forall>z \<in> set ys. cmp (f y) (f z) = cmp' y z" using Suc.prems by blast
  ultimately show ?case using Suc.hyps(1)[of ys] xs m by simp
qed simp

lemma exchange_sort_const: "exchange_sort (\<lambda>_ _. 0) xs = xs"
proof -
  have "select_min (\<lambda>_ _. 0) x ys = (x, ys)" for x :: 'a and ys by (induction ys) auto
  then show ?thesis by (induction xs) auto
qed

text \<open>The order of the cells does not matter for the memory.\<close>

lemma in_memory_perm:
  assumes "in_memory c cs" "mset ds = mset cs"
  shows "in_memory c ds"
proof -
  have ms: "mset (map g ds) = mset (map g cs)" for g :: "cell \<Rightarrow> 'b" using assms(2) by simp
  have st: "mset (str_cells es) = \<Sum>\<^sub># (image_mset (\<lambda>x. mset [(c_naddr x, c_name x), (c_vaddr x, c_value x)]) (mset es))" for es
    by (induction es) auto
  then have ss: "mset (str_cells ds) = mset (str_cells cs)" using assms(2) by simp
  have dp: "distinct (map c_pair ds)" "distinct (map fst (str_cells ds))"
    using assms(1) mset_eq_imp_distinct_iff[OF ms[of c_pair]] mset_eq_imp_distinct_iff[of "map fst (str_cells ds)" "map fst (str_cells cs)"] ss
    by (simp_all add: in_memory_def)
  have "map_of (pair_cells ds) = map_of (pair_cells cs)"
    using dp(1) assms(1) mset_eq_setD[OF ms[of "\<lambda>x. (c_pair x, \<lparr>pname = Some (c_naddr x), pvalue = Some (c_vaddr x)\<rparr>)"]]
    by (subst map_of_inject_set) (simp_all add: in_memory_def pair_cells_def comp_def)
  moreover have "map_of (str_cells ds) = map_of (str_cells cs)"
    using dp(2) assms(1) mset_eq_setD[OF ss] by (subst map_of_inject_set) (simp_all add: in_memory_def)
  ultimately show ?thesis using assms(1) dp by (simp add: in_memory_def)
qed

lemma dump_cells: "holds c cs \<Longrightarrow> glist_dump (pair_list c) = Some (Inr (map c_pair cs))"
  by (auto simp: holds_def listed_def glist_dump_def walk_head walk_dump on_walk_def)

lemma sort_pairs_cells:
  assumes "holds c cs"
  shows "\<exists>c' ds. sort_pairs c = Some (Inr c') \<and> holds c' ds \<and> kept_compare c' = kept_compare c
    \<and> kvs ds = (case kept_compare c of None \<Rightarrow> kvs cs | Some g \<Rightarrow> exchange_sort (\<lambda>p q. g (fst p) (fst q)) (kvs cs))"
proof -
  let ?g = "kept_compare c"
  obtain ps where ps: "heap_list (pair_list c) ps" "map snd ps = map c_pair cs" "freed (pair_list c) = []"
    using assms by (auto simp: holds_def listed_def)
  have im: "in_memory c cs" using assms by (simp add: holds_def)
  let ?cmp = "\<lambda>p1 p2. conf_compare ?g (name_of c p1) (name_of c p2)"
  let ?by = "\<lambda>x y. conf_compare ?g (Some (c_name x)) (Some (c_name y))"
  let ?ds = "exchange_sort ?by cs"
  have nm: "name_of c (c_pair x) = Some (c_name x)" "readable c (c_pair x)" if "x \<in> set cs" for x
    using cell_in[OF im that] by (simp_all add: name_of_def readable_def)
  obtain l where l: "glist_sort (Some ?cmp) (pair_list c) = Some (Inr (0, l))" "freed l = []"
    "heap_list l (zip (map fst ps) (exchange_sort ?cmp (map c_pair cs)))"
    using sort_heap_list[OF ps(1), of ?cmp] ps(2,3) by auto
  have ms: "exchange_sort ?cmp (map c_pair cs) = map c_pair ?ds"
    by (rule exchange_sort_map, intro ballI) (simp only: nm)
  have perm: "mset ?ds = mset cs" by (rule exchange_sort_mset)
  have lp: "length ps = length ?ds" using arg_cong[OF ps(2), of length] by simp
  have li: "listed l (map c_pair ?ds)"
    unfolding listed_def using l(2,3) ms lp by (intro conjI exI[of _ "zip (map fst ps) (map c_pair ?ds)"]) simp_all
  have "in_memory (c\<lparr>pair_list := l\<rparr>) ?ds"
    using in_memory_perm[OF im perm] by (simp add: in_memory_def)
  moreover have "mset (map c_name ?ds) = mset (map c_name cs)" "set ?ds = set cs" using perm by (simp, metis set_mset_mset)
  ultimately have h: "holds (c\<lparr>pair_list := l\<rparr>) ?ds"
    using li assms mset_eq_imp_distinct_iff[of "map c_name ?ds" "map c_name cs"] by (simp add: holds_def)
  have "list_all (readable c) (map c_pair cs)" using nm(2) by (simp add: list_all_iff)
  then have run: "sort_pairs c = Some (Inr (c\<lparr>pair_list := l\<rparr>))"
    unfolding sort_pairs_def using dump_cells[OF assms] l(1) by simp
  have "kvs ?ds = (case ?g of None \<Rightarrow> kvs cs | Some g \<Rightarrow> exchange_sort (\<lambda>p q. g (fst p) (fst q)) (kvs cs))"
  proof (cases ?g)
    case None
    then have "?ds = cs" using exchange_sort_const[of cs] by (simp add: conf_compare_def)
    then show ?thesis using None by simp
  next
    case (Some g)
    then have "exchange_sort (\<lambda>p q. g (fst p) (fst q)) (map (\<lambda>x. (c_name x, c_value x)) cs) = map (\<lambda>x. (c_name x, c_value x)) ?ds"
      by (intro exchange_sort_map) (simp add: conf_compare_def)
    then show ?thesis using Some by (simp add: kvs_def)
  qed
  then show ?thesis using run h by (intro exI[of _ "c\<lparr>pair_list := l\<rparr>"] exI[of _ ?ds]) simp
qed

lemma sort_cells:
  assumes "holds c cs"
  shows "\<exists>c' ds. conf_sort c f = Some (Inr c') \<and> holds c' ds \<and> kept_compare c' = (if f \<noteq> None then f else kept_compare c)
    \<and> kvs ds = (case kept_compare c' of None \<Rightarrow> kvs cs | Some g \<Rightarrow> exchange_sort (\<lambda>p q. g (fst p) (fst q)) (kvs cs))"
proof -
  have "holds (if f \<noteq> None then c\<lparr>kept_compare := f\<rparr> else c) cs"
    using assms by (simp add: holds_def in_memory_def)
  from sort_pairs_cells[OF this] show ?thesis unfolding conf_sort_def by (auto split: if_splits)
qed

section \<open>Saving the cells\<close>

definition conf_text :: "(jstr \<times> jstr) list \<Rightarrow> jstr" where
  [js_eval]: "conf_text xs = concat (map (\<lambda>(n, v). n @ js '' = '' @ v @ [10]) xs)"

lemma save_lines_cells: "in_memory c cs \<Longrightarrow> set ds \<subseteq> set cs \<Longrightarrow> save_lines c (map c_pair ds) = Inr (conf_text (kvs ds))"
proof (induction ds)
  case (Cons x ds)
  then show ?case using cell_in[of c cs x] by (simp add: conf_text_def pair_at_def str_at_def)
qed (simp add: conf_text_def)

lemma save_cells: "holds c cs \<Longrightarrow> conf_save_to_file True c = Some (Inr (0, Some (conf_text (kvs cs))))"
  using save_lines_cells[of c cs cs] dump_cells[of c cs] by (simp add: conf_save_to_file_def holds_def)

section \<open>Room\<close>

text \<open>Memory with room for \<open>n\<close> pairs.\<close>

definition roomy :: "memory \<Rightarrow> nat \<Rightarrow> bool" where
  "roomy mem n \<longleftrightarrow>
     (\<forall>h. finite (dom h) \<longrightarrow> card (dom h) < n \<longrightarrow> alloc (for_node mem) h \<noteq> None)
     \<and> (\<forall>h. finite (dom h) \<longrightarrow> card (dom h) < n \<longrightarrow> alloc (for_pair mem) h \<noteq> None)
     \<and> (\<forall>h. finite (dom h) \<longrightarrow> card (dom h) < 2 * n \<longrightarrow> alloc (for_str mem) h \<noteq> None)"

lemma dom_heap: "finite (dom (map_of xs)) \<and> card (dom (map_of xs)) \<le> length xs"
  by (simp add: dom_map_of_conv_image_fst) (metis card_length length_map list.set_map)

lemma add_cell_room:
  assumes "holds c cs" "c_str n \<notin> c_name ` set cs" "roomy mem k" "length cs < k"
  shows "\<exists>c' x. add_pair mem n v c = Inr (0, c') \<and> holds c' (x # cs) \<and> c_name x = c_str n \<and> c_value x = c_str v"
proof -
  obtain ps where ps: "heap_list (pair_list c) ps" "map snd ps = map c_pair cs" using assms(1) by (auto simp: holds_def listed_def)
  have m: "pairs c = map_of (pair_cells cs)" "strs c = map_of (str_cells cs)"
    using assms(1) by (simp_all add: holds_def in_memory_def)
  have len: "length (pair_cells cs) = length cs" "length (str_cells cs) = 2 * length cs" by (induction cs) auto
  have "dom (nodes (pair_list c)) = set (map fst ps)" "length ps = length cs"
    using ps(1) arg_cong[OF ps(2), of length] by (simp_all add: heap_list_def)
  then have "finite (dom (nodes (pair_list c)))" "card (dom (nodes (pair_list c))) \<le> length cs"
    using card_length[of "map fst ps"] by simp_all
  then have an: "alloc (for_node mem) (nodes (pair_list c)) \<noteq> None" using assms(3,4) by (simp add: roomy_def)
  have ap: "alloc (for_pair mem) (pairs c) \<noteq> None"
    using assms(3,4) dom_heap[of "pair_cells cs"] len(1) unfolding m roomy_def by auto
  have as: "alloc (for_str mem) (strs c) \<noteq> None"
    using assms(3,4) dom_heap[of "str_cells cs"] len(2) unfolding m roomy_def by auto
  have as': "alloc (for_str mem) ((strs c)(a \<mapsto> c_str n)) \<noteq> None" for a
  proof -
    have "card (insert a (dom (strs c))) \<le> Suc (2 * length cs)"
      using dom_heap[of "str_cells cs"] len(2) card_insert_le_m1[of "Suc (2 * length cs)" "dom (strs c)" a] unfolding m by simp
    then show ?thesis using assms(3,4) dom_heap[of "str_cells cs"] unfolding m roomy_def by auto
  qed
  have "add_pair mem n v c \<noteq> Inr (-1, c)"
  proof -
    obtain p where p: "alloc (for_pair mem) (pairs c) = Some p" using ap by auto
    obtain a where a: "alloc (for_str mem) (strs c) = Some a" using as by auto
    obtain b where b: "alloc (for_str mem) ((strs c)(a \<mapsto> c_str n)) = Some b" using as' by auto
    obtain q where q: "alloc (for_node mem) (nodes (pair_list c)) = Some q" using an by auto
    show ?thesis using p a b q by (simp add: add_pair_def alloc_pair_def strdup_def glist_add_def)
  qed
  then show ?thesis using add_cell[OF assms(1,2), of mem v] by blast
qed

lemma set_cell_room:
  assumes "holds c cs" "roomy mem k" "length cs < k"
  shows "alloc (for_str mem) (strs c) \<noteq> None"
proof -
  have "length (str_cells cs) = 2 * length cs" by (induction cs) auto
  moreover have "strs c = map_of (str_cells cs)" using assms(1) by (simp add: holds_def in_memory_def)
  ultimately show ?thesis using assms(2,3) dom_heap[of "str_cells cs"] by (auto simp: roomy_def)
qed

section \<open>The calls and the map they stand for\<close>

datatype conf_op =
    CGet "jstr option" | CSet "jstr option" "jstr option" | CRemove "jstr option" | CRemoveAll
  | CSort "(jstr \<Rightarrow> jstr \<Rightarrow> int) option" | CSave bool | CCount | CGetPair int "int option"

datatype conf_answer = Done | Gave int | Value "jstr option" | Saved int "jstr option" | PairText int "jstr option"

text \<open>One call; every call has a memory of its own. The pointer \<open>conf_get\<close> gives is read at once.\<close>

definition conf_step :: "memory \<times> conf_op \<Rightarrow> conf \<Rightarrow> (fault + conf_answer \<times> conf) option" where
  [js_eval]: "conf_step call c =
     (case snd call of
        CGet n \<Rightarrow> map_option (\<lambda>r. bind_res r (\<lambda>g. case g of
            Default \<Rightarrow> Inr (Value None, c) | Pointer p \<Rightarrow> bind_res (str_at p c) (\<lambda>s. Inr (Value (Some s), c)))) (conf_get c n)
      | CSet n v \<Rightarrow> map_option (\<lambda>r. bind_res r (\<lambda>(i, c'). Inr (Gave i, c'))) (conf_set (fst call) c n v)
      | CRemove n \<Rightarrow> map_option (\<lambda>r. bind_res r (\<lambda>(i, c'). Inr (Gave i, c'))) (conf_remove c n)
      | CRemoveAll \<Rightarrow> map_option (\<lambda>r. bind_res r (\<lambda>c'. Inr (Done, c'))) (conf_remove_all c)
      | CSort f \<Rightarrow> map_option (\<lambda>r. bind_res r (\<lambda>c'. Inr (Done, c'))) (conf_sort c f)
      | CSave ok \<Rightarrow> map_option (\<lambda>r. bind_res r (\<lambda>(i, s). Inr (Saved i s, c))) (conf_save_to_file ok c)
      | CCount \<Rightarrow> map_option (\<lambda>r. bind_res r (\<lambda>i. Inr (Gave i, c))) (count_pairs c)
      | CGetPair i len \<Rightarrow> map_option (\<lambda>r. bind_res r (\<lambda>(k, s). Inr (PairText k s, c))) (conf_get_pair c i len))"

definition put :: "jstr \<Rightarrow> jstr \<Rightarrow> (jstr \<times> jstr) list \<Rightarrow> (jstr \<times> jstr) list" where
  [js_eval]: "put n v xs = (if n \<in> fst ` set xs then map (\<lambda>(k, w). (k, if k = n then v else w)) xs else (n, v) # xs)"

text \<open>
  The list of names with their values, and the comparison that was given last. Setting fails only for a missing argument or when
  the memory has no room for one more pair, and then it changes nothing.
\<close>

fun conf_spec :: "memory \<times> conf_op \<Rightarrow> (jstr \<times> jstr) list \<times> (jstr \<Rightarrow> jstr \<Rightarrow> int) option \<Rightarrow> conf_answer
    \<Rightarrow> (jstr \<times> jstr) list \<times> (jstr \<Rightarrow> jstr \<Rightarrow> int) option \<Rightarrow> bool" where
  "conf_spec (m, CGet n) (xs, g) b s \<longleftrightarrow>
     b = Value (case n of None \<Rightarrow> None | Some n \<Rightarrow> map_of xs (c_str n)) \<and> s = (xs, g)"
| "conf_spec (m, CSet (Some n) (Some v)) (xs, g) b s \<longleftrightarrow>
     b = Gave 0 \<and> s = (put (c_str n) (c_str v) xs, g) \<or> b = Gave (-1) \<and> s = (xs, g) \<and> \<not> roomy m (Suc (length xs))"
| "conf_spec (m, CSet None v) (xs, g) b s \<longleftrightarrow> b = Gave (-1) \<and> s = (xs, g)"
| "conf_spec (m, CSet n None) (xs, g) b s \<longleftrightarrow> b = Gave (-1) \<and> s = (xs, g)"
| "conf_spec (m, CRemove n) (xs, g) b s \<longleftrightarrow>
     (case n of
        Some k \<Rightarrow> b = Gave (if c_str k \<in> fst ` set xs then 0 else -1) \<and> s = (filter (\<lambda>p. fst p \<noteq> c_str k) xs, g)
      | None \<Rightarrow> b = Gave (-1) \<and> s = (xs, g))"
| "conf_spec (m, CRemoveAll) (xs, g) b s \<longleftrightarrow> b = Done \<and> s = ([], g)"
| "conf_spec (m, CSort f) (xs, g) b s \<longleftrightarrow>
     b = Done \<and> (let h = (if f \<noteq> None then f else g) in
       s = (case h of None \<Rightarrow> xs | Some c \<Rightarrow> exchange_sort (\<lambda>p q. c (fst p) (fst q)) xs, h))"
| "conf_spec (m, CSave ok) (xs, g) b s \<longleftrightarrow> b = (if ok then Saved 0 (Some (conf_text xs)) else Saved (-1) None) \<and> s = (xs, g)"
| "conf_spec (m, CCount) (xs, g) b s \<longleftrightarrow> b = Gave (int (length xs)) \<and> s = (xs, g)"
| "conf_spec (m, CGetPair i len) (xs, g) b s \<longleftrightarrow>
     b = (if in_range i xs
          then let (n, v) = xs ! nat i in
            PairText (int (length n) + int (length v) + 2)
              (case len of Some k \<Rightarrow> if 0 < k then Some (snprintf (nat k) (n @ 61 # v)) else None | None \<Rightarrow> None)
          else PairText (-1) None) \<and> s = (xs, g)"

definition conf_rel :: "conf \<Rightarrow> (jstr \<times> jstr) list \<times> (jstr \<Rightarrow> jstr \<Rightarrow> int) option \<Rightarrow> bool" where
  "conf_rel c s \<longleftrightarrow> (\<exists>cs. holds c cs \<and> fst s = kvs cs) \<and> kept_compare c = snd s"

section \<open>Every call does what it says\<close>

lemma kvs_lookup:
  assumes "holds c (us @ x # vs)"
  shows "map_of (kvs (us @ x # vs)) (c_name x) = Some (c_value x)"
    "put (c_name x) w (kvs (us @ x # vs)) = kvs (us @ x\<lparr>c_vaddr := b, c_value := w\<rparr> # vs)"
    "filter (\<lambda>p. fst p \<noteq> c_name x) (kvs (us @ x # vs)) = kvs (us @ vs)"
proof -
  have d: "c_name x \<notin> fst ` set (kvs us)" "c_name x \<notin> fst ` set (kvs vs)"
    using assms by (auto simp: holds_def kvs_def image_iff)
  then show "map_of (kvs (us @ x # vs)) (c_name x) = Some (c_value x)"
    by (simp add: map_add_def map_of_eq_None_iff[THEN iffD2])
  have same: "map (\<lambda>(k, w'). (k, if k = c_name x then w else w')) ys = ys" "filter (\<lambda>p. fst p \<noteq> c_name x) ys = ys"
    if "c_name x \<notin> fst ` set ys" for ys :: "(jstr \<times> jstr) list"
    using that by (induction ys) auto
  show "put (c_name x) w (kvs (us @ x # vs)) = kvs (us @ x\<lparr>c_vaddr := b, c_value := w\<rparr> # vs)"
    using same(1)[OF d(1)] same(1)[OF d(2)] by (simp add: put_def)
  show "filter (\<lambda>p. fst p \<noteq> c_name x) (kvs (us @ x # vs)) = kvs (us @ vs)"
    using same(2)[OF d(1)] same(2)[OF d(2)] by simp
qed

lemma kvs_absent: "n \<notin> c_name ` set cs \<Longrightarrow> map_of (kvs cs) n = None \<and> n \<notin> fst ` set (kvs cs)
    \<and> filter (\<lambda>p. fst p \<noteq> n) (kvs cs) = kvs cs \<and> put n v (kvs cs) = (n, v) # kvs cs"
  by (induction cs) (auto simp: put_def)

lemma get_simulates:
  assumes "holds c cs"
  shows "conf_step (m, CGet n) c = Some (Inr (Value (case n of None \<Rightarrow> None | Some n \<Rightarrow> map_of (kvs cs) (c_str n)), c))"
proof (cases n)
  case None
  then show ?thesis by (simp add: conf_step_def conf_get_def)
next
  case (Some k)
  show ?thesis
  proof (cases rule: name_cases[of "c_str k" cs])
    case absent
    then show ?thesis using Some lookup_absent[OF assms absent] kvs_absent[OF absent]
      by (simp add: conf_step_def conf_get_def)
  next
    case (present us x vs)
    have "in_memory c (us @ x # vs)" using assms present by (simp add: holds_def)
    from cell_at[OF this] show ?thesis
      using Some present lookup_present[of c us x vs k] kvs_lookup(1)[of c us x vs] assms
      by (simp add: conf_step_def conf_get_def pair_at_def str_at_def)
  qed
qed

lemma set_simulates:
  assumes "holds c cs"
  shows "\<exists>c' ds. (conf_step (m, CSet (Some n) (Some v)) c = Some (Inr (Gave 0, c')) \<and> kvs ds = put (c_str n) (c_str v) (kvs cs)
      \<or> conf_step (m, CSet (Some n) (Some v)) c = Some (Inr (Gave (-1), c')) \<and> kvs ds = kvs cs \<and> \<not> roomy m (Suc (length cs)))
    \<and> holds c' ds \<and> kept_compare c' = kept_compare c"
proof (cases rule: name_cases[of "c_str n" cs])
  case absent
  from add_cell[OF assms absent, of m v] show ?thesis
  proof
    assume "add_pair m n v c = Inr (-1, c)"
    moreover from this have "\<not> roomy m (Suc (length cs))" using add_cell_room[OF assms absent, of m "Suc (length cs)" v] by auto
    ultimately show ?thesis using lookup_absent[OF assms absent] assms
      by (intro exI[of _ c] exI[of _ cs]) (simp add: conf_step_def conf_set_def)
  next
    assume "\<exists>c' x. add_pair m n v c = Inr (0, c') \<and> holds c' (x # cs) \<and> c_name x = c_str n \<and> c_value x = c_str v
        \<and> kept_compare c' = kept_compare c"
    then obtain c' x where "add_pair m n v c = Inr (0, c')" "holds c' (x # cs)" "c_name x = c_str n" "c_value x = c_str v"
        "kept_compare c' = kept_compare c" by blast
    then show ?thesis using lookup_absent[OF assms absent] kvs_absent[OF absent]
      by (intro exI[of _ c'] exI[of _ "x # cs"]) (simp add: conf_step_def conf_set_def)
  qed
next
  case (present us x vs)
  then have h: "holds c (us @ x # vs)" using assms by simp
  from set_cell[OF h, of m v] show ?thesis
  proof
    assume "set_value m (c_pair x) v c = Inr (-1, c) \<and> alloc (for_str m) (strs c) = None"
    moreover from this have "\<not> roomy m (Suc (length cs))" using set_cell_room[OF assms, of m "Suc (length cs)"] by auto
    ultimately show ?thesis using lookup_present[OF h present(2)] assms
      by (intro exI[of _ c] exI[of _ cs]) (simp add: conf_step_def conf_set_def)
  next
    assume "\<exists>c' b. set_value m (c_pair x) v c = Inr (0, c') \<and> holds c' (us @ x\<lparr>c_vaddr := b, c_value := c_str v\<rparr> # vs)
        \<and> kept_compare c' = kept_compare c"
    then obtain c' b where "set_value m (c_pair x) v c = Inr (0, c')" "holds c' (us @ x\<lparr>c_vaddr := b, c_value := c_str v\<rparr> # vs)"
        "kept_compare c' = kept_compare c" by blast
    then show ?thesis using lookup_present[OF h present(2)] kvs_lookup(2)[OF h, of "c_str v" b] present
      by (intro exI[of _ c'] exI[of _ "us @ x\<lparr>c_vaddr := b, c_value := c_str v\<rparr> # vs"])
        (simp add: conf_step_def conf_set_def)
  qed
qed

lemma remove_simulates:
  assumes "holds c cs"
  shows "\<exists>c' ds. conf_step (m, CRemove (Some n)) c = Some (Inr (Gave (if c_str n \<in> fst ` set (kvs cs) then 0 else -1), c'))
    \<and> kvs ds = filter (\<lambda>p. fst p \<noteq> c_str n) (kvs cs) \<and> holds c' ds \<and> kept_compare c' = kept_compare c"
proof (cases rule: name_cases[of "c_str n" cs])
  case absent
  then show ?thesis using find_absent[OF assms absent] kvs_absent[OF absent] assms
    by (intro exI[of _ c] exI[of _ cs]) (simp add: conf_step_def conf_remove_def)
next
  case (present us x vs)
  then have h: "holds c (us @ x # vs)" using assms by simp
  obtain c' where "after_free (glist_delete (int (length us)) True (pair_list c)) c = Some (Inr c')" "holds c' (us @ vs)"
    "kept_compare c' = kept_compare c" using remove_cell[OF h] by blast
  then show ?thesis using find_present[OF h present(2)] kvs_lookup(3)[OF h] present
    by (intro exI[of _ c'] exI[of _ "us @ vs"]) (simp add: conf_step_def conf_remove_def)
qed

lemma count_simulates: "holds c cs \<Longrightarrow> count_pairs c = Some (Inr (int (length cs)))"
proof -
  assume "holds c cs"
  then obtain ps where ps: "heap_list (pair_list c) ps" "map snd ps = map c_pair cs" by (auto simp: holds_def listed_def)
  moreover have "length ps = length cs" using arg_cong[OF ps(2), of length] by simp
  ultimately show ?thesis
    by (simp add: count_pairs_def glist_length_def walk_head walk_length on_walk_def)
qed

lemma pair_simulates:
  assumes "holds c cs"
  shows "\<exists>b. conf_step (m, CGetPair i len) c = Some (Inr (b, c)) \<and> conf_spec (m, CGetPair i len) (kvs cs, g) b (kvs cs, g)"
proof -
  have get: "glist_get i (pair_list c) = Some (Inr (if in_range i cs then Some (c_pair (cs ! nat i)) else None))"
    using get_listed[of "pair_list c" "map c_pair cs" i] assms by (auto simp: holds_def in_range_def nat_less_iff)
  show ?thesis
  proof (cases "in_range i cs")
    case True
    then have i: "nat i < length cs" "in_range i (kvs cs)" by (auto simp: in_range_def nat_less_iff)
    have "in_memory c cs" using assms by (simp add: holds_def)
    from cell_in[OF this nth_mem[OF i(1)]] show ?thesis using True i get
      by (simp add: conf_step_def conf_get_pair_def pair_at_def str_at_def kvs_def)
  next
    case False
    then have "\<not> in_range i (kvs cs)" by (simp add: in_range_def)
    then show ?thesis using get False by (simp add: conf_step_def conf_get_pair_def)
  qed
qed

lemma conf_simulates:
  assumes "conf_rel c s"
  shows "\<exists>b c' s'. conf_step call c = Some (Inr (b, c')) \<and> conf_spec call s b s' \<and> conf_rel c' s'"
proof -
  obtain xs g where s: "s = (xs, g)" by (cases s)
  obtain m op where call: "call = (m, op)" by (cases call)
  obtain cs where cs: "holds c cs" "xs = kvs cs" "kept_compare c = g" using assms s by (auto simp: conf_rel_def)
  have rel: "conf_rel c' (kvs ds, h)" if "holds c' ds" "kept_compare c' = h" for c' ds h
    using that by (auto simp: conf_rel_def)
  note keep = rel[OF cs(1,3)]
  show ?thesis
  proof (cases op)
    case (CGet n)
    then show ?thesis using get_simulates[OF cs(1), of m n] keep s call cs(2) by simp
  next
    case (CSet n v)
    show ?thesis
    proof (cases "n = None \<or> v = None")
      case True
      then have "conf_step call c = Some (Inr (Gave (-1), c))" using CSet call
        by (cases n; cases v) (simp_all add: conf_step_def conf_set_def)
      moreover have "conf_spec call s (Gave (-1)) s" using True CSet call s by (cases n; cases v) simp_all
      ultimately show ?thesis using keep s cs(2) by blast
    next
      case False
      then obtain k w where kw: "n = Some k" "v = Some w" by auto
      obtain c' ds where "conf_step (m, CSet n v) c = Some (Inr (Gave 0, c')) \<and> kvs ds = put (c_str k) (c_str w) (kvs cs)
          \<or> conf_step (m, CSet n v) c = Some (Inr (Gave (-1), c')) \<and> kvs ds = kvs cs \<and> \<not> roomy m (Suc (length (kvs cs)))"
        "holds c' ds" "kept_compare c' = g"
        using set_simulates[OF cs(1), of m k w] kw cs(3) by auto
      then show ?thesis using rel[of c' ds g] s call CSet kw cs(2) by auto
    qed
  next
    case (CRemove n)
    show ?thesis
    proof (cases n)
      case None
      then show ?thesis using CRemove keep s call cs(2) by (simp add: conf_step_def conf_remove_def)
    next
      case (Some k)
      obtain c' ds where "conf_step (m, CRemove (Some k)) c = Some (Inr (Gave (if c_str k \<in> fst ` set (kvs cs) then 0 else -1), c'))"
        "kvs ds = filter (\<lambda>p. fst p \<noteq> c_str k) (kvs cs)" "holds c' ds" "kept_compare c' = g"
        using remove_simulates[OF cs(1), of m k] cs(3) by blast
      then show ?thesis using CRemove Some rel[of c' ds g] s call cs(2) by simp
    qed
  next
    case CRemoveAll
    obtain c' where c': "after_free (glist_clear True (pair_list c)) c = Some (Inr c')" "holds c' []" "kept_compare c' = g"
      using clear_cells[OF cs(1)] cs(3) by auto
    moreover have "holds (c'\<lparr>pair_list := (pair_list c')\<lparr>head := None\<rparr>\<rparr>) []"
      using c'(2) by (auto simp: holds_def listed_def heap_list_def in_memory_def)
    ultimately show ?thesis using rel[of _ "[]" g] CRemoveAll call s
      by (simp add: conf_step_def conf_remove_all_def)
  next
    case (CSort f)
    obtain c' ds where "conf_sort c f = Some (Inr c')" "holds c' ds" "kept_compare c' = (if f \<noteq> None then f else g)"
      "kvs ds = (case kept_compare c' of None \<Rightarrow> kvs cs | Some g \<Rightarrow> exchange_sort (\<lambda>p q. g (fst p) (fst q)) (kvs cs))"
      using sort_cells[OF cs(1), of f] cs(3) by blast
    then show ?thesis using CSort rel[of c' ds "kept_compare c'"] s call cs(2)
      by (intro exI[of _ Done] exI[of _ c'] exI[of _ "(kvs ds, kept_compare c')"]) (simp add: conf_step_def)
  next
    case (CSave ok)
    have "conf_save_to_file ok c = Some (Inr (if ok then (0, Some (conf_text (kvs cs))) else (-1, None)))"
      using save_cells[OF cs(1)] by (cases ok) (simp, simp add: conf_save_to_file_def)
    then show ?thesis using CSave keep s call cs(2) by (simp add: conf_step_def)
  next
    case CCount
    then show ?thesis using count_simulates[OF cs(1)] keep s call cs(2) by (simp add: conf_step_def)
  next
    case (CGetPair i len)
    then show ?thesis using pair_simulates[OF cs(1), of m i len g] keep s call cs(2) by blast
  qed
qed

interpretation conf_calls: simulated conf_step conf_spec conf_rel
  by unfold_locales (rule conf_simulates)

lemma new_conf_holds: "conf_new True True f = Some c \<Longrightarrow> holds c [] \<and> conf_rel c ([], None)"
  unfolding conf_rel_def
  by (auto simp: conf_new_def holds_def listed_def heap_list_def no_list_def in_memory_def intro!: exI[of _ "[]"])

lemma destroy_cells:
  assumes "holds c cs"
  shows "\<exists>c'. conf_destroy c = Some (Inr c') \<and> nodes (pair_list c') = Map.empty \<and> pairs c' = Map.empty \<and> strs c' = Map.empty"
  using clear_cells[OF assms]
  by (auto simp: conf_destroy_def holds_def listed_def heap_list_def in_memory_def)

text \<open>C9: every sequence of calls on a new configuration returns, uses no memory that is gone, gives the answers of a list
  of names with values, and holds in memory exactly the pairs of this list with their strings; every allocation may fail at
  every call, which is answered by -1 and changes nothing, and setting fails only when there is no room for one more pair. When the configuration is destroyed afterwards nothing is left.\<close>

theorem conf_is_a_map:
  "\<exists>answers c c' cs g.
    run_answers conf_step calls (the (conf_new True True f)) = Some (Inr (answers, c))
    \<and> spec_run conf_spec calls ([], None) answers (kvs cs, g)
    \<and> holds c cs
    \<and> conf_destroy c = Some (Inr c') \<and> nodes (pair_list c') = Map.empty \<and> pairs c' = Map.empty \<and> strs c' = Map.empty"
proof -
  obtain c0 where c0: "conf_new True True f = Some c0" by (simp add: conf_new_def)
  obtain answers c s where r: "run_answers conf_step calls c0 = Some (Inr (answers, c))"
    "spec_run conf_spec calls ([], None) answers s" "conf_rel c s"
    using conf_calls.run_simulates[of c0 "([], None)" calls] new_conf_holds[OF c0] by blast
  obtain cs where "holds c cs" "s = (kvs cs, kept_compare c)" using r(3) by (cases s) (auto simp: conf_rel_def)
  then show ?thesis using r c0 destroy_cells[of c cs] by (metis option.sel)
qed

section \<open>What is saved is loaded\<close>

definition clean_pair :: "jstr \<times> jstr \<Rightarrow> bool" where
  [js_eval]: "clean_pair p \<longleftrightarrow> (case p of (n, v) \<Rightarrow>
     n \<noteq> [] \<and> 0 \<notin> set n \<and> 10 \<notin> set n \<and> 61 \<notin> set n \<and> hd n \<noteq> 35 \<and> \<not> isspace (hd n) \<and> \<not> isspace (last n)
     \<and> 0 \<notin> set v \<and> 10 \<notin> set v \<and> (v \<noteq> [] \<longrightarrow> \<not> isspace (hd v) \<and> \<not> isspace (last v))
     \<and> length n + length v \<le> 507)"

text \<open>White space around a text goes.\<close>

lemma strtrim_around:
  assumes "list_all isspace a" "list_all isspace b" "s \<noteq> []" "\<not> isspace (hd s)" "\<not> isspace (last s)"
  shows "strtrim (a @ s @ b) = Inr s"
proof -
  let ?t = "a @ s @ b" and ?j = "length a + length s - 1"
  obtain u z where u: "s = u @ [z]" using assms(3) by (cases s rule: rev_cases) auto
  have j: "?t ! ?j = last s" "?j < length ?t" by (simp_all add: u nth_append)
  have "ptr_back isspace ?t (length ?t - 1) = ?j"
  proof (rule back_stop)
    show "?j \<le> length ?t - 1" using assms(3) by simp
    have "isspace (?t ! k)" if "?j < k" "k \<le> length ?t - 1" for k
    proof -
      have "k - length a - length s < length b" "length a + length s \<le> k" using that assms(3) by (auto simp: Suc_le_eq)
      moreover from this(2) have "?t ! k = b ! (k - (length a + length s))" using nth_append[of "a @ s" b k] by simp
      ultimately show ?thesis using assms(2) by (simp add: list_all_length)
    qed
    then show "\<forall>k. ?j < k \<longrightarrow> k \<le> length ?t - 1 \<longrightarrow> isspace (?t ! k)" by blast
    show "?j = 0 \<or> \<not> isspace (?t ! ?j)" using j(1) assms(5) by simp
  qed
  moreover have "take (?j + 1) ?t = a @ s" using assms(3) by (cases s) auto
  moreover have "dropWhile isspace (a @ s) = s" using assms(1,3,4) by (cases s) (auto simp: list_all_iff dropWhile_append2)
  moreover have "\<not> (\<forall>x \<in> set a \<union> set s. isspace x)" using assms(3,4) hd_in_set by blast
  ultimately show ?thesis using j assms(3,5) by (simp add: strtrim_def Let_def)
qed

definition conf_line :: "jstr \<times> jstr \<Rightarrow> jstr" where
  "conf_line p = fst p @ js '' = '' @ snd p @ [10]"

lemma conf_text_lines: "conf_text xs = concat (map conf_line xs)"
  by (induction xs) (auto simp: conf_text_def conf_line_def)

lemma read_conf_line:
  assumes "clean_pair (n, v)"
  shows "read_line (conf_line (n, v)) = Inr (Some (n, v))"
proof -
  have n: "n \<noteq> []" "0 \<notin> set n" "61 \<notin> set n" "hd n \<noteq> 35" "\<not> isspace (hd n)" "\<not> isspace (last n)"
    and v: "0 \<notin> set v" "v \<noteq> [] \<Longrightarrow> \<not> isspace (hd v) \<and> \<not> isspace (last v)"
    using assms by (auto simp: clean_pair_def)
  have sp: "js '' = '' = [32, 61, 32]" by (simp add: js_def)
  have ws: "isspace 32" "isspace 10" "\<not> isspace 61" by (simp_all add: isspace_def)
  have c: "c_str (conf_line (n, v)) = n @ [32, 61, 32] @ v @ [10]"
    using n(2) v(1) sp by (auto simp: conf_line_def c_str_def takeWhile_eq_all_conv intro!: gr0I)
  have tw: "takeWhile (\<lambda>c. c \<noteq> 61) (n @ 32 # 61 # w) = n @ [32]" "dropWhile (\<lambda>c. c \<noteq> 61) (n @ 32 # 61 # w) = 61 # w" for w
    using n(3) by (induction n) auto
  have name: "strtrim (n @ [32]) = Inr n" using strtrim_around[of "[]" "[32]" n] n(1,5,6) ws by simp
  have hd: "hd (n @ w) = hd n" for w using n(1) by simp
  show ?thesis
  proof (cases "v = []")
    case True
    have "strtrim ((n @ [32, 61]) @ [32, 10]) = Inr (n @ [32, 61])"
      using strtrim_around[of "[]" "[32, 10]" "n @ [32, 61]"] n(1,5) ws by simp
    then show ?thesis using c True tw[of "[]"] name n(1,4) hd by (simp add: read_line_def Let_def)
  next
    case False
    have "strtrim ((n @ 32 # 61 # 32 # v) @ [10]) = Inr (n @ 32 # 61 # 32 # v)"
      using strtrim_around[of "[]" "[10]" "n @ 32 # 61 # 32 # v"] n(1,5) v(2) False ws by simp
    moreover have "strtrim (32 # v) = Inr v" using strtrim_around[of "[32]" "[]" v] v(2) False ws by simp
    ultimately show ?thesis using c tw[of "32 # v"] name n(1,4) hd by (simp add: read_line_def Let_def)
  qed
qed

lemma line_end_line: "10 \<notin> set l \<Longrightarrow> length l < n \<Longrightarrow> line_end n (l @ 10 # s) = Suc (length l)"
proof (induction l arbitrary: n)
  case Nil
  then show ?case by (cases n) auto
next
  case (Cons c l)
  then show ?case by (cases n) auto
qed

lemma fgets_conf: "list_all clean_pair xs \<Longrightarrow> fgets_lines 512 (conf_text xs) = map conf_line xs"
proof (induction xs)
  case Nil
  then show ?case by (subst fgets_lines.simps) (simp add: conf_text_lines)
next
  case (Cons p xs)
  obtain n v where p: "p = (n, v)" by (cases p)
  let ?l = "n @ js '' = '' @ v"
  have l: "10 \<notin> set ?l" "length ?l < 511" using Cons.prems p by (auto simp: clean_pair_def js_def)
  have t: "conf_text (p # xs) = ?l @ 10 # conf_text xs" "conf_line p = ?l @ [10]"
    by (simp_all add: conf_text_lines conf_line_def p)
  have e: "line_end 511 (?l @ 10 # conf_text xs) = Suc (length ?l)" by (rule line_end_line[OF l])
  have "fgets_lines 512 (conf_text (p # xs)) = (?l @ [10]) # fgets_lines 512 (conf_text xs)"
    unfolding t(1) by (subst fgets_lines.simps) (simp add: e[simplified])
  then show ?case using Cons t(2) by simp
qed

lemma load_conf_lines:
  assumes "list_all clean_pair xs" "holds c cs" "distinct (map fst xs)" "fst ` set xs \<inter> c_name ` set cs = {}"
    "roomy mem k" "length cs + length xs \<le> k"
  shows "\<exists>c' ds. load_lines mem (map conf_line xs) c = Some (Inr c') \<and> holds c' ds \<and> kvs ds = rev xs @ kvs cs"
  using assms
proof (induction xs arbitrary: c cs)
  case (Cons p xs)
  obtain n v where p: "p = (n, v)" by (cases p)
  have cl: "clean_pair (n, v)" "c_str n = n" "c_str v = v"
    using Cons.prems(1) p by (auto simp: clean_pair_def c_str_def takeWhile_eq_all_conv intro!: gr0I)
  have ab: "c_str n \<notin> c_name ` set cs" "length cs < k" using Cons.prems p cl by auto
  obtain c1 x where add: "add_pair mem n v c = Inr (0, c1)" "holds c1 (x # cs)" "c_name x = n" "c_value x = v"
    using add_cell_room[OF Cons.prems(2) ab(1) Cons.prems(5) ab(2), of v] cl by auto
  have set: "conf_set mem c (Some n) (Some v) = Some (Inr (0, c1))"
    using lookup_absent[OF Cons.prems(2) ab(1)] add(1) by (simp add: conf_set_def)
  obtain c' ds where "load_lines mem (map conf_line xs) c1 = Some (Inr c')" "holds c' ds" "kvs ds = rev xs @ kvs (x # cs)"
    using Cons.IH[of c1 "x # cs"] Cons.prems p add by auto
  then show ?case using set read_conf_line[OF cl(1)] add(3,4) p by auto
qed auto

text \<open>C19: a configuration of pairs without line ends and equals signs in the names, without white space around names and
  values, and short enough for a line, is loaded as it was saved when there is memory: every name has the value it had, and
  the pairs are in the opposite order.\<close>

theorem saved_conf_is_loaded:
  assumes "holds c cs" "list_all clean_pair (kvs cs)" "roomy mem (length cs)"
  shows "\<exists>s c' ds. conf_save_to_file True c = Some (Inr (0, Some s))
    \<and> conf_load_from_file mem True True f (Some s) = Some (Inr (Some c'))
    \<and> holds c' ds \<and> kvs ds = rev (kvs cs) \<and> map_of (kvs ds) = map_of (kvs cs)"
proof -
  obtain c0 where c0: "conf_new True True f = Some c0" by (simp add: conf_new_def)
  have d: "distinct (map fst (kvs cs))" using assms(1) by (simp add: holds_def)
  have "\<exists>c' ds. load_lines mem (map conf_line (kvs cs)) c0 = Some (Inr c') \<and> holds c' ds \<and> kvs ds = rev (kvs cs) @ kvs []"
    using new_conf_holds[OF c0] d by (intro load_conf_lines[OF assms(2) _ _ _ assms(3)]) simp_all
  then obtain c' ds where l: "load_lines mem (map conf_line (kvs cs)) c0 = Some (Inr c')" "holds c' ds" "kvs ds = rev (kvs cs)" by auto
  have "map_of (rev (kvs cs)) = map_of (kvs cs)" using d by (subst map_of_inject_set) (simp_all flip: rev_map)
  then show ?thesis using l c0 save_cells[OF assms(1)] fgets_conf[OF assms(2)]
    by (auto simp: conf_load_from_file_def intro!: exI[of _ "conf_text (kvs cs)"])
qed

definition first_free :: "nat \<Rightarrow> (addr \<Rightarrow> 'b option) \<Rightarrow> addr option" where
  [js_eval]: "first_free n h = List.find (\<lambda>a. h a = None) [0..<n]"

definition pooled :: "nat \<Rightarrow> memory" where
  [js_eval]: "pooled n = \<lparr>for_node = first_free n, for_pair = first_free n, for_str = first_free (2 * n)\<rparr>"

lemma first_free_room: "finite (dom h) \<Longrightarrow> card (dom h) < n \<Longrightarrow> alloc (first_free n) h \<noteq> None"
proof -
  assume h: "finite (dom h)" "card (dom h) < n"
  have "\<not> {0..<n} \<subseteq> dom h" using card_mono[OF h(1), of "{0..<n}"] h(2) by auto
  then obtain a where "a \<in> {0..<n}" "a \<notin> dom h" by blast
  then have "a \<in> set [0..<n]" "h a = None" by (simp_all add: domIff)
  then have "first_free n h \<noteq> None" by (auto simp: first_free_def find_None_iff)
  then obtain b where b: "first_free n h = Some b" by auto
  then have "h b = None" by (auto simp: first_free_def find_Some_iff)
  then show ?thesis using b by (simp add: alloc_def)
qed

lemma pooled_roomy: "roomy (pooled n) n"
  by (simp add: roomy_def pooled_def first_free_room)

definition sample_conf_cells :: "cell list" where
  "sample_conf_cells = [\<lparr>c_pair = 3, c_naddr = 0, c_name = js ''size'', c_vaddr = 1, c_value = js ''20''\<rparr>]"

definition sample_conf :: conf where
  "sample_conf = \<lparr>path = js ''a'', pair_list = \<lparr>head = Some 5, nodes = [5 \<mapsto> \<lparr>nnext = None, member = 3\<rparr>], freed = []\<rparr>,
     pairs = [3 \<mapsto> \<lparr>pname = Some 0, pvalue = Some 1\<rparr>], strs = [0 \<mapsto> js ''size'', 1 \<mapsto> js ''20''], kept_compare = None\<rparr>"

lemma saved_conf_is_loaded_witness:
  "\<exists>s c' ds. conf_save_to_file True sample_conf = Some (Inr (0, Some s))
    \<and> conf_load_from_file (pooled 1) True True [] (Some s) = Some (Inr (Some c')) \<and> holds c' ds
    \<and> kvs ds = [(js ''size'', js ''20'')]"
proof -
  have "holds sample_conf sample_conf_cells"
    by (auto simp: holds_def listed_def heap_list_def in_memory_def sample_conf_def sample_conf_cells_def js_def fun_upd_twist
        intro!: exI[of _ "[(5, 3)]"])
  moreover have "list_all clean_pair (kvs sample_conf_cells)"
    by (simp add: sample_conf_cells_def clean_pair_def js_def isspace_def)
  moreover have "roomy (pooled 1) (length sample_conf_cells)" using pooled_roomy[of 1] by (simp add: sample_conf_cells_def)
  moreover have "kvs sample_conf_cells = [(js ''size'', js ''20'')]" by (simp add: sample_conf_cells_def)
  ultimately show ?thesis using saved_conf_is_loaded[of sample_conf sample_conf_cells "pooled 1" "[]"] by (metis rev_singleton_conv)
qed

section \<open>What the calls do not promise\<close>

text \<open>
  \<open>conf_get\<close> gives the pointer the pair has; the next \<open>conf_set\<close> of the name frees what it points to.
\<close>

lemma set_frees_the_value:
  assumes "holds c (us @ x # vs)" "c_name x = c_str n" "conf_set mem c (Some n) (Some v) = Some (Inr (0, c'))"
    "alloc (for_str mem) (strs c) = Some b"
  shows "conf_get c (Some n) = Some (Inr (Pointer (Some (c_vaddr x)))) \<and> str_at (Some (c_vaddr x)) c' = Inl UseAfterFree"
proof -
  have m: "in_memory c (us @ x # vs)" using assms(1) by (simp add: holds_def)
  note lk = lookup_present[OF assms(1,2)] and at = cell_at[OF m]
  have "b \<noteq> c_vaddr x" using alloc_fresh[OF assms(4)] at(3) by auto
  moreover have "conf_set mem c (Some n) (Some v) = Some (Inr (0, c\<lparr>strs := ((strs c)(b \<mapsto> c_str v))(c_vaddr x := None),
      pairs := (pairs c)(c_pair x \<mapsto> \<lparr>pname = Some (c_naddr x), pvalue = Some b\<rparr>)\<rparr>))"
    using lk at assms(4) \<open>b \<noteq> c_vaddr x\<close>
    by (simp add: conf_set_def set_value_def strdup_def pair_at_def free_str_def)
  ultimately show ?thesis using lk at assms(3)
    by (auto simp: conf_get_def pair_at_def str_at_def)
qed

text \<open>A line that begins with the equals sign.\<close>

lemma line_without_name: "read_line (js ''= 5'' @ [10]) = Inl OutOfBounds"
  by code_simp

text \<open>A line of more than 511 characters is read in pieces, and only the first one has the name.\<close>

lemma long_line_cut: "10 \<notin> set l \<Longrightarrow> 511 \<le> length l \<Longrightarrow> fgets_lines 512 (l @ 10 # s) = take 511 l # fgets_lines 512 (drop 511 l @ 10 # s)"
proof -
  assume l: "10 \<notin> set l" "511 \<le> length l"
  have "line_end n (l @ 10 # s) = n" if "n \<le> length l" for n
    using l(1) that
  proof (induction n arbitrary: l)
    case (Suc n)
    then show ?case by (cases l) auto
  qed simp
  from this[OF l(2)] have e: "line_end 511 (l @ 10 # s) = 511" .
  show ?thesis using l(2) by (subst fgets_lines.simps) (simp add: e[simplified])
qed

text \<open>The code of \<open>keyholder_conf_set_default\<close> is that of an error, also when all values have been set.\<close>

lemma defaults_always_fail: "keyholder_conf_set_default mem ps c = Some (Inr (i, c')) \<Longrightarrow> i = -1"
  by (induction ps arbitrary: c) (auto split: option.splits sum.splits)

text \<open>A missing comparison stands for the one that was given before, by whomever.\<close>

lemma sort_keeps_compare: "conf_sort (c\<lparr>kept_compare := Some f\<rparr>) None = conf_sort c (Some f)"
  by (simp add: conf_sort_def)

end
