(* ===== verification/Spec2Isabelle.thy ===== *)
theory Spec2Isabelle
  imports JsPrelude JsRegex Page Json StorageCache WordLinks Nicknames Ubb CommentTree Comments Highlighter Brushes Cookies BlogCommon ZeroClip NotifyText NotifyApi
    NotifyPanel JobTemplates JobReco Tracking SaveCode Category MsgPopup Toolbar PanelSign Shims
    SmartPointer GList KernelLog LogData LogDirs Conf
begin

text \<open>
  The repository is a collection of notes on Android. Most of its code is the JavaScript of the blog pages that are kept
  under \<^verbatim>\<open>src/log/WebDoc\<close>: eight saved pages, each with the same scripts, byte for byte, in a directory of its
  own. This is a model of those scripts; the lines named in the manifest are those of the copy whose directory is named
  after Logcat, and what is said of them holds of the other seven. Beside the pages the model has four programs the notes
  are about: the reference counts and strong pointers of \<^verbatim>\<open>src/SmartPoint/test.cpp\<close>, the configuration of the log service
  (\<^verbatim>\<open>src/log/ZflTestTool/service/lib/src/conf.c\<close>), and of
  \<^verbatim>\<open>src/log/Kernel-log/Code/klogcat\<close> the linked list (\<open>glist.c\<close>) and the reader of the kernel log (\<open>logkmsg.c\<close>, the options
  of \<open>klogcat.c\<close>, \<open>strtrim\<close> of \<open>str.c\<close>).

  The parts of the page and how they interact. Every script works on the one page: it reads and writes elements through
  the DOM and jQuery, sends requests whose answers run callbacks, and calls the functions other scripts have put into the
  global object. \<open>comment.js\<close> loads the comments, builds the forest of replies and renders the mark-up, with its code
  blocks turned into elements that \<open>newblog.js\<close> highlights; the highlighter gives every block a button that the clipboard
  movie serves, and \<open>saveToCode.js\<close> another one that saves the block. \<open>notify.js\<close> asks for notifications and tells
  \<open>toolbar.js\<close> how many are unread. \<open>job_reco.js\<close> fills a box with jobs and hands it to \<open>main.js\<close>, which
  reports the places of the page that were seen or clicked. \<open>replace.js\<close> turns words of the article into links, and
  \<open>cnick.js\<close> shows nicknames for user names; both keep what the server sent them in the storage of the browser, through
  \<open>web-storage-cache.js\<close>, which gives it deadlines. \<open>category.js\<close> and \<open>msg.js\<close> work alone.

  The theories, in the order in which they build on each other.

  \<^item> \<open>JsPrelude\<close>, \<open>JsRegex\<close>: strings as lists of UTF-16 code units with the operations of \<open>String.prototype\<close>, the
    encodings, and a backtracking matcher for regular expressions that lists all matches in the order in which they are
    tried. The matcher is total: a repetition has as many rounds as there are code units left, and one more round would
    consume nothing (\<open>rep_more_fuel\<close>). \<open>JsPrelude\<close> also has the locales \<open>event_machine\<close>, for a component whose steps keep
    an invariant, and \<open>refined_machine\<close>, for one that does what an abstract specification says; the components with
    handlers interpret them, and their theorems are over any sequence of events.
  \<^item> \<open>Json\<close>: the values of \<open>JSON\<close> with whole numbers, their text and its parser, which reads back every text that was
    written (\<open>parse_stringify\<close>); its fuel is twice the length of the text, and more fuel changes nothing.
  \<^item> \<open>Page\<close>: the page as a map from selectors to elements with the list of effects that leave it, and the locale
    \<open>keyed_store\<close> for everything that is read back under the key it was written under.
  \<^item> \<open>Ubb\<close> (\<open>replaceUBBToHTML\<close>, \<open>replaceQuote\<close>): the mark-up of comments. \<open>CommentTree\<close> (\<open>getTopics\<close>,
    \<open>getReplies\<close>, \<open>getItemHtml\<close>): the forest of comments; the recursion has fuel, and one unit more than the number of
    comments is enough when no id is 0 or occurs twice. \<open>Comments\<close>: the form and its submission as a state machine.
  \<^item> \<open>Highlighter\<close>, \<open>Brushes\<close> (\<open>dp.sh\<close>): the matching, the fourteen languages and \<open>HighlightAll\<close>. The loop over the
    matches is \<open>None\<close> when an empty match keeps it at its place for ever; no brush has such an expression.
  \<^item> \<open>Cookies\<close> (\<open>jQuery.cookie\<close>, \<open>getUN\<close>), with a locale for a store on the names a cookie can have.
  \<^item> \<open>BlogCommon\<close> (the rest of \<open>newblog.js\<close>): selections, the archive list, votes, the table of contents, the follow
    button, the medals. \<open>ZeroClip\<close> (\<open>ZeroClipboard\<close>): the clipboard movie and the button of a code block.
  \<^item> \<open>NotifyText\<close>, \<open>NotifyApi\<close>, \<open>NotifyPanel\<close> (\<open>notify.js\<close>): the texts, the locks and loading signs of the requests
    as a step function over any sequence of answers, and the panel itself.
  \<^item> \<open>JobTemplates\<close>, \<open>JobReco\<close> (\<open>job_reco.js\<close>): the templates of all pages as texts and places, and the chain of
    requests for jobs, the courses and the list of five.
  \<^item> \<open>Tracking\<close> (\<open>main.js\<close>), \<open>SaveCode\<close> (\<open>saveToCode.js\<close>), \<open>Category\<close> (\<open>category.js\<close>), \<open>MsgPopup\<close> (\<open>msg.js\<close>),
    \<open>Toolbar\<close> (\<open>toolbar.js\<close>), \<open>Shims\<close> (\<open>jquery-version.js\<close>, \<open>ad.js\<close>, \<open>JavaScript1.js\<close>, \<open>counter.js\<close>,
    \<open>showblogmedal.js\<close>).
  \<^item> \<open>PanelSign\<close>: the notification panel and the toolbar together, each hearing what the other triggers.
  \<^item> \<open>StorageCache\<close> (\<open>web-storage-cache.js\<close>): the storage of the browser with its room, and the cache over it;
    \<open>WordLinks\<close> (\<open>replace.js\<close>) and \<open>Nicknames\<close> (\<open>cnick.js\<close>), its clients.
  \<^item> \<open>CPrelude\<close>: the faults a program in C can make (memory that is gone, a null pointer, a place outside a buffer), steps that
    may fault, the counters of width 32, and the locales \<open>partial_machine\<close>, for such steps that keep an invariant as long as the
    counters have room, and \<open>simulated\<close>, for steps that give the answers of a specification.
  \<^item> \<open>SmartPointer\<close>: \<open>RefBase\<close> with its two counts in a store of objects, \<open>sp<T>\<close> over any pair of operations that count
    (locale \<open>counted_objects\<close>, interpreted by the store), and programs made of the operations of the pointers.
  \<^item> \<open>GList\<close>: the nodes of the list in a heap that may have no room (locale \<open>allocator\<close>); the loops over the nodes are
    partial functions, and that they end is part of what is proved.
  \<^item> \<open>LogFiles\<close>, \<open>KernelLog\<close>, \<open>LogData\<close>: the rotation of the log files; the reader, which writes what is new since the last
    line it has seen, with the options and the services it reads from; and the list of the log files that are kept.
  \<^item> \<open>LogDirs\<close> (\<open>dir.c\<close>): the paths of the storages, the table of mounted file systems, the creation of directories in a map from paths
    to kinds, and the choice of the directory for the log. A chain of links that does not end is \<open>None\<close>.
  \<^item> \<open>Conf\<close>: the configuration of the log service, pairs of strings in a linked list of \<open>GList\<close> with all the memory they need,
    and the file they are saved to and loaded from; the interpretation of \<open>simulated\<close> gives its calls an ordered map as specification.

  What the theorems show. Each component has the invariant of its state over every sequence of events: one submission at a
  time, one open menu, one open category, at most five tags that the hidden field lists, a locked address with one open
  request, notifications listed once, places reported once. The loops end: the recursion over the comments and its
  fuel, the highlighting of every language, the interval over the results. The menus, the
  categories and the tags of a snippet are shown to refine specifications of what is open and what is listed, and the
  cache a map with deadlines, as long as the storage has room; what happens in a full storage is stated apart. What is
  written is read back: quotes, cookies, encoded texts, highlighted code. Replacing one place after the other equals filling a template at once, and
  the arithmetic of the tabs equals a reference definition. The error theorems say exactly when a handler throws. For
  the programs in C: no program that works with the pointers through their operations uses an object that is gone, and an
  object goes with its last reference; the calls on the linked list end, follow no dangling pointer and answer like a list; the
  configuration answers like a map, loses no memory when an allocation fails, and is loaded as it was saved; the
  log files together hold the kernel log without gaps and repetitions, the rotation moves every file one place on, the
  list of files is a queue of the latest 5000, and the directory for the log is made on the first storage that is mounted. Lemmas
  that are named for what goes wrong (\<open>id_zero_diverges\<close>, \<open>late_place_waits\<close>, \<open>fill_skips_suffix\<close>, \dots) show behaviour
  the code does not intend.

  Conventions. A callback is a definition that takes the answer; a timer, the clock, a random number, the size of an
  element and the answer to a dialog are arguments. An exception is a value of \<open>js_error\<close>. A selector is a name for an
  element, and a style property an attribute. Numbers the code only counts with are \<open>nat\<close> or \<open>int\<close>: none of them
  comes near the bounds of the language.

  For the programs in C the length of a path (\<open>PATH_MAX\<close>), the size of a pointer and whether a \<open>char\<close> has a sign are
  arguments, as they depend on the machine; the sizes of structures in a file are those of a machine of 32 bits. A log file is its
  content, and a file that can be opened can be written.

  Not modelled: the layout the browser makes; jQuery and MathJax, which others wrote; the saved HTML pages and their style
  sheets; of \<open>klogcat\<close> the threads and semaphores, the sockets, the wrappers of the system calls and the errors they report
  (\<open>fio.c\<close>, \<open>process.c\<close>, \<open>poll.c\<close>, \<open>sem.c\<close>, \<open>server.c\<close>, \<open>client.c\<close>, \<open>board.c\<close>); the rest of the log service \<open>ZflTestTool\<close>, which is
  made of commands to the hardware and the system; and the Java and Python tools, which the
  manifest lists.
\<close>

section \<open>The recommendations and the tracking\<close>

text \<open>The calls of \<open>trackingAd\<close> among the effects of a script, received by the tracker, for a place that the browser finds
  in the markup.\<close>

definition track_calls :: "track_env \<Rightarrow> place_elem \<Rightarrow> effect list \<Rightarrow> tracker \<Rightarrow> tracker" where
  [js_eval]: "track_calls env ele es s =
     fold (\<lambda>e s. if e = Call ''trackingAd'' [] then trackingAd env ele s else s) es s"

lemma track_calls_ads:
  "pl_frames ele = 0 \<Longrightarrow>
   length (ads (track_calls env ele es s)) = length (ads s) + length (filter (\<lambda>e. e = Call ''trackingAd'' []) es)"
proof (induction es arbitrary: s)
  case (Cons e es)
  have "length (ads (trackingAd env ele s)) = Suc (length (ads s))"
    using Cons.prems by (simp add: trackingAd_def place_found_def track_scroll_def Let_def)
  then show ?case using Cons.IH[OF Cons.prems, of "if e = Call ''trackingAd'' [] then trackingAd env ele s else s"]
    by (simp add: track_calls_def)
qed (simp add: track_calls_def)

lemma track_calls_inv: "track_inv env s \<Longrightarrow> track_inv env (track_calls env ele es s)"
  by (induction es arbitrary: s) (auto simp: track_calls_def inv_trackingAd)


definition sample_conf :: job_conf where
  [js_eval]: \<open>sample_conf = \<lparr>sourceType = (js ''blog''), tplType = (js ''blogDetail''), searchType = (js ''detail''), searchKey = (js ''1''), jc_user = (js ''u''),
     containerId = ''job'', jc_prefix = (js ''http:'')\<rparr>\<close>

definition sample_jpage :: jpage where
  [js_eval]: "sample_jpage = \<lparr>els = (\<lambda>_. blank_elem), effects = [], totalHtmlItems = []\<rparr>"

definition sample_env :: track_env where
  [js_eval]: \<open>sample_env = \<lparr>te_protocol = (js ''http:''), te_referrer = [], te_body_pid = None, te_host = [], te_cookie = [],
     te_random = (\<lambda>_. 0), te_RegExp = (\<lambda>_ _. (no_flags, REps))\<rparr>\<close>

definition sample_place :: place_elem where
  [js_eval]: \<open>sample_place = \<lparr>pl_pid = None, pl_mod = Some (js ''popu_72''), pl_blk = None, pl_mtp = None, pl_trim = None, pl_dsm = None,
     pl_filter = None, pl_top = 900, pl_links = (\<lambda>_. []), pl_frames = 0\<rparr>\<close>


end
